(* ===== verification/GoPrelude.thy ===== *)
theory GoPrelude
  imports Main "HOL-Library.AList" "HOL-Library.Code_Target_Nat"
begin

text \<open>
  What every component of the model shares.

  \<^item> Errors. A Go \<open>error\<close> built by \<open>fmt.Errorf\<close> wraps sentinel errors with \<open>%w\<close>; callers look
    at it only through \<open>errors.Is\<close>. The model keeps the list of sentinels of the chain and the
    constant part of the message; \<open>Ext\<close> stands for an error value made by the standard library
    (a parse error, an I/O error), which is no sentinel of the program.
  \<^item> Results. A Go pair \<open>(value, err)\<close> is \<open>go_error + 'a\<close>: \<open>Inl\<close> the error, \<open>Inr\<close> the value.
  \<^item> Maps. A Go map is an association list with distinct keys. The order of the list is the order
    in which a \<open>range\<close> loop visits the entries; Go leaves that order open, so theorems hold for
    every list.
\<close>

section \<open>Errors and results\<close>

datatype sentinel =
    Config_ErrInvalidSettings | Config_ErrServiceNotFound | Config_ErrInstanceNotFound
  | Route_ErrInvalidConfig | Route_ErrConfigNotFound | Route_ErrNoHealthyInstance
  | AuthConfig_ErrInvalidConfig | AuthConfig_ErrInvalidKeyID | AuthConfig_ErrInvalidKeySet
  | AuthConfig_ErrKeyNotFound | AuthConfig_ErrKeySetUnavailable
  | Auth_ErrConfigUnavailable | Auth_ErrInvalidAudience | Auth_ErrInvalidAuthorizationHeader
  | Auth_ErrInvalidIssuer | Auth_ErrInvalidSignature | Auth_ErrInvalidToken | Auth_ErrNilProvider
  | Auth_ErrTokenExpired | Auth_ErrTokenNotYetValid | Auth_ErrUnsupportedAlgorithm
  | Gateway_ErrInvalidRequest | Gateway_ErrNilTask | Gateway_ErrNilTokenDecoder
  | Gateway_ErrNilTrafficRecorder
  | Policy_ErrInvalidPolicy
  | Traffic_ErrInvalidConfigKey | Traffic_ErrStatusNotFound
  | Pool_ErrInvalidConfig | Pool_ErrInvalidConfigKey
  | PoolConfig_ErrInvalidConfig
  | Trace_ErrNilGenerator
  | Ext

record go_error =
  err_wraps :: "sentinel list"
  err_msg :: string

definition errorf :: "sentinel list \<Rightarrow> string \<Rightarrow> go_error" where
  "errorf ws msg = \<lparr>err_wraps = ws, err_msg = msg\<rparr>"

text \<open>\<open>fmt.Errorf("msg: %w", err)\<close>: the chain of \<open>err\<close> stays visible to \<open>errors.Is\<close>.\<close>

definition wrap_err :: "sentinel list \<Rightarrow> string \<Rightarrow> go_error \<Rightarrow> go_error" where
  "wrap_err ws msg e = \<lparr>err_wraps = ws @ err_wraps e, err_msg = msg\<rparr>"

definition errors_is :: "go_error \<Rightarrow> sentinel \<Rightarrow> bool" where
  "errors_is e s \<longleftrightarrow> s \<in> set (err_wraps e)"

type_synonym 'a result = "go_error + 'a"

text \<open>Sequencing of fallible calls: the first error is returned.\<close>

definition res_bind :: "'a result \<Rightarrow> ('a \<Rightarrow> 'b result) \<Rightarrow> 'b result" where
  "res_bind r f = (case r of Inl e \<Rightarrow> Inl e | Inr x \<Rightarrow> f x)"

definition map_error :: "(go_error \<Rightarrow> go_error) \<Rightarrow> 'a result \<Rightarrow> 'a result" where
  "map_error f r = (case r of Inl e \<Rightarrow> Inl (f e) | Inr x \<Rightarrow> Inr x)"

named_theorems result_simps "evaluation of results and errors"

lemma res_bind_Inl [simp, result_simps]: "res_bind (Inl e) f = Inl e"
  by (simp add: res_bind_def)

lemma res_bind_Inr [simp, result_simps]: "res_bind (Inr x) f = f x"
  by (simp add: res_bind_def)

lemma res_bind_eq_Inr [simp]:
  "res_bind r f = Inr y \<longleftrightarrow> (\<exists>x. r = Inr x \<and> f x = Inr y)"
  by (cases r) (auto simp: res_bind_def)

lemma res_bind_eq_Inl:
  "res_bind r f = Inl e \<longleftrightarrow> r = Inl e \<or> (\<exists>x. r = Inr x \<and> f x = Inl e)"
  by (cases r) (auto simp: res_bind_def)

lemma map_error_eq_Inr [simp]: "map_error f r = Inr y \<longleftrightarrow> r = Inr y"
  by (cases r) (auto simp: map_error_def)

lemma map_error_Inr [simp, result_simps]: "map_error f (Inr y) = Inr y"
  by (simp add: map_error_def)

lemma map_error_Inl [simp, result_simps]: "map_error f (Inl e) = Inl (f e)"
  by (simp add: map_error_def)

lemma errors_is_errorf [simp, result_simps]: "errors_is (errorf ws msg) s \<longleftrightarrow> s \<in> set ws"
  by (simp add: errors_is_def errorf_def)

lemma errors_is_wrap_err [simp, result_simps]:
  "errors_is (wrap_err ws msg e) s \<longleftrightarrow> s \<in> set ws \<or> errors_is e s"
  by (simp add: errors_is_def wrap_err_def)

section \<open>Go maps as association lists\<close>

type_synonym ('k, 'v) gomap = "('k \<times> 'v) list"

abbreviation gomap_ok :: "('k, 'v) gomap \<Rightarrow> bool" where
  "gomap_ok m \<equiv> distinct (map fst m)"

abbreviation gomap_get :: "('k, 'v) gomap \<Rightarrow> 'k \<Rightarrow> 'v option" where
  "gomap_get \<equiv> map_of"

abbreviation gomap_put :: "'k \<Rightarrow> 'v \<Rightarrow> ('k, 'v) gomap \<Rightarrow> ('k, 'v) gomap" where
  "gomap_put \<equiv> AList.update"

abbreviation gomap_del :: "'k \<Rightarrow> ('k, 'v) gomap \<Rightarrow> ('k, 'v) gomap" where
  "gomap_del \<equiv> AList.delete"

text \<open>\<open>for k, v := range m { if !keep(k, v) { delete(m, k) } }\<close>\<close>

definition gomap_keep :: "('k \<Rightarrow> 'v \<Rightarrow> bool) \<Rightarrow> ('k, 'v) gomap \<Rightarrow> ('k, 'v) gomap" where
  "gomap_keep keep m = filter (\<lambda>(k, v). keep k v) m"

named_theorems gomap_simps "lookups in updated Go maps"

lemma gomap_get_put [simp, gomap_simps]:
  "map_of (AList.update k v m) x = (if x = k then Some v else map_of m x)"
  by (simp add: update_conv')

lemma gomap_get_del [simp, gomap_simps]:
  "map_of (AList.delete k m) x = (if x = k then None else map_of m x)"
  by (simp add: delete_conv')

lemma gomap_get_keep [gomap_simps]:
  "gomap_ok m \<Longrightarrow> map_of (gomap_keep keep m) x =
     (case map_of m x of None \<Rightarrow> None | Some v \<Rightarrow> if keep x v then Some v else None)"
  by (induction m) (auto simp: gomap_keep_def split: option.splits dest: map_of_SomeD
      simp flip: map_of_eq_None_iff)

lemma gomap_ok_put [simp, intro]: "gomap_ok m \<Longrightarrow> gomap_ok (AList.update k v m)"
  by (rule distinct_update)

lemma gomap_ok_del [simp, intro]: "gomap_ok m \<Longrightarrow> gomap_ok (AList.delete k m)"
  by (rule distinct_delete)

lemma gomap_ok_keep [simp, intro]: "gomap_ok m \<Longrightarrow> gomap_ok (gomap_keep keep m)"
  unfolding gomap_keep_def by (induction m) auto

lemma gomap_put_set: "gomap_ok m \<Longrightarrow>
    set (AList.update k v m) = insert (k, v) (set m - {k} \<times> UNIV)"
proof (induction m)
  case (Cons p m)
  then show ?case by (cases p) (force simp: image_iff)
qed simp

lemma gomap_put_new: "k \<notin> fst ` set m \<Longrightarrow> AList.update k v m = m @ [(k, v)]"
  by (induction m) auto

lemma gomap_in_set_iff: "gomap_ok m \<Longrightarrow> (k, v) \<in> set m \<longleftrightarrow> map_of m k = Some v"
  by simp

lemma gomap_all_iff:
  "gomap_ok m \<Longrightarrow> (\<forall>(k, v) \<in> set m. P k v) \<longleftrightarrow> (\<forall>k v. map_of m k = Some v \<longrightarrow> P k v)"
proof (intro iffI)
  assume ok: "gomap_ok m" and all: "\<forall>(k, v) \<in> set m. P k v"
  show "\<forall>k v. map_of m k = Some v \<longrightarrow> P k v"
    using all by (blast dest: map_of_SomeD)
next
  assume ok: "gomap_ok m" and all: "\<forall>k v. map_of m k = Some v \<longrightarrow> P k v"
  show "\<forall>(k, v) \<in> set m. P k v"
    using all ok by (auto intro: map_of_is_SomeI)
qed

section \<open>First failing check of a loop\<close>

text \<open>
  \<open>for _, x := range xs { if err := check(x); err != nil { return err } }\<close>: the first error, or
  \<open>None\<close> when the loop runs to its end.
\<close>

fun first_error :: "('a \<Rightarrow> go_error option) \<Rightarrow> 'a list \<Rightarrow> go_error option" where
  "first_error check [] = None"
| "first_error check (x # xs) =
     (case check x of Some e \<Rightarrow> Some e | None \<Rightarrow> first_error check xs)"

lemma first_error_None_iff [simp]:
  "first_error check xs = None \<longleftrightarrow> (\<forall>x \<in> set xs. check x = None)"
  by (induction xs) (auto split: option.splits)

lemma first_error_SomeD:
  "first_error check xs = Some e \<Longrightarrow> \<exists>x \<in> set xs. check x = Some e"
  by (induction xs) (auto split: option.splits)

section \<open>Machine integers\<close>

text \<open>The value of a signed 64-bit integer after wrap-around.\<close>

definition wrap_i64 :: "int \<Rightarrow> int" where
  "wrap_i64 x = (x + 2 ^ 63) mod 2 ^ 64 - 2 ^ 63"

lemma wrap_i64_id: "- (2 ^ 63) \<le> x \<Longrightarrow> x < 2 ^ 63 \<Longrightarrow> wrap_i64 x = x"
  by (simp add: wrap_i64_def)

lemma wrap_i64_bounds: "- (2 ^ 63) \<le> wrap_i64 x \<and> wrap_i64 x < 2 ^ 63"
  using pos_mod_bound [of "2 ^ 64" "x + 2 ^ 63"] pos_mod_sign [of "2 ^ 64" "x + 2 ^ 63"]
  by (simp add: wrap_i64_def)

text \<open>Go's integer division and remainder truncate towards zero.\<close>

definition go_div :: "int \<Rightarrow> int \<Rightarrow> int" where
  "go_div a b = sgn a * sgn b * (\<bar>a\<bar> div \<bar>b\<bar>)"

definition go_mod :: "int \<Rightarrow> int \<Rightarrow> int" where
  "go_mod a b = a - b * go_div a b"

lemma go_div_nonneg: "0 \<le> a \<Longrightarrow> 0 < b \<Longrightarrow> go_div a b = a div b"
  by (cases "a = 0") (simp_all add: go_div_def)

lemma go_mod_nonneg: "0 \<le> a \<Longrightarrow> 0 < b \<Longrightarrow> go_mod a b = a mod b"
  by (simp add: go_mod_def go_div_nonneg minus_mult_div_eq_mod)

lemma set_update_keeps: "x \<in> set xs \<Longrightarrow> x \<noteq> xs ! i \<Longrightarrow> x \<in> set (xs[i := y])"
  by (metis in_set_conv_nth length_list_update nth_list_update_neq)

section \<open>Numbered things that are started and finished\<close>

text \<open>
  Things that are numbered as they are started and can be finished by their number: what the first
  event that finishes number \<open>i\<close> carries, \<open>n\<close> things having been started before.
\<close>

fun first_finish :: "('e \<Rightarrow> bool) \<Rightarrow> ('e \<Rightarrow> (nat \<times> 'a) option) \<Rightarrow> nat \<Rightarrow> 'e list \<Rightarrow> nat \<Rightarrow> 'a option" where
  "first_finish start fin n [] i = None"
| "first_finish start fin n (e # es) i =
     (if start e then first_finish start fin (Suc n) es i
      else case fin e of
        Some (j, x) \<Rightarrow> if j = i \<and> i < n then Some x else first_finish start fin n es i
      | None \<Rightarrow> first_finish start fin n es i)"

lemma first_finish_snoc:
  "first_finish start fin n (es @ [e]) i = (case first_finish start fin n es i of
     Some x \<Rightarrow> Some x
   | None \<Rightarrow> if start e then None else (case fin e of
       Some (j, x) \<Rightarrow> if j = i \<and> i < n + length (filter start es) then Some x else None
     | None \<Rightarrow> None))"
  by (induction es arbitrary: n) (auto split: option.split)

lemma first_finish_less:
  "first_finish start fin n es i = Some x \<Longrightarrow> i < n + length (filter start es)"
  by (induction es arbitrary: n) (fastforce split: if_splits option.splits)+

lemma filter_flip:
  assumes "j < n" "\<And>i. i < n \<Longrightarrow> i \<noteq> j \<Longrightarrow> P' i = P i" "\<not> P j" "P' j"
  shows "length (filter P' [0 ..< n]) = length (filter P [0 ..< n]) + 1"
proof -
  have split: "[0 ..< n] = [0 ..< j] @ j # [Suc j ..< n]"
    using assms(1) upt_add_eq_append [of 0 j "n - j"] upt_conv_Cons [of j n] by simp
  have same: "filter P' xs = filter P xs" if "set xs \<subseteq> {0 ..< n} - {j}" for xs
  proof (intro filter_cong refl)
    fix x assume "x \<in> set xs"
    then have "x < n" "x \<noteq> j" using that by auto
    then show "P' x = P x" by (rule assms(2))
  qed
  have "filter P' [0 ..< j] = filter P [0 ..< j]" "filter P' [Suc j ..< n] = filter P [Suc j ..< n]"
    using assms(1) by (intro same; auto)+
  then show ?thesis using assms(3,4) unfolding split by simp
qed

end
