(* ===== verification/GoStrings.thy ===== *)
theory GoStrings
  imports GoPrelude "HOL-Library.Sublist"
begin

text \<open>
  The part of Go's \<open>strings\<close>, \<open>strconv\<close> and \<open>net\<close> packages the program uses, on byte strings
  (\<open>string\<close> is a list of 8-bit characters, as a Go string is a sequence of bytes).

  \<open>strings.TrimSpace\<close> and \<open>strings.Fields\<close> know the 25 code points of \<open>unicode.IsSpace\<close> in their
  UTF-8 encoding. \<open>strings.ToLower\<close> and \<open>strings.ToUpper\<close> are modelled on the ASCII letters; every
  other byte is kept, which is what Go does on ASCII text and on text in a script without case.
\<close>

section \<open>White space\<close>

text \<open>UTF-8 encodings of the runes of \<open>unicode.IsSpace\<close>.\<close>

definition space_runes :: "string list" where
  "space_runes =
    [[CHR 0x20], [CHR 0x09], [CHR 0x0A], [CHR 0x0B], [CHR 0x0C], [CHR 0x0D],
     [CHR 0xC2, CHR 0x85], [CHR 0xC2, CHR 0xA0], [CHR 0xE1, CHR 0x9A, CHR 0x80],
     [CHR 0xE2, CHR 0x80, CHR 0x80], [CHR 0xE2, CHR 0x80, CHR 0x81],
     [CHR 0xE2, CHR 0x80, CHR 0x82], [CHR 0xE2, CHR 0x80, CHR 0x83],
     [CHR 0xE2, CHR 0x80, CHR 0x84], [CHR 0xE2, CHR 0x80, CHR 0x85],
     [CHR 0xE2, CHR 0x80, CHR 0x86], [CHR 0xE2, CHR 0x80, CHR 0x87],
     [CHR 0xE2, CHR 0x80, CHR 0x88], [CHR 0xE2, CHR 0x80, CHR 0x89],
     [CHR 0xE2, CHR 0x80, CHR 0x8A], [CHR 0xE2, CHR 0x80, CHR 0xA8],
     [CHR 0xE2, CHR 0x80, CHR 0xA9], [CHR 0xE2, CHR 0x80, CHR 0xAF],
     [CHR 0xE2, CHR 0x81, CHR 0x9F], [CHR 0xE3, CHR 0x80, CHR 0x80]]"

fun strip_prefix :: "'a list \<Rightarrow> 'a list \<Rightarrow> 'a list option" where
  "strip_prefix [] ys = Some ys"
| "strip_prefix (x # xs) [] = None"
| "strip_prefix (x # xs) (y # ys) = (if x = y then strip_prefix xs ys else None)"

fun strip_any :: "'a list list \<Rightarrow> 'a list \<Rightarrow> 'a list option" where
  "strip_any [] s = None"
| "strip_any (r # rs) s =
     (case strip_prefix r s of Some t \<Rightarrow> Some t | None \<Rightarrow> strip_any rs s)"

lemma strip_prefix_Some_iff: "strip_prefix r s = Some t \<longleftrightarrow> s = r @ t"
  by (induction r s rule: strip_prefix.induct) auto

lemma strip_any_SomeD: "strip_any rs s = Some t \<Longrightarrow> \<exists>r \<in> set rs. s = r @ t"
  by (induction rs) (auto split: option.splits simp: strip_prefix_Some_iff)

lemma strip_any_None_iff: "strip_any rs s = None \<longleftrightarrow> (\<forall>r \<in> set rs. \<not> prefix r s)"
proof (induction rs)
  case (Cons r rs)
  have "strip_prefix r s = None \<longleftrightarrow> \<not> prefix r s"
    using strip_prefix_Some_iff [of r s]
    by (cases "strip_prefix r s") (auto simp: prefix_def)
  with Cons show ?case by (auto split: option.splits)
qed simp

text \<open>Removing every leading occurrence of one of the (non-empty) words \<open>rs\<close>.\<close>

function trim_words :: "'a list list \<Rightarrow> 'a list \<Rightarrow> 'a list" where
  "trim_words rs s =
     (case strip_any (filter (\<lambda>r. r \<noteq> []) rs) s of
        None \<Rightarrow> s
      | Some t \<Rightarrow> trim_words rs t)"
  by pat_completeness auto
termination
  by (relation "measure (\<lambda>(rs, s). length s)") (auto dest!: strip_any_SomeD)

declare trim_words.simps [simp del]

lemma trim_words_no_prefix:
  "r \<in> set rs \<Longrightarrow> r \<noteq> [] \<Longrightarrow> \<not> prefix r (trim_words rs s)"
proof (induction rs s rule: trim_words.induct)
  case (1 rs s)
  show ?case
  proof (cases "strip_any (filter (\<lambda>r. r \<noteq> []) rs) s")
    case None
    then have "trim_words rs s = s"
      by (simp add: trim_words.simps [of rs s])
    with None 1(2,3) show ?thesis by (auto simp: strip_any_None_iff)
  next
    case (Some t)
    then show ?thesis using 1 by (subst trim_words.simps) simp
  qed
qed

lemma trim_words_fixed:
  "(\<And>r. r \<in> set rs \<Longrightarrow> r \<noteq> [] \<Longrightarrow> \<not> prefix r s) \<Longrightarrow> trim_words rs s = s"
proof -
  assume "\<And>r. r \<in> set rs \<Longrightarrow> r \<noteq> [] \<Longrightarrow> \<not> prefix r s"
  then have "strip_any (filter (\<lambda>r. r \<noteq> []) rs) s = None"
    by (auto simp: strip_any_None_iff)
  then show ?thesis by (subst trim_words.simps) simp
qed

lemma trim_words_suffix: "suffix (trim_words rs s) s"
proof (induction rs s rule: trim_words.induct)
  case (1 rs s)
  show ?case
  proof (cases "strip_any (filter (\<lambda>r. r \<noteq> []) rs) s")
    case None
    then show ?thesis by (subst trim_words.simps) simp
  next
    case (Some t)
    then have "suffix t s" by (auto dest!: strip_any_SomeD simp: suffix_def)
    with Some 1 show ?thesis by (subst trim_words.simps) (auto intro: suffix_order.trans)
  qed
qed

lemma strip_prefix_map:
  "(\<And>c d. c \<in> set r \<Longrightarrow> f d = c \<longleftrightarrow> d = c) \<Longrightarrow>
   strip_prefix r (map f s) = map_option (map f) (strip_prefix r s)"
proof (induction r s rule: strip_prefix.induct)
  case (3 x xs y ys)
  have "f y = x \<longleftrightarrow> y = x" by (rule "3.prems") simp
  moreover have "x = y \<Longrightarrow> strip_prefix xs (map f ys) = map_option (map f) (strip_prefix xs ys)"
    by (rule "3.IH") (use "3.prems" in auto)
  ultimately show ?case by auto
qed auto

lemma strip_any_map:
  "(\<And>r c d. r \<in> set rs \<Longrightarrow> c \<in> set r \<Longrightarrow> f d = c \<longleftrightarrow> d = c) \<Longrightarrow>
   strip_any rs (map f s) = map_option (map f) (strip_any rs s)"
proof (induction rs)
  case (Cons r rs)
  have "strip_prefix r (map f s) = map_option (map f) (strip_prefix r s)"
    by (rule strip_prefix_map) (use Cons.prems in auto)
  moreover have "strip_any rs (map f s) = map_option (map f) (strip_any rs s)"
    by (rule Cons.IH) (use Cons.prems in auto)
  ultimately show ?case by (simp split: option.splits)
qed simp

lemma trim_words_map:
  "(\<And>r c d. r \<in> set rs \<Longrightarrow> c \<in> set r \<Longrightarrow> f d = c \<longleftrightarrow> d = c) \<Longrightarrow>
   trim_words rs (map f s) = map f (trim_words rs s)"
proof (induction rs s rule: trim_words.induct)
  case (1 rs s)
  have eq: "strip_any (filter (\<lambda>r. r \<noteq> []) rs) (map f s) =
      map_option (map f) (strip_any (filter (\<lambda>r. r \<noteq> []) rs) s)"
    by (rule strip_any_map) (use 1(2) in auto)
  show ?case
  proof (cases "strip_any (filter (\<lambda>r. r \<noteq> []) rs) s")
    case None
    with eq show ?thesis by (simp add: trim_words.simps [of rs "map f s"] trim_words.simps [of rs s])
  next
    case (Some t)
    with eq 1 show ?thesis
      by (simp add: trim_words.simps [of rs "map f s"] trim_words.simps [of rs s])
  qed
qed

definition trim_left :: "string \<Rightarrow> string" where
  "trim_left s = trim_words space_runes s"

definition trim_right :: "string \<Rightarrow> string" where
  "trim_right s = rev (trim_words (map rev space_runes) (rev s))"

definition trim_space :: "string \<Rightarrow> string" where
  "trim_space s = trim_right (trim_left s)"

lemma space_runes_nonempty: "r \<in> set space_runes \<Longrightarrow> r \<noteq> []"
  by (auto simp: space_runes_def)

lemma trim_right_prefix: "prefix (trim_right s) s"
proof -
  have "suffix (trim_words (map rev space_runes) (rev s)) (rev s)"
    by (rule trim_words_suffix)
  then show ?thesis by (simp add: trim_right_def suffix_to_prefix)
qed

lemma trim_space_no_leading: "r \<in> set space_runes \<Longrightarrow> \<not> prefix r (trim_space s)"
proof
  assume r: "r \<in> set space_runes" and "prefix r (trim_space s)"
  then have "prefix r (trim_left s)"
    using trim_right_prefix [of "trim_left s"]
    by (auto simp: trim_space_def intro: prefix_order.trans)
  then show False
    using trim_words_no_prefix [OF r] r by (simp add: trim_left_def space_runes_nonempty)
qed

lemma trim_space_no_trailing: "r \<in> set space_runes \<Longrightarrow> \<not> suffix r (trim_space s)"
proof
  assume r: "r \<in> set space_runes" and "suffix r (trim_space s)"
  then have "prefix (rev r) (trim_words (map rev space_runes) (rev (trim_left s)))"
    by (simp add: trim_space_def trim_right_def suffix_to_prefix)
  moreover have "rev r \<in> set (map rev space_runes)" and "rev r \<noteq> []"
    using r space_runes_nonempty [OF r] by auto
  ultimately show False using trim_words_no_prefix by blast
qed

lemma trim_space_fixed:
  assumes "\<And>r. r \<in> set space_runes \<Longrightarrow> \<not> prefix r s"
    and "\<And>r. r \<in> set space_runes \<Longrightarrow> \<not> suffix r s"
  shows "trim_space s = s"
proof -
  have left: "trim_left s = s"
    unfolding trim_left_def by (rule trim_words_fixed) (use assms(1) in auto)
  have "trim_words (map rev space_runes) (rev s) = rev s"
    by (rule trim_words_fixed) (use assms(2) in \<open>auto simp: suffix_to_prefix\<close>)
  with left show ?thesis by (simp add: trim_space_def trim_right_def)
qed

lemma trim_space_idem [simp]: "trim_space (trim_space s) = trim_space s"
  by (rule trim_space_fixed) (auto simp: trim_space_no_leading trim_space_no_trailing)

lemma trim_space_subset: "set (trim_space s) \<subseteq> set s"
proof -
  have "set (trim_space s) \<subseteq> set (trim_left s)"
    using trim_right_prefix by (auto simp: trim_space_def dest: set_mono_prefix)
  moreover have "set (trim_left s) \<subseteq> set s"
    unfolding trim_left_def by (rule set_mono_suffix [OF trim_words_suffix])
  ultimately show ?thesis by blast
qed

lemma trim_space_empty [simp]: "trim_space [] = []"
  by (rule trim_space_fixed) (auto dest: space_runes_nonempty)

section \<open>Letter case\<close>

definition to_lower_char :: "char \<Rightarrow> char" where
  "to_lower_char c =
     (let n = of_char c :: nat in if 65 \<le> n \<and> n \<le> 90 then char_of (n + 32) else c)"

definition to_upper_char :: "char \<Rightarrow> char" where
  "to_upper_char c =
     (let n = of_char c :: nat in if 97 \<le> n \<and> n \<le> 122 then char_of (n - 32) else c)"

definition to_lower :: "string \<Rightarrow> string" where
  "to_lower s = map to_lower_char s"

definition to_upper :: "string \<Rightarrow> string" where
  "to_upper s = map to_upper_char s"

definition is_letter :: "char \<Rightarrow> bool" where
  "is_letter c \<longleftrightarrow> (let n = of_char c :: nat in (65 \<le> n \<and> n \<le> 90) \<or> (97 \<le> n \<and> n \<le> 122))"

lemma of_to_lower_char:
  "(of_char (to_lower_char c) :: nat) =
     (let n = of_char c :: nat in if 65 \<le> n \<and> n \<le> 90 then n + 32 else n)"
  by (auto simp: to_lower_char_def Let_def)

lemma of_to_upper_char:
  "(of_char (to_upper_char c) :: nat) =
     (let n = of_char c :: nat in if 97 \<le> n \<and> n \<le> 122 then n - 32 else n)"
  by (auto simp: to_upper_char_def Let_def)

lemma to_lower_char_idem [simp]: "to_lower_char (to_lower_char c) = to_lower_char c"
  unfolding to_lower_char_def [of "to_lower_char c"] of_to_lower_char
  by (auto simp: Let_def)

lemma to_upper_char_idem [simp]: "to_upper_char (to_upper_char c) = to_upper_char c"
  unfolding to_upper_char_def [of "to_upper_char c"] of_to_upper_char
  by (auto simp: Let_def)

lemma to_lower_idem [simp]: "to_lower (to_lower s) = to_lower s"
  by (simp add: to_lower_def)

lemma to_upper_idem [simp]: "to_upper (to_upper s) = to_upper s"
  by (simp add: to_upper_def)

lemma to_lower_char_fix: "\<not> is_letter c \<Longrightarrow> to_lower_char d = c \<longleftrightarrow> d = c"
  by (auto simp: is_letter_def to_lower_char_def Let_def split: if_splits)

lemma to_upper_char_fix: "\<not> is_letter c \<Longrightarrow> to_upper_char d = c \<longleftrightarrow> d = c"
  by (auto simp: is_letter_def to_upper_char_def Let_def split: if_splits)

lemma space_runes_no_letter: "r \<in> set space_runes \<Longrightarrow> c \<in> set r \<Longrightarrow> \<not> is_letter c"
proof -
  have "\<forall>r \<in> set space_runes. \<forall>c \<in> set r. \<not> is_letter c"
    by (simp add: space_runes_def is_letter_def)
  then show "r \<in> set space_runes \<Longrightarrow> c \<in> set r \<Longrightarrow> \<not> is_letter c" by blast
qed

lemma trim_space_map:
  assumes "\<And>c d. \<not> is_letter c \<Longrightarrow> f d = c \<longleftrightarrow> d = c"
  shows "trim_space (map f s) = map f (trim_space s)"
proof -
  have "trim_left (map f t) = map f (trim_left t)" for t
    unfolding trim_left_def
    by (rule trim_words_map) (use assms space_runes_no_letter in blast)
  moreover have "trim_right (map f t) = map f (trim_right t)" for t
  proof -
    have "trim_words (map rev space_runes) (map f (rev t)) =
        map f (trim_words (map rev space_runes) (rev t))"
    proof (rule trim_words_map)
      fix r c d
      assume "r \<in> set (map rev space_runes)" and "c \<in> set r"
      then have "\<not> is_letter c" using space_runes_no_letter by auto
      then show "f d = c \<longleftrightarrow> d = c" by (rule assms)
    qed
    then show ?thesis by (simp add: trim_right_def rev_map)
  qed
  ultimately show ?thesis by (simp add: trim_space_def)
qed

lemma trim_space_to_lower [simp]: "trim_space (to_lower s) = to_lower (trim_space s)"
  unfolding to_lower_def by (rule trim_space_map) (rule to_lower_char_fix)

lemma trim_space_to_upper [simp]: "trim_space (to_upper s) = to_upper (trim_space s)"
  unfolding to_upper_def by (rule trim_space_map) (rule to_upper_char_fix)

lemma to_lower_Nil_iff [simp]: "to_lower s = [] \<longleftrightarrow> s = []"
  by (simp add: to_lower_def)

lemma to_upper_Nil_iff [simp]: "to_upper s = [] \<longleftrightarrow> s = []"
  by (simp add: to_upper_def)

lemma to_lower_mem_iff: "\<not> is_letter c \<Longrightarrow> c \<in> set (to_lower s) \<longleftrightarrow> c \<in> set s"
proof -
  assume c: "\<not> is_letter c"
  have "c \<in> set (to_lower s) \<longleftrightarrow> (\<exists>d \<in> set s. to_lower_char d = c)"
    by (auto simp: to_lower_def)
  then show ?thesis by (simp add: to_lower_char_fix [OF c])
qed

text \<open>
  \<open>strings.EqualFold\<close> against an ASCII word: two non-ASCII runes fold to ASCII letters, the long s
  (U+017F) and the Kelvin sign (U+212A).
\<close>

fun fold_runes :: "string \<Rightarrow> string" where
  "fold_runes (a # b # c # s) =
     (if a = CHR 0xC5 \<and> b = CHR 0xBF then CHR ''s'' # fold_runes (c # s)
      else if a = CHR 0xE2 \<and> b = CHR 0x84 \<and> c = CHR 0xAA then CHR ''k'' # fold_runes s
      else a # fold_runes (b # c # s))"
| "fold_runes [a, b] = (if a = CHR 0xC5 \<and> b = CHR 0xBF then ''s'' else [a, b])"
| "fold_runes [a] = [a]"
| "fold_runes [] = []"

definition equal_fold :: "string \<Rightarrow> string \<Rightarrow> bool" where
  "equal_fold s w \<longleftrightarrow> to_lower (fold_runes s) = to_lower w"


section \<open>Searching and splitting\<close>

definition has_prefix :: "string \<Rightarrow> string \<Rightarrow> bool" where
  "has_prefix s p \<longleftrightarrow> take (length p) s = p"

definition has_suffix :: "string \<Rightarrow> string \<Rightarrow> bool" where
  "has_suffix s p \<longleftrightarrow> length p \<le> length s \<and> drop (length s - length p) s = p"

definition trim_suffix :: "string \<Rightarrow> string \<Rightarrow> string" where
  "trim_suffix s p = (if has_suffix s p then take (length s - length p) s else s)"

fun contains :: "string \<Rightarrow> string \<Rightarrow> bool" where
  "contains [] p \<longleftrightarrow> p = []"
| "contains (c # s) p \<longleftrightarrow> has_prefix (c # s) p \<or> contains s p"

definition contains_any :: "string \<Rightarrow> string \<Rightarrow> bool" where
  "contains_any s cs \<longleftrightarrow> list_ex (\<lambda>c. c \<in> set cs) s"

lemma has_prefix_iff: "has_prefix s p \<longleftrightarrow> prefix p s"
  by (auto simp: has_prefix_def prefix_def) (metis append_take_drop_id)

lemma has_suffix_iff: "has_suffix s p \<longleftrightarrow> suffix p s"
proof
  assume "has_suffix s p"
  then show "suffix p s"
    by (metis has_suffix_def suffix_drop)
next
  assume "suffix p s"
  then show "has_suffix s p" by (auto simp: has_suffix_def suffix_def)
qed

lemma trim_suffix_append [simp]: "trim_suffix (s @ p) p = s"
  by (simp add: trim_suffix_def has_suffix_def)

lemma contains_any_iff: "contains_any s cs \<longleftrightarrow> (\<exists>c \<in> set s. c \<in> set cs)"
  by (auto simp: contains_any_def list_ex_iff)

text \<open>\<open>strings.Split(s, sep)\<close> for a one-byte separator: never the empty list.\<close>

fun split_on :: "char \<Rightarrow> string \<Rightarrow> string list" where
  "split_on c [] = [[]]"
| "split_on c (x # s) =
     (if x = c then [] # split_on c s
      else (case split_on c s of [] \<Rightarrow> [[x]] | w # ws \<Rightarrow> (x # w) # ws))"

lemma split_on_nonempty [simp]: "split_on c s \<noteq> []"
  by (induction s) (auto split: list.splits)

lemma split_on_no_sep: "w \<in> set (split_on c s) \<Longrightarrow> c \<notin> set w"
proof (induction s arbitrary: w)
  case (Cons x s)
  show ?case
  proof (cases "split_on c s")
    case (Cons v vs)
    with Cons.IH Cons.prems show ?thesis by (auto split: if_splits)
  qed simp
qed simp

lemma split_on_single: "c \<notin> set s \<Longrightarrow> split_on c s = [s]"
  by (induction s) auto

lemma split_on_append: "c \<notin> set s \<Longrightarrow> split_on c (s @ c # t) = s # split_on c t"
  by (induction s) auto

text \<open>
  \<open>strings.Fields\<close>: the maximal runs without white space. \<open>cur\<close> is the current run, reversed.
\<close>

fun flush_field :: "string \<Rightarrow> string list" where
  "flush_field [] = []"
| "flush_field cur = [rev cur]"

function fields_from :: "string \<Rightarrow> string \<Rightarrow> string list" where
  "fields_from cur s =
     (case s of
        [] \<Rightarrow> flush_field cur
      | c # s' \<Rightarrow>
          (case strip_any space_runes s of
             Some t \<Rightarrow> flush_field cur @ fields_from [] t
           | None \<Rightarrow> fields_from (c # cur) s'))"
  by pat_completeness auto
termination
  by (relation "measure (\<lambda>(cur, s). length s)")
    (auto dest!: strip_any_SomeD space_runes_nonempty simp: neq_Nil_conv)

declare fields_from.simps [simp del]

definition fields :: "string \<Rightarrow> string list" where
  "fields s = fields_from [] s"

section \<open>Decimal numbers\<close>

definition is_digit :: "char \<Rightarrow> bool" where
  "is_digit c \<longleftrightarrow> (let n = of_char c :: nat in 48 \<le> n \<and> n \<le> 57)"

definition digit_val :: "char \<Rightarrow> nat" where
  "digit_val c = of_char c - 48"

definition digit_char :: "nat \<Rightarrow> char" where
  "digit_char d = char_of (d + 48)"

fun nat_digits :: "nat \<Rightarrow> string" where
  "nat_digits n =
     (if n < 10 then [digit_char n] else nat_digits (n div 10) @ [digit_char (n mod 10)])"

declare nat_digits.simps [simp del]

definition digits_val :: "string \<Rightarrow> nat" where
  "digits_val s = foldl (\<lambda>n c. n * 10 + digit_val c) 0 s"

text \<open>\<open>strconv.Itoa\<close>.\<close>

definition itoa :: "int \<Rightarrow> string" where
  "itoa i = (if i < 0 then CHR ''-'' # nat_digits (nat (- i)) else nat_digits (nat i))"

text \<open>\<open>strconv.Atoi\<close>: an optional sign and decimal digits, within \<open>int64\<close>.\<close>

definition atoi :: "string \<Rightarrow> int option" where
  "atoi s =
     (let neg = (case s of c # _ \<Rightarrow> c = CHR ''-'' | [] \<Rightarrow> False);
          ds = (case s of c # t \<Rightarrow> if c = CHR ''-'' \<or> c = CHR ''+'' then t else s | [] \<Rightarrow> s);
          v = int (digits_val ds)
      in if ds = [] \<or> \<not> list_all is_digit ds then None
         else if neg then (if v \<le> 2 ^ 63 then Some (- v) else None)
         else (if v < 2 ^ 63 then Some v else None))"

lemma is_digit_digit_char [simp]: "d < 10 \<Longrightarrow> is_digit (digit_char d)"
  by (simp add: is_digit_def digit_char_def)

lemma digit_val_digit_char [simp]: "d < 10 \<Longrightarrow> digit_val (digit_char d) = d"
  by (simp add: digit_val_def digit_char_def)

lemma nat_digits_nonempty [simp]: "nat_digits n \<noteq> []"
  by (subst nat_digits.simps) simp

lemma nat_digits_digits: "c \<in> set (nat_digits n) \<Longrightarrow> is_digit c"
proof (induction n rule: nat_digits.induct)
  case (1 n)
  then show ?case
    by (subst (asm) nat_digits.simps) (auto split: if_splits)
qed

lemma digits_val_append: "digits_val (s @ [c]) = digits_val s * 10 + digit_val c"
  by (simp add: digits_val_def)

lemma digits_val_nat_digits [simp]: "digits_val (nat_digits n) = n"
proof (induction n rule: nat_digits.induct)
  case (1 n)
  show ?case
  proof (cases "n < 10")
    case True
    then show ?thesis by (subst nat_digits.simps) (simp add: digits_val_def)
  next
    case False
    with 1 have "digits_val (nat_digits (n div 10)) = n div 10" by simp
    with False show ?thesis
      by (subst nat_digits.simps) (simp add: digits_val_append)
  qed
qed

lemma digit_not_sign: "is_digit c \<Longrightarrow> c \<noteq> CHR ''-'' \<and> c \<noteq> CHR ''+''"
  by (auto simp: is_digit_def)

lemma atoi_itoa: "- (2 ^ 63) \<le> i \<Longrightarrow> i < 2 ^ 63 \<Longrightarrow> atoi (itoa i) = Some i"
proof (cases "i < 0")
  case True
  assume "- (2 ^ 63) \<le> i"
  with True show ?thesis
    by (auto simp: atoi_def itoa_def Let_def list_all_iff dest: nat_digits_digits)
next
  case False
  assume "i < 2 ^ 63"
  obtain c t where ct: "nat_digits (nat i) = c # t"
    by (cases "nat_digits (nat i)") auto
  then have "is_digit c" using nat_digits_digits [of c "nat i"] by simp
  moreover have "digits_val (c # t) = nat i" using digits_val_nat_digits [of "nat i"] ct by simp
  ultimately show ?thesis
    using False \<open>i < 2 ^ 63\<close> ct nat_digits_digits [of _ "nat i"]
    by (auto simp: atoi_def itoa_def Let_def list_all_iff dest: digit_not_sign)
qed


section \<open>Host and port\<close>

text \<open>\<open>net.JoinHostPort\<close>: a host that holds a colon is put in brackets.\<close>

definition join_host_port :: "string \<Rightarrow> string \<Rightarrow> string" where
  "join_host_port host port =
     (if CHR '':'' \<in> set host then ''['' @ host @ '']:'' @ port else host @ '':'' @ port)"

fun index_of :: "char \<Rightarrow> string \<Rightarrow> nat option" where
  "index_of c [] = None"
| "index_of c (x # s) = (if x = c then Some 0 else map_option Suc (index_of c s))"

definition last_index_of :: "char \<Rightarrow> string \<Rightarrow> nat option" where
  "last_index_of c s = map_option (\<lambda>i. length s - 1 - i) (index_of c (rev s))"

text \<open>
  \<open>net.SplitHostPort\<close>, branch by branch: no colon; a bracketed host, whose closing bracket must
  stand right before the last colon; a plain host, which holds no colon; stray brackets.
\<close>

definition split_host_port :: "string \<Rightarrow> (string \<times> string) result" where
  "split_host_port hp =
     (let bad = (\<lambda>m. Inl (errorf [Ext] m)) in
      case last_index_of CHR '':'' hp of
        None \<Rightarrow> bad ''missing port in address''
      | Some i \<Rightarrow>
          let check = (\<lambda>host j k.
                if CHR ''['' \<in> set (drop j hp) then bad ''unexpected open bracket in address''
                else if CHR '']'' \<in> set (drop k hp) then bad ''unexpected close bracket in address''
                else Inr (host, drop (i + 1) hp))
          in if hp \<noteq> [] \<and> hd hp = CHR ''['' then
               (case index_of CHR '']'' hp of
                  None \<Rightarrow> bad ''missing close bracket in address''
                | Some e \<Rightarrow>
                    if e + 1 = length hp then bad ''missing port in address''
                    else if e + 1 = i then check (take (e - 1) (drop 1 hp)) 1 (e + 1)
                    else if hp ! (e + 1) = CHR '':'' then bad ''too many colons in address''
                    else bad ''missing port in address'')
             else if CHR '':'' \<in> set (take i hp) then bad ''too many colons in address''
             else check (take i hp) 0 0)"

lemma index_of_None_iff: "index_of c s = None \<longleftrightarrow> c \<notin> set s"
  by (induction s) auto

lemma index_of_append: "c \<notin> set s \<Longrightarrow> index_of c (s @ c # t) = Some (length s)"
  by (induction s) auto

lemma last_index_of_append: "c \<notin> set t \<Longrightarrow> last_index_of c (s @ c # t) = Some (length s)"
  by (simp add: last_index_of_def index_of_append)

text \<open>Splitting undoes joining, as long as host and port hold no bracket and the port no colon.\<close>

lemma split_join_host_port:
  assumes "CHR ''['' \<notin> set host" "CHR '']'' \<notin> set host"
    and "CHR ''['' \<notin> set port" "CHR '']'' \<notin> set port" "CHR '':'' \<notin> set port"
  shows "split_host_port (join_host_port host port) = Inr (host, port)"
proof (cases "CHR '':'' \<in> set host")
  case True
  let ?hp = "CHR ''['' # host @ CHR '']'' # CHR '':'' # port"
  have "last_index_of CHR '':'' ?hp = Some (length host + 2)"
    using last_index_of_append [of "CHR '':''" port "CHR ''['' # host @ [CHR '']'']"] assms
    by simp
  moreover have "index_of CHR '']'' ?hp = Some (length host + 1)"
    using index_of_append [of "CHR '']''" "CHR ''['' # host" "CHR '':'' # port"] assms by simp
  ultimately show ?thesis
    using True assms by (simp add: split_host_port_def join_host_port_def Let_def)
next
  case False
  let ?hp = "host @ CHR '':'' # port"
  have "last_index_of CHR '':'' ?hp = Some (length host)"
    using last_index_of_append [of "CHR '':''" port host] assms by simp
  moreover have "hd ?hp \<noteq> CHR ''[''"
    using assms by (cases host) auto
  ultimately show ?thesis
    using False assms by (auto simp: split_host_port_def join_host_port_def Let_def)
qed

end
