(* ===== verification/Utils.thy ===== *)
theory Utils
  imports GoStrings
begin

text \<open>
  Package \<open>internal/utils\<close>: the normalisation every other package calls on names, methods, paths,
  roles, addresses, request ids and metric labels. The operations are pure; their lemmas say that
  each one is idempotent (a stored value normalises to itself), when it fails, and what a
  successful result looks like.
\<close>

section \<open>Plain text (\<open>normalize.go\<close>)\<close>

definition NormalizeTrimmed :: "string \<Rightarrow> string" where
  "NormalizeTrimmed value = trim_space value"

definition NormalizeLower :: "string \<Rightarrow> string" where
  "NormalizeLower value = to_lower (trim_space value)"

definition NormalizeUpper :: "string \<Rightarrow> string" where
  "NormalizeUpper value = to_upper (trim_space value)"

definition NormalizeConfigKey :: "string \<Rightarrow> string" where
  "NormalizeConfigKey configKey = NormalizeLower configKey"

definition NormalizeServiceName :: "string \<Rightarrow> string" where
  "NormalizeServiceName serviceName = NormalizeLower serviceName"

definition NormalizeHTTPMethod :: "string \<Rightarrow> string" where
  "NormalizeHTTPMethod m = NormalizeUpper m"

definition NormalizeHTTPPath :: "string \<Rightarrow> string" where
  "NormalizeHTTPPath path = NormalizeTrimmed path"

text \<open>The Go result \<open>(nil, false)\<close> is \<open>None\<close>; the nil slice of an empty input is the empty list.\<close>

fun normalize_roles_loop :: "string list \<Rightarrow> string list \<Rightarrow> string list option" where
  "normalize_roles_loop normalized [] = Some normalized"
| "normalize_roles_loop normalized (role # roles) =
     (let trimmedRole = NormalizeTrimmed role in
      if trimmedRole = [] then None
      else normalize_roles_loop (normalized @ [trimmedRole]) roles)"

definition NormalizeRoles :: "string list \<Rightarrow> string list option" where
  "NormalizeRoles roles = (if roles = [] then Some [] else normalize_roles_loop [] roles)"

definition NormalizeEnum :: "string \<Rightarrow> string \<Rightarrow> string list \<Rightarrow> string option" where
  "NormalizeEnum value defaultValue allowedValues =
     (let v = NormalizeLower value;
          v = (if v = [] then NormalizeLower defaultValue else v)
      in if list_ex (\<lambda>a. v = NormalizeLower a) allowedValues then Some v else None)"

definition NormalizeRequestID :: "string \<Rightarrow> int \<Rightarrow> string option" where
  "NormalizeRequestID id_value maxLength =
     (let normalizedID = NormalizeTrimmed id_value in
      if normalizedID = [] then None
      else if maxLength > 0 \<and> int (length normalizedID) > maxLength then None
      else if contains_any normalizedID [CHR 0x0D, CHR 0x0A] then None
      else Some normalizedID)"

definition NormalizeMetricMethod :: "string \<Rightarrow> string" where
  "NormalizeMetricMethod m =
     (let m = NormalizeHTTPMethod m in if m = [] then ''GET'' else m)"

definition NormalizeMetricPath :: "string \<Rightarrow> string \<Rightarrow> string" where
  "NormalizeMetricPath path defaultPath =
     (let path = NormalizeHTTPPath path in if path = [] then defaultPath else path)"

definition NormalizeStatusCode :: "int \<Rightarrow> int \<Rightarrow> int" where
  "NormalizeStatusCode statusCode defaultStatusCode =
     (if statusCode = 0 then defaultStatusCode else statusCode)"

definition NormalizeMetricValue :: "string \<Rightarrow> string \<Rightarrow> string" where
  "NormalizeMetricValue value defaultValue =
     (let value = NormalizeTrimmed value in if value = [] then defaultValue else value)"

section \<open>Addresses (\<open>key.go\<close>, \<open>NormalizeHostPort\<close>)\<close>

definition ConfigKey :: "string \<Rightarrow> string \<Rightarrow> string result" where
  "ConfigKey host port =
     (let trimmedHost = trim_space host in
      if trimmedHost = [] then Inl (errorf [] ''host is required'')
      else let trimmedPort = trim_space port in
      if trimmedPort = [] then Inl (errorf [] ''port is required'')
      else (case atoi trimmedPort of
        None \<Rightarrow> Inl (errorf [Ext] ''parse port'')
      | Some parsedPort \<Rightarrow>
          if parsedPort \<le> 0 \<or> parsedPort > 65535 then Inl (errorf [] ''port is invalid'')
          else if contains trimmedHost ''://'' \<or> contains_any trimmedHost ''/?#@'' then
            Inl (errorf [] ''host must not include scheme, path, query, or user info'')
          else Inr (join_host_port (to_lower trimmedHost) (itoa parsedPort))))"

definition NormalizeHostPort :: "string \<Rightarrow> string \<Rightarrow> (string \<times> string) result" where
  "NormalizeHostPort host port =
     (case ConfigKey host port of
        Inl e \<Rightarrow> Inl e
      | Inr instanceKey \<Rightarrow>
          (case split_host_port instanceKey of
             Inl e \<Rightarrow> Inl (wrap_err [] ''split instance address'' e)
           | Inr (normalizedHost, normalizedPort) \<Rightarrow> Inr (normalizedHost, normalizedPort)))"

section \<open>Lemmas\<close>

named_theorems utils_simps "normal forms of the normalisation functions"

lemma NormalizeTrimmed_idem [simp, utils_simps]:
  "NormalizeTrimmed (NormalizeTrimmed s) = NormalizeTrimmed s"
  by (simp add: NormalizeTrimmed_def)

lemma NormalizeLower_idem [simp, utils_simps]:
  "NormalizeLower (NormalizeLower s) = NormalizeLower s"
  by (simp add: NormalizeLower_def)

lemma NormalizeUpper_idem [simp, utils_simps]:
  "NormalizeUpper (NormalizeUpper s) = NormalizeUpper s"
  by (simp add: NormalizeUpper_def)

lemma NormalizeServiceName_idem [simp, utils_simps]:
  "NormalizeServiceName (NormalizeServiceName s) = NormalizeServiceName s"
  by (simp add: NormalizeServiceName_def)

lemma NormalizeHTTPMethod_idem [simp, utils_simps]:
  "NormalizeHTTPMethod (NormalizeHTTPMethod s) = NormalizeHTTPMethod s"
  by (simp add: NormalizeHTTPMethod_def)

lemma NormalizeHTTPPath_idem [simp, utils_simps]:
  "NormalizeHTTPPath (NormalizeHTTPPath s) = NormalizeHTTPPath s"
  by (simp add: NormalizeHTTPPath_def)

lemma NormalizeTrimmed_Nil [simp]: "NormalizeTrimmed [] = []"
  by (simp add: NormalizeTrimmed_def)

lemma normalize_roles_loop_iff:
  "normalize_roles_loop acc roles = Some rs \<longleftrightarrow>
     (\<forall>r \<in> set roles. NormalizeTrimmed r \<noteq> []) \<and> rs = acc @ map NormalizeTrimmed roles"
  by (induction roles arbitrary: acc) (auto simp: Let_def)

lemma NormalizeRoles_Some_iff:
  "NormalizeRoles roles = Some rs \<longleftrightarrow>
     (\<forall>r \<in> set roles. NormalizeTrimmed r \<noteq> []) \<and> rs = map NormalizeTrimmed roles"
  by (auto simp: NormalizeRoles_def normalize_roles_loop_iff)

lemma NormalizeRoles_idem: "NormalizeRoles roles = Some rs \<Longrightarrow> NormalizeRoles rs = Some rs"
  by (auto simp: NormalizeRoles_Some_iff)

lemma NormalizeEnum_mem:
  "NormalizeEnum v d allowed = Some x \<Longrightarrow> x \<in> NormalizeLower ` set allowed"
  by (auto simp: NormalizeEnum_def Let_def list_ex_iff split: if_splits)

lemma NormalizeRequestID_SomeD:
  assumes "NormalizeRequestID s n = Some r"
  shows "r = trim_space s" "r \<noteq> []" "0 < n \<Longrightarrow> int (length r) \<le> n"
    "\<not> contains_any r [CHR 0x0D, CHR 0x0A]"
proof -
  show r: "r = trim_space s"
    using assms by (simp add: NormalizeRequestID_def NormalizeTrimmed_def Let_def split: if_split_asm)
  show "r \<noteq> []" "0 < n \<Longrightarrow> int (length r) \<le> n" "\<not> contains_any r [CHR 0x0D, CHR 0x0A]"
    using assms unfolding r
    by (simp_all add: NormalizeRequestID_def NormalizeTrimmed_def Let_def split: if_split_asm)
qed

lemma NormalizeRequestID_idem:
  assumes "NormalizeRequestID s n = Some r"
  shows "NormalizeRequestID r n = Some r"
proof -
  note r = NormalizeRequestID_SomeD [OF assms]
  have "trim_space r = r" using r(1) by simp
  with r(2-4) show ?thesis
    by (auto simp: NormalizeRequestID_def NormalizeTrimmed_def Let_def)
qed

text \<open>An accepted address, spelt out.\<close>

definition host_ok :: "string \<Rightarrow> bool" where
  "host_ok host \<longleftrightarrow> trim_space host \<noteq> [] \<and> \<not> contains (trim_space host) ''://'' \<and>
     \<not> contains_any (trim_space host) ''/?#@''"

definition port_ok :: "string \<Rightarrow> int \<Rightarrow> bool" where
  "port_ok port p \<longleftrightarrow> trim_space port \<noteq> [] \<and> atoi (trim_space port) = Some p \<and> 0 < p \<and> p \<le> 65535"

lemma ConfigKey_Inr_iff:
  "ConfigKey host port = Inr k \<longleftrightarrow>
     (\<exists>p. host_ok host \<and> port_ok port p \<and>
          k = join_host_port (to_lower (trim_space host)) (itoa p))"
  by (auto simp: ConfigKey_def host_ok_def port_ok_def Let_def split: option.splits)

lemma itoa_no_special:
  "0 \<le> p \<Longrightarrow> CHR '':'' \<notin> set (itoa p) \<and> CHR ''['' \<notin> set (itoa p) \<and> CHR '']'' \<notin> set (itoa p)"
  by (auto simp: itoa_def is_digit_def dest!: nat_digits_digits)

lemma NormalizeHostPort_plain:
  assumes "host_ok host" "port_ok port p"
    and "CHR ''['' \<notin> set host" "CHR '']'' \<notin> set host"
  shows "NormalizeHostPort host port = Inr (to_lower (trim_space host), itoa p)"
proof -
  let ?h = "to_lower (trim_space host)"
  have "CHR ''['' \<notin> set ?h" "CHR '']'' \<notin> set ?h"
    using assms(3,4) trim_space_subset [of host] by (auto simp: to_lower_mem_iff is_letter_def)
  moreover have "0 \<le> p" using assms(2) by (simp add: port_ok_def)
  ultimately have "split_host_port (join_host_port ?h (itoa p)) = Inr (?h, itoa p)"
    using split_join_host_port itoa_no_special by blast
  moreover have "ConfigKey host port = Inr (join_host_port ?h (itoa p))"
    using assms(1,2) by (auto simp: ConfigKey_Inr_iff)
  ultimately show ?thesis by (simp add: NormalizeHostPort_def)
qed

lemma NormalizeHostPort_Inr_ok:
  "NormalizeHostPort host port = Inr hp \<Longrightarrow> host_ok host \<and> (\<exists>p. port_ok port p)"
  by (auto simp: NormalizeHostPort_def ConfigKey_Inr_iff split: sum.splits)

lemma contains_iff: "contains s p \<longleftrightarrow> sublist p s"
proof (induction s)
  case Nil then show ?case by simp
next
  case (Cons c s)
  then show ?case by (simp add: has_prefix_iff sublist_Cons_right)
qed

lemma contains_map:
  assumes "\<And>c d. c \<in> set p \<Longrightarrow> f d = c \<longleftrightarrow> d = c"
  shows "contains (map f s) p \<longleftrightarrow> contains s p"
proof (induction s)
  case (Cons c s)
  have "has_prefix (map f t) p \<longleftrightarrow> has_prefix t p" for t
  proof -
    have "strip_prefix p (map f t) = map_option (map f) (strip_prefix p t)"
      by (rule strip_prefix_map) (rule assms)
    moreover have "has_prefix u p \<longleftrightarrow> strip_prefix p u \<noteq> None" for u
      using strip_prefix_Some_iff [of p u]
      by (cases "strip_prefix p u") (auto simp: has_prefix_iff prefix_def)
    ultimately show ?thesis by simp
  qed
  from this [of "c # s"] Cons show ?case by simp
qed simp

lemma to_lower_no_letters:
  assumes "list_all (\<lambda>c. \<not> is_letter c) p"
  shows "contains (to_lower s) p \<longleftrightarrow> contains s p"
    and "contains_any (to_lower s) p \<longleftrightarrow> contains_any s p"
proof -
  show "contains (to_lower s) p \<longleftrightarrow> contains s p"
    unfolding to_lower_def
    by (rule contains_map) (use assms in \<open>auto simp: list_all_iff to_lower_char_fix\<close>)
  show "contains_any (to_lower s) p \<longleftrightarrow> contains_any s p"
    using assms to_lower_mem_iff by (auto simp: contains_any_iff list_all_iff)
qed

lemma host_ok_to_lower: "host_ok h \<Longrightarrow> host_ok (to_lower (trim_space h))"
  by (simp add: host_ok_def to_lower_no_letters is_letter_def)

lemma digit_not_space: "r \<in> set space_runes \<Longrightarrow> c \<in> set r \<Longrightarrow> \<not> is_digit c"
proof -
  have "\<forall>r \<in> set space_runes. \<forall>c \<in> set r. \<not> is_digit c"
    by (simp add: space_runes_def is_digit_def)
  then show "r \<in> set space_runes \<Longrightarrow> c \<in> set r \<Longrightarrow> \<not> is_digit c" by blast
qed

lemma trim_space_digits:
  assumes "list_all is_digit s"
  shows "trim_space s = s"
proof (rule trim_space_fixed)
  fix r assume r: "r \<in> set space_runes"
  then obtain c t where ct: "r = c # t" using space_runes_nonempty [OF r] by (auto simp: neq_Nil_conv)
  have no: "c \<notin> set s" using digit_not_space [OF r, of c] assms ct by (auto simp: list_all_iff)
  show "\<not> prefix r s" using no ct by (auto dest: set_mono_prefix)
  show "\<not> suffix r s" using no ct by (auto dest: set_mono_suffix)
qed

lemma port_ok_itoa:
  assumes "0 < p" "p \<le> 65535"
  shows "port_ok (itoa p) p"
proof -
  have "list_all is_digit (itoa p)"
    using assms nat_digits_digits by (auto simp: itoa_def list_all_iff)
  then have "trim_space (itoa p) = itoa p" by (rule trim_space_digits)
  moreover have "atoi (itoa p) = Some p" using assms by (intro atoi_itoa) simp_all
  ultimately show ?thesis using assms by (simp add: port_ok_def itoa_def)
qed

text \<open>A normalised address is its own normal form.\<close>

lemma NormalizeHostPort_idem:
  assumes "NormalizeHostPort host port = Inr (h, p)"
    and "CHR ''['' \<notin> set host" "CHR '']'' \<notin> set host"
  shows "NormalizeHostPort h p = Inr (h, p)"
proof -
  obtain q where q: "host_ok host" "port_ok port q"
    using NormalizeHostPort_Inr_ok [OF assms(1)] by blast
  have hp: "h = to_lower (trim_space host)" "p = itoa q"
    using NormalizeHostPort_plain [OF q assms(2,3)] assms(1) by simp_all
  have "CHR ''['' \<notin> set h" "CHR '']'' \<notin> set h"
    using assms(2,3) trim_space_subset [of host] hp
    by (auto simp: to_lower_mem_iff is_letter_def)
  moreover have "port_ok p q" using q(2) hp port_ok_itoa [of q] by (simp add: port_ok_def)
  ultimately show ?thesis
    using NormalizeHostPort_plain [OF host_ok_to_lower [OF q(1)], of "itoa q" q] hp by simp
qed

text \<open>Whatever the host looked like, a successful result has a canonical port and a bracket-free
  lower-case host.\<close>

lemma split_host_port_shape:
  assumes "split_host_port hp = Inr (h, p)" "hp = x @ CHR '':'' # t" "CHR '':'' \<notin> set t"
  shows "p = t \<and> CHR ''['' \<notin> set h \<and> set h \<subseteq> set x"
proof -
  have i: "last_index_of CHR '':'' hp = Some (length x)"
    using last_index_of_append assms(2,3) by blast
  have t: "drop (Suc (length x)) hp = t" and x: "take (length x) hp = x" using assms(2) by simp_all
  show ?thesis
  proof (cases "hp \<noteq> [] \<and> hd hp = CHR ''[''")
    case True
    then obtain hs where hs: "hp = CHR ''['' # hs" by (cases hp) auto
    with t have t': "drop (length x) hs = t" by simp
    have x': "set (take n hs) \<subseteq> set x" if "Suc (Suc n) = length x" for n
    proof -
      have "take (Suc n) hp = take (Suc n) x" using that x by (metis le_add2 min.absorb1 plus_1_eq_Suc take_take)
      then have "CHR ''['' # take n hs = take (Suc n) x" using hs by simp
      then show ?thesis using set_take_subset [of "Suc n" x] by (metis set_subset_Cons subset_trans)
    qed
    have "p = t \<and> CHR ''['' \<notin> set h" using assms(1) i True
      by (auto simp: split_host_port_def Let_def hs t' split: option.splits if_splits
          dest: in_set_takeD)
    moreover have "set h \<subseteq> set x" using assms(1) i True
      by (auto simp: split_host_port_def Let_def hs t' split: option.splits if_splits
          dest!: x' [THEN subsetD, rotated])
    ultimately show ?thesis by simp
  next
    case False
    then have "p = t \<and> CHR ''['' \<notin> set hp \<and> h = x" using assms(1) i t x
      by (simp add: split_host_port_def Let_def split: if_splits)
    then show ?thesis using assms(2) by simp
  qed
qed

lemma to_lower_id_iff: "to_lower s = s \<longleftrightarrow> (\<forall>c \<in> set s. to_lower_char c = c)"
  by (induction s) (auto simp: to_lower_def)

lemma NormalizeHostPort_shape:
  assumes "NormalizeHostPort host port = Inr (h, p)"
  shows "\<exists>q. port_ok port q \<and> p = itoa q \<and> to_lower h = h \<and> CHR ''['' \<notin> set h"
proof -
  obtain q where q: "host_ok host" "port_ok port q"
    and sp: "split_host_port (join_host_port (to_lower (trim_space host)) (itoa q)) = Inr (h, p)"
    using assms by (auto simp: NormalizeHostPort_def ConfigKey_Inr_iff split: sum.splits)
  let ?H = "to_lower (trim_space host)"
  let ?x = "if CHR '':'' \<in> set ?H then ''['' @ ?H @ '']'' else ?H"
  have "CHR '':'' \<notin> set (itoa q)" using q(2) itoa_no_special by (simp add: port_ok_def)
  moreover have "join_host_port ?H (itoa q) = ?x @ CHR '':'' # itoa q"
    by (simp add: join_host_port_def)
  ultimately have s: "p = itoa q" "CHR ''['' \<notin> set h" "set h \<subseteq> set ?x"
    using split_host_port_shape [OF sp] by blast+
  have "\<forall>c \<in> set ?H. to_lower_char c = c" by (simp flip: to_lower_id_iff)
  moreover have "to_lower_char CHR ''['' = CHR ''[''" "to_lower_char CHR '']'' = CHR '']''"
    by code_simp+
  ultimately have "\<forall>c \<in> set ?x. to_lower_char c = c" by auto
  then have "to_lower h = h" using s(3) by (auto simp: to_lower_id_iff)
  then show ?thesis using q s by blast
qed

text \<open>
  The host that is left of an accepted address: brackets may stand around a host without a colon, and then
  they are taken off; any other bracket is refused.
\<close>

definition plain_host :: "string \<Rightarrow> bool" where
  "plain_host h \<longleftrightarrow> CHR ''['' \<notin> set h \<and> CHR '']'' \<notin> set h"

fun bare_host :: "string \<Rightarrow> string option" where
  "bare_host [] = Some []"
| "bare_host (c # t) = (if plain_host (c # t) then Some (c # t)
     else if c = CHR ''['' \<and> t \<noteq> [] \<and> last t = CHR '']'' \<and> plain_host (butlast t) \<and> CHR '':'' \<notin> set t then Some (butlast t)
     else None)"

lemma bare_host_plain: "plain_host h \<Longrightarrow> bare_host h = Some h"
  by (cases h) simp_all

lemma index_of_Some:
  "c \<in> set s \<Longrightarrow> \<exists>u v. s = u @ c # v \<and> c \<notin> set u \<and> index_of c s = Some (length u)"
proof -
  assume "c \<in> set s"
  then obtain u v where "s = u @ c # v" "c \<notin> set u" by (meson split_list_first)
  then show ?thesis using index_of_append by blast
qed

lemma split_join_bare_host:
  assumes p: "CHR '':'' \<notin> set p" "CHR ''['' \<notin> set p" "CHR '']'' \<notin> set p"
  shows "split_host_port (join_host_port h p) = Inr (x, y) \<longleftrightarrow> bare_host h = Some x \<and> y = p"
proof (cases "plain_host h")
  case True
  then show ?thesis using split_join_host_port [of h p] bare_host_plain p by (auto simp: plain_host_def)
next
  case bad: False
  then obtain c t where h: "h = c # t" by (cases h) (auto simp: plain_host_def)
  show ?thesis
  proof (cases "CHR '':'' \<in> set h")
    case True
    let ?hp = "CHR ''['' # h @ CHR '']'' # CHR '':'' # p"
    have hp: "join_host_port h p = ?hp" using True by (simp add: join_host_port_def)
    have i: "last_index_of CHR '':'' ?hp = Some (length h + 2)"
      using last_index_of_append [OF p(1), of "CHR ''['' # h @ '']''"] by simp
    have "CHR '']'' \<in> set (h @ CHR '']'' # CHR '':'' # p)" by simp
    then obtain u v where uv: "h @ CHR '']'' # CHR '':'' # p = u @ CHR '']'' # v" "CHR '']'' \<notin> set u"
      "index_of CHR '']'' (h @ CHR '']'' # CHR '':'' # p) = Some (length u)"
      using index_of_Some by metis
    have "\<not> isl (split_host_port ?hp) \<Longrightarrow> False"
    proof (cases "CHR '']'' \<in> set h")
      case True
      then obtain u' v' where "h = u' @ CHR '']'' # v'" "CHR '']'' \<notin> set u'" by (meson split_list_first)
      then have "length u < length h" using uv(3) index_of_append [of "CHR '']''" u'] by simp
      then show "\<not> isl (split_host_port ?hp) \<Longrightarrow> False"
        by (auto simp: split_host_port_def i uv(3) Let_def split: if_splits)
    next
      case False
      then have "CHR ''['' \<in> set h" using bad by (simp add: plain_host_def)
      then show "\<not> isl (split_host_port ?hp) \<Longrightarrow> False"
        using index_of_append [OF False] by (simp add: split_host_port_def i Let_def)
    qed
    then have "split_host_port ?hp \<noteq> Inr (x, y)" by auto
    moreover have "bare_host h = None"
      using True bad h by auto
    ultimately show ?thesis using hp by simp
  next
    case False
    let ?hp = "h @ CHR '':'' # p"
    have hp: "join_host_port h p = ?hp" using False by (simp add: join_host_port_def)
    have i: "last_index_of CHR '':'' ?hp = Some (length h)" using last_index_of_append [OF p(1)] by blast
    show ?thesis
    proof (cases "c = CHR ''[''")
      case open_br: True
      show ?thesis
      proof (cases "CHR '']'' \<in> set t")
        case True
        then obtain u v where t: "t = u @ CHR '']'' # v" "CHR '']'' \<notin> set u" by (meson split_list_first)
        then have e: "index_of CHR '']'' ?hp = Some (Suc (length u))"
          using index_of_append [OF t(2), of "v @ CHR '':'' # p"] h open_br by simp
        show ?thesis
        proof (cases "v = []")
          case True
          show ?thesis unfolding hp using False p e i bad t(2)
            by (auto simp: h t(1) True open_br split_host_port_def Let_def plain_host_def)
        next
          case v: False
          then have "\<not> plain_host (butlast t)" by (auto simp: t plain_host_def butlast_append)
          then have "bare_host h = None" using bad h by auto
          moreover have "split_host_port ?hp \<noteq> Inr (x, y)"
            using e i v by (simp add: h t open_br split_host_port_def Let_def)
          ultimately show ?thesis using hp by simp
        qed
      next
        case none: False
        then have "index_of CHR '']'' ?hp = None" using p h open_br by (simp add: index_of_None_iff)
        then have "split_host_port ?hp \<noteq> Inr (x, y)" using i by (simp add: h open_br split_host_port_def Let_def)
        moreover have "t \<noteq> [] \<Longrightarrow> last t \<noteq> CHR '']''" using none last_in_set [of t] by metis
        then have "bare_host h = None" using bad h by auto
        ultimately show ?thesis using hp by simp
      qed
    next
      case plain: False
      have "split_host_port ?hp \<noteq> Inr (x, y)"
        using i plain bad by (auto simp: h split_host_port_def Let_def plain_host_def)
      moreover have "bare_host h = None" using plain bad h by simp
      ultimately show ?thesis using hp by simp
    qed
  qed
qed

text \<open>The exact answer of \<open>NormalizeHostPort\<close>.\<close>

lemma NormalizeHostPort_exact:
  "NormalizeHostPort host port = Inr (x, y) \<longleftrightarrow> host_ok host \<and>
     bare_host (to_lower (trim_space host)) = Some x \<and> (\<exists>p. port_ok port p \<and> y = itoa p)"
proof -
  have "split_host_port (join_host_port (to_lower (trim_space host)) (itoa p)) = Inr (x, y) \<longleftrightarrow>
      bare_host (to_lower (trim_space host)) = Some x \<and> y = itoa p" if "port_ok port p" for p
  proof -
    have "0 \<le> p" using that by (simp add: port_ok_def)
    then show ?thesis using split_join_bare_host itoa_no_special by blast
  qed
  moreover have "NormalizeHostPort host port = Inr (x, y) \<longleftrightarrow> (\<exists>p. host_ok host \<and> port_ok port p \<and>
      split_host_port (join_host_port (to_lower (trim_space host)) (itoa p)) = Inr (x, y))"
  proof -
    have "NormalizeHostPort host port = Inr (x, y) \<longleftrightarrow>
        (\<exists>k. ConfigKey host port = Inr k \<and> split_host_port k = Inr (x, y))"
      by (auto simp: NormalizeHostPort_def split: sum.splits)
    then show ?thesis by (auto simp: ConfigKey_Inr_iff)
  qed
  ultimately show ?thesis by blast
qed

end
