(* ===== verification/GoTime.thy ===== *)
theory GoTime
  imports GoStrings Complex_Main
begin

text \<open>
  Durations, points in time and 64-bit floating-point numbers of Go's standard library, as far as
  the program uses them.

  \<^item> A \<open>time.Duration\<close> is a signed 64-bit count of nanoseconds: an \<open>int\<close>, with \<open>wrap_i64\<close> where the
    code adds or multiplies.
  \<^item> A \<open>time.Time\<close> is a count of nanoseconds since the Unix epoch, an unbounded \<open>int\<close>; the zero
    \<open>time.Time\<close> is 1 January of the year 1. \<open>Sub\<close> saturates, as in Go.
  \<^item> A finite \<open>float64\<close> is the rational number it denotes; \<open>round64\<close> rounds to 53 significant bits,
    ties to even. Exponent range (overflow to infinity, subnormals) is not modelled: no value
    computed here leaves the normal range, or it is truncated to 0 anyway.
\<close>

section \<open>Floating-point numbers\<close>

type_synonym float64 = rat

fun bit_length :: "nat \<Rightarrow> nat" where
  "bit_length n = (if n = 0 then 0 else Suc (bit_length (n div 2)))"

declare bit_length.simps [simp del]

definition scale2 :: "rat \<Rightarrow> int \<Rightarrow> rat" where
  "scale2 x e = (if 0 \<le> e then x * 2 ^ nat e else x / 2 ^ nat (- e))"

text \<open>The exponent \<open>e\<close> with \<open>2 ^ e \<le> x < 2 ^ (e + 1)\<close>, for positive \<open>x\<close>.\<close>

definition binade :: "rat \<Rightarrow> int" where
  "binade x =
     (let (p, q) = quotient_of x;
          k = int (bit_length (nat p)) - int (bit_length (nat q))
      in if scale2 1 k \<le> x then k else k - 1)"

definition round_half_even :: "rat \<Rightarrow> int" where
  "round_half_even m =
     (let f = \<lfloor>m\<rfloor>; d = m - of_int f
      in if d < 1 / 2 then f else if d > 1 / 2 then f + 1 else if even f then f else f + 1)"

definition round64 :: "rat \<Rightarrow> float64" where
  "round64 x =
     (if x = 0 then 0
      else let e = binade \<bar>x\<bar> - 52
           in sgn x * scale2 (of_int (round_half_even (scale2 \<bar>x\<bar> (- e)))) e)"

lemma bit_length_bounds: "0 < n \<Longrightarrow> 2 ^ (bit_length n - 1) \<le> n \<and> n < 2 ^ bit_length n"
proof (induction n rule: bit_length.induct)
  case (1 n)
  show ?case
  proof (cases "n div 2 = 0")
    case True
    with 1(2) have "n = 1" by auto
    then show ?thesis by (simp add: bit_length.simps)
  next
    case False
    with 1 have IH: "2 ^ (bit_length (n div 2) - 1) \<le> n div 2" "n div 2 < 2 ^ bit_length (n div 2)"
      by auto
    have pos: "0 < bit_length (n div 2)" using False by (simp add: bit_length.simps)
    have bl: "bit_length n = Suc (bit_length (n div 2))" using 1(2) by (simp add: bit_length.simps)
    have "2 * 2 ^ (bit_length (n div 2) - 1) = (2::nat) ^ bit_length (n div 2)"
      using pos by (metis Suc_pred' power_Suc)
    then have "2 ^ bit_length (n div 2) \<le> 2 * (n div 2)" using IH(1) by linarith
    moreover have "n < 2 * 2 ^ bit_length (n div 2)" using IH(2) by linarith
    ultimately show ?thesis by (simp add: bl)
  qed
qed

lemma bit_length_pos: "0 < n \<Longrightarrow> 0 < bit_length n"
  by (simp add: bit_length.simps)

lemma bit_length_le: "n < 2 ^ k \<Longrightarrow> bit_length n \<le> k"
proof (rule ccontr)
  assume n: "n < 2 ^ k" and "\<not> bit_length n \<le> k"
  then have "k \<le> bit_length n - 1" and "0 < n"
    by (auto simp: bit_length.simps split: if_splits)
  then have "(2::nat) ^ k \<le> 2 ^ (bit_length n - 1)" by simp
  also have "\<dots> \<le> n" using bit_length_bounds \<open>0 < n\<close> by blast
  finally show False using n by simp
qed

lemma round_half_even_of_int [simp]: "round_half_even (of_int i) = i"
  by (simp add: round_half_even_def)

text \<open>Integers below \<open>2 ^ 53\<close> are represented exactly.\<close>

lemma round64_of_nat:
  assumes "n < 2 ^ 53"
  shows "round64 (of_nat n) = of_nat n"
proof (cases "n = 0")
  case False
  let ?k = "bit_length n - 1"
  have bl: "0 < bit_length n" "bit_length n \<le> 53"
    using False bit_length_pos bit_length_le [OF assms] by auto
  have up: "(of_nat n :: rat) < 2 ^ bit_length n"
  proof -
    have "n < 2 ^ bit_length n" using bit_length_bounds False by blast
    then have "(of_nat n :: rat) < of_nat (2 ^ bit_length n)" by (simp only: of_nat_less_iff)
    then show ?thesis by simp
  qed
  have quo: "quotient_of (of_nat n) = (int n, 1)"
    using quotient_of_int [of "int n"] by simp
  have one: "bit_length (Suc 0) = 1" by (simp add: bit_length.simps)
  have bin: "binade (of_nat n) = int ?k"
  proof -
    have eq: "int (bit_length n) - 1 = int ?k" using bl by simp
    have "scale2 1 (int ?k) \<le> of_nat n"
    proof -
      have "2 ^ ?k \<le> n" using bit_length_bounds False by blast
      then have "of_nat (2 ^ ?k) \<le> (of_nat n :: rat)" by (simp only: of_nat_le_iff)
      then show ?thesis by (simp add: scale2_def)
    qed
    then show ?thesis by (simp add: binade_def quo one eq Let_def)
  qed
  define j where "j = 52 - ?k"
  have e: "binade (of_nat n) - 52 = - int j" using bin bl by (simp add: j_def)
  have m: "scale2 (of_nat n) (int j) = of_int (int n * 2 ^ j)" by (simp add: scale2_def)
  have r: "round_half_even (scale2 (of_nat n) (int j)) = int n * 2 ^ j"
    unfolding m by (rule round_half_even_of_int)
  have "scale2 (of_int (int n * 2 ^ j)) (- int j) = of_nat n"
    by (simp add: scale2_def)
  then show ?thesis using False by (simp add: round64_def e r)
qed (simp add: round64_def)

section \<open>Points in time\<close>

type_synonym duration = int
type_synonym time = int

abbreviation (input) nanosecond :: duration where "nanosecond \<equiv> 1"
abbreviation (input) microsecond :: duration where "microsecond \<equiv> 1000"
abbreviation (input) millisecond :: duration where "millisecond \<equiv> 1000000"
abbreviation (input) second :: duration where "second \<equiv> 1000000000"
abbreviation (input) minute :: duration where "minute \<equiv> 60000000000"
abbreviation (input) hour :: duration where "hour \<equiv> 3600000000000"

definition zero_time :: time where
  "zero_time = - 62135596800000000000"

definition time_is_zero :: "time \<Rightarrow> bool" where
  "time_is_zero t \<longleftrightarrow> t = zero_time"

definition max_duration :: duration where
  "max_duration = 2 ^ 63 - 1"

definition min_duration :: duration where
  "min_duration = - (2 ^ 63)"

definition time_sub :: "time \<Rightarrow> time \<Rightarrow> duration" where
  "time_sub t u = max min_duration (min max_duration (t - u))"

text \<open>\<open>t.Unix()\<close>: whole seconds, rounded down; \<open>t.UnixNano()\<close> as an \<open>int64\<close>.\<close>

definition time_unix :: "time \<Rightarrow> int" where
  "time_unix t = t div second"

definition time_unix_nano :: "time \<Rightarrow> int" where
  "time_unix_nano t = wrap_i64 t"

lemma time_sub_ge_iff: "0 < d \<Longrightarrow> d \<le> max_duration \<Longrightarrow> d \<le> time_sub t u \<longleftrightarrow> d \<le> t - u"
  by (auto simp: time_sub_def min_duration_def)

section \<open>Duration strings\<close>

text \<open>\<open>fmtFrac\<close>: the low \<open>prec\<close> digits without trailing zeros, and what is left of the value.\<close>

fun fmt_frac :: "nat \<Rightarrow> bool \<Rightarrow> nat \<Rightarrow> string \<Rightarrow> string \<times> nat" where
  "fmt_frac 0 printing v buf = (if printing then CHR ''.'' # buf else buf, v)"
| "fmt_frac (Suc i) printing v buf =
     (let d = v mod 10; printing = (printing \<or> d \<noteq> 0)
      in fmt_frac i printing (v div 10) (if printing then digit_char d # buf else buf))"

text \<open>\<open>Duration.String\<close>: the digits and units of the magnitude, then the sign.\<close>

definition duration_body :: "nat \<Rightarrow> string" where
  "duration_body u =
     (if u < 1000000000 then
        (if u = 0 then ''0s''
         else let (prec, pre) =
                (if u < 1000 then (0, ''n'')
                 else if u < 1000000 then (3, [CHR 0xC2, CHR 0xB5])
                 else (6, ''m''));
                (frac, v) = fmt_frac prec False u []
              in nat_digits v @ frac @ pre @ ''s'')
      else
        let (frac, v) = fmt_frac 9 False u [];
            secs = nat_digits (v mod 60) @ frac @ ''s'';
            mins = v div 60;
            hrs = mins div 60
        in if mins = 0 then secs
           else if hrs = 0 then nat_digits (mins mod 60) @ ''m'' @ secs
           else nat_digits hrs @ ''h'' @ nat_digits (mins mod 60) @ ''m'' @ secs)"

definition duration_string :: "duration \<Rightarrow> string" where
  "duration_string d =
     (let u = nat \<bar>d\<bar>
      in if d < 0 then CHR ''-'' # duration_body u else duration_body u)"

text \<open>\<open>time.ParseDuration\<close>: \<open>leadingInt\<close>, \<open>leadingFraction\<close>, the unit table and the loop.\<close>

fun leading_int :: "nat \<Rightarrow> string \<Rightarrow> (nat \<times> string) option" where
  "leading_int x [] = Some (x, [])"
| "leading_int x (c # s) =
     (if \<not> is_digit c then Some (x, c # s)
      else if x > 2 ^ 63 div 10 then None
      else let x' = x * 10 + digit_val c
           in if x' > 2 ^ 63 then None else leading_int x' s)"

fun leading_fraction :: "nat \<Rightarrow> float64 \<Rightarrow> bool \<Rightarrow> string \<Rightarrow> nat \<times> float64 \<times> string" where
  "leading_fraction x scale ovf [] = (x, scale, [])"
| "leading_fraction x scale ovf (c # s) =
     (if \<not> is_digit c then (x, scale, c # s)
      else if ovf then leading_fraction x scale ovf s
      else if x > (2 ^ 63 - 1) div 10 then leading_fraction x scale True s
      else let y = x * 10 + digit_val c
           in if y > 2 ^ 63 then leading_fraction x scale True s
              else leading_fraction y (round64 (scale * 10)) ovf s)"

definition unit_of :: "string \<Rightarrow> nat option" where
  "unit_of = map_of
     [(''ns'', 1), (''us'', 1000), ([CHR 0xC2, CHR 0xB5, CHR ''s''], 1000),
      ([CHR 0xCE, CHR 0xBC, CHR ''s''], 1000), (''ms'', 1000000), (''s'', 1000000000),
      (''m'', 60000000000), (''h'', 3600000000000)]"

definition unit_char :: "char \<Rightarrow> bool" where
  "unit_char c \<longleftrightarrow> c \<noteq> CHR ''.'' \<and> \<not> is_digit c"

definition frac_part :: "string \<Rightarrow> nat \<times> float64 \<times> string \<times> bool" where
  "frac_part s =
     (case s of
        c # t \<Rightarrow>
          if c = CHR ''.'' then
            (let (f, scale, r) = leading_fraction 0 1 False t in (f, scale, r, length r \<noteq> length t))
          else (0, 1, s, False)
      | [] \<Rightarrow> (0, 1, s, False))"

definition frac_value :: "nat \<Rightarrow> nat \<Rightarrow> float64 \<Rightarrow> nat" where
  "frac_value unit f scale =
     nat \<lfloor>round64 (round64 (of_nat f) * round64 (round64 (of_nat unit) / scale))\<rfloor>"

lemma leading_int_length: "leading_int x s = Some (v, r) \<Longrightarrow> length r \<le> length s"
  by (induction x s rule: leading_int.induct) (auto simp: Let_def split: if_splits)

lemma leading_fraction_length: "leading_fraction x sc ov s = (f, sc', r) \<Longrightarrow> length r \<le> length s"
  by (induction x sc ov s rule: leading_fraction.induct) (auto simp: Let_def split: if_splits)

lemma frac_part_length: "frac_part s = (f, sc, r, post) \<Longrightarrow> length r \<le> length s"
  by (auto simp: frac_part_def split: list.splits if_splits prod.splits
      dest!: leading_fraction_length)

function parse_loop :: "nat \<Rightarrow> string \<Rightarrow> nat option" where
  "parse_loop d s =
     (if s = [] then Some d
      else if \<not> (hd s = CHR ''.'' \<or> is_digit (hd s)) then None
      else (case leading_int 0 s of
        None \<Rightarrow> None
      | Some (v, s1) \<Rightarrow>
          (case frac_part s1 of (f, scale, s2, post) \<Rightarrow>
             if length s1 = length s \<and> \<not> post then None
             else let u = takeWhile unit_char s2 in
             if u = [] then None
             else (case unit_of u of
               None \<Rightarrow> None
             | Some unit \<Rightarrow>
                 if v > 2 ^ 63 div unit then None
                 else let v1 = (if f > 0 then v * unit + frac_value unit f scale else v * unit) in
                 if f > 0 \<and> v1 > 2 ^ 63 then None
                 else let d1 = (d + v1) mod 2 ^ 64 in
                 if d1 > 2 ^ 63 then None else parse_loop d1 (drop (length u) s2)))))"
  by pat_completeness auto
termination
proof (relation "measure (\<lambda>(d, s). length s)", goal_cases)
  case (2 d s r v s1 f r1 sc r2 s2 post u unit v1 d1)
  have "frac_part s1 = (f, sc, s2, post)" using 2 by simp
  then have "length s2 \<le> length s1" by (rule frac_part_length)
  moreover have "leading_int 0 s = Some (v, s1)" using 2 by simp
  then have "length s1 \<le> length s" by (rule leading_int_length)
  moreover have "0 < length u" "length u \<le> length s2"
    using 2 by (simp_all add: length_takeWhile_le)
  ultimately show ?case by (cases u) auto
qed simp

declare parse_loop.simps [simp del]

definition parse_duration :: "string \<Rightarrow> duration option" where
  "parse_duration s =
     (let neg = (case s of c # _ \<Rightarrow> c = CHR ''-'' | [] \<Rightarrow> False);
          s = (case s of c # t \<Rightarrow> if c = CHR ''-'' \<or> c = CHR ''+'' then t else s | [] \<Rightarrow> s)
      in if s = ''0'' then Some 0
         else if s = [] then None
         else (case parse_loop 0 s of
           None \<Rightarrow> None
         | Some d \<Rightarrow>
             if neg then Some (- int d)
             else if d > 2 ^ 63 - 1 then None
             else Some (int d)))"

section \<open>Parsing what \<open>String\<close> prints\<close>

fun pad_digits :: "nat \<Rightarrow> nat \<Rightarrow> string" where
  "pad_digits 0 v = []"
| "pad_digits (Suc i) v = pad_digits i (v div 10) @ [digit_char (v mod 10)]"

lemma pad_digits_props [simp]:
  "length (pad_digits i v) = i" "list_all is_digit (pad_digits i v)"
  by (induction i arbitrary: v) auto

lemma digits_val_pad: "digits_val (pad_digits i v) = v mod 10 ^ i"
proof (induction i arbitrary: v)
  case (Suc i)
  have "v mod (10 * 10 ^ i) = 10 * (v div 10 mod 10 ^ i) + v mod 10"
    by (rule mod_mult2_eq)
  with Suc show ?case by (simp add: digits_val_append)
qed (simp add: digits_val_def)

lemma fmt_frac_printing:
  "fmt_frac i True v buf = (CHR ''.'' # pad_digits i v @ buf, v div 10 ^ i)"
  by (induction i arbitrary: v buf) (auto simp: Let_def div_mult2_eq)

text \<open>What \<open>fmtFrac\<close> prints: nothing for a zero fraction, else \<open>k\<close> digits that are the fraction.\<close>

lemma fmt_frac_cases:
  obtains (zero) "v mod 10 ^ i = 0" "fmt_frac i False v [] = ([], v div 10 ^ i)"
  | (frac) k w where "0 < k" "k \<le> i" "fmt_frac i False v [] = (CHR ''.'' # pad_digits k w, v div 10 ^ i)"
      "(w mod 10 ^ k) * 10 ^ (i - k) = v mod 10 ^ i" "0 < w mod 10 ^ k"
proof (induction i arbitrary: v thesis)
  case 0
  then show ?case by simp
next
  case (Suc i)
  have dm: "v mod (10 * 10 ^ i) = 10 * (v div 10 mod 10 ^ i) + v mod 10"
    by (rule mod_mult2_eq)
  show ?case
  proof (cases "v mod 10 = 0")
    case True
    then have step: "fmt_frac (Suc i) False v [] = fmt_frac i False (v div 10) []"
      by (simp add: Let_def)
    show ?thesis
    proof (rule Suc.IH [of "v div 10"])
      assume "v div 10 mod 10 ^ i = 0" "fmt_frac i False (v div 10) [] = ([], v div 10 div 10 ^ i)"
      with True step dm show ?thesis by (intro Suc.prems(1)) (simp_all add: div_mult2_eq)
    next
      fix k w
      assume kw: "0 < k" "k \<le> i"
        "fmt_frac i False (v div 10) [] = (CHR ''.'' # pad_digits k w, v div 10 div 10 ^ i)"
        "(w mod 10 ^ k) * 10 ^ (i - k) = v div 10 mod 10 ^ i" "0 < w mod 10 ^ k"
      have "Suc i - k = Suc (i - k)" using kw by simp
      with True step dm kw show ?thesis
        by (intro Suc.prems(2) [of k w]) (simp_all add: div_mult2_eq)
    qed
  next
    case False
    then have "fmt_frac (Suc i) False v [] = (CHR ''.'' # pad_digits (Suc i) v, v div 10 ^ Suc i)"
      by (simp add: Let_def fmt_frac_printing div_mult2_eq)
    moreover have "0 < v mod 10 ^ Suc i" using False dm by simp
    ultimately show ?thesis by (intro Suc.prems(2) [of "Suc i" v]) simp_all
  qed
qed

lemma digits_val_Cons: "foldl (\<lambda>n c. n * 10 + digit_val c) x ds = x * 10 ^ length ds + digits_val ds"
proof (induction ds arbitrary: x)
  case (Cons c ds)
  show ?case
    using Cons [of "x * 10 + digit_val c"] Cons [of "digit_val c"]
    by (simp add: digits_val_def algebra_simps)
qed (simp add: digits_val_def)

definition stops :: "string \<Rightarrow> bool" where
  "stops s \<longleftrightarrow> (case s of [] \<Rightarrow> True | c # _ \<Rightarrow> \<not> is_digit c)"

lemma leading_int_digits:
  assumes "list_all is_digit ds" "stops rest"
    "foldl (\<lambda>n c. n * 10 + digit_val c) x ds \<le> 2 ^ 63"
  shows "leading_int x (ds @ rest) = Some (foldl (\<lambda>n c. n * 10 + digit_val c) x ds, rest)"
  using assms
proof (induction ds arbitrary: x)
  case Nil
  then show ?case by (cases rest) (auto simp: stops_def)
next
  case (Cons c ds)
  let ?x = "x * 10 + digit_val c"
  have "?x \<le> foldl (\<lambda>n c. n * 10 + digit_val c) ?x ds"
    by (simp add: digits_val_Cons trans_le_add1)
  with Cons.prems have le: "?x \<le> 2 ^ 63" by simp
  then have "x \<le> 2 ^ 63 div 10" by simp
  with le Cons show ?case by (simp add: Let_def)
qed

lemma leading_int_nat_digits:
  "n \<le> 2 ^ 63 \<Longrightarrow> stops rest \<Longrightarrow> leading_int 0 (nat_digits n @ rest) = Some (n, rest)"
  using leading_int_digits [of "nat_digits n" rest 0]
  by (simp add: list_all_iff nat_digits_digits flip: digits_val_def)

lemma leading_fraction_digits:
  assumes "list_all is_digit ds" "stops rest" "length ds + j \<le> 9" "x < 10 ^ j"
  shows "leading_fraction x (10 ^ j) False (ds @ rest) =
    (foldl (\<lambda>n c. n * 10 + digit_val c) x ds, 10 ^ (j + length ds), rest)"
  using assms
proof (induction ds arbitrary: x j)
  case Nil
  then show ?case by (cases rest) (auto simp: stops_def)
next
  case (Cons c ds)
  let ?x = "x * 10 + digit_val c"
  have dc: "digit_val c \<le> 9" using Cons.prems(1) by (auto simp: is_digit_def digit_val_def Let_def)
  have j: "j \<le> 8" using Cons.prems(3) by simp
  then have "(10::nat) ^ j \<le> 10 ^ 8" by (rule power_increasing) simp
  then have x: "x < 10 ^ 8" using Cons.prems(4) by linarith
  have x': "?x < 10 ^ Suc j" using dc Cons.prems(4) by simp
  have "(10::rat) * 10 ^ j = of_nat (10 ^ Suc j)" by simp
  moreover have "(10::nat) ^ Suc j < 2 ^ 53"
  proof -
    have "(10::nat) ^ Suc j \<le> 10 ^ 9" using j by (intro power_increasing) auto
    then show ?thesis by simp
  qed
  ultimately have sc: "round64 (10 ^ j * 10) = 10 ^ Suc j"
    by (metis mult.commute round64_of_nat of_nat_numeral of_nat_power)
  have "leading_fraction ?x (10 ^ Suc j) False (ds @ rest) =
      (foldl (\<lambda>n c. n * 10 + digit_val c) ?x ds, 10 ^ (Suc j + length ds), rest)"
    by (rule Cons.IH) (use Cons.prems x' in auto)
  with Cons.prems(1) x dc sc show ?case by (simp add: Let_def)
qed

lemma frac_value_pow:
  assumes "k \<le> p" "p \<le> 9" "f < 10 ^ k"
  shows "frac_value (10 ^ p) f (10 ^ k) = f * 10 ^ (p - k)"
proof -
  have small: "(10::nat) ^ j < 2 ^ 53" if "j \<le> 9" for j
  proof -
    have "(10::nat) ^ j \<le> 10 ^ 9" using that by (intro power_increasing) auto
    then show ?thesis by simp
  qed
  have f: "f < 2 ^ 53" using small [of k] assms by linarith
  have prod: "f * 10 ^ (p - k) < 2 ^ 53"
  proof -
    have "f * 10 ^ (p - k) < 10 ^ k * 10 ^ (p - k)" using assms(3) by simp
    also have "\<dots> = 10 ^ p" using assms(1) by (simp flip: power_add)
    finally show ?thesis using small [of p] assms(2) by linarith
  qed
  have unit: "round64 (of_nat (10 ^ p)) = of_nat (10 ^ p)"
    by (rule round64_of_nat) (rule small [OF assms(2)])
  have "(of_nat (10 ^ p) :: rat) / 10 ^ k = of_nat (10 ^ (p - k))"
    using assms(1) power_diff [of "10 :: rat" k p] by simp
  then have "round64 (round64 (of_nat (10 ^ p)) / 10 ^ k) = of_nat (10 ^ (p - k))"
    using unit round64_of_nat [OF small [of "p - k"]] assms(2) by simp
  then have "frac_value (10 ^ p) f (10 ^ k) = nat \<lfloor>round64 (of_nat (f * 10 ^ (p - k)))\<rfloor>"
    by (simp add: frac_value_def round64_of_nat [OF f])
  then show ?thesis by (simp only: round64_of_nat [OF prod] floor_of_nat nat_int)
qed

definition unit_word :: "string \<Rightarrow> bool" where
  "unit_word u \<longleftrightarrow> u \<noteq> [] \<and> list_all unit_char u"

definition unit_stops :: "string \<Rightarrow> bool" where
  "unit_stops s \<longleftrightarrow> (case s of [] \<Rightarrow> True | c # _ \<Rightarrow> \<not> unit_char c)"

lemma unit_word_stops: "unit_word u \<Longrightarrow> stops (u @ rest)"
  by (cases u) (auto simp: unit_word_def stops_def unit_char_def)

lemma takeWhile_unit:
  "unit_word u \<Longrightarrow> unit_stops rest \<Longrightarrow> takeWhile unit_char (u @ rest) = u"
  by (cases rest) (auto simp: unit_word_def unit_stops_def list_all_iff)

lemma hd_nat_digits [simp]: "is_digit (hd (nat_digits v))"
  by (rule nat_digits_digits [of _ v]) simp

lemma parse_step:
  assumes u: "unit_word u" "unit_of u = Some unit" "0 < unit" and rest: "unit_stops rest"
    and frac: "(fr = [] \<and> fv = 0) \<or>
      (\<exists>ds f. fr = CHR ''.'' # ds \<and> list_all is_digit ds \<and> length ds \<le> 9 \<and> f = digits_val ds \<and>
         0 < f \<and> fv = frac_value unit f (10 ^ length ds))"
    and bound: "d + v * unit + fv \<le> 2 ^ 63"
  shows "parse_loop d (nat_digits v @ fr @ u @ rest) = parse_loop (d + v * unit + fv) rest"
proof -
  let ?s = "nat_digits v @ fr @ u @ rest"
  have stop: "stops (fr @ u @ rest)"
    using frac unit_word_stops [OF u(1), of rest] by (auto simp: stops_def is_digit_def)
  have "v \<le> v * unit" using u(3) by (cases unit) auto
  then have v: "v \<le> 2 ^ 63" using bound by linarith
  have vu: "\<not> v > 2 ^ 63 div unit"
  proof -
    have "v * unit \<le> 2 ^ 63" using bound by linarith
    then have "v * unit div unit \<le> 2 ^ 63 div unit" by (rule div_le_mono)
    then show ?thesis using u(3) by simp
  qed
  have li: "leading_int 0 ?s = Some (v, fr @ u @ rest)"
    by (rule leading_int_nat_digits [OF v stop])
  have fp: "\<exists>f sc post. frac_part (fr @ u @ rest) = (f, sc, u @ rest, post) \<and>
      (if f > 0 then v * unit + frac_value unit f sc else v * unit) = v * unit + fv"
    using frac
  proof
    assume "fr = [] \<and> fv = 0"
    moreover from u(1) have "u @ rest \<noteq> []" "hd (u @ rest) \<noteq> CHR ''.''"
      by (cases u; auto simp: unit_word_def unit_char_def)+
    ultimately show ?thesis by (cases "u @ rest") (auto simp: frac_part_def)
  next
    assume "\<exists>ds f. fr = CHR ''.'' # ds \<and> list_all is_digit ds \<and> length ds \<le> 9 \<and>
      f = digits_val ds \<and> 0 < f \<and> fv = frac_value unit f (10 ^ length ds)"
    then obtain ds where ds: "fr = CHR ''.'' # ds" "list_all is_digit ds" "length ds \<le> 9"
      "0 < digits_val ds" "fv = frac_value unit (digits_val ds) (10 ^ length ds)" by blast
    have "leading_fraction 0 1 False (ds @ u @ rest) = (digits_val ds, 10 ^ length ds, u @ rest)"
      using leading_fraction_digits [of ds "u @ rest" 0 0] ds unit_word_stops [OF u(1), of rest]
      by (simp add: digits_val_def)
    with ds show ?thesis by (simp add: frac_part_def)
  qed
  then obtain f sc post where f: "frac_part (fr @ u @ rest) = (f, sc, u @ rest, post)"
    "(if f > 0 then v * unit + frac_value unit f sc else v * unit) = v * unit + fv" by blast
  have nonempty: "?s \<noteq> []" "is_digit (hd ?s)" "length (fr @ u @ rest) \<noteq> length ?s"
    by simp_all
  have big: "\<not> v * unit + fv > 2 ^ 63" "(d + (v * unit + fv)) mod 2 ^ 64 = d + v * unit + fv"
    "\<not> d + v * unit + fv > 2 ^ 63"
    using bound by simp_all
  have ne: "u \<noteq> []" using u(1) by (simp add: unit_word_def)
  show ?thesis
    apply (subst parse_loop.simps)
    using nonempty li f vu big u(2) ne takeWhile_unit [OF u(1) rest]
    by (simp add: Let_def add.assoc)
qed

lemma fmt_frac_parsed:
  assumes "fmt_frac p False u [] = (fr, v)" "p \<le> 9" "unit = 10 ^ p"
  shows "v = u div 10 ^ p \<and>
    ((fr = [] \<and> u mod 10 ^ p = 0) \<or>
     (\<exists>ds f. fr = CHR ''.'' # ds \<and> list_all is_digit ds \<and> length ds \<le> 9 \<and> f = digits_val ds \<and>
        0 < f \<and> u mod 10 ^ p = frac_value unit f (10 ^ length ds)))"
proof (rule fmt_frac_cases [of u p])
  assume "u mod 10 ^ p = 0" "fmt_frac p False u [] = ([], u div 10 ^ p)"
  with assms(1) show ?thesis by simp
next
  fix k w
  assume kw: "0 < k" "k \<le> p" "fmt_frac p False u [] = (CHR ''.'' # pad_digits k w, u div 10 ^ p)"
    "w mod 10 ^ k * 10 ^ (p - k) = u mod 10 ^ p" "0 < w mod 10 ^ k"
  have "frac_value unit (w mod 10 ^ k) (10 ^ k) = u mod 10 ^ p"
    using frac_value_pow [of k p "w mod 10 ^ k"] kw assms(2,3) by simp
  moreover have "fr = CHR ''.'' # pad_digits k w" "v = u div 10 ^ p" using assms(1) kw(3) by simp_all
  ultimately show ?thesis
    using kw assms(2) by (auto simp: digits_val_pad intro!: exI [of _ "pad_digits k w"])
qed

lemma parse_last_part:
  assumes "fmt_frac p False u [] = (fr, v)" "p \<le> 9" "unit_word w" "unit_of w = Some (10 ^ p)"
    and "d + n * 10 ^ p + u mod 10 ^ p \<le> 2 ^ 63"
  shows "parse_loop d (nat_digits n @ fr @ w) = Some (d + n * 10 ^ p + u mod 10 ^ p)"
proof -
  have "parse_loop d (nat_digits n @ fr @ w @ []) = parse_loop (d + n * 10 ^ p + u mod 10 ^ p) []"
    using fmt_frac_parsed [OF assms(1,2) refl]
    by (intro parse_step) (use assms in \<open>auto simp: unit_stops_def\<close>)
  then show ?thesis by (simp add: parse_loop.simps)
qed

lemma parse_whole_part:
  assumes "unit_word w" "unit_of w = Some unit" "0 < unit" "d + n * unit \<le> 2 ^ 63"
    and "unit_stops rest"
  shows "parse_loop d (nat_digits n @ w @ rest) = parse_loop (d + n * unit) rest"
  using parse_step [of w unit rest "[]" 0 d n] assms by simp

lemma unit_words:
  "unit_word ''ns''" "unit_word [CHR 0xC2, CHR 0xB5, CHR ''s'']" "unit_word ''ms''"
  "unit_word ''s''" "unit_word ''m''" "unit_word ''h''"
  by (simp_all add: unit_word_def unit_char_def is_digit_def)

lemma unit_ofs:
  "unit_of ''ns'' = Some 1" "unit_of [CHR 0xC2, CHR 0xB5, CHR ''s''] = Some 1000"
  "unit_of ''ms'' = Some 1000000" "unit_of ''s'' = Some 1000000000"
  "unit_of ''m'' = Some 60000000000" "unit_of ''h'' = Some 3600000000000"
  by (simp_all add: unit_of_def)

lemma unit_stops_nat_digits: "unit_stops (nat_digits n @ s)"
proof -
  obtain c t where "nat_digits n = c # t" by (cases "nat_digits n") auto
  moreover from this have "is_digit c" using nat_digits_digits [of c n] by simp
  ultimately show ?thesis by (simp add: unit_stops_def unit_char_def)
qed

lemma parse_small:
  assumes "0 < u" "p \<le> 9" "fmt_frac p False u [] = (fr, v)" "unit_word w" "unit_of w = Some (10 ^ p)"
    and "u \<le> 2 ^ 63"
  shows "parse_loop 0 (nat_digits v @ fr @ w) = Some u"
proof -
  have v: "v = u div 10 ^ p" using fmt_frac_parsed [OF assms(3,2) refl] by simp
  have "0 + v * 10 ^ p + u mod 10 ^ p = u" by (simp add: v div_mult_mod_eq)
  then show ?thesis using parse_last_part [OF assms(3,2,4,5), of 0 v] assms(6) by simp
qed

lemma parse_body_below_second:
  assumes small: "u < 1000000000"
  shows "parse_loop 0 (duration_body u) = Some u"
proof -
  consider "u = 0" | "0 < u" "u < 1000" | "1000 \<le> u" "u < 1000000" | "1000000 \<le> u" by linarith
  then show ?thesis
  proof cases
    case 1
    have "parse_loop 0 (nat_digits 0 @ ''s'' @ []) = parse_loop (0 + 0 * 1000000000) []"
      by (rule parse_whole_part) (simp_all add: unit_words unit_ofs unit_stops_def)
    moreover have "parse_loop 0 [] = Some 0" by (simp add: parse_loop.simps)
    moreover have "nat_digits 0 = ''0''" by code_simp
    ultimately show ?thesis using 1 by (simp add: duration_body_def)
  next
    case 2
    obtain fr v where f: "fmt_frac 0 False u [] = (fr, v)" by force
    have "parse_loop 0 (nat_digits v @ fr @ ''ns'') = Some u"
      by (rule parse_small [OF _ _ f]) (use 2 in \<open>simp_all add: unit_words unit_ofs\<close>)
    with 2 f show ?thesis by (simp add: duration_body_def)
  next
    case 3
    obtain fr v where f: "fmt_frac 3 False u [] = (fr, v)" by force
    have "parse_loop 0 (nat_digits v @ fr @ [CHR 0xC2, CHR 0xB5, CHR ''s'']) = Some u"
      by (rule parse_small [OF _ _ f]) (use 3 in \<open>simp_all add: unit_words unit_ofs\<close>)
    with 3 f small show ?thesis by (simp add: duration_body_def)
  next
    case 4
    obtain fr v where f: "fmt_frac 6 False u [] = (fr, v)" by force
    have "parse_loop 0 (nat_digits v @ fr @ ''ms'') = Some u"
      by (rule parse_small [OF _ _ f]) (use 4 small in \<open>simp_all add: unit_words unit_ofs\<close>)
    with 4 f small show ?thesis by (simp add: duration_body_def)
  qed
qed

text \<open>The hours, minutes and seconds of a count of nanoseconds.\<close>

lemma clock_parts:
  fixes u :: nat
  assumes "v = u div 1000000000"
  shows "u = v div 60 div 60 * 3600000000000 + v div 60 mod 60 * 60000000000 +
    v mod 60 * 1000000000 + u mod 1000000000"
proof -
  have "u = v * 1000000000 + u mod 1000000000" by (simp add: assms)
  moreover have "v = v div 60 * 60 + v mod 60" by simp
  moreover have "v div 60 = v div 60 div 60 * 60 + v div 60 mod 60" by simp
  ultimately show ?thesis by linarith
qed

lemma parse_minutes_part:
  assumes f: "fmt_frac 9 False u [] = (fr, v)"
    and le: "d + m * 60000000000 + n * 1000000000 + u mod 1000000000 \<le> 2 ^ 63"
  shows "parse_loop d (nat_digits m @ ''m'' @ nat_digits n @ fr @ ''s'') =
    Some (d + m * 60000000000 + n * 1000000000 + u mod 1000000000)"
proof -
  have "parse_loop (d + m * 60000000000) (nat_digits n @ fr @ ''s'') =
      Some (d + m * 60000000000 + n * 1000000000 + u mod 1000000000)"
    using parse_last_part [OF f, of "''s''" "d + m * 60000000000" n] le by (simp add: unit_words unit_ofs)
  then show ?thesis
    using parse_whole_part [OF unit_words(5) unit_ofs(5), of d m "nat_digits n @ fr @ ''s''"] le
    by (simp add: unit_stops_nat_digits)
qed

lemma parse_body_from_second:
  assumes big: "\<not> u < 1000000000" and le: "u \<le> 2 ^ 63"
  shows "parse_loop 0 (duration_body u) = Some u"
proof -
  obtain fr v where f: "fmt_frac 9 False u [] = (fr, v)" by force
  let ?r = "u mod 1000000000" and ?mins = "v div 60"
  let ?secs = "nat_digits (v mod 60) @ fr @ ''s''" and ?h = "v div 60 div 60 * 3600000000000"
  have v: "v = u div 1000000000" using fmt_frac_parsed [OF f _ refl] by simp
  note u = clock_parts [OF v]
  consider "?mins = 0" | "?mins \<noteq> 0" "?mins div 60 = 0" | "?mins \<noteq> 0" "?mins div 60 \<noteq> 0" by blast
  then show ?thesis
  proof cases
    case 1
    then have "parse_loop 0 ?secs = Some u"
      using parse_last_part [OF f, of "''s''" 0 "v mod 60"] u le by (simp add: unit_words unit_ofs)
    with 1 f big show ?thesis by (simp add: duration_body_def Let_def)
  next
    case 2
    then have "parse_loop 0 (nat_digits (?mins mod 60) @ ''m'' @ ?secs) = Some u"
      using parse_minutes_part [OF f, of 0 "?mins mod 60" "v mod 60"] u le by simp
    with 2 f big show ?thesis by (simp add: duration_body_def Let_def)
  next
    case 3
    have "parse_loop ?h (nat_digits (?mins mod 60) @ ''m'' @ ?secs) = Some u"
      using parse_minutes_part [OF f, of ?h "?mins mod 60" "v mod 60"] u le by simp
    moreover have "0 + ?h \<le> 2 ^ 63" using u le by linarith
    then have "parse_loop 0 (nat_digits (?mins div 60) @ ''h'' @ nat_digits (?mins mod 60) @ ''m'' @ ?secs)
        = parse_loop (0 + ?h) (nat_digits (?mins mod 60) @ ''m'' @ ?secs)"
      using parse_whole_part [OF unit_words(6) unit_ofs(6) _ _ unit_stops_nat_digits] by simp
    ultimately show ?thesis using 3 f big by (simp add: duration_body_def Let_def)
  qed
qed

lemma parse_duration_body: "u \<le> 2 ^ 63 \<Longrightarrow> parse_loop 0 (duration_body u) = Some u"
  using parse_body_below_second parse_body_from_second by blast

definition starts_with_number :: "string \<Rightarrow> bool" where
  "starts_with_number s \<longleftrightarrow> (\<exists>n t. s = nat_digits n @ t \<and> t \<noteq> [])"

lemma starts_with_numberI: "t \<noteq> [] \<Longrightarrow> starts_with_number (nat_digits n @ t)"
  by (auto simp: starts_with_number_def)

lemma duration_body_shape:
  "duration_body u \<noteq> [] \<and> is_digit (hd (duration_body u)) \<and> duration_body u \<noteq> ''0''"
proof -
  have zero: "nat_digits 0 @ ''s'' = ''0s''" by code_simp
  have "starts_with_number (duration_body u)"
    using starts_with_numberI [of "''s''" 0, unfolded zero]
    by (auto simp: duration_body_def Let_def split: prod.splits intro!: starts_with_numberI)
  then obtain n t where nt: "duration_body u = nat_digits n @ t" "t \<noteq> []"
    by (auto simp: starts_with_number_def)
  moreover have "nat_digits n @ t \<noteq> ''0''"
    using nt(2) by (cases "nat_digits n") (auto simp: append_eq_Cons_conv)
  ultimately show ?thesis by simp
qed

theorem parse_duration_string:
  assumes "min_duration \<le> d" "d \<le> max_duration"
  shows "parse_duration (duration_string d) = Some d"
proof -
  let ?u = "nat \<bar>d\<bar>"
  have u: "?u \<le> 2 ^ 63" using assms by (auto simp: min_duration_def max_duration_def)
  obtain c t where ct: "duration_body ?u = c # t"
    using duration_body_shape [of ?u] by (cases "duration_body ?u") auto
  then have "c \<noteq> CHR ''-''" "c \<noteq> CHR ''+''"
    using duration_body_shape [of ?u] digit_not_sign by auto
  moreover have "c # t \<noteq> ''0''" using duration_body_shape [of ?u] ct by simp
  moreover have "parse_loop 0 (c # t) = Some ?u" using parse_duration_body [OF u] ct by simp
  ultimately show ?thesis
    using assms ct
    by (auto simp: parse_duration_def duration_string_def Let_def max_duration_def)
qed

lemma parse_loop_step:
  assumes "parse_loop d s = Some r" "s \<noteq> []"
  shows "\<exists>d' s'. length s' < length s \<and> d' \<le> 2 ^ 63 \<and> parse_loop d' s' = Some r"
proof -
  have len: "length (drop (length (takeWhile unit_char s2)) s2) < length s"
    if "leading_int 0 s = Some (v, s1)" "frac_part s1 = (f, sc, s2, post)"
      "takeWhile unit_char s2 \<noteq> []" for v s1 f sc s2 post
    using that leading_int_length [OF that(1)] frac_part_length [OF that(2)] assms(2)
      length_takeWhile_le [of unit_char s2]
    by (cases "takeWhile unit_char s2") auto
  show ?thesis
    using assms
    by (subst (asm) parse_loop.simps)
      (auto simp: Let_def simp del: length_drop split: if_splits option.splits prod.splits
        dest: len not_less [THEN iffD1])
qed

lemma parse_loop_bound: "d \<le> 2 ^ 63 \<Longrightarrow> parse_loop d s = Some r \<Longrightarrow> r \<le> 2 ^ 63"
proof (induction "length s" arbitrary: d s rule: less_induct)
  case less
  show ?case
  proof (cases "s = []")
    case True
    with less.prems show ?thesis by (simp add: parse_loop.simps)
  next
    case False
    then obtain d' s' where "length s' < length s" "d' \<le> 2 ^ 63" "parse_loop d' s' = Some r"
      using parse_loop_step less.prems(2) by blast
    then show ?thesis using less.hyps by blast
  qed
qed

text \<open>A parsed duration is a value of \<open>time.Duration\<close>.\<close>

lemma parse_duration_bounds:
  assumes "parse_duration s = Some d"
  shows "min_duration \<le> d \<and> d \<le> max_duration"
proof -
  have "parse_loop 0 t = Some r \<Longrightarrow> r \<le> 2 ^ 63" for t r
    using parse_loop_bound [of 0] by simp
  then show ?thesis using assms
    by (auto simp: parse_duration_def Let_def min_duration_def max_duration_def
        split: list.splits if_splits option.splits)
qed

end
