(* ===== verification/Config.thy ===== *)
theory Config
  imports Utils GoTime "HOL-Library.Word"
begin

text \<open>
  Package \<open>internal/config\<close>: the settings a service registers, their normalisation
  (\<open>normalize.go\<close>), the copies handed out (\<open>clone.go\<close>) and the snapshot builder
  (\<open>snapshot.go\<close>). The manager that commits snapshots is in the theory \<open>Manager\<close>.

  A nil-able pointer field is an \<open>option\<close>, a slice is a list. Values are immutable here, so what
  the code does with pointers shows up as: a copy must keep every field (\<open>Clone_id\<close> lemmas), and
  the builder works on its own copy of the snapshot's indexes.
\<close>

section \<open>Settings (\<open>model.go\<close>)\<close>

record auth_settings =
  JWTAlgorithm :: string
  JWTAudience :: string
  JWTClockSkew :: string
  JWTIssuer :: string
  JWTSecret :: string
  JWKS :: string

record global_settings =
  Auth :: "auth_settings option"

record health_settings =
  Enabled :: "bool option"
  HealthPath :: string
  Interval :: string
  Timeout :: string
  Jitter :: string
  MaxBackoff :: string
  FailureThreshold :: int
  SuccessThreshold :: int

record threshold_point =
  RPS :: float64
  InFlight :: int

record threshold_settings =
  Normal :: threshold_point
  Hot :: threshold_point
  Super :: threshold_point

record endpoint_settings =
  EndpointPath :: string
  EndpointMethod :: string
  EndpointRoles :: "string list"

record instance_settings =
  Scheme :: string
  Host :: string
  Port :: string
  HealthKey :: string

record settings =
  Global :: "global_settings option"
  Health :: "health_settings option"
  Instance :: "instance_settings option"
  ServiceName :: string
  Threshold :: "threshold_settings option"
  Endpoints :: "endpoint_settings list"

record service_settings =
  SvcName :: string
  SvcGlobal :: "global_settings option"
  SvcHealth :: "health_settings option"
  SvcThreshold :: "threshold_settings option"
  SvcEndpoints :: "endpoint_settings list"
  SvcInstances :: "instance_settings list"

record route_key =
  KeyMethod :: string
  KeyPath :: string

record route_entry =
  RouteService :: string
  RoutePath :: string
  RouteMethod :: string
  RouteRoles :: "string list"

record snapshot =
  Revision :: "64 word"
  Services :: "(string, service_settings) gomap"
  Routes :: "(route_key, route_entry) gomap"
  WildcardRoutes :: "route_entry list"

section \<open>Copies (\<open>clone.go\<close>)\<close>

definition auth_Clone :: "auth_settings option \<Rightarrow> auth_settings option" where
  "auth_Clone a = (case a of None \<Rightarrow> None | Some a \<Rightarrow>
     Some \<lparr>JWTAlgorithm = JWTAlgorithm a, JWTAudience = JWTAudience a,
           JWTClockSkew = JWTClockSkew a, JWTIssuer = JWTIssuer a,
           JWTSecret = JWTSecret a, JWKS = JWKS a\<rparr>)"

definition global_Clone :: "global_settings option \<Rightarrow> global_settings option" where
  "global_Clone g = (case g of None \<Rightarrow> None | Some g \<Rightarrow> Some \<lparr>Auth = auth_Clone (Auth g)\<rparr>)"

definition health_Clone :: "health_settings option \<Rightarrow> health_settings option" where
  "health_Clone h = (case h of None \<Rightarrow> None | Some h \<Rightarrow>
     (let enabled = (case Enabled h of None \<Rightarrow> None | Some value \<Rightarrow> Some value) in
      Some \<lparr>Enabled = enabled, HealthPath = HealthPath h, Interval = Interval h,
            Timeout = Timeout h, Jitter = Jitter h, MaxBackoff = MaxBackoff h,
            FailureThreshold = FailureThreshold h, SuccessThreshold = SuccessThreshold h\<rparr>))"

definition threshold_Clone :: "threshold_settings option \<Rightarrow> threshold_settings option" where
  "threshold_Clone t = (case t of None \<Rightarrow> None | Some t \<Rightarrow>
     Some \<lparr>Normal = Normal t, Hot = Hot t, Super = Super t\<rparr>)"

definition instance_Clone :: "instance_settings option \<Rightarrow> instance_settings option" where
  "instance_Clone i = (case i of None \<Rightarrow> None | Some i \<Rightarrow>
     Some \<lparr>Scheme = Scheme i, Host = Host i, Port = Port i, HealthKey = HealthKey i\<rparr>)"

definition endpoints_Clone :: "endpoint_settings list \<Rightarrow> endpoint_settings list" where
  "endpoints_Clone e =
     (if e = [] then []
      else map (\<lambda>endpoint. \<lparr>EndpointPath = EndpointPath endpoint,
             EndpointMethod = EndpointMethod endpoint, EndpointRoles = EndpointRoles endpoint\<rparr>) e)"

definition service_Clone :: "service_settings \<Rightarrow> service_settings" where
  "service_Clone s =
     \<lparr>SvcName = SvcName s, SvcGlobal = global_Clone (SvcGlobal s),
      SvcHealth = health_Clone (SvcHealth s), SvcThreshold = threshold_Clone (SvcThreshold s),
      SvcEndpoints = endpoints_Clone (SvcEndpoints s), SvcInstances = SvcInstances s\<rparr>"

named_theorems clone_simps "a copy keeps every field"

lemma auth_Clone_id [simp, clone_simps]: "auth_Clone a = a"
  by (simp add: auth_Clone_def split: option.splits)

lemma global_Clone_id [simp, clone_simps]: "global_Clone g = g"
  by (simp add: global_Clone_def split: option.splits)

lemma health_Clone_id [simp, clone_simps]: "health_Clone h = h"
  by (simp add: health_Clone_def Let_def split: option.splits)

lemma threshold_Clone_id [simp, clone_simps]: "threshold_Clone t = t"
  by (simp add: threshold_Clone_def split: option.splits)

lemma instance_Clone_id [simp, clone_simps]: "instance_Clone i = i"
  by (simp add: instance_Clone_def split: option.splits)

lemma endpoints_Clone_id [simp, clone_simps]: "endpoints_Clone e = e"
  by (simp add: endpoints_Clone_def map_idI)

lemma service_Clone_id [simp, clone_simps]: "service_Clone s = s"
  by (simp add: service_Clone_def)

section \<open>Normalisation (\<open>normalize.go\<close>)\<close>

definition invalid_settings :: "string \<Rightarrow> go_error" where
  "invalid_settings msg = errorf [Config_ErrInvalidSettings] msg"

definition defaultHealthPath :: string where
  "defaultHealthPath = ''/actuator/health''"

definition defaultHealthInterval :: duration where "defaultHealthInterval = 5 * second"
definition defaultHealthTimeout :: duration where "defaultHealthTimeout = 2 * second"
definition defaultHealthJitter :: duration where "defaultHealthJitter = 2 * second"
definition defaultHealthMaxBackoff :: duration where "defaultHealthMaxBackoff = 5 * minute"
definition defaultHealthFailureThreshold :: int where "defaultHealthFailureThreshold = 2"
definition defaultHealthSuccessThreshold :: int where "defaultHealthSuccessThreshold = 1"

definition normalizeNonNegativeDuration :: "string \<Rightarrow> duration \<Rightarrow> string \<Rightarrow> duration result" where
  "normalizeNonNegativeDuration value defaultValue fieldName =
     (let trimmedValue = trim_space value in
      if trimmedValue = [] then Inr defaultValue
      else (case parse_duration trimmedValue of
        None \<Rightarrow> Inl (errorf [Config_ErrInvalidSettings, Ext] (''parse '' @ fieldName))
      | Some duration \<Rightarrow>
          if duration < 0 then
            Inl (invalid_settings (fieldName @ '' must be greater than or equal to zero''))
          else Inr duration))"

definition normalizePositiveDuration :: "string \<Rightarrow> duration \<Rightarrow> string \<Rightarrow> duration result" where
  "normalizePositiveDuration value defaultValue fieldName =
     (case normalizeNonNegativeDuration value defaultValue fieldName of
        Inl e \<Rightarrow> Inl e
      | Inr duration \<Rightarrow>
          if duration = 0 then Inl (invalid_settings (fieldName @ '' must be greater than zero''))
          else Inr duration)"

definition DefaultHealthSettings :: health_settings where
  "DefaultHealthSettings =
     \<lparr>Enabled = Some True, HealthPath = defaultHealthPath,
      Interval = duration_string defaultHealthInterval,
      Timeout = duration_string defaultHealthTimeout,
      Jitter = duration_string defaultHealthJitter,
      MaxBackoff = duration_string defaultHealthMaxBackoff,
      FailureThreshold = defaultHealthFailureThreshold,
      SuccessThreshold = defaultHealthSuccessThreshold\<rparr>"

definition normalizeHealthSettings :: "health_settings option \<Rightarrow> health_settings result" where
  "normalizeHealthSettings settings = (case settings of None \<Rightarrow> Inr DefaultHealthSettings
   | Some given \<Rightarrow>
     (let enabled = (case Enabled given of None \<Rightarrow> Some True | Some b \<Rightarrow> Some b);
          trimmed = trim_space (HealthPath given);
          path = (if trimmed = [] then defaultHealthPath else trimmed)
      in if \<not> has_prefix path ''/'' then Inl (invalid_settings ''health path must start with /'')
      else res_bind (normalizePositiveDuration (Interval given) defaultHealthInterval ''health interval'')
        (\<lambda>interval. res_bind (normalizePositiveDuration (Timeout given) defaultHealthTimeout ''health timeout'')
        (\<lambda>timeout. res_bind (normalizeNonNegativeDuration (Jitter given) defaultHealthJitter ''health jitter'')
        (\<lambda>jitter. res_bind (normalizePositiveDuration (MaxBackoff given) defaultHealthMaxBackoff ''health max backoff'')
        (\<lambda>maxBackoff.
          if maxBackoff < interval then
            Inl (invalid_settings ''health max backoff must be greater than or equal to interval'')
          else if FailureThreshold given < 0 then
            Inl (invalid_settings ''health failure threshold must be greater than or equal to zero'')
          else if SuccessThreshold given < 0 then
            Inl (invalid_settings ''health success threshold must be greater than or equal to zero'')
          else Inr
            \<lparr>Enabled = enabled, HealthPath = path,
             Interval = duration_string interval, Timeout = duration_string timeout,
             Jitter = duration_string jitter, MaxBackoff = duration_string maxBackoff,
             FailureThreshold = (if FailureThreshold given = 0 then defaultHealthFailureThreshold
                                 else FailureThreshold given),
             SuccessThreshold = (if SuccessThreshold given = 0 then defaultHealthSuccessThreshold
                                 else SuccessThreshold given)\<rparr>))))))"

definition healthKeyFor :: "string \<Rightarrow> string \<Rightarrow> string \<Rightarrow> string \<Rightarrow> string" where
  "healthKeyFor serviceName scheme host port =
     serviceName @ ''|'' @ scheme @ ''|'' @ host @ ''|'' @ port"

definition normalizeServiceName :: "string \<Rightarrow> string" where
  "normalizeServiceName serviceName = NormalizeServiceName serviceName"

definition normalizeInstanceSettings :: "string \<Rightarrow> instance_settings \<Rightarrow> instance_settings result" where
  "normalizeInstanceSettings serviceName inst =
     (let normalizedServiceName = normalizeServiceName serviceName;
          normalizedScheme = to_lower (trim_space (Scheme inst))
      in if normalizedServiceName = [] then Inl (invalid_settings ''service-name is required'')
      else if normalizedScheme \<noteq> ''http'' \<and> normalizedScheme \<noteq> ''https'' then
        Inl (invalid_settings ''instance scheme is required'')
      else (case NormalizeHostPort (Host inst) (Port inst) of
        Inl e \<Rightarrow> Inl (wrap_err [Config_ErrInvalidSettings] ''config address'' e)
      | Inr (normalizedHost, normalizedPort) \<Rightarrow> Inr
          \<lparr>Scheme = normalizedScheme, Host = normalizedHost, Port = normalizedPort,
           HealthKey = healthKeyFor normalizedServiceName normalizedScheme
                         normalizedHost normalizedPort\<rparr>))"

definition normalizeSettings :: "settings \<Rightarrow> (string \<times> settings) result" where
  "normalizeSettings s =
     (let serviceName = normalizeServiceName (ServiceName s) in
      if serviceName = [] then Inl (invalid_settings ''service-name is required'')
      else if Global s = None then Inl (invalid_settings ''global settings is required'')
      else if length (Endpoints s) = 0 then Inl (invalid_settings ''endpoints are required'')
      else (case Instance s of None \<Rightarrow> Inl (invalid_settings ''instance is required'')
      | Some inst \<Rightarrow>
        res_bind (normalizeInstanceSettings serviceName inst) (\<lambda>normalizedInstance.
        res_bind (normalizeHealthSettings (Health s)) (\<lambda>normalizedHealthSettings.
        Inr (serviceName, s\<lparr>ServiceName := serviceName, Instance := Some normalizedInstance,
                            Health := Some normalizedHealthSettings\<rparr>)))))"

text \<open>The loop over the endpoints: \<open>seen\<close> holds the keys of the endpoints already accepted.\<close>

fun route_entries_loop ::
  "string \<Rightarrow> route_key list \<Rightarrow> endpoint_settings list \<Rightarrow> (endpoint_settings list \<times> route_entry list) result"
where
  "route_entries_loop serviceName seen [] = Inr ([], [])"
| "route_entries_loop serviceName seen (endpoint # rest) =
     (let path = NormalizeHTTPPath (EndpointPath endpoint);
          method = NormalizeHTTPMethod (EndpointMethod endpoint)
      in if path = [] then Inl (invalid_settings ''path is required'')
      else if method = [] then Inl (invalid_settings ''http method is required'')
      else (case NormalizeRoles (EndpointRoles endpoint) of
        None \<Rightarrow> Inl (invalid_settings ''role is required'')
      | Some roles \<Rightarrow>
        (let key = \<lparr>KeyMethod = method, KeyPath = path\<rparr> in
         if key \<in> set seen then Inl (invalid_settings ''duplicate route'')
         else (case route_entries_loop serviceName (key # seen) rest of
           Inl e \<Rightarrow> Inl e
         | Inr (normalizedEndpoints, routeEntries) \<Rightarrow>
             Inr (\<lparr>EndpointPath = path, EndpointMethod = method, EndpointRoles = roles\<rparr> # normalizedEndpoints,
                  \<lparr>RouteService = serviceName, RoutePath = path, RouteMethod = method,
                   RouteRoles = roles\<rparr> # routeEntries)))))"

definition routeEntriesFromEndpointSettings ::
  "string \<Rightarrow> endpoint_settings list \<Rightarrow> (endpoint_settings list \<times> route_entry list) result" where
  "routeEntriesFromEndpointSettings serviceName endpoints = route_entries_loop serviceName [] endpoints"

definition isWildcardPath :: "string \<Rightarrow> bool" where
  "isWildcardPath path = has_suffix (trim_space path) ''/**''"

section \<open>The snapshot builder (\<open>snapshot.go\<close>)\<close>

definition copySnapshotIndex :: "snapshot option \<Rightarrow> snapshot" where
  "copySnapshotIndex current = (case current of
     None \<Rightarrow> \<lparr>Revision = 0, Services = [], Routes = [], WildcardRoutes = []\<rparr>
   | Some s \<Rightarrow> \<lparr>Revision = Revision s,
       Services = foldl (\<lambda>m (k, v). gomap_put k v m) [] (Services s),
       Routes = foldl (\<lambda>m (k, v). gomap_put k v m) [] (Routes s),
       WildcardRoutes = [] @ WildcardRoutes s\<rparr>)"

definition convertSettings :: "string \<Rightarrow> settings \<Rightarrow> instance_settings \<Rightarrow> service_settings" where
  "convertSettings serviceName s inst =
     \<lparr>SvcName = serviceName, SvcGlobal = global_Clone (Global s), SvcHealth = health_Clone (Health s),
      SvcThreshold = threshold_Clone (Threshold s), SvcEndpoints = endpoints_Clone (Endpoints s),
      SvcInstances = [inst]\<rparr>"

fun upsertInstanceSettings :: "instance_settings list \<Rightarrow> instance_settings \<Rightarrow> instance_settings list" where
  "upsertInstanceSettings [] next_inst = [next_inst]"
| "upsertInstanceSettings (inst # instances) next_inst =
     (if Host inst = Host next_inst \<and> Port inst = Port next_inst then next_inst # instances
      else inst # upsertInstanceSettings instances next_inst)"

text \<open>
  \<open>*settings.Instance.Clone()\<close> dereferences a pointer that \<open>normalizeSettings\<close> has made non-nil;
  the builder's model takes the pointee as \<open>inst\<close>.
\<close>

definition buildService ::
  "snapshot \<Rightarrow> string \<Rightarrow> settings \<Rightarrow> instance_settings \<Rightarrow> (service_settings \<times> route_entry list) result" where
  "buildService candidate serviceName s inst =
     (case routeEntriesFromEndpointSettings serviceName (Endpoints s) of
        Inl e \<Rightarrow> Inl e
      | Inr (endpoints, routes) \<Rightarrow>
        (let s = s\<lparr>Endpoints := endpoints\<rparr> in
         case gomap_get (Services candidate) serviceName of
           None \<Rightarrow> Inr (convertSettings serviceName s inst, routes)
         | Some serviceSettings \<Rightarrow>
             Inr (serviceSettings
               \<lparr>SvcGlobal := global_Clone (Global s), SvcHealth := health_Clone (Health s),
                SvcThreshold := threshold_Clone (Threshold s),
                SvcEndpoints := endpoints_Clone (Endpoints s),
                SvcInstances := upsertInstanceSettings (SvcInstances serviceSettings) inst\<rparr>, routes)))"

text \<open>
  \<open>removeServiceRoutes\<close> compacts the wildcard slice in place: kept routes move to the front, the
  tail is cleared, and the slice is cut to the kept length.
\<close>

function compact_routes ::
  "string \<Rightarrow> nat \<Rightarrow> nat \<Rightarrow> route_entry list \<Rightarrow> nat \<times> route_entry list" where
  "compact_routes serviceName index nextIndex routes =
     (if index < length routes then
        (let route = routes ! index in
         if RouteService route \<noteq> serviceName
         then compact_routes serviceName (index + 1) (nextIndex + 1) (routes[nextIndex := route])
         else compact_routes serviceName (index + 1) nextIndex routes)
      else (nextIndex, routes))"
  by pat_completeness auto
termination
  by (relation "measure (\<lambda>(s, i, n, rs). length rs - i)") auto

declare compact_routes.simps [simp del]

definition zero_route_entry :: route_entry where
  "zero_route_entry = \<lparr>RouteService = [], RoutePath = [], RouteMethod = [], RouteRoles = []\<rparr>"

function clear_routes :: "nat \<Rightarrow> route_entry list \<Rightarrow> route_entry list" where
  "clear_routes index routes =
     (if index < length routes then clear_routes (index + 1) (routes[index := zero_route_entry])
      else routes)"
  by pat_completeness auto
termination
  by (relation "measure (\<lambda>(i, rs). length rs - i)") auto

declare clear_routes.simps [simp del]

definition removeServiceRoutes :: "string \<Rightarrow> snapshot \<Rightarrow> snapshot" where
  "removeServiceRoutes serviceName candidate =
     (let (nextIndex, routes) = compact_routes serviceName 0 0 (WildcardRoutes candidate) in
      candidate
        \<lparr>Routes := gomap_keep (\<lambda>key route. RouteService route \<noteq> serviceName) (Routes candidate),
         WildcardRoutes := take nextIndex (clear_routes nextIndex routes)\<rparr>)"

fun addServiceRoutes :: "string \<Rightarrow> route_entry list \<Rightarrow> snapshot \<Rightarrow> snapshot result" where
  "addServiceRoutes serviceName [] candidate = Inr candidate"
| "addServiceRoutes serviceName (route # routes) candidate =
     (let key = \<lparr>KeyMethod = RouteMethod route, KeyPath = RoutePath route\<rparr>;
          existing = gomap_get (Routes candidate) key
      in if (case existing of Some existingRoute \<Rightarrow> RouteService existingRoute \<noteq> serviceName
             | None \<Rightarrow> False)
      then Inl (invalid_settings ''route already belongs to service'')
      else addServiceRoutes serviceName routes
        (candidate
           \<lparr>Routes := gomap_put key route (Routes candidate),
            WildcardRoutes := (if isWildcardPath (RoutePath route)
              then WildcardRoutes candidate @ [route] else WildcardRoutes candidate)\<rparr>))"

definition replaceService ::
  "string \<Rightarrow> settings \<Rightarrow> instance_settings \<Rightarrow> snapshot \<Rightarrow> snapshot result" where
  "replaceService serviceName s inst candidate =
     (case buildService candidate serviceName s inst of
        Inl e \<Rightarrow> Inl e
      | Inr (serviceSettings, routes) \<Rightarrow>
        (case addServiceRoutes serviceName routes (removeServiceRoutes serviceName candidate) of
           Inl e \<Rightarrow> Inl e
         | Inr added \<Rightarrow>
             Inr (added\<lparr>Services := gomap_put serviceName serviceSettings (Services added)\<rparr>)))"

fun remove_instance_loop ::
  "instance_settings \<Rightarrow> instance_settings list \<Rightarrow> instance_settings list \<Rightarrow> bool \<Rightarrow>
   instance_settings list \<times> bool" where
  "remove_instance_loop inst [] instances removed = (instances, removed)"
| "remove_instance_loop inst (registeredInstance # rest) instances removed =
     (if Host registeredInstance = Host inst \<and> Port registeredInstance = Port inst
      then remove_instance_loop inst rest instances True
      else remove_instance_loop inst rest (instances @ [registeredInstance]) removed)"

definition removeServiceInstance :: "string \<Rightarrow> instance_settings \<Rightarrow> snapshot \<Rightarrow> snapshot result" where
  "removeServiceInstance serviceName inst candidate =
     (case gomap_get (Services candidate) serviceName of
        None \<Rightarrow> Inl (errorf [Config_ErrServiceNotFound] serviceName)
      | Some serviceSettings \<Rightarrow>
        (let (instances, removed) = remove_instance_loop inst (SvcInstances serviceSettings) [] False in
         if \<not> removed then Inl (errorf [Config_ErrInstanceNotFound] (Host inst @ '':'' @ Port inst))
         else Inr (candidate\<lparr>Services :=
           gomap_put serviceName (serviceSettings\<lparr>SvcInstances := instances\<rparr>) (Services candidate)\<rparr>)))"

text \<open>\<open>builder.snapshot()\<close>: the revision is a \<open>uint64\<close> that wraps.\<close>

definition builder_snapshot :: "snapshot \<Rightarrow> snapshot" where
  "builder_snapshot candidate = candidate\<lparr>Revision := Revision candidate + 1\<rparr>"

definition buildCandidate ::
  "snapshot option \<Rightarrow> string \<Rightarrow> settings \<Rightarrow> instance_settings \<Rightarrow> snapshot result" where
  "buildCandidate current serviceName s inst =
     res_bind (replaceService serviceName s inst (copySnapshotIndex current))
       (\<lambda>candidate. Inr (builder_snapshot candidate))"

definition buildDeregisterCandidate ::
  "snapshot option \<Rightarrow> string \<Rightarrow> instance_settings \<Rightarrow> snapshot result" where
  "buildDeregisterCandidate current serviceName inst =
     res_bind (removeServiceInstance serviceName inst (copySnapshotIndex current))
       (\<lambda>candidate. Inr (builder_snapshot candidate))"

section \<open>Lemmas on the normal forms\<close>

lemma normalizeServiceName_idem [simp]:
  "normalizeServiceName (normalizeServiceName s) = normalizeServiceName s"
  by (simp add: normalizeServiceName_def)

lemma duration_string_ends:
  assumes "0 \<le> d"
  shows "\<exists>c t. duration_string d = c # t @ ''s'' \<and> is_digit c"
proof -
  have ds: "duration_string d = duration_body (nat d)"
    using assms by (simp add: duration_string_def Let_def)
  have sh: "duration_string d \<noteq> []" "is_digit (hd (duration_string d))"
    using duration_body_shape [of "nat d"] ds by simp_all
  have "\<exists>t. duration_string d = t @ ''s''"
    unfolding ds by (auto simp: duration_body_def Let_def split: prod.splits)
  then obtain t where t: "duration_string d = t @ ''s''" by blast
  have "t \<noteq> []" using sh t by (auto simp: is_digit_def)
  then show ?thesis using sh t by (cases t) auto
qed

lemma trim_duration_string: "0 \<le> d \<Longrightarrow> trim_space (duration_string d) = duration_string d"
proof -
  assume "0 \<le> d"
  then obtain c t where ct: "duration_string d = c # t @ ''s''" "is_digit c"
    using duration_string_ends by blast
  show ?thesis
  proof (rule trim_space_fixed)
    fix r assume r: "r \<in> set space_runes"
    then obtain x xs where xs: "r = x # xs" using space_runes_nonempty [OF r] by (auto simp: neq_Nil_conv)
    show "\<not> prefix r (duration_string d)"
      using ct digit_not_space [OF r, of x] xs by auto
    show "\<not> suffix r (duration_string d)"
    proof
      assume "suffix r (duration_string d)"
      then obtain zs where "duration_string d = zs @ r" by (auto simp: suffix_def)
      then have "last r = last (c # t @ ''s'')" using ct xs by (metis last_appendR list.distinct(1))
      then have "last r = CHR ''s''" by simp
      then have "CHR ''s'' \<in> set r" using xs last_in_set [of r] by simp
      then show False using space_runes_no_letter [OF r, of "CHR ''s''"] by (simp add: is_letter_def)
    qed
  qed
qed

text \<open>Printing a duration and normalising the text again gives the duration back.\<close>

lemma normalizeNonNegativeDuration_string:
  assumes "0 \<le> d" "d \<le> max_duration"
  shows "normalizeNonNegativeDuration (duration_string d) dflt f = Inr d"
proof -
  have "duration_string d \<noteq> []" using duration_string_ends [OF assms(1)] by auto
  moreover have "parse_duration (duration_string d) = Some d"
    using assms by (intro parse_duration_string) (auto simp: min_duration_def)
  ultimately show ?thesis
    using assms by (simp add: normalizeNonNegativeDuration_def trim_duration_string)
qed

lemma normalizePositiveDuration_string:
  "0 < d \<Longrightarrow> d \<le> max_duration \<Longrightarrow>
     normalizePositiveDuration (duration_string d) dflt f = Inr d"
  by (simp add: normalizePositiveDuration_def normalizeNonNegativeDuration_string)

lemma normalizeNonNegativeDuration_bounds:
  assumes "normalizeNonNegativeDuration v dflt f = Inr d" "0 \<le> dflt" "dflt \<le> max_duration"
  shows "0 \<le> d \<and> d \<le> max_duration"
  using assms parse_duration_bounds
  by (auto simp: normalizeNonNegativeDuration_def Let_def split: if_splits option.splits)

lemma normalizePositiveDuration_bounds:
  assumes "normalizePositiveDuration v dflt f = Inr d" "0 \<le> dflt" "dflt \<le> max_duration"
  shows "0 < d \<and> d \<le> max_duration"
  using assms normalizeNonNegativeDuration_bounds [of v dflt f]
  by (auto simp: normalizePositiveDuration_def split: if_splits sum.splits)


lemmas duration_defaults = defaultHealthInterval_def defaultHealthTimeout_def
  defaultHealthJitter_def defaultHealthMaxBackoff_def max_duration_def

text \<open>What the normal form of the health settings holds, read back by the health checker.\<close>

definition health_normal :: "health_settings \<Rightarrow> bool" where
  "health_normal h \<longleftrightarrow> Enabled h \<noteq> None \<and> has_prefix (HealthPath h) ''/'' \<and>
     trim_space (HealthPath h) = HealthPath h \<and>
     (case (parse_duration (Interval h), parse_duration (Timeout h),
            parse_duration (Jitter h), parse_duration (MaxBackoff h)) of
        (Some i, Some t, Some j, Some b) \<Rightarrow> 0 < i \<and> 0 < t \<and> 0 \<le> j \<and> i \<le> b \<and>
          Interval h = duration_string i \<and> Timeout h = duration_string t \<and>
          Jitter h = duration_string j \<and> MaxBackoff h = duration_string b
      | _ \<Rightarrow> False) \<and>
     0 < FailureThreshold h \<and> 0 < SuccessThreshold h"

lemma defaultHealthPath_ok:
  "has_prefix defaultHealthPath ''/'' \<and> trim_space defaultHealthPath = defaultHealthPath"
  by code_simp

lemma parse_duration_printed:
  "0 \<le> d \<Longrightarrow> d \<le> max_duration \<Longrightarrow> parse_duration (duration_string d) = Some d"
  by (rule parse_duration_string) (simp_all add: min_duration_def)

lemma DefaultHealthSettings_normal: "health_normal DefaultHealthSettings"
  using defaultHealthPath_ok
  by (simp add: health_normal_def DefaultHealthSettings_def parse_duration_printed
      duration_defaults defaultHealthFailureThreshold_def defaultHealthSuccessThreshold_def)

lemma normalizeHealthSettings_normal:
  assumes "normalizeHealthSettings s = Inr h"
  shows "health_normal h"
proof (cases s)
  case None
  then show ?thesis using assms DefaultHealthSettings_normal by (simp add: normalizeHealthSettings_def)
next
  case (Some g)
  have defaults: "0 \<le> defaultHealthInterval" "defaultHealthInterval \<le> max_duration"
    "0 \<le> defaultHealthTimeout" "defaultHealthTimeout \<le> max_duration"
    "0 \<le> defaultHealthJitter" "defaultHealthJitter \<le> max_duration"
    "0 \<le> defaultHealthMaxBackoff" "defaultHealthMaxBackoff \<le> max_duration"
    by (simp_all add: duration_defaults)
  obtain i t j b where parts:
    "normalizePositiveDuration (Interval g) defaultHealthInterval ''health interval'' = Inr i"
    "normalizePositiveDuration (Timeout g) defaultHealthTimeout ''health timeout'' = Inr t"
    "normalizeNonNegativeDuration (Jitter g) defaultHealthJitter ''health jitter'' = Inr j"
    "normalizePositiveDuration (MaxBackoff g) defaultHealthMaxBackoff ''health max backoff'' = Inr b"
    "\<not> b < i" and h: "Interval h = duration_string i" "Timeout h = duration_string t"
    "Jitter h = duration_string j" "MaxBackoff h = duration_string b"
    using assms Some by (auto simp: normalizeHealthSettings_def Let_def split: if_splits)
  have bounds: "0 < i" "i \<le> max_duration" "0 < t" "t \<le> max_duration" "0 \<le> j" "j \<le> max_duration"
    "0 < b" "b \<le> max_duration"
    using parts normalizePositiveDuration_bounds normalizeNonNegativeDuration_bounds defaults by blast+
  have rest: "Enabled h \<noteq> None" "has_prefix (HealthPath h) ''/''"
    "trim_space (HealthPath h) = HealthPath h" "0 < FailureThreshold h" "0 < SuccessThreshold h"
    using assms Some defaultHealthPath_ok
    by (auto simp: normalizeHealthSettings_def Let_def defaultHealthFailureThreshold_def
        defaultHealthSuccessThreshold_def split: if_splits option.splits)
  show ?thesis using rest h bounds parts(5)
    by (simp add: health_normal_def parse_duration_printed)
qed

lemma normalizeHealthSettings_fixed:
  assumes "health_normal h"
  shows "normalizeHealthSettings (Some h) = Inr h"
proof -
  obtain i t j b where p: "0 < i" "0 < t" "0 \<le> j" "i \<le> b" "parse_duration (Interval h) = Some i"
    "parse_duration (Timeout h) = Some t" "parse_duration (Jitter h) = Some j"
    "parse_duration (MaxBackoff h) = Some b"
    and h: "Interval h = duration_string i" "Timeout h = duration_string t"
    "Jitter h = duration_string j" "MaxBackoff h = duration_string b"
    using assms by (auto simp: health_normal_def split: option.splits)
  have "i \<le> max_duration" "t \<le> max_duration" "j \<le> max_duration" "b \<le> max_duration"
    using p parse_duration_bounds by blast+
  moreover have "Enabled h \<noteq> None" "has_prefix (HealthPath h) ''/''"
    "trim_space (HealthPath h) = HealthPath h" "0 < FailureThreshold h" "0 < SuccessThreshold h"
    using assms by (auto simp: health_normal_def)
  moreover have "HealthPath h \<noteq> []"
    using calculation(6) by (auto simp: has_prefix_iff)
  ultimately show ?thesis
    using p(1-4) by (auto simp: normalizeHealthSettings_def Let_def h normalizePositiveDuration_string
        normalizeNonNegativeDuration_string split: option.splits intro: health_settings.equality)
qed

lemma normalizeHealthSettings_idem:
  "normalizeHealthSettings s = Inr h \<Longrightarrow> normalizeHealthSettings (Some h) = Inr h"
  by (blast intro: normalizeHealthSettings_normal normalizeHealthSettings_fixed)

text \<open>What is accepted as health settings, and what it stands for, spelt out.\<close>

text \<open>A duration of the health settings: blank stands for the default.\<close>

definition duration_or :: "duration \<Rightarrow> string \<Rightarrow> duration option" where
  "duration_or dflt text = (if trim_space text = [] then Some dflt else parse_duration (trim_space text))"

definition no_health :: health_settings where
  "no_health = \<lparr>Enabled = None, HealthPath = [], Interval = [], Timeout = [], Jitter = [], MaxBackoff = [],
     FailureThreshold = 0, SuccessThreshold = 0\<rparr>"

definition health_acceptable :: "health_settings \<Rightarrow> bool" where
  "health_acceptable g \<longleftrightarrow>
     (trim_space (HealthPath g) = [] \<or> has_prefix (trim_space (HealthPath g)) ''/'') \<and>
     (case (duration_or (5 * second) (Interval g), duration_or (2 * second) (Timeout g),
            duration_or (2 * second) (Jitter g), duration_or (5 * minute) (MaxBackoff g)) of
        (Some i, Some t, Some j, Some b) \<Rightarrow> 0 < i \<and> 0 < t \<and> 0 \<le> j \<and> i \<le> b
      | _ \<Rightarrow> False) \<and>
     0 \<le> FailureThreshold g \<and> 0 \<le> SuccessThreshold g"

definition health_taken_from :: "health_settings \<Rightarrow> health_settings \<Rightarrow> bool" where
  "health_taken_from g h \<longleftrightarrow>
     Enabled h = Some (Enabled g \<noteq> Some False) \<and>
     HealthPath h = (if trim_space (HealthPath g) = [] then ''/actuator/health'' else trim_space (HealthPath g)) \<and>
     parse_duration (Interval h) = duration_or (5 * second) (Interval g) \<and>
     parse_duration (Timeout h) = duration_or (2 * second) (Timeout g) \<and>
     parse_duration (Jitter h) = duration_or (2 * second) (Jitter g) \<and>
     parse_duration (MaxBackoff h) = duration_or (5 * minute) (MaxBackoff g) \<and>
     FailureThreshold h = (if FailureThreshold g = 0 then 2 else FailureThreshold g) \<and>
     SuccessThreshold h = (if SuccessThreshold g = 0 then 1 else SuccessThreshold g)"

lemma normalizeNonNegativeDuration_or:
  "normalizeNonNegativeDuration v d f = (case duration_or d v of
     None \<Rightarrow> Inl (errorf [Config_ErrInvalidSettings, Ext] (''parse '' @ f))
   | Some x \<Rightarrow> if trim_space v \<noteq> [] \<and> x < 0 then Inl (invalid_settings (f @ '' must be greater than or equal to zero''))
       else Inr x)"
  by (simp add: normalizeNonNegativeDuration_def duration_or_def Let_def split: option.split)

lemma nonneg_Inr: "0 \<le> d \<Longrightarrow> normalizeNonNegativeDuration v d f = Inr x \<longleftrightarrow> duration_or d v = Some x \<and> 0 \<le> x"
  by (auto simp: normalizeNonNegativeDuration_or duration_or_def split: option.split)

lemma positive_Inr:
  assumes "0 \<le> d"
  shows "normalizePositiveDuration v d f = Inr x \<longleftrightarrow> duration_or d v = Some x \<and> 0 < x"
proof -
  have "normalizePositiveDuration v d f = Inr x \<longleftrightarrow> normalizeNonNegativeDuration v d f = Inr x \<and> x \<noteq> 0"
    by (auto simp: normalizePositiveDuration_def split: sum.split)
  then show ?thesis by (auto simp: nonneg_Inr [OF assms])
qed

lemma normalizeHealthSettings_Some_iff:
  "(\<exists>h. normalizeHealthSettings (Some g) = Inr h) \<longleftrightarrow> health_acceptable g"
proof -
  note defaults = defaultHealthInterval_def defaultHealthTimeout_def defaultHealthJitter_def defaultHealthMaxBackoff_def
  have slash: "has_prefix defaultHealthPath ''/''" by code_simp
  let ?i = "normalizePositiveDuration (Interval g) defaultHealthInterval ''health interval''"
  let ?t = "normalizePositiveDuration (Timeout g) defaultHealthTimeout ''health timeout''"
  let ?j = "normalizeNonNegativeDuration (Jitter g) defaultHealthJitter ''health jitter''"
  let ?b = "normalizePositiveDuration (MaxBackoff g) defaultHealthMaxBackoff ''health max backoff''"
  have "(\<exists>h. normalizeHealthSettings (Some g) = Inr h) \<longleftrightarrow>
      (trim_space (HealthPath g) = [] \<or> has_prefix (trim_space (HealthPath g)) ''/'') \<and>
      (\<exists>i t j b. ?i = Inr i \<and> ?t = Inr t \<and> ?j = Inr j \<and> ?b = Inr b \<and> i \<le> b) \<and>
      0 \<le> FailureThreshold g \<and> 0 \<le> SuccessThreshold g"
    using slash by (cases ?i; cases ?t; cases ?j; cases ?b) (auto simp: normalizeHealthSettings_def Let_def not_less)
  also have "\<dots> \<longleftrightarrow> health_acceptable g"
    by (auto simp: health_acceptable_def positive_Inr nonneg_Inr defaults split: option.splits)
  finally show ?thesis .
qed

lemma normalizeHealthSettings_taken:
  assumes "normalizeHealthSettings s = Inr h"
  shows "health_taken_from (case s of None \<Rightarrow> no_health | Some g \<Rightarrow> g) h"
proof (cases s)
  case None
  have "trim_space [] = []" by code_simp
  moreover have "h = DefaultHealthSettings" using assms None by (simp add: normalizeHealthSettings_def)
  ultimately show ?thesis using None
    by (simp add: DefaultHealthSettings_def health_taken_from_def no_health_def duration_or_def
        parse_duration_printed duration_defaults defaultHealthFailureThreshold_def defaultHealthSuccessThreshold_def
        defaultHealthPath_def)
next
  case (Some g)
  have defaults: "0 \<le> defaultHealthInterval" "0 \<le> defaultHealthTimeout" "0 \<le> defaultHealthJitter" "0 \<le> defaultHealthMaxBackoff"
    "defaultHealthInterval \<le> max_duration" "defaultHealthTimeout \<le> max_duration" "defaultHealthJitter \<le> max_duration"
    "defaultHealthMaxBackoff \<le> max_duration"
    by (simp_all add: duration_defaults)
  obtain i t j b where parts:
    "normalizePositiveDuration (Interval g) defaultHealthInterval ''health interval'' = Inr i"
    "normalizePositiveDuration (Timeout g) defaultHealthTimeout ''health timeout'' = Inr t"
    "normalizeNonNegativeDuration (Jitter g) defaultHealthJitter ''health jitter'' = Inr j"
    "normalizePositiveDuration (MaxBackoff g) defaultHealthMaxBackoff ''health max backoff'' = Inr b"
    and h: "Interval h = duration_string i" "Timeout h = duration_string t"
    "Jitter h = duration_string j" "MaxBackoff h = duration_string b"
    "FailureThreshold h = (if FailureThreshold g = 0 then 2 else FailureThreshold g)"
    "SuccessThreshold h = (if SuccessThreshold g = 0 then 1 else SuccessThreshold g)"
    "Enabled h = Some (Enabled g \<noteq> Some False)"
    "HealthPath h = (if trim_space (HealthPath g) = [] then ''/actuator/health'' else trim_space (HealthPath g))"
    using assms Some
    by (auto simp: normalizeHealthSettings_def Let_def defaultHealthFailureThreshold_def defaultHealthSuccessThreshold_def
        defaultHealthPath_def split: if_splits option.splits)
  have "0 < i \<and> i \<le> max_duration" "0 < t \<and> t \<le> max_duration" "0 \<le> j \<and> j \<le> max_duration" "0 < b \<and> b \<le> max_duration"
    using parts normalizePositiveDuration_bounds normalizeNonNegativeDuration_bounds defaults by blast+
  then show ?thesis
    using parts Some
    by (simp add: health_taken_from_def h parse_duration_printed positive_Inr [OF defaults(1)] positive_Inr [OF defaults(2)]
        nonneg_Inr [OF defaults(3)] positive_Inr [OF defaults(4)])
      (simp add: defaultHealthInterval_def defaultHealthTimeout_def defaultHealthJitter_def defaultHealthMaxBackoff_def)
qed

section \<open>Instances\<close>

definition instance_normal :: "string \<Rightarrow> instance_settings \<Rightarrow> bool" where
  "instance_normal serviceName i \<longleftrightarrow>
     (Scheme i = ''http'' \<or> Scheme i = ''https'') \<and>
     (case atoi (Port i) of None \<Rightarrow> False | Some p \<Rightarrow> 0 < p \<and> p \<le> 65535 \<and> Port i = itoa p) \<and>
     to_lower (Host i) = Host i \<and> CHR ''['' \<notin> set (Host i) \<and>
     HealthKey i = healthKeyFor serviceName (Scheme i) (Host i) (Port i)"

lemma normalizeInstanceSettings_normal:
  assumes "normalizeInstanceSettings serviceName i = Inr j"
  shows "instance_normal (normalizeServiceName serviceName) j"
proof -
  obtain h p where hp: "NormalizeHostPort (Host i) (Port i) = Inr (h, p)"
    and j: "Host j = h" "Port j = p" "Scheme j = ''http'' \<or> Scheme j = ''https''"
      "HealthKey j = healthKeyFor (normalizeServiceName serviceName) (Scheme j) h p"
    using assms by (auto simp: normalizeInstanceSettings_def Let_def split: if_splits sum.splits)
  obtain q where q: "port_ok (Port i) q" "p = itoa q" "to_lower h = h" "CHR ''['' \<notin> set h"
    using NormalizeHostPort_shape [OF hp] by blast
  moreover have "atoi (itoa q) = Some q" using q(1) by (simp add: port_ok_def atoi_itoa)
  ultimately show ?thesis using j by (simp add: instance_normal_def port_ok_def)
qed

lemma normalizeInstanceSettings_idem:
  assumes "normalizeInstanceSettings serviceName i = Inr j"
    and "CHR ''['' \<notin> set (Host i)" "CHR '']'' \<notin> set (Host i)"
  shows "normalizeInstanceSettings serviceName j = Inr j"
proof -
  obtain h p c where hp: "NormalizeHostPort (Host i) (Port i) = Inr (h, p)"
    and c: "c = ''http'' \<or> c = ''https''" and n: "normalizeServiceName serviceName \<noteq> []"
    and j: "j = \<lparr>Scheme = c, Host = h, Port = p,
                 HealthKey = healthKeyFor (normalizeServiceName serviceName) c h p\<rparr>"
    using assms(1) by (auto simp: normalizeInstanceSettings_def Let_def split: if_splits sum.splits)
  have "to_lower (trim_space c) = c" using c by (rule disjE) (simp, code_simp)+
  then show ?thesis
    using NormalizeHostPort_idem [OF hp assms(2,3)] c n
    by (auto simp: normalizeInstanceSettings_def j Let_def)
qed

text \<open>The exact answer: which addresses are accepted, and what is stored.\<close>

definition instance_acceptable :: "instance_settings \<Rightarrow> bool" where
  "instance_acceptable i \<longleftrightarrow> to_lower (trim_space (Scheme i)) \<in> {''http'', ''https''} \<and>
     host_ok (Host i) \<and> bare_host (to_lower (trim_space (Host i))) \<noteq> None \<and>
     (case atoi (trim_space (Port i)) of None \<Rightarrow> False | Some p \<Rightarrow> 0 < p \<and> p \<le> 65535)"

definition instance_taken_from :: "string \<Rightarrow> instance_settings \<Rightarrow> instance_settings \<Rightarrow> bool" where
  "instance_taken_from name i j \<longleftrightarrow> Scheme j = to_lower (trim_space (Scheme i)) \<and>
     bare_host (to_lower (trim_space (Host i))) = Some (Host j) \<and>
     map_option itoa (atoi (trim_space (Port i))) = Some (Port j) \<and>
     HealthKey j = name @ ''|'' @ Scheme j @ ''|'' @ Host j @ ''|'' @ Port j"

lemma normalizeInstanceSettings_exact:
  "normalizeInstanceSettings n i = Inr j \<longleftrightarrow>
     normalizeServiceName n \<noteq> [] \<and> instance_acceptable i \<and> instance_taken_from (normalizeServiceName n) i j"
proof -
  have port: "(\<exists>p. port_ok (Port i) p \<and> y = itoa p) \<longleftrightarrow>
      (case atoi (trim_space (Port i)) of None \<Rightarrow> False | Some p \<Rightarrow> 0 < p \<and> p \<le> 65535) \<and>
      map_option itoa (atoi (trim_space (Port i))) = Some y" for y
  proof -
    have "atoi [] = None" by code_simp
    then show ?thesis by (auto simp: port_ok_def split: option.splits)
  qed
  have "normalizeInstanceSettings n i = Inr j \<longleftrightarrow> normalizeServiceName n \<noteq> [] \<and>
      to_lower (trim_space (Scheme i)) \<in> {''http'', ''https''} \<and>
      (\<exists>h p. NormalizeHostPort (Host i) (Port i) = Inr (h, p) \<and>
        j = \<lparr>Scheme = to_lower (trim_space (Scheme i)), Host = h, Port = p,
          HealthKey = healthKeyFor (normalizeServiceName n) (to_lower (trim_space (Scheme i))) h p\<rparr>)"
    by (auto simp: normalizeInstanceSettings_def Let_def split: sum.split)
  also have "\<dots> \<longleftrightarrow> normalizeServiceName n \<noteq> [] \<and> instance_acceptable i \<and> instance_taken_from (normalizeServiceName n) i j"
    unfolding NormalizeHostPort_exact port instance_acceptable_def instance_taken_from_def healthKeyFor_def
    by (cases j) auto
  finally show ?thesis .
qed

lemma normalizeInstanceSettings_acceptable:
  "(\<exists>j. normalizeInstanceSettings n i = Inr j) \<longleftrightarrow> normalizeServiceName n \<noteq> [] \<and> instance_acceptable i"
proof -
  have "\<exists>j. instance_taken_from name i j" if "instance_acceptable i" for name
  proof -
    obtain h p where "bare_host (to_lower (trim_space (Host i))) = Some h" "atoi (trim_space (Port i)) = Some p"
      using \<open>instance_acceptable i\<close> by (auto simp: instance_acceptable_def split: option.splits)
    then have "instance_taken_from name i \<lparr>Scheme = to_lower (trim_space (Scheme i)), Host = h, Port = itoa p,
        HealthKey = name @ ''|'' @ to_lower (trim_space (Scheme i)) @ ''|'' @ h @ ''|'' @ itoa p\<rparr>"
      by (simp add: instance_taken_from_def)
    then show ?thesis by blast
  qed
  then show ?thesis unfolding normalizeInstanceSettings_exact by blast
qed

section \<open>Endpoints and routes\<close>

definition endpoint_route :: "string \<Rightarrow> endpoint_settings \<Rightarrow> route_entry" where
  "endpoint_route serviceName e =
     \<lparr>RouteService = serviceName, RoutePath = EndpointPath e, RouteMethod = EndpointMethod e,
      RouteRoles = EndpointRoles e\<rparr>"

definition route_key_of :: "route_entry \<Rightarrow> route_key" where
  "route_key_of r = \<lparr>KeyMethod = RouteMethod r, KeyPath = RoutePath r\<rparr>"

definition endpoint_normal :: "endpoint_settings \<Rightarrow> bool" where
  "endpoint_normal e \<longleftrightarrow> EndpointPath e \<noteq> [] \<and> EndpointMethod e \<noteq> [] \<and>
     NormalizeHTTPPath (EndpointPath e) = EndpointPath e \<and>
     NormalizeHTTPMethod (EndpointMethod e) = EndpointMethod e \<and>
     NormalizeRoles (EndpointRoles e) = Some (EndpointRoles e)"

text \<open>
  A successful loop: the routes are the routes of the normalised endpoints, one per input endpoint,
  with pairwise different keys, none of them seen before.
\<close>

lemma route_entries_loop_spec:
  assumes "route_entries_loop s seen es = Inr (ns, rs)"
  shows "rs = map (endpoint_route s) ns \<and> length ns = length es \<and> list_all endpoint_normal ns \<and>
    distinct (map route_key_of rs) \<and> set (map route_key_of rs) \<inter> set seen = {}"
  using assms
proof (induction s seen es arbitrary: ns rs rule: route_entries_loop.induct)
  case (2 s seen e es)
  let ?path = "NormalizeHTTPPath (EndpointPath e)" and ?m = "NormalizeHTTPMethod (EndpointMethod e)"
  obtain roles ns' rs' where roles: "NormalizeRoles (EndpointRoles e) = Some roles"
    and new: "?path \<noteq> []" "?m \<noteq> []" "\<lparr>KeyMethod = ?m, KeyPath = ?path\<rparr> \<notin> set seen"
    and rec: "route_entries_loop s (\<lparr>KeyMethod = ?m, KeyPath = ?path\<rparr> # seen) es = Inr (ns', rs')"
    and eq: "ns = \<lparr>EndpointPath = ?path, EndpointMethod = ?m, EndpointRoles = roles\<rparr> # ns'"
      "rs = \<lparr>RouteService = s, RoutePath = ?path, RouteMethod = ?m, RouteRoles = roles\<rparr> # rs'"
    using "2.prems" by (auto simp: Let_def split: if_splits option.splits sum.splits prod.splits)
  have IH: "rs' = map (endpoint_route s) ns' \<and> length ns' = length es \<and> list_all endpoint_normal ns' \<and>
    distinct (map route_key_of rs') \<and>
    set (map route_key_of rs') \<inter> set (\<lparr>KeyMethod = ?m, KeyPath = ?path\<rparr> # seen) = {}"
    by (rule "2.IH" [OF refl refl new(1,2) roles refl new(3) rec])
  have roles': "NormalizeRoles roles = Some roles"
    using roles by (rule NormalizeRoles_idem)
  show ?case
  proof -
    have "endpoint_normal \<lparr>EndpointPath = ?path, EndpointMethod = ?m, EndpointRoles = roles\<rparr>"
      using new roles' by (simp add: endpoint_normal_def)
    moreover have rs: "rs = endpoint_route s (hd ns) # rs'"
      and k: "route_key_of (endpoint_route s (hd ns)) = \<lparr>KeyMethod = ?m, KeyPath = ?path\<rparr>"
      unfolding eq by (simp_all add: endpoint_route_def route_key_of_def)
    moreover have "distinct (map route_key_of rs) \<and> set (map route_key_of rs) \<inter> set seen = {}"
      using IH [THEN conjunct2] new(3) unfolding rs list.map k by simp
    ultimately show ?thesis
      using IH unfolding eq(1) by simp
  qed
qed simp

lemma routeEntriesFromEndpointSettings_spec:
  assumes "routeEntriesFromEndpointSettings s es = Inr (ns, rs)"
  shows "rs = map (endpoint_route s) ns" "length ns = length es" "list_all endpoint_normal ns"
    "distinct (map route_key_of rs)"
  using route_entries_loop_spec assms unfolding routeEntriesFromEndpointSettings_def by blast+

text \<open>The loop fails exactly when an endpoint is not well formed or a key repeats.\<close>

lemma route_entries_loop_fixed:
  "list_all endpoint_normal ns \<Longrightarrow> distinct (map (route_key_of \<circ> endpoint_route s) ns) \<Longrightarrow>
   (route_key_of \<circ> endpoint_route s) ` set ns \<inter> set seen = {} \<Longrightarrow>
   route_entries_loop s seen ns = Inr (ns, map (endpoint_route s) ns)"
proof (induction ns arbitrary: seen)
  case (Cons e ns)
  then have "route_entries_loop s (route_key_of (endpoint_route s e) # seen) ns =
    Inr (ns, map (endpoint_route s) ns)"
    by (auto simp: image_iff)
  then show ?case
    using Cons.prems by (simp add: endpoint_normal_def Let_def route_key_of_def endpoint_route_def)
qed simp

lemma routeEntriesFromEndpointSettings_fixed:
  assumes "routeEntriesFromEndpointSettings s es = Inr (ns, rs)"
  shows "routeEntriesFromEndpointSettings s ns = Inr (ns, rs)"
proof -
  note spec = routeEntriesFromEndpointSettings_spec [OF assms]
  show ?thesis
    using spec route_entries_loop_fixed [of ns s "[]"]
    by (simp add: routeEntriesFromEndpointSettings_def comp_def)
qed

text \<open>What is stored for an endpoint, spelt out.\<close>

definition endpoint_taken_from :: "endpoint_settings \<Rightarrow> endpoint_settings \<Rightarrow> bool" where
  "endpoint_taken_from e n \<longleftrightarrow> EndpointPath n = trim_space (EndpointPath e) \<and>
     EndpointMethod n = to_upper (trim_space (EndpointMethod e)) \<and>
     EndpointRoles n = map trim_space (EndpointRoles e) \<and> [] \<notin> set (EndpointRoles n)"

lemma route_entries_loop_taken:
  "route_entries_loop s seen es = Inr (ns, rs) \<Longrightarrow> list_all2 endpoint_taken_from es ns"
proof (induction s seen es arbitrary: ns rs rule: route_entries_loop.induct)
  case (2 s seen e es)
  let ?path = "NormalizeHTTPPath (EndpointPath e)" and ?m = "NormalizeHTTPMethod (EndpointMethod e)"
  obtain roles ns' rs' where roles: "NormalizeRoles (EndpointRoles e) = Some roles"
    and new: "?path \<noteq> []" "?m \<noteq> []" "\<lparr>KeyMethod = ?m, KeyPath = ?path\<rparr> \<notin> set seen"
    and rec: "route_entries_loop s (\<lparr>KeyMethod = ?m, KeyPath = ?path\<rparr> # seen) es = Inr (ns', rs')"
    and eq: "ns = \<lparr>EndpointPath = ?path, EndpointMethod = ?m, EndpointRoles = roles\<rparr> # ns'"
    using "2.prems" by (auto simp: Let_def split: if_splits option.splits sum.splits prod.splits)
  have "list_all2 endpoint_taken_from es ns'" by (rule "2.IH" [OF refl refl new(1,2) roles refl new(3) rec])
  moreover have "endpoint_taken_from e \<lparr>EndpointPath = ?path, EndpointMethod = ?m, EndpointRoles = roles\<rparr>"
    using roles by (auto simp: endpoint_taken_from_def NormalizeRoles_Some_iff NormalizeHTTPPath_def NormalizeHTTPMethod_def
        NormalizeUpper_def NormalizeTrimmed_def)
  ultimately show ?case by (simp add: eq)
qed simp

lemma buildService_endpoints:
  "buildService c name s inst = Inr (svc, rs) \<Longrightarrow> list_all2 endpoint_taken_from (Endpoints s) (SvcEndpoints svc)"
  by (auto simp: buildService_def convertSettings_def Let_def routeEntriesFromEndpointSettings_def
      split: sum.splits option.splits prod.splits dest: route_entries_loop_taken)

section \<open>Removing and adding the routes of a service\<close>

lemma compact_routes_spec:
  "n \<le> i \<Longrightarrow> i \<le> length rs \<Longrightarrow> compact_routes s i n rs = (m, rs') \<Longrightarrow>
   n \<le> m \<and> m \<le> length rs' \<and>
   take m rs' = take n rs @ filter (\<lambda>r. RouteService r \<noteq> s) (drop i rs)"
proof (induction s i n rs arbitrary: m rs' rule: compact_routes.induct)
  case (1 s i n rs)
  show ?case
  proof (cases "i < length rs")
    case True
    then have d: "drop i rs = rs ! i # drop (Suc i) rs" by (simp add: Cons_nth_drop_Suc)
    show ?thesis
    proof (cases "RouteService (rs ! i) \<noteq> s")
      case keep: True
      have "compact_routes s (Suc i) (Suc n) (rs[n := rs ! i]) = (m, rs')"
        using "1.prems" True keep by (subst (asm) compact_routes.simps) (simp add: Let_def)
      moreover have "take (Suc n) (rs[n := rs ! i]) = take n rs @ [rs ! i]"
        using True "1.prems" by (simp add: take_Suc_conv_app_nth)
      moreover have "drop (Suc i) (rs[n := rs ! i]) = drop (Suc i) rs"
        using "1.prems" by (simp add: drop_update_cancel)
      ultimately show ?thesis using "1.IH"(1) [OF True refl] "1.prems" True keep d
        by (fastforce simp: )
    next
      case drop: False
      have "compact_routes s (Suc i) n rs = (m, rs')"
        using "1.prems" True drop by (subst (asm) compact_routes.simps) (simp add: Let_def)
      then show ?thesis using "1.IH"(2) [OF True refl] "1.prems" True drop d by fastforce
    qed
  next
    case False
    then show ?thesis using "1.prems" by (subst (asm) compact_routes.simps) simp
  qed
qed

lemma clear_routes_take [simp]: "n \<le> i \<Longrightarrow> take n (clear_routes i rs) = take n rs"
proof (induction i rs rule: clear_routes.induct)
  case (1 i rs)
  then show ?case by (subst clear_routes.simps) simp
qed

text \<open>The in-place compaction is a filter.\<close>

lemma removeServiceRoutes_eq:
  "removeServiceRoutes s c = c
     \<lparr>Routes := gomap_keep (\<lambda>key route. RouteService route \<noteq> s) (Routes c),
      WildcardRoutes := filter (\<lambda>r. RouteService r \<noteq> s) (WildcardRoutes c)\<rparr>"
proof -
  obtain m rs where m: "compact_routes s 0 0 (WildcardRoutes c) = (m, rs)" by fastforce
  have "take m rs = filter (\<lambda>r. RouteService r \<noteq> s) (WildcardRoutes c)"
    using compact_routes_spec [OF _ _ m] by simp
  then show ?thesis using m by (simp add: removeServiceRoutes_def)
qed

end
