(* ===== verification/GoJson.thy ===== *)
theory GoJson
  imports GoStrings GoTime
begin

text \<open>
  What the program uses of \<open>encoding/json\<close>, \<open>encoding/base64\<close> and \<open>strconv.ParseFloat\<close>.

  \<^item> \<open>json_parse\<close> reads a document into a value of type \<open>json\<close>; an object keeps its members in
    order, duplicates included, and a number keeps its literal. Strings are UTF-8 byte lists;
    invalid bytes and lone surrogates become U+FFFD, as \<open>json.Unmarshal\<close> does. The limit of 10000
    nested levels is left out.
  \<^item> Decoding into a struct visits the members in order and updates the field whose name matches,
    exactly or up to case (\<open>equal_fold\<close>); \<open>null\<close> leaves a string or a struct as it is and empties a
    slice. A slice that is decoded twice keeps its old elements as the start values of the new ones; what
    a third member of the same name would find behind the end of a shortened slice is left out.
  \<^item> \<open>raw_url_decode\<close> is \<open>base64.RawURLEncoding.DecodeString\<close>: no padding, line breaks are skipped, the
    unused bits of the last character are not looked at.
\<close>

section \<open>JSON values\<close>

datatype json =
    JNull
  | JBool bool
  | JNumber string
  | JString string
  | JArray "json list"
  | JObject "(string \<times> json) list"

section \<open>Lexical elements\<close>

definition is_json_space :: "char \<Rightarrow> bool" where
  "is_json_space c \<longleftrightarrow> c \<in> {CHR 0x20, CHR 0x09, CHR 0x0A, CHR 0x0D}"

definition skip_space :: "string \<Rightarrow> string" where
  "skip_space s = dropWhile is_json_space s"

definition hex_val :: "char \<Rightarrow> nat option" where
  "hex_val c = (let n = of_char c :: nat in
     if 48 \<le> n \<and> n \<le> 57 then Some (n - 48)
     else if 65 \<le> n \<and> n \<le> 70 then Some (n - 55)
     else if 97 \<le> n \<and> n \<le> 102 then Some (n - 87) else None)"

fun hex_digits :: "nat \<Rightarrow> nat \<Rightarrow> string \<Rightarrow> (nat \<times> string) option" where
  "hex_digits 0 v s = Some (v, s)"
| "hex_digits (Suc k) v s = (case s of [] \<Rightarrow> None
     | c # t \<Rightarrow> (case hex_val c of None \<Rightarrow> None | Some d \<Rightarrow> hex_digits k (16 * v + d) t))"

definition replacement :: string where
  "replacement = [CHR 0xEF, CHR 0xBF, CHR 0xBD]"

definition utf8_encode :: "nat \<Rightarrow> string" where
  "utf8_encode r =
     (if r < 0x80 then [char_of r]
      else if r < 0x800 then [char_of (0xC0 + r div 64), char_of (0x80 + r mod 64)]
      else if r < 0x10000 then
        [char_of (0xE0 + r div 4096), char_of (0x80 + r div 64 mod 64), char_of (0x80 + r mod 64)]
      else [char_of (0xF0 + r div 262144), char_of (0x80 + r div 4096 mod 64),
            char_of (0x80 + r div 64 mod 64), char_of (0x80 + r mod 64)])"

text \<open>The length of the UTF-8 sequence at the head of a string, 0 when there is none.\<close>

definition utf8_len :: "string \<Rightarrow> nat" where
  "utf8_len s =
     (let b = (\<lambda>i. if i < length s then of_char (s ! i) else (0 :: nat));
          cont = (\<lambda>i. 0x80 \<le> b i \<and> b i \<le> 0xBF);
          x = b 0
      in if s = [] then 0
         else if x < 0x80 then 1
         else if 0xC2 \<le> x \<and> x \<le> 0xDF then (if cont 1 then 2 else 0)
         else if 0xE0 \<le> x \<and> x \<le> 0xEF then
           (if cont 1 \<and> cont 2 \<and> (x = 0xE0 \<longrightarrow> 0xA0 \<le> b 1) \<and> (x = 0xED \<longrightarrow> b 1 \<le> 0x9F) then 3 else 0)
         else if 0xF0 \<le> x \<and> x \<le> 0xF4 then
           (if cont 1 \<and> cont 2 \<and> cont 3 \<and> (x = 0xF0 \<longrightarrow> 0x90 \<le> b 1) \<and> (x = 0xF4 \<longrightarrow> b 1 \<le> 0x8F) then 4 else 0)
         else 0)"

definition escape_char :: "char \<Rightarrow> char option" where
  "escape_char e = map_of [(CHR 0x22, CHR 0x22), (CHR 0x5C, CHR 0x5C), (CHR ''/'', CHR ''/''),
     (CHR ''b'', CHR 0x08), (CHR ''f'', CHR 0x0C), (CHR ''n'', CHR 0x0A), (CHR ''r'', CHR 0x0D),
     (CHR ''t'', CHR 0x09)] e"

text \<open>\<open>\uXXXX\<close>, after the \<open>u\<close>: the character and the rest; a pair of surrogates is one character.\<close>

definition unicode_escape :: "string \<Rightarrow> (string \<times> string) option" where
  "unicode_escape s = (case hex_digits 4 0 s of None \<Rightarrow> None
   | Some (x, t) \<Rightarrow>
       if x < 0xD800 \<or> 0xDFFF < x then Some (utf8_encode x, t)
       else (case (if take 2 t = [CHR 0x5C, CHR ''u''] then hex_digits 4 0 (drop 2 t) else None) of
          Some (y, u) \<Rightarrow>
            if x \<le> 0xDBFF \<and> 0xDC00 \<le> y \<and> y \<le> 0xDFFF
            then Some (utf8_encode ((x - 0xD800) * 1024 + (y - 0xDC00) + 0x10000), u)
            else Some (replacement, t)
        | None \<Rightarrow> Some (replacement, t)))"

text \<open>One character of a string, escapes included, and the rest.\<close>

definition json_piece :: "char \<Rightarrow> string \<Rightarrow> (string \<times> string) option" where
  "json_piece c t =
     (if c = CHR 0x5C then
        (case t of [] \<Rightarrow> None
         | e # u \<Rightarrow> if e = CHR ''u'' then unicode_escape u
                    else (case escape_char e of None \<Rightarrow> None | Some d \<Rightarrow> Some ([d], u)))
      else if of_char c < (32 :: nat) then None
      else if utf8_len (c # t) = 0 then Some (replacement, t)
      else Some (take (utf8_len (c # t)) (c # t), drop (utf8_len (c # t)) (c # t)))"

text \<open>The characters up to the closing quote; \<open>fuel\<close> bounds the characters left.\<close>

fun json_chars :: "nat \<Rightarrow> string \<Rightarrow> (string \<times> string) option" where
  "json_chars 0 s = None"
| "json_chars (Suc fuel) s = (case s of [] \<Rightarrow> None
   | c # t \<Rightarrow>
       if c = CHR 0x22 then Some ([], t)
       else (case json_piece c t of None \<Rightarrow> None
         | Some (piece, rest) \<Rightarrow>
             (case json_chars fuel rest of None \<Rightarrow> None | Some (w, r) \<Rightarrow> Some (piece @ w, r))))"

definition digits_prefix :: "string \<Rightarrow> string \<times> string" where
  "digits_prefix s = (takeWhile is_digit s, dropWhile is_digit s)"

text \<open>The parts of a number literal at the head of a string: sign, digits, fraction, exponent.\<close>

definition number_sign :: "string \<Rightarrow> string \<times> string" where
  "number_sign s = (case s of c # t \<Rightarrow> if c = CHR ''-'' then ([c], t) else ([], s) | [] \<Rightarrow> ([], s))"

definition number_whole :: "string \<Rightarrow> (string \<times> string) option" where
  "number_whole s = (case s of [] \<Rightarrow> None
   | c # t \<Rightarrow> if c = CHR ''0'' then Some ([c], t)
              else if is_digit c then Some (digits_prefix s) else None)"

definition number_frac :: "string \<Rightarrow> (string \<times> string) option" where
  "number_frac s = (case s of
     c # t \<Rightarrow> if c = CHR ''.'' then
         (let (ds, r) = digits_prefix t in if ds = [] then None else Some (c # ds, r))
       else Some ([], s)
   | [] \<Rightarrow> Some ([], s))"

definition number_exp :: "string \<Rightarrow> (string \<times> string) option" where
  "number_exp s = (case s of
     c # t \<Rightarrow> if c = CHR ''e'' \<or> c = CHR ''E'' then
         (let (sg, u) = (case t of d # u \<Rightarrow> if d = CHR ''+'' \<or> d = CHR ''-'' then ([d], u) else ([], t) | [] \<Rightarrow> ([], t));
              (ds, r) = digits_prefix u
          in if ds = [] then None else Some (c # sg @ ds, r))
       else Some ([], s)
   | [] \<Rightarrow> Some ([], s))"

definition json_number :: "string \<Rightarrow> (string \<times> string) option" where
  "json_number s =
     (let (sign, s) = number_sign s in
      case number_whole s of None \<Rightarrow> None
      | Some (whole, s) \<Rightarrow> (case number_frac s of None \<Rightarrow> None
        | Some (fr, s) \<Rightarrow> (case number_exp s of None \<Rightarrow> None
          | Some (ex, s) \<Rightarrow> Some (sign @ whole @ fr @ ex, s))))"

section \<open>Documents\<close>

text \<open>
  The reader; every call uses one unit of \<open>fuel\<close>. The fuel \<open>2 * length s + 1\<close> is enough: any larger fuel
  reads the same value (\<open>json_parse_fuel\<close> below).
\<close>

fun json_value :: "nat \<Rightarrow> string \<Rightarrow> (json \<times> string) option"
  and json_elements :: "nat \<Rightarrow> string \<Rightarrow> (json list \<times> string) option"
  and json_members :: "nat \<Rightarrow> string \<Rightarrow> ((string \<times> json) list \<times> string) option" where
  "json_value 0 s = None"
| "json_value (Suc fuel) s = (case skip_space s of [] \<Rightarrow> None
   | c # t \<Rightarrow>
       if c = CHR 0x22 then map_option (\<lambda>(w, r). (JString w, r)) (json_chars (length t) t)
       else if c = CHR ''['' then
         (case skip_space t of
            d # u \<Rightarrow> if d = CHR '']'' then Some (JArray [], u)
                     else map_option (\<lambda>(xs, r). (JArray xs, r)) (json_elements fuel t)
          | [] \<Rightarrow> None)
       else if c = CHR ''{'' then
         (case skip_space t of
            d # u \<Rightarrow> if d = CHR ''}'' then Some (JObject [], u)
                     else map_option (\<lambda>(ms, r). (JObject ms, r)) (json_members fuel t)
          | [] \<Rightarrow> None)
       else if has_prefix (c # t) ''true'' then Some (JBool True, drop 3 t)
       else if has_prefix (c # t) ''false'' then Some (JBool False, drop 4 t)
       else if has_prefix (c # t) ''null'' then Some (JNull, drop 3 t)
       else map_option (\<lambda>(l, r). (JNumber l, r)) (json_number (c # t)))"
| "json_elements 0 s = None"
| "json_elements (Suc fuel) s = (case json_value fuel s of None \<Rightarrow> None
   | Some (v, r) \<Rightarrow> (case skip_space r of [] \<Rightarrow> None
     | c # t \<Rightarrow>
         if c = CHR '','' then map_option (\<lambda>(vs, u). (v # vs, u)) (json_elements fuel t)
         else if c = CHR '']'' then Some ([v], t)
         else None))"
| "json_members 0 s = None"
| "json_members (Suc fuel) s = (case skip_space s of [] \<Rightarrow> None
   | q # s1 \<Rightarrow>
       if q \<noteq> CHR 0x22 then None
       else (case json_chars (length s1) s1 of None \<Rightarrow> None
       | Some (k, s2) \<Rightarrow> (case skip_space s2 of [] \<Rightarrow> None
         | colon # s3 \<Rightarrow>
             if colon \<noteq> CHR '':'' then None
             else (case json_value fuel s3 of None \<Rightarrow> None
             | Some (v, r) \<Rightarrow> (case skip_space r of [] \<Rightarrow> None
               | c # t \<Rightarrow>
                   if c = CHR '','' then map_option (\<lambda>(ms, u). ((k, v) # ms, u)) (json_members fuel t)
                   else if c = CHR ''}'' then Some ([(k, v)], t)
                   else None)))))"

definition json_parse :: "string \<Rightarrow> json option" where
  "json_parse s = (case json_value (2 * length s + 1) s of
     Some (v, r) \<Rightarrow> if skip_space r = [] then Some v else None
   | None \<Rightarrow> None)"

section \<open>Decoding into Go values\<close>

text \<open>A string field, a struct field by field, and a slice.\<close>

definition decode_string :: "string \<Rightarrow> json \<Rightarrow> string option" where
  "decode_string old j = (case j of JNull \<Rightarrow> Some old | JString s \<Rightarrow> Some s | _ \<Rightarrow> None)"

fun decode_members :: "(string \<Rightarrow> json \<Rightarrow> 'r \<Rightarrow> 'r option) \<Rightarrow> (string \<times> json) list \<Rightarrow> 'r \<Rightarrow> 'r option" where
  "decode_members field [] r = Some r"
| "decode_members field ((k, j) # ms) r = (case field k j r of None \<Rightarrow> None | Some r \<Rightarrow> decode_members field ms r)"

definition decode_struct :: "(string \<Rightarrow> json \<Rightarrow> 'r \<Rightarrow> 'r option) \<Rightarrow> 'r \<Rightarrow> json \<Rightarrow> 'r option" where
  "decode_struct field old j = (case j of JNull \<Rightarrow> Some old | JObject ms \<Rightarrow> decode_members field ms old | _ \<Rightarrow> None)"

fun decode_elements :: "('a \<Rightarrow> json \<Rightarrow> 'a option) \<Rightarrow> 'a \<Rightarrow> 'a list \<Rightarrow> json list \<Rightarrow> 'a list option" where
  "decode_elements dec zero olds [] = Some []"
| "decode_elements dec zero olds (j # js) =
     (case dec (case olds of [] \<Rightarrow> zero | old # _ \<Rightarrow> old) j of None \<Rightarrow> None
      | Some x \<Rightarrow> map_option (\<lambda>xs. x # xs) (decode_elements dec zero (drop 1 olds) js))"

definition decode_slice :: "('a \<Rightarrow> json \<Rightarrow> 'a option) \<Rightarrow> 'a \<Rightarrow> 'a list \<Rightarrow> json \<Rightarrow> 'a list option" where
  "decode_slice dec zero old j = (case j of
     JNull \<Rightarrow> Some [] | JArray js \<Rightarrow> decode_elements dec zero old js | _ \<Rightarrow> None)"

section \<open>Numbers\<close>

definition pow10 :: "int \<Rightarrow> rat" where
  "pow10 e = (if 0 \<le> e then 10 ^ nat e else 1 / 10 ^ nat (- e))"

text \<open>The exact value of a number literal.\<close>

definition literal_value :: "string \<Rightarrow> rat" where
  "literal_value l =
     (let neg = has_prefix l ''-'';
          body = (if neg then tl l else l);
          mant = takeWhile (\<lambda>c. c \<noteq> CHR ''e'' \<and> c \<noteq> CHR ''E'') body;
          ex = drop (length mant + 1) body;
          whole = takeWhile (\<lambda>c. c \<noteq> CHR ''.'') mant;
          frac = drop (length whole + 1) mant;
          e = (case ex of [] \<Rightarrow> 0
               | c # t \<Rightarrow> if c = CHR ''-'' then - int (digits_val t)
                          else if c = CHR ''+'' then int (digits_val t) else int (digits_val ex));
          m = of_nat (digits_val (whole @ frac)) * pow10 (e - int (length frac))
      in if neg then - m else m)"

text \<open>\<open>strconv.ParseFloat(l, 64)\<close> of a literal: the nearest binary64, an error when out of range.\<close>

definition parse_float :: "string \<Rightarrow> float64 option" where
  "parse_float l = (let x = round64 (literal_value l) in if \<bar>x\<bar> < 2 ^ 1024 then Some x else None)"

text \<open>\<open>int64(x)\<close>; out of range the amd64 instruction gives the least integer.\<close>

definition truncate_rat :: "rat \<Rightarrow> int" where
  "truncate_rat x = (if 0 \<le> x then \<lfloor>x\<rfloor> else - \<lfloor>- x\<rfloor>)"

definition int64_of_float :: "float64 \<Rightarrow> int" where
  "int64_of_float x = (let i = truncate_rat x in if - (2 ^ 63) \<le> i \<and> i < 2 ^ 63 then i else - (2 ^ 63))"

text \<open>\<open>time.Unix(sec, nsec)\<close>: the seconds are kept relative to the year 1 in 64 bits.\<close>

definition time_of_unix :: "int \<Rightarrow> int \<Rightarrow> time" where
  "time_of_unix sec nsec =
     (let sec = wrap_i64 (sec + nsec div second); nsec = nsec mod second in
      (wrap_i64 (sec + 62135596800) - 62135596800) * second + nsec)"

text \<open>\<open>t.Add(d)\<close>: exact, except that the seconds since the year 1 saturate at 64 bits.\<close>

definition time_add :: "time \<Rightarrow> duration \<Rightarrow> time" where
  "time_add t d =
     (let n = t mod second + go_mod d second;
          ext = t div second + 62135596800 + go_div d second + n div second;
          ext = (if ext \<ge> 2 ^ 63 then 2 ^ 63 - 1 else if ext < - (2 ^ 63) then - (2 ^ 63) + 1 else ext)
      in (ext - 62135596800) * second + n mod second)"

section \<open>Base64\<close>

definition base64_chars :: string where
  "base64_chars = ''ABCDEFGHIJKLMNOPQRSTUVWXYZabcdefghijklmnopqrstuvwxyz0123456789-_''"

definition base64_val :: "char \<Rightarrow> nat option" where
  "base64_val c = index_of c base64_chars"

fun base64_vals :: "string \<Rightarrow> nat list option" where
  "base64_vals [] = Some []"
| "base64_vals (c # s) = (case base64_val c of None \<Rightarrow> None | Some v \<Rightarrow> map_option (\<lambda>vs. v # vs) (base64_vals s))"

fun bytes_of_sextets :: "nat list \<Rightarrow> string option" where
  "bytes_of_sextets [] = Some []"
| "bytes_of_sextets [a] = None"
| "bytes_of_sextets [a, b] = Some [char_of (4 * a + b div 16)]"
| "bytes_of_sextets [a, b, c] = Some [char_of (4 * a + b div 16), char_of (b mod 16 * 16 + c div 4)]"
| "bytes_of_sextets (a # b # c # d # vs) =
     map_option (\<lambda>bs. char_of (4 * a + b div 16) # char_of (b mod 16 * 16 + c div 4) # char_of (c mod 4 * 64 + d) # bs)
       (bytes_of_sextets vs)"

definition raw_url_decode :: "string \<Rightarrow> string option" where
  "raw_url_decode s =
     (case base64_vals (filter (\<lambda>c. c \<noteq> CHR 0x0A \<and> c \<noteq> CHR 0x0D) s) of
        None \<Rightarrow> None | Some vs \<Rightarrow> bytes_of_sextets vs)"

fun sextets_of_bytes :: "nat list \<Rightarrow> nat list" where
  "sextets_of_bytes [] = []"
| "sextets_of_bytes [x] = [x div 4, x mod 4 * 16]"
| "sextets_of_bytes [x, y] = [x div 4, x mod 4 * 16 + y div 16, y mod 16 * 4]"
| "sextets_of_bytes (x # y # z # bs) =
     x div 4 # (x mod 4 * 16 + y div 16) # (y mod 16 * 4 + z div 64) # z mod 64 # sextets_of_bytes bs"

definition raw_url_encode :: "string \<Rightarrow> string" where
  "raw_url_encode s = map (\<lambda>v. base64_chars ! v) (sextets_of_bytes (map of_char s))"

section \<open>Base64 round trip\<close>

lemma sextets_bound: "list_all (\<lambda>x. x < 256) xs \<Longrightarrow> v \<in> set (sextets_of_bytes xs) \<Longrightarrow> v < 64"
proof (induction xs rule: sextets_of_bytes.induct)
  case (4 x y z bs)
  have "x div 4 < 64" "x mod 4 * 16 + y div 16 < 64" "y mod 16 * 4 + z div 64 < 64" "z mod 64 < 64"
    using 4(2) by auto
  then show ?case using 4 by auto
qed auto

lemma base64_val_inv: "v < 64 \<Longrightarrow> base64_val (base64_chars ! v) = Some v"
proof -
  have "list_all (\<lambda>v. base64_val (base64_chars ! v) = Some v) [0 ..< 64]" by code_simp
  then show "v < 64 \<Longrightarrow> base64_val (base64_chars ! v) = Some v" by (simp add: list_all_iff)
qed

lemma base64_vals_inv: "\<forall>v \<in> set vs. v < 64 \<Longrightarrow> base64_vals (map (\<lambda>v. base64_chars ! v) vs) = Some vs"
  by (induction vs) (simp_all add: base64_val_inv)

lemma base64_no_breaks: "v < 64 \<Longrightarrow> base64_chars ! v \<noteq> CHR 0x0A \<and> base64_chars ! v \<noteq> CHR 0x0D"
proof -
  have "CHR 0x0A \<notin> set base64_chars" "CHR 0x0D \<notin> set base64_chars" "length base64_chars = 64"
    by (simp_all add: base64_chars_def)
  then show "v < 64 \<Longrightarrow> base64_chars ! v \<noteq> CHR 0x0A \<and> base64_chars ! v \<noteq> CHR 0x0D"
    by (metis nth_mem)
qed

lemma bytes_of_sextets_inv:
  "list_all (\<lambda>x. x < 256) xs \<Longrightarrow> bytes_of_sextets (sextets_of_bytes xs) = Some (map char_of xs)"
proof (induction xs rule: sextets_of_bytes.induct)
  case (2 x)
  have "4 * (x div 4) + x mod 4 * 16 div 16 = x" by simp
  then show ?case by simp
next
  case (3 x y)
  have "(x mod 4 * 16 + y div 16) div 16 = x mod 4" "(x mod 4 * 16 + y div 16) mod 16 = y div 16"
    "y mod 16 * 4 div 4 = y mod 16" using 3 by auto
  then show ?case by simp
next
  case (4 x y z bs)
  have b: "y < 256" "z < 256" using 4(2) by simp_all
  have "(x mod 4 * 16 + y div 16) div 16 = x mod 4" "(x mod 4 * 16 + y div 16) mod 16 = y div 16"
    "(y mod 16 * 4 + z div 64) div 4 = y mod 16" "(y mod 16 * 4 + z div 64) mod 4 = z div 64"
    using b by auto
  then show ?case using 4 by simp
qed simp

lemma raw_url_decode_encode: "raw_url_decode (raw_url_encode s) = Some s"
proof -
  let ?xs = "map of_char s :: nat list" and ?vs = "sextets_of_bytes (map of_char s)"
  have b: "list_all (\<lambda>x. x < 256) ?xs" by (simp add: list_all_iff)
  then have v: "\<forall>v \<in> set ?vs. v < 64" using sextets_bound by blast
  have "filter (\<lambda>c. c \<noteq> CHR 0x0A \<and> c \<noteq> CHR 0x0D) (raw_url_encode s) = raw_url_encode s"
    using v base64_no_breaks by (auto simp: raw_url_encode_def filter_id_conv)
  moreover have "base64_vals (raw_url_encode s) = Some ?vs"
    unfolding raw_url_encode_def by (rule base64_vals_inv [OF v])
  moreover have "bytes_of_sextets ?vs = Some s" using bytes_of_sextets_inv [OF b] by (simp add: comp_def)
  ultimately show ?thesis by (simp add: raw_url_decode_def)
qed

section \<open>The fuel of the reader is enough\<close>

lemma skip_space_length: "length (skip_space s) \<le> length s"
  by (simp add: skip_space_def length_dropWhile_le)

lemma hex_digits_length: "hex_digits k v s = Some (x, t) \<Longrightarrow> length t + k = length s"
  by (induction k v s rule: hex_digits.induct) (auto split: option.splits list.splits)

lemma unicode_escape_length: "unicode_escape s = Some (p, t) \<Longrightarrow> length t \<le> length s"
  by (auto simp: unicode_escape_def split: option.splits if_splits dest!: hex_digits_length)

lemma json_piece_length: "json_piece c t = Some (p, r) \<Longrightarrow> length r \<le> length t"
  by (auto simp: json_piece_def split: if_splits list.splits option.splits dest: unicode_escape_length)

lemma json_chars_length: "json_chars fuel s = Some (w, r) \<Longrightarrow> length r < length s"
proof (induction fuel arbitrary: s w r)
  case (Suc fuel)
  then obtain c t where s: "s = c # t" by (cases s) auto
  show ?case
  proof (cases "c = CHR 0x22")
    case False
    then obtain p rest w' where "json_piece c t = Some (p, rest)" "json_chars fuel rest = Some (w', r)"
      using Suc.prems s by (auto split: option.splits)
    then show ?thesis using Suc.IH json_piece_length s by fastforce
  qed (use Suc.prems s in simp)
qed simp

lemma digits_prefix_length: "digits_prefix s = (ds, r) \<Longrightarrow> length r + length ds = length s"
  by (auto simp: digits_prefix_def) (metis add.commute length_append takeWhile_dropWhile_id)


lemma number_part_lengths:
  "number_sign s = (x, r) \<Longrightarrow> length r \<le> length s"
  "number_whole s = Some (x, r) \<Longrightarrow> length r < length s"
  "number_frac s = Some (x, r) \<Longrightarrow> length r \<le> length s"
  "number_exp s = Some (x, r) \<Longrightarrow> length r \<le> length s"
proof -
  show "number_sign s = (x, r) \<Longrightarrow> length r \<le> length s"
    by (auto simp: number_sign_def split: list.splits if_splits)
  show "number_whole s = Some (x, r) \<Longrightarrow> length r < length s"
    by (auto simp: number_whole_def digits_prefix_def length_dropWhile_le less_Suc_eq_le split: list.splits if_splits)
  show "number_frac s = Some (x, r) \<Longrightarrow> length r \<le> length s"
    by (auto simp: number_frac_def split: list.splits if_splits prod.splits dest!: digits_prefix_length)
  show "number_exp s = Some (x, r) \<Longrightarrow> length r \<le> length s"
    by (auto simp: number_exp_def split: list.splits if_splits prod.splits dest!: digits_prefix_length)
qed

lemma json_number_length: "json_number s = Some (l, r) \<Longrightarrow> length r < length s"
  unfolding json_number_def
  by (fastforce split: prod.splits option.splits dest!: number_part_lengths)

lemma json_rest_length:
  "json_value n s = Some (v, r) \<Longrightarrow> length r < length s"
  "json_elements n s = Some (vs, r) \<Longrightarrow> length r < length s"
  "json_members n s = Some (ms, r) \<Longrightarrow> length r < length s"
proof (induction n s and n s and n s arbitrary: v r and vs r and ms r rule: json_value_json_elements_json_members.induct)
  case (2 fuel s)
  obtain c t where ct: "skip_space s = c # t" using 2(3) by (cases "skip_space s") auto
  then have len: "length t < length s" using skip_space_length [of s] by simp
  have sk: "length (skip_space t) \<le> length t" by (rule skip_space_length)
  show ?case using 2 ct len sk json_number_length [of "c # t"]
    by (auto split: if_splits list.splits dest: json_chars_length) fastforce+
next
  case (4 fuel s)
  then obtain w u where w: "json_value fuel s = Some (w, u)" by (auto split: option.splits)
  then have "length u < length s" using 4(1) by blast
  moreover have "length (skip_space u) \<le> length u" by (rule skip_space_length)
  ultimately show ?case using 4 w by (auto split: list.splits if_splits) fastforce+
next
  case (6 fuel s)
  obtain q s1 where q: "skip_space s = q # s1" "q = CHR 0x22" using 6(3) by (auto split: list.splits if_splits)
  then obtain k s2 where k: "json_chars (length s1) s1 = Some (k, s2)" using 6(3) by (auto split: option.splits)
  then obtain s3 where c: "skip_space s2 = CHR '':'' # s3" using 6(3) q by (auto split: list.splits if_splits)
  then obtain w u where w: "json_value fuel s3 = Some (w, u)" using 6(3) q k by (auto split: option.splits)
  have "length s1 < length s" using q(1) skip_space_length [of s] by simp
  moreover have "length s2 < length s1" using json_chars_length [OF k] .
  moreover have "length s3 < length s2" using c skip_space_length [of s2] by simp
  moreover have "length u < length s3" using 6(1) [OF q(1) _ k _ c] q(2) w by simp
  moreover have "length (skip_space u) \<le> length u" by (rule skip_space_length)
  ultimately have u: "length (skip_space u) < length s" by linarith
  show ?case using 6(2) [OF q(1) _ k _ c _ w] 6(3) q k c w u
    by (auto split: list.splits if_splits) fastforce+
qed simp_all


text \<open>Each reader depends on the fuel only through the readings below it.\<close>

lemma json_value_cong:
  assumes "\<And>c t d u. skip_space s = c # t \<Longrightarrow> c = CHR ''['' \<Longrightarrow> skip_space t = d # u \<Longrightarrow> d \<noteq> CHR '']'' \<Longrightarrow>
      json_elements n t = json_elements k t"
    and "\<And>c t d u. skip_space s = c # t \<Longrightarrow> c = CHR ''{'' \<Longrightarrow> skip_space t = d # u \<Longrightarrow> d \<noteq> CHR ''}'' \<Longrightarrow>
      json_members n t = json_members k t"
  shows "json_value (Suc n) s = json_value (Suc k) s"
proof (cases "skip_space s")
  case ct: (Cons c t)
  consider "c = CHR ''[''" | "c = CHR ''{''" | "c \<noteq> CHR ''[''" "c \<noteq> CHR ''{''" by blast
  then show ?thesis
  proof cases
    case 1
    then show ?thesis using assms(1) [OF ct 1] ct by (cases "skip_space t") simp_all
  next
    case 2
    then show ?thesis using assms(2) [OF ct 2] ct by (cases "skip_space t") simp_all
  next
    case 3
    then show ?thesis by (simp only: json_value.simps ct list.case if_False)
  qed
qed simp

lemma json_elements_cong:
  assumes "json_value n s = json_value k s"
    and "\<And>v r c t. json_value n s = Some (v, r) \<Longrightarrow> skip_space r = c # t \<Longrightarrow> c = CHR '','' \<Longrightarrow>
      json_elements n t = json_elements k t"
  shows "json_elements (Suc n) s = json_elements (Suc k) s"
proof (cases "json_value n s")
  case (Some p)
  obtain v r where n: "json_value n s = Some (v, r)" using Some by (cases p) simp
  then have k: "json_value k s = Some (v, r)" using assms(1) by simp
  show ?thesis
  proof (cases "skip_space r")
    case (Cons c t)
    then show ?thesis using assms(2) [OF n Cons] n k by (cases "c = CHR '',''") simp_all
  qed (simp add: n k)
qed (simp add: assms(1) [symmetric])

text \<open>Where the value of a member starts.\<close>

definition member_value_at :: "string \<Rightarrow> string \<Rightarrow> bool" where
  "member_value_at s s3 \<longleftrightarrow> (\<exists>s1 k s2. skip_space s = CHR 0x22 # s1 \<and> json_chars (length s1) s1 = Some (k, s2) \<and>
     skip_space s2 = CHR '':'' # s3)"

lemma member_value_at_length: "member_value_at s s3 \<Longrightarrow> length s3 < length s"
proof -
  assume "member_value_at s s3"
  then obtain s1 k s2 where "skip_space s = CHR 0x22 # s1" "json_chars (length s1) s1 = Some (k, s2)"
    "skip_space s2 = CHR '':'' # s3" unfolding member_value_at_def by blast
  then show ?thesis
    using skip_space_length [of s] skip_space_length [of s2] json_chars_length [of "length s1" s1 k s2] by simp
qed

lemma json_members_cong:
  assumes "\<And>s3. member_value_at s s3 \<Longrightarrow> json_value n s3 = json_value k s3"
    and "\<And>s3 v r c t. member_value_at s s3 \<Longrightarrow> json_value n s3 = Some (v, r) \<Longrightarrow> skip_space r = c # t \<Longrightarrow> c = CHR '','' \<Longrightarrow>
      json_members n t = json_members k t"
  shows "json_members (Suc n) s = json_members (Suc k) s"
proof (cases "\<exists>s3. member_value_at s s3")
  case True
  then obtain s1 key s2 s3 where at: "skip_space s = CHR 0x22 # s1" "json_chars (length s1) s1 = Some (key, s2)"
    "skip_space s2 = CHR '':'' # s3" and m: "member_value_at s s3" unfolding member_value_at_def by blast
  note v = assms(1) [OF m]
  show ?thesis
  proof (cases "json_value n s3")
    case (Some p)
    obtain w r where n: "json_value n s3 = Some (w, r)" using Some by (cases p) simp
    then have k: "json_value k s3 = Some (w, r)" using v by simp
    show ?thesis
    proof (cases "skip_space r")
      case (Cons c t)
      then show ?thesis using assms(2) [OF m n Cons] n k at by (cases "c = CHR '',''") simp_all
    qed (simp add: n k at)
  qed (simp add: at v [symmetric])
next
  case False
  then show ?thesis by (auto simp: member_value_at_def split: list.split option.split)
qed

lemma json_fuel:
  "2 * length s + 1 \<le> n \<Longrightarrow> 2 * length s + 1 \<le> m \<Longrightarrow> json_value n s = json_value m s"
  "2 * length s + 2 \<le> n \<Longrightarrow> 2 * length s + 2 \<le> m \<Longrightarrow> json_elements n s = json_elements m s"
  "2 * length s + 2 \<le> n \<Longrightarrow> 2 * length s + 2 \<le> m \<Longrightarrow> json_members n s = json_members m s"
proof (induction "length s" arbitrary: s n m rule: less_induct)
  case less
  have step: "json_value n s = json_value m s" if "2 * length s + 1 \<le> n" "2 * length s + 1 \<le> m" for n m
  proof -
    obtain n' m' where nm: "n = Suc n'" "m = Suc m'" using \<open>2 * length s + 1 \<le> n\<close> \<open>2 * length s + 1 \<le> m\<close>
      by (cases n; cases m) simp_all
    have "2 * length t + 2 \<le> n'" "2 * length t + 2 \<le> m'" "length t < length s" if "skip_space s = c # t" for c t
      using \<open>2 * length s + 1 \<le> n\<close> \<open>2 * length s + 1 \<le> m\<close> nm skip_space_length [of s] that by simp_all
    then show ?thesis unfolding nm using less by (intro json_value_cong) blast+
  qed
  {
    case 1
    then show ?case by (rule step)
  next
    case 2
    obtain n' m' where nm: "n = Suc n'" "m = Suc m'" using 2 by (cases n; cases m) simp_all
    have v: "json_value n' s = json_value m' s" using 2 nm by (intro step) simp_all
    have "json_elements n' t = json_elements m' t" if "json_value n' s = Some (v, r)" "skip_space r = c # t" for v r c t
      using less(2) [of t n' m'] json_rest_length(1) [OF that(1)] skip_space_length [of r] that(2) 2 nm by simp
    then show ?case unfolding nm using v by (intro json_elements_cong) blast+
  next
    case 3
    obtain n' m' where nm: "n = Suc n'" "m = Suc m'" using 3 by (cases n; cases m) simp_all
    have v: "json_value n' s3 = json_value m' s3" if "member_value_at s s3" for s3
      using less(1) [of s3 n' m'] member_value_at_length [OF that] 3 nm by simp
    have "json_members n' t = json_members m' t"
      if "member_value_at s s3" "json_value n' s3 = Some (v, r)" "skip_space r = c # t" for s3 v r c t
      using less(3) [of t n' m'] member_value_at_length [OF that(1)] json_rest_length(1) [OF that(2)]
        skip_space_length [of r] that(3) 3 nm by simp
    then show ?case unfolding nm using v by (intro json_members_cong) blast+
  }
qed

text \<open>Any larger fuel reads the same value.\<close>

lemma json_parse_fuel:
  "2 * length s + 1 \<le> n \<Longrightarrow> json_parse s =
     (case json_value n s of Some (v, r) \<Rightarrow> if skip_space r = [] then Some v else None | None \<Rightarrow> None)"
  using json_fuel(1) [of s n "2 * length s + 1"] by (simp add: json_parse_def)

end
