(* ===== verification/JsonText.thy ===== *)
theory JsonText
  imports GoJson
begin

text \<open>
  \<open>json.RawMessage\<close>: the text of a value inside a document. \<open>raw_object\<close> lists the members of an object with
  the text of their values, and \<open>decode_raw_struct\<close> decodes a struct whose fields look at that text. The lemmas
  show that the reader of \<open>GoJson\<close> is local: what it reads does not depend on what follows. So the text of a member
  read on its own gives the value of that member, and decoding from text agrees with decoding from values.
\<close>

section \<open>Objects with the text of their members\<close>

text \<open>The members of an object after its opening brace; \<open>fuel\<close> bounds their number.\<close>

fun raw_members :: "nat \<Rightarrow> string \<Rightarrow> (string \<times> string) list option" where
  "raw_members 0 s = None"
| "raw_members (Suc fuel) s = (case skip_space s of [] \<Rightarrow> None
   | q # s1 \<Rightarrow> (case json_chars (length s1) s1 of None \<Rightarrow> None
     | Some (k, s2) \<Rightarrow> (case skip_space s2 of [] \<Rightarrow> None
       | colon # s3 \<Rightarrow>
           (let s4 = skip_space s3 in
            case json_value (2 * length s4 + 1) s4 of None \<Rightarrow> None
            | Some (_, r) \<Rightarrow> (case skip_space r of [] \<Rightarrow> None
              | c # t \<Rightarrow>
                  (let m = (k, take (length s4 - length r) s4) in
                   if c = CHR '','' then map_option (\<lambda>ms. m # ms) (raw_members fuel t) else Some [m]))))))"

definition raw_object :: "string \<Rightarrow> (string \<times> string) list option" where
  "raw_object text = raw_members (length text) (tl (skip_space text))"

fun decode_raw_members :: "(string \<Rightarrow> string \<Rightarrow> 'r \<Rightarrow> 'r option) \<Rightarrow> (string \<times> string) list \<Rightarrow> 'r \<Rightarrow> 'r option" where
  "decode_raw_members field [] r = Some r"
| "decode_raw_members field ((k, raw) # ms) r =
     (case field k raw r of None \<Rightarrow> None | Some r \<Rightarrow> decode_raw_members field ms r)"

definition decode_raw_struct :: "(string \<Rightarrow> string \<Rightarrow> 'r \<Rightarrow> 'r option) \<Rightarrow> 'r \<Rightarrow> string \<Rightarrow> 'r option" where
  "decode_raw_struct field old text = (case json_parse text of
     Some JNull \<Rightarrow> Some old
   | Some (JObject ms) \<Rightarrow>
       if ms = [] then Some old
       else (case raw_object text of None \<Rightarrow> None | Some raws \<Rightarrow> decode_raw_members field raws old)
   | _ \<Rightarrow> None)"

section \<open>The reader is local\<close>

text \<open>
  \<open>cut r r'\<close>: \<open>r'\<close> may replace the rest \<open>r\<close> behind a value, because it is empty or starts with the same character.
\<close>

definition cut :: "string \<Rightarrow> string \<Rightarrow> bool" where
  "cut r r' \<longleftrightarrow> r' = [] \<or> (r \<noteq> [] \<and> r' \<noteq> [] \<and> hd r' = hd r)"

lemma cut_simps [simp]: "cut r []" "cut (c # r) (c # r')"
  by (simp_all add: cut_def)

lemma cut_append: "cut r r' \<Longrightarrow> cut (p @ r) (p @ r')"
  by (cases p) (auto simp: cut_def)

lemma cut_hd: "cut r (c # r') \<Longrightarrow> \<exists>t. r = c # t"
  by (cases r) (auto simp: cut_def)

lemma skip_space_split:
  assumes "skip_space s = c # t"
  obtains sp where "s = sp @ c # t" "\<And>t'. skip_space (sp @ c # t') = c # t'"
proof -
  let ?sp = "takeWhile is_json_space s"
  have "s = ?sp @ c # t" using assms takeWhile_dropWhile_id [of is_json_space s] by (simp add: skip_space_def)
  moreover have "\<not> is_json_space c" using assms hd_dropWhile [of is_json_space s] by (simp add: skip_space_def)
  then have "skip_space (?sp @ c # t') = c # t'" for t'
    unfolding skip_space_def by (subst dropWhile_append2) (auto dest: set_takeWhileD)
  ultimately show thesis using that by blast
qed

lemma skip_space_append: "skip_space p \<noteq> [] \<Longrightarrow> skip_space (p @ r) = skip_space p @ r"
  unfolding skip_space_def by (metis dropWhile_append dropWhile_eq_Nil_conv)

lemma skip_space_idem [simp]: "skip_space (skip_space s) = skip_space s"
  by (cases "skip_space s") (auto simp: skip_space_def dropWhile_eq_Cons_conv)

subsection \<open>Strings\<close>

lemma hex_val_quote [simp]: "hex_val CHR 0x22 = None"
  by code_simp

lemma hex_digits_local:
  "hex_digits k v s = Some (y, t) \<Longrightarrow> \<exists>ds. s = ds @ t \<and> (\<forall>t'. hex_digits k v (ds @ t') = Some (y, t'))"
proof (induction k arbitrary: v s)
  case (Suc k)
  then obtain c u d where c: "s = c # u" "hex_val c = Some d" "hex_digits k (16 * v + d) u = Some (y, t)"
    by (auto split: list.splits option.splits)
  then obtain ds where "u = ds @ t" "\<forall>t'. hex_digits k (16 * v + d) (ds @ t') = Some (y, t')" using Suc.IH by blast
  then show ?case using c by (intro exI [of _ "c # ds"]) simp
qed simp

lemma hex_digits_quote:
  "map_option fst (hex_digits k v (b @ CHR 0x22 # r)) = map_option fst (hex_digits k v (b @ CHR 0x22 # r'))"
proof (induction k arbitrary: v b)
  case (Suc k)
  then show ?case by (cases b) (auto split: option.split)
next
  case 0
  then show ?case by simp
qed

lemma utf8_len_quote: "utf8_len (c # b @ CHR 0x22 # r) = utf8_len (c # b @ CHR 0x22 # r')"
proof -
  consider "b = []" | b1 where "b = [b1]" | b1 b2 where "b = [b1, b2]" | b1 b2 b3 u where "b = b1 # b2 # b3 # u"
    by (cases b rule: list.exhaust; metis list.exhaust)
  then show ?thesis by cases (simp_all add: utf8_len_def Let_def)
qed

definition low_surrogate :: "string \<Rightarrow> (nat \<times> string) option" where
  "low_surrogate t = (if take 2 t = [CHR 0x5C, CHR ''u''] then hex_digits 4 0 (drop 2 t) else None)"

lemma low_surrogate_quote:
  "map_option fst (low_surrogate (b @ CHR 0x22 # r)) = map_option fst (low_surrogate (b @ CHR 0x22 # r'))"
proof -
  consider "b = []" | b1 where "b = [b1]" | b1 b2 w where "b = b1 # b2 # w" by (metis list.exhaust)
  then show ?thesis by cases (auto simp: low_surrogate_def intro: hex_digits_quote)
qed

lemma low_surrogate_local:
  assumes "low_surrogate t = Some (y, u)"
  shows "\<exists>ds. t = ds @ u \<and> (\<forall>u'. low_surrogate (ds @ u') = Some (y, u'))"
proof -
  obtain w where w: "t = CHR 0x5C # CHR ''u'' # w" "hex_digits 4 0 w = Some (y, u)"
    using assms by (cases t; cases "tl t") (auto simp: low_surrogate_def split: if_splits)
  then obtain ds where "w = ds @ u" "\<forall>u'. hex_digits 4 0 (ds @ u') = Some (y, u')" using hex_digits_local by blast
  then show ?thesis using w by (intro exI [of _ "CHR 0x5C # CHR ''u'' # ds"]) (simp add: low_surrogate_def)
qed

lemma unicode_escape_local:
  assumes "unicode_escape u = Some (piece, b @ CHR 0x22 # r)"
  shows "\<exists>x. u = x @ b @ CHR 0x22 # r \<and> (\<forall>r'. unicode_escape (x @ b @ CHR 0x22 # r') = Some (piece, b @ CHR 0x22 # r'))"
proof -
  note eq = unicode_escape_def [folded low_surrogate_def]
  obtain y t where y: "hex_digits 4 0 u = Some (y, t)" using assms by (auto simp: eq split: option.splits)
  then obtain ds where ds: "u = ds @ t" "\<And>t'. hex_digits 4 0 (ds @ t') = Some (y, t')" using hex_digits_local by blast
  define paired where "paired = (\<lambda>z :: nat. y \<le> 0xDBFF \<and> 0xDC00 \<le> z \<and> z \<le> 0xDFFF)"
  consider (single) "y < 0xD800 \<or> 0xDFFF < y"
    | (pair) z v where "\<not> (y < 0xD800 \<or> 0xDFFF < y)" "low_surrogate t = Some (z, v)" "paired z"
    | (lone) "\<not> (y < 0xD800 \<or> 0xDFFF < y)" "\<forall>z. map_option fst (low_surrogate t) = Some z \<longrightarrow> \<not> paired z"
  proof (cases "low_surrogate t")
    case (Some p)
    then show ?thesis using single pair [of "fst p" "snd p"] lone by (cases "paired (fst p)") auto
  qed (use single lone in auto)
  then show ?thesis
  proof cases
    case single
    then show ?thesis using assms y ds by (intro exI [of _ ds]) (auto simp: eq)
  next
    case pair
    obtain ds2 where ds2: "t = ds2 @ v" "\<And>v'. low_surrogate (ds2 @ v') = Some (z, v')"
      using low_surrogate_local [OF pair(2)] by blast
    have "v = b @ CHR 0x22 # r" using assms y pair by (simp add: eq paired_def)
    then show ?thesis
      using assms y ds ds2 pair by (intro exI [of _ "ds @ ds2"]) (simp add: eq paired_def)
  next
    case lone
    have out: "unicode_escape (ds @ t') = Some (replacement, t')" if "map_option fst (low_surrogate t') = map_option fst (low_surrogate t)" for t'
    proof -
      have "\<not> paired (fst q)" if "low_surrogate t' = Some q" for q
        using lone(2) that \<open>map_option fst (low_surrogate t') = map_option fst (low_surrogate t)\<close> [symmetric] by simp
      then show ?thesis using lone(1) ds(2) [of t'] by (cases "low_surrogate t'") (auto simp: eq paired_def)
    qed
    have t: "t = b @ CHR 0x22 # r" "piece = replacement" using assms out [of t] ds(1) by simp_all
    then show ?thesis using ds(1) out low_surrogate_quote [of b] by (intro exI [of _ ds]) auto
  qed
qed

lemma json_piece_local:
  assumes "json_piece c t = Some (piece, b @ CHR 0x22 # r)"
  shows "\<exists>x. t = x @ b @ CHR 0x22 # r \<and> (\<forall>r'. json_piece c (x @ b @ CHR 0x22 # r') = Some (piece, b @ CHR 0x22 # r'))"
proof (cases "c = CHR 0x5C")
  case True
  then obtain e u where e: "t = e # u" using assms by (cases t) (auto simp: json_piece_def)
  show ?thesis
  proof (cases "e = CHR ''u''")
    case True
    then have "unicode_escape u = Some (piece, b @ CHR 0x22 # r)" using assms e \<open>c = CHR 0x5C\<close> by (simp add: json_piece_def)
    then obtain x where "u = x @ b @ CHR 0x22 # r" "\<And>r'. unicode_escape (x @ b @ CHR 0x22 # r') = Some (piece, b @ CHR 0x22 # r')"
      using unicode_escape_local by blast
    then show ?thesis using e True \<open>c = CHR 0x5C\<close> by (intro exI [of _ "e # x"]) (simp add: json_piece_def)
  next
    case False
    then show ?thesis using assms e \<open>c = CHR 0x5C\<close>
      by (intro exI [of _ "[e]"]) (auto simp: json_piece_def split: option.splits)
  qed
next
  case False
  define n where "n = utf8_len (c # t)"
  have plain: "\<not> of_char c < (32 :: nat)" using assms False by (auto simp: json_piece_def split: if_splits)
  show ?thesis
  proof (cases "n = 0")
    case True
    then have t: "t = b @ CHR 0x22 # r" "piece = replacement" using assms False plain by (simp_all add: json_piece_def n_def)
    then have "utf8_len (c # b @ CHR 0x22 # r') = 0" for r' using True utf8_len_quote [of c b r r'] by (simp add: n_def)
    then show ?thesis using t False plain by (intro exI [of _ "[]"]) (simp add: json_piece_def)
  next
    case n: False
    then have p: "piece = take n (c # t)" "drop n (c # t) = b @ CHR 0x22 # r"
      using assms False plain by (simp_all add: json_piece_def n_def)
    obtain k where k: "n = Suc k" using n by (cases n) simp_all
    have len: "length (take k t) = k" using p(2) k by (simp add: not_le [symmetric]) (metis drop_eq_Nil2 list.distinct(1) Nil_is_append_conv nat_le_linear min.absorb2)
    have t: "t = take k t @ b @ CHR 0x22 # r" using p(2) k by (metis append_take_drop_id drop_Suc_Cons)
    have "utf8_len (c # take k t @ b @ CHR 0x22 # r') = n" for r'
      using utf8_len_quote [of c "take k t @ b" r r'] t by (simp add: n_def)
    then show ?thesis using t p(1) k len False plain
      by (intro exI [of _ "take k t"]) (auto simp: json_piece_def)
  qed
qed

lemma json_chars_local:
  "json_chars n s = Some (w, r) \<Longrightarrow> \<exists>p. s = p @ CHR 0x22 # r \<and>
     (\<forall>m r'. length p < m \<longrightarrow> json_chars m (p @ CHR 0x22 # r') = Some (w, r'))"
proof (induction n arbitrary: s w)
  case (Suc n)
  then obtain c t where s: "s = c # t" by (cases s) auto
  show ?case
  proof (cases "c = CHR 0x22")
    case True
    then have "json_chars m (CHR 0x22 # r') = Some ([], r')" if "0 < m" for m r' using that by (cases m) simp_all
    then show ?thesis using Suc.prems s True by (intro exI [of _ "[]"]) simp
  next
    case False
    then obtain piece rest w' where c: "json_piece c t = Some (piece, rest)" "json_chars n rest = Some (w', r)" "w = piece @ w'"
      using Suc.prems s by (auto split: option.splits)
    obtain p where p: "rest = p @ CHR 0x22 # r" "\<And>m r'. length p < m \<Longrightarrow> json_chars m (p @ CHR 0x22 # r') = Some (w', r')"
      using Suc.IH [OF c(2)] by blast
    obtain x where x: "t = x @ p @ CHR 0x22 # r" "\<And>r'. json_piece c (x @ p @ CHR 0x22 # r') = Some (piece, p @ CHR 0x22 # r')"
      using json_piece_local c(1) p(1) by blast
    have "json_chars m (c # x @ p @ CHR 0x22 # r') = Some (w, r')" if "length (c # x @ p) < m" for m r'
      using that x(2) p(2) [of "m - 1" r'] c(3) False by (cases m) auto
    then show ?thesis using s x(1) by (intro exI [of _ "c # x @ p"]) simp
  qed
qed simp

subsection \<open>Numbers\<close>

lemma digits_prefix_split:
  assumes "digits_prefix s = (ds, r)"
  shows "s = ds @ r" "list_all is_digit ds" "cut r r' \<Longrightarrow> digits_prefix (ds @ r') = (ds, r')"
proof -
  have d: "ds = takeWhile is_digit s" "r = dropWhile is_digit s" using assms by (simp_all add: digits_prefix_def)
  then show "s = ds @ r" by simp
  show all: "list_all is_digit ds" using d by (auto simp: list_all_iff dest: set_takeWhileD)
  have nd: "r \<noteq> [] \<Longrightarrow> \<not> is_digit (hd r)" unfolding d(2) by (rule hd_dropWhile)
  assume "cut r r'"
  then have "r' = [] \<or> \<not> is_digit (hd r')" using nd by (auto simp: cut_def)
  then have "takeWhile is_digit r' = []" "dropWhile is_digit r' = r'" by (cases r'; simp)+
  then show "digits_prefix (ds @ r') = (ds, r')"
    using all by (simp add: digits_prefix_def list_all_iff takeWhile_append2 dropWhile_append2)
qed

lemma number_whole_local:
  assumes "number_whole s = Some (w, r)"
  shows "s = w @ r \<and> w \<noteq> [] \<and> is_digit (hd w) \<and> (cut r r' \<longrightarrow> number_whole (w @ r') = Some (w, r'))"
proof -
  obtain c t where s: "s = c # t" using assms by (cases s) (auto simp: number_whole_def)
  show ?thesis
  proof (cases "c = CHR ''0''")
    case True
    then show ?thesis using assms s by (auto simp: number_whole_def is_digit_def)
  next
    case False
    then have c: "is_digit c" "digits_prefix s = (w, r)" using assms s by (auto simp: number_whole_def split: if_splits)
    note d = digits_prefix_split [OF c(2)]
    have "w \<noteq> []" using c s by (auto simp: digits_prefix_def)
    then obtain u where "w = c # u" using d(1) s by (cases w) auto
    then show ?thesis using d False c(1) by (auto simp: number_whole_def)
  qed
qed

lemma number_frac_local:
  assumes "number_frac s = Some (f, r)"
  shows "s = f @ r \<and> (cut r r' \<longrightarrow> number_frac (f @ r') = Some (f, r'))"
proof (cases "\<exists>t. s = CHR ''.'' # t")
  case True
  then obtain t ds where t: "s = CHR ''.'' # t" "digits_prefix t = (ds, r)" "ds \<noteq> []" "f = CHR ''.'' # ds"
    using assms by (auto simp: number_frac_def split: prod.splits if_splits)
  then show ?thesis using digits_prefix_split [OF t(2)] by (auto simp: number_frac_def)
next
  case False
  then have f: "f = []" "r = s" using assms by (auto simp: number_frac_def split: list.splits if_splits)
  have "number_frac r' = Some ([], r')" if "cut s r'"
    using that False by (cases r') (auto simp: number_frac_def dest!: cut_hd)
  then show ?thesis using f by simp
qed

lemma number_exp_local:
  assumes "number_exp s = Some (e, r)"
  shows "s = e @ r \<and> (cut r r' \<longrightarrow> number_exp (e @ r') = Some (e, r'))"
proof (cases "\<exists>c t. s = c # t \<and> (c = CHR ''e'' \<or> c = CHR ''E'')")
  case True
  then obtain c t where s: "s = c # t" "c = CHR ''e'' \<or> c = CHR ''E''" by blast
  define sign where "sign = (\<lambda>t. case t of d # u \<Rightarrow> if d = CHR ''+'' \<or> d = CHR ''-'' then ([d], u) else ([], t) | [] \<Rightarrow> ([], t))"
  have eq: "number_exp (c # t) = (case sign t of (sg, u) \<Rightarrow> case digits_prefix u of (ds, r) \<Rightarrow>
      if ds = [] then None else Some (c # sg @ ds, r))" for t
    using s(2) by (auto simp: number_exp_def sign_def)
  obtain sg u ds where u: "sign t = (sg, u)" "digits_prefix u = (ds, r)" "ds \<noteq> []" "e = c # sg @ ds"
    using assms s by (auto simp: eq split: prod.splits if_splits)
  note d = digits_prefix_split [OF u(2)]
  have t: "t = sg @ u" using u(1) by (auto simp: sign_def split: list.splits if_splits)
  obtain x y where x: "ds = x # y" "is_digit x" using u(3) d(2) by (cases ds) auto
  have "sign (sg @ ds @ r') = (sg, ds @ r')"
    using u(1) x by (auto simp: sign_def is_digit_def split: list.splits if_splits)
  then show ?thesis using s d t u(3,4) by (auto simp: eq)
next
  case False
  then have f: "e = []" "r = s" using assms by (auto simp: number_exp_def split: list.splits if_splits)
  have "number_exp r' = Some ([], r')" if "cut s r'"
    using that False by (cases r') (auto simp: number_exp_def dest!: cut_hd)
  then show ?thesis using f by simp
qed

lemma number_sign_split: "number_sign s = (sg, t) \<Longrightarrow> s = sg @ t \<and> (sg = [] \<or> sg = [CHR ''-'']) "
  by (auto simp: number_sign_def split: list.splits if_splits)

lemma json_number_local:
  assumes "json_number s = Some (l, r)"
  shows "s = l @ r \<and> (\<exists>c t. l = c # t \<and> (c = CHR ''-'' \<or> is_digit c)) \<and>
    (\<forall>r'. cut r r' \<longrightarrow> json_number (l @ r') = Some (l, r'))"
proof -
  obtain sg s1 w s2 f s3 e where p: "number_sign s = (sg, s1)" "number_whole s1 = Some (w, s2)"
    "number_frac s2 = Some (f, s3)" "number_exp s3 = Some (e, r)" "l = sg @ w @ f @ e"
    using assms by (auto simp: json_number_def split: prod.splits option.splits)
  note sg = number_sign_split [OF p(1)]
  have w: "s1 = w @ s2" "w \<noteq> []" "is_digit (hd w)" "\<And>r'. cut s2 r' \<Longrightarrow> number_whole (w @ r') = Some (w, r')"
    using number_whole_local [OF p(2)] by blast+
  have f: "s2 = f @ s3" "\<And>r'. cut s3 r' \<Longrightarrow> number_frac (f @ r') = Some (f, r')" using number_frac_local [OF p(3)] by blast+
  have e: "s3 = e @ r" "\<And>r'. cut r r' \<Longrightarrow> number_exp (e @ r') = Some (e, r')" using number_exp_local [OF p(4)] by blast+
  have "json_number (l @ r') = Some (l, r')" if "cut r r'" for r'
  proof -
    have c: "cut s3 (e @ r')" "cut s2 (f @ e @ r')" using that cut_append e(1) f(1) by simp_all
    have "number_sign (l @ r') = (sg, w @ f @ e @ r')"
      using sg w(2,3) p(5) by (cases w) (auto simp: number_sign_def is_digit_def)
    then show ?thesis using w(4) [OF c(2)] f(2) [OF c(1)] e(2) [OF that] p(5) by (simp add: json_number_def)
  qed
  moreover have "\<exists>c t. l = c # t \<and> (c = CHR ''-'' \<or> is_digit c)" using sg w(2,3) p(5) by (cases w) auto
  ultimately show ?thesis using sg w(1) f(1) e(1) p(5) by simp
qed

subsection \<open>Values\<close>

lemma json_elements_nonblank: "json_elements n s = Some (vs, r) \<Longrightarrow> skip_space s \<noteq> []"
  by (cases n; cases "n - 1") (auto split: option.splits)

lemma json_members_nonblank: "json_members n s = Some (ms, r) \<Longrightarrow> skip_space s \<noteq> []"
  by (cases n) (auto split: list.splits)

text \<open>The head of the text behind a bracket does not change with the rest.\<close>

lemma nonblank_head:
  assumes "skip_space (p @ r) = d # u" "skip_space p \<noteq> []"
  obtains u' where "skip_space (p @ r') = d # u'"
proof -
  obtain e v where "skip_space p = e # v" using assms(2) by (cases "skip_space p") auto
  then show thesis using assms that skip_space_append [OF assms(2)] by auto
qed

lemma json_scalar_local:
  assumes "skip_space s = c # t" "c \<noteq> CHR ''[''" "c \<noteq> CHR ''{''" "json_value (Suc n) s = Some (v, r)"
  shows "\<exists>p. s = p @ r \<and> (\<forall>r'. cut r r' \<longrightarrow> json_value (Suc n) (p @ r') = Some (v, r'))"
proof -
  obtain sp where sp: "s = sp @ c # t" "\<And>t'. skip_space (sp @ c # t') = c # t'" using skip_space_split [OF assms(1)] by blast
  show ?thesis
  proof (cases "c = CHR 0x22")
    case True
    then obtain w where w: "json_chars (length t) t = Some (w, r)" "v = JString w" using assms by auto
    obtain p where p: "t = p @ CHR 0x22 # r" "\<And>m r'. length p < m \<Longrightarrow> json_chars m (p @ CHR 0x22 # r') = Some (w, r')"
      using json_chars_local [OF w(1)] by blast
    show ?thesis using sp p True w(2) by (intro exI [of _ "sp @ c # p @ [CHR 0x22]"]) (simp del: json_chars.simps)
  next
    case False
    consider (true) "has_prefix (c # t) ''true''" | (false) "has_prefix (c # t) ''false''" | (null) "has_prefix (c # t) ''null''"
      | (number) "\<not> has_prefix (c # t) ''true''" "\<not> has_prefix (c # t) ''false''" "\<not> has_prefix (c # t) ''null''" by blast
    then show ?thesis
    proof cases
      case true
      then obtain t' where "c # t = ''true'' @ t'" by (auto simp: has_prefix_iff prefix_def)
      then have t: "c = CHR ''t''" "t = ''rue'' @ t'" by simp_all
      have "v = JBool True" "r = t'" using assms(1,4) true t by (simp_all add: has_prefix_def)
      then show ?thesis using sp(1) sp(2) [of "''rue'' @ r'" for r'] t
        by (intro exI [of _ "sp @ ''true''"]) (simp add: has_prefix_def)
    next
      case false
      then obtain t' where "c # t = ''false'' @ t'" by (auto simp: has_prefix_iff prefix_def)
      then have t: "c = CHR ''f''" "t = ''alse'' @ t'" by simp_all
      have "v = JBool False" "r = t'" using assms(1,4) false t by (simp_all add: has_prefix_def)
      then show ?thesis using sp(1) sp(2) [of "''alse'' @ r'" for r'] t
        by (intro exI [of _ "sp @ ''false''"]) (simp add: has_prefix_def)
    next
      case null
      then obtain t' where "c # t = ''null'' @ t'" by (auto simp: has_prefix_iff prefix_def)
      then have t: "c = CHR ''n''" "t = ''ull'' @ t'" by simp_all
      have "v = JNull" "r = t'" using assms(1,4) null t by (simp_all add: has_prefix_def)
      then show ?thesis using sp(1) sp(2) [of "''ull'' @ r'" for r'] t
        by (intro exI [of _ "sp @ ''null''"]) (simp add: has_prefix_def)
    next
      case number
      then obtain l where l: "json_number (c # t) = Some (l, r)" "v = JNumber l" using assms False by auto
      obtain u where u: "c # t = l @ r" "l = c # u" "c = CHR ''-'' \<or> is_digit c"
        and loc: "\<And>r'. cut r r' \<Longrightarrow> json_number (l @ r') = Some (l, r')" using json_number_local [OF l(1)] by auto
      have c: "c \<noteq> CHR ''t''" "c \<noteq> CHR ''f''" "c \<noteq> CHR ''n''" using u(3) by (auto simp: is_digit_def)
      have "json_value (Suc n) (sp @ c # u @ r') = Some (v, r')" if "cut r r'" for r'
        using sp(2) [of "u @ r'"] c False assms(2,3) loc [OF that] u(2) l(2) by (simp add: has_prefix_def)
      then show ?thesis using sp(1) u(1,2) by (intro exI [of _ "sp @ c # u"]) simp
    qed
  qed
qed

lemma json_members_parts:
  assumes "json_members (Suc n) s = Some (ms, r)"
  obtains s1 k s2 s3 w r1 c t where "skip_space s = CHR 0x22 # s1" "json_chars (length s1) s1 = Some (k, s2)"
    "skip_space s2 = CHR '':'' # s3" "json_value n s3 = Some (w, r1)" "skip_space r1 = c # t"
    "(c = CHR '','' \<and> (\<exists>us. json_members n t = Some (us, r) \<and> ms = (k, w) # us)) \<or> (c = CHR ''}'' \<and> ms = [(k, w)] \<and> r = t)"
proof -
  obtain s1 where q: "skip_space s = CHR 0x22 # s1" using assms by (auto split: list.splits if_splits)
  then obtain k s2 where k: "json_chars (length s1) s1 = Some (k, s2)" using assms by (auto split: option.splits)
  then obtain s3 where c: "skip_space s2 = CHR '':'' # s3" using assms q by (auto split: list.splits if_splits)
  then obtain w r1 where w: "json_value n s3 = Some (w, r1)" using assms q k by (auto split: option.splits)
  then obtain d t where d: "skip_space r1 = d # t" using assms q k c by (cases "skip_space r1") auto
  show thesis by (rule that [OF q k c w d]) (use assms q k c w d in \<open>auto split: if_splits\<close>)
qed

text \<open>
  One step of each reader, when the reading below it is local: an array or object that is not empty, an element,
  and a member. \<open>inner\<close> reads what stands between the brackets.
\<close>

lemma json_bracket_local:
  assumes s: "skip_space s = c # t" "skip_space t = d # u"
    and inner: "t = p @ r" "\<And>r'. inner (p @ r') = Some (xs, r')" "skip_space p \<noteq> []"
    and read: "\<And>s t d u. skip_space s = c # t \<Longrightarrow> skip_space t = d # u \<Longrightarrow> d \<noteq> close \<Longrightarrow>
        json_value m s = map_option (\<lambda>(xs, r). (mk xs, r)) (inner t)"
    and d: "d \<noteq> close"
  shows "\<exists>p. s = p @ r \<and> (\<forall>r'. json_value m (p @ r') = Some (mk xs, r'))"
proof -
  obtain sp where sp: "s = sp @ c # t" "\<And>t'. skip_space (sp @ c # t') = c # t'" using skip_space_split [OF s(1)] by blast
  have "json_value m (sp @ c # p @ r') = Some (mk xs, r')" for r'
  proof -
    obtain u' where "skip_space (p @ r') = d # u'" using nonblank_head [of p r d u r'] s(2) inner(1,3) by blast
    then show ?thesis using read [OF sp(2) _ d] inner(2) by simp
  qed
  then show ?thesis using sp(1) inner(1) by (intro exI [of _ "sp @ c # p"]) simp
qed

lemma json_empty_local:
  assumes "skip_space s = c # t" "skip_space t = close # r" "json_value (Suc n) s = Some (v, r)"
    and "c = CHR ''['' \<and> close = CHR '']'' \<or> c = CHR ''{'' \<and> close = CHR ''}''"
  shows "\<exists>p. s = p @ r \<and> (\<forall>r'. json_value (Suc n) (p @ r') = Some (v, r'))"
proof -
  obtain sp where sp: "s = sp @ c # t" "\<And>t'. skip_space (sp @ c # t') = c # t'" using skip_space_split [OF assms(1)] by blast
  obtain sp2 where "t = sp2 @ close # r" "\<And>t'. skip_space (sp2 @ close # t') = close # t'" using skip_space_split [OF assms(2)] by blast
  then show ?thesis using sp assms by (intro exI [of _ "sp @ c # sp2 @ [close]"]) auto
qed

lemma value_then_char_local:
  assumes p: "s = p @ r1" "\<And>r'. cut r1 r' \<Longrightarrow> json_value n (p @ r') = Some (w, r')" and c: "skip_space r1 = c # t"
  shows "\<exists>q. s = q @ c # t \<and> (\<forall>t'. \<exists>r'. json_value n (q @ c # t') = Some (w, r') \<and> skip_space r' = c # t')"
proof -
  obtain sp where sp: "r1 = sp @ c # t" "\<And>t'. skip_space (sp @ c # t') = c # t'" using skip_space_split [OF c] by blast
  have "json_value n (p @ sp @ c # t') = Some (w, sp @ c # t')" for t'
    by (rule p(2)) (simp add: sp(1) cut_append)
  then show ?thesis using p(1) sp by (intro exI [of _ "p @ sp"]) fastforce
qed

lemma json_members_step_local:
  assumes q: "skip_space s = CHR 0x22 # s1" and k: "json_chars (length s1) s1 = Some (k, s2)"
    and c: "skip_space s2 = CHR '':'' # s3"
    and v: "s3 = u @ d # t" "\<And>t'. \<exists>r'. json_value n (u @ d # t') = Some (w, r') \<and> skip_space r' = d # t'"
  shows "\<exists>pre. s = pre @ d # t \<and> (\<forall>t'. json_members (Suc n) (pre @ d # t') =
      (if d = CHR '','' then map_option (\<lambda>(ms, u). ((k, w) # ms, u)) (json_members n t')
       else if d = CHR ''}'' then Some ([(k, w)], t') else None))"
proof -
  obtain a where a: "s = a @ CHR 0x22 # s1" "\<And>t'. skip_space (a @ CHR 0x22 # t') = CHR 0x22 # t'" using skip_space_split [OF q] by blast
  obtain p where p: "s1 = p @ CHR 0x22 # s2" "\<And>m r'. length p < m \<Longrightarrow> json_chars m (p @ CHR 0x22 # r') = Some (k, r')"
    using json_chars_local [OF k] by blast
  obtain b where b: "s2 = b @ CHR '':'' # s3" "\<And>t'. skip_space (b @ CHR '':'' # t') = CHR '':'' # t'" using skip_space_split [OF c] by blast
  let ?pre = "a @ CHR 0x22 # p @ CHR 0x22 # b @ CHR '':'' # u"
  have "json_members (Suc n) (?pre @ d # t') =
      (if d = CHR '','' then map_option (\<lambda>(ms, u). ((k, w) # ms, u)) (json_members n t')
       else if d = CHR ''}'' then Some ([(k, w)], t') else None)" for t'
  proof -
    obtain r' where "json_value n (u @ d # t') = Some (w, r')" "skip_space r' = d # t'" using v(2) by blast
    then show ?thesis by (simp add: a(2) p(2) b(2) del: json_chars.simps)
  qed
  then show ?thesis using a(1) p(1) b(1) v(1) by (intro exI [of _ ?pre]) simp
qed

lemma json_local:
  "json_value n s = Some (v, r) \<Longrightarrow> \<exists>p. s = p @ r \<and> (\<forall>r'. cut r r' \<longrightarrow> json_value n (p @ r') = Some (v, r'))"
  "json_elements n s = Some (vs, r) \<Longrightarrow> \<exists>p. s = p @ r \<and> (\<forall>r'. json_elements n (p @ r') = Some (vs, r'))"
  "json_members n s = Some (ms, r) \<Longrightarrow> \<exists>p. s = p @ r \<and> (\<forall>r'. json_members n (p @ r') = Some (ms, r'))"
proof (induction n s and n s and n s arbitrary: v r and vs r and ms r rule: json_value_json_elements_json_members.induct)
  case (2 n s)
  obtain c t where ct: "skip_space s = c # t" using 2(3) by (cases "skip_space s") auto
  consider (scalar) "c \<noteq> CHR ''[''" "c \<noteq> CHR ''{''"
    | (empty) close where "skip_space t = close # r" "c = CHR ''['' \<and> close = CHR '']'' \<or> c = CHR ''{'' \<and> close = CHR ''}''"
    | (array) d u xs where "c = CHR ''[''" "skip_space t = d # u" "d \<noteq> CHR '']''" "json_elements n t = Some (xs, r)" "v = JArray xs"
    | (object) d u xs where "c = CHR ''{''" "skip_space t = d # u" "d \<noteq> CHR ''}''" "json_members n t = Some (xs, r)" "v = JObject xs"
    using 2(3) ct by (cases "skip_space t") (auto split: if_splits)
  then show ?case
  proof cases
    case scalar
    then show ?thesis using json_scalar_local [OF ct _ _ 2(3)] by simp
  next
    case empty
    show ?thesis using json_empty_local [OF ct empty(1) 2(3) empty(2)] by blast
  next
    case array
    have nq: "\<not> c = CHR 0x22" using array(1) by simp
    obtain p where p: "t = p @ r" "\<And>r'. json_elements n (p @ r') = Some (xs, r')"
      using 2(1) [OF ct nq array(1,2,3,4)] by blast
    have nonblank: "skip_space p \<noteq> []" using json_elements_nonblank [of n p] p(2) [of "[]"] by simp
    have "\<exists>p. s = p @ r \<and> (\<forall>r'. json_value (Suc n) (p @ r') = Some (JArray xs, r'))"
      by (rule json_bracket_local [OF ct array(2) p nonblank _ array(3)]) (simp add: array(1))
    then show ?thesis unfolding array(5) by blast
  next
    case object
    have nq: "\<not> c = CHR 0x22" "c \<noteq> CHR ''[''" using object(1) by simp_all
    obtain p where p: "t = p @ r" "\<And>r'. json_members n (p @ r') = Some (xs, r')"
      using 2(2) [OF ct nq object(1,2,3,4)] by blast
    have nonblank: "skip_space p \<noteq> []" using json_members_nonblank [of n p] p(2) [of "[]"] by simp
    have "\<exists>p. s = p @ r \<and> (\<forall>r'. json_value (Suc n) (p @ r') = Some (JObject xs, r'))"
      by (rule json_bracket_local [OF ct object(2) p nonblank _ object(3)]) (simp add: object(1))
    then show ?thesis unfolding object(5) by blast
  qed
next
  case (4 n s)
  then obtain w r1 where w: "json_value n s = Some (w, r1)" by (auto split: option.splits)
  then obtain c t where c: "skip_space r1 = c # t" using 4(3) by (cases "skip_space r1") auto
  obtain p1 where p1: "s = p1 @ r1" "\<And>r'. cut r1 r' \<Longrightarrow> json_value n (p1 @ r') = Some (w, r')" using 4(1) [OF w] by blast
  obtain q where q: "s = q @ c # t" "\<And>t'. \<exists>r'. json_value n (q @ c # t') = Some (w, r') \<and> skip_space r' = c # t'"
    using value_then_char_local [OF p1 c] by blast
  have step: "json_elements (Suc n) (q @ c # t') = (if c = CHR '','' then map_option (\<lambda>(vs, u). (w # vs, u)) (json_elements n t')
      else if c = CHR '']'' then Some ([w], t') else None)" for t' using q(2) [of t'] by auto
  show ?case
  proof (cases "c = CHR '',''")
    case True
    then obtain us where us: "json_elements n t = Some (us, r)" "vs = w # us" using 4(3) w c by auto
    obtain p2 where "t = p2 @ r" "\<And>r'. json_elements n (p2 @ r') = Some (us, r')"
      using 4(2) [OF w refl c True us(1)] by blast
    then show ?thesis using q(1) step True us(2) by (intro exI [of _ "q @ c # p2"]) simp
  next
    case False
    then have "c = CHR '']''" "vs = [w]" "r = t" using 4(3) w c by (auto split: if_splits)
    then show ?thesis using q(1) step by (intro exI [of _ "q @ [c]"]) simp
  qed
next
  case (6 n s)
  from 6(3) show ?case
  proof (rule json_members_parts)
    fix s1 k s2 s3 w r1 d t
    assume q: "skip_space s = CHR 0x22 # s1" and k: "json_chars (length s1) s1 = Some (k, s2)"
      and c: "skip_space s2 = CHR '':'' # s3" and w: "json_value n s3 = Some (w, r1)" and d: "skip_space r1 = d # t"
      and out: "(d = CHR '','' \<and> (\<exists>us. json_members n t = Some (us, r) \<and> ms = (k, w) # us)) \<or> (d = CHR ''}'' \<and> ms = [(k, w)] \<and> r = t)"
    obtain p1 where p1: "s3 = p1 @ r1" "\<And>r'. cut r1 r' \<Longrightarrow> json_value n (p1 @ r') = Some (w, r')"
      using 6(1) [OF q _ k _ c _ w] by auto
    obtain u where u: "s3 = u @ d # t" "\<And>t'. \<exists>r'. json_value n (u @ d # t') = Some (w, r') \<and> skip_space r' = d # t'"
      using value_then_char_local [OF p1 d] by blast
    obtain pre where pre: "s = pre @ d # t" "\<And>t'. json_members (Suc n) (pre @ d # t') =
        (if d = CHR '','' then map_option (\<lambda>(ms, u). ((k, w) # ms, u)) (json_members n t')
         else if d = CHR ''}'' then Some ([(k, w)], t') else None)"
      using json_members_step_local [OF q k c u] by blast
    show ?thesis
    proof (cases "d = CHR '',''")
      case True
      then obtain us where us: "json_members n t = Some (us, r)" "ms = (k, w) # us" using out by auto
      obtain p2 where "t = p2 @ r" "\<And>r'. json_members n (p2 @ r') = Some (us, r')"
        using 6(2) [OF q _ k _ c _ w _ d True us(1)] by auto
      then show ?thesis using pre True us(2) by (intro exI [of _ "pre @ d # p2"]) simp
    next
      case False
      then show ?thesis using out pre by (intro exI [of _ "pre @ [d]"]) auto
    qed
  qed
qed simp_all

section \<open>The texts of the members\<close>

lemma json_value_skip_space: "json_value n (skip_space s) = json_value n s"
  by (cases n) simp_all

text \<open>The text cut out for a value parses to that value.\<close>

lemma raw_value_parses:
  assumes "json_value n s = Some (v, r)" "2 * length s + 1 \<le> n"
  defines "t \<equiv> skip_space s"
  shows "json_value (2 * length t + 1) t = Some (v, r)" "json_parse (take (length t - length r) t) = Some v"
proof -
  have "length t \<le> length s" unfolding t_def by (rule skip_space_length)
  then show v: "json_value (2 * length t + 1) t = Some (v, r)"
    using assms(1,2) json_fuel(1) [of t n "2 * length t + 1"] json_value_skip_space [of n s] t_def by simp
  obtain p where p: "t = p @ r" "\<And>r'. cut r r' \<Longrightarrow> json_value (2 * length t + 1) (p @ r') = Some (v, r')"
    using json_local(1) [OF v] by blast
  have "json_value (2 * length t + 1) p = Some (v, [])" using p(2) [of "[]"] by simp
  then have "json_parse p = Some v"
    using json_parse_fuel [of p "2 * length t + 1"] p(1) by (simp add: skip_space_def del: json_value.simps)
  then show "json_parse (take (length t - length r) t) = Some v" using p(1) by simp
qed

definition member_texts :: "(string \<times> string) list \<Rightarrow> (string \<times> json) list \<Rightarrow> bool" where
  "member_texts raws ms \<longleftrightarrow> list_all2 (\<lambda>(k, raw) (k', j). k = k' \<and> json_parse raw = Some j) raws ms"

lemma member_texts_simps [simp]:
  "member_texts [] []"
  "member_texts ((k, raw) # raws) ((k', j) # ms) \<longleftrightarrow> k = k' \<and> json_parse raw = Some j \<and> member_texts raws ms"
  by (simp_all add: member_texts_def)

lemma raw_members_texts:
  "json_members n s = Some (ms, r) \<Longrightarrow> 2 * length s + 2 \<le> n \<Longrightarrow> length s \<le> fuel \<Longrightarrow>
    \<exists>raws. raw_members fuel s = Some raws \<and> member_texts raws ms"
proof (induction n arbitrary: s ms fuel)
  case (Suc n)
  from Suc.prems(1) show ?case
  proof (rule json_members_parts)
    fix s1 k s2 s3 w r1 c t
    assume q: "skip_space s = CHR 0x22 # s1" and k: "json_chars (length s1) s1 = Some (k, s2)"
      and c: "skip_space s2 = CHR '':'' # s3" and w: "json_value n s3 = Some (w, r1)" and d: "skip_space r1 = c # t"
      and out: "(c = CHR '','' \<and> (\<exists>us. json_members n t = Some (us, r) \<and> ms = (k, w) # us)) \<or> (c = CHR ''}'' \<and> ms = [(k, w)] \<and> r = t)"
    have len: "length s1 < length s" "length s2 < length s1" "length s3 < length s2" "length r1 < length s3" "length t < length r1"
      using skip_space_length [of s] q json_chars_length [OF k] skip_space_length [of s2] c json_rest_length(1) [OF w]
        skip_space_length [of r1] d by simp_all
    obtain f where f: "fuel = Suc f" "length t \<le> f" using Suc.prems(3) len by (cases fuel) auto
    define s4 where "s4 = skip_space s3"
    have v: "json_value (2 * length s4 + 1) s4 = Some (w, r1)" "json_parse (take (length s4 - length r1) s4) = Some w"
      using raw_value_parses [OF w] Suc.prems(2) len by (simp_all add: s4_def)
    let ?m = "(k, take (length s4 - length r1) s4)"
    have v': "json_value (Suc (2 * length s4)) s4 = Some (w, r1)" using v(1) by (simp del: json_value.simps)
    have step: "raw_members fuel s = (if c = CHR '','' then map_option (\<lambda>ms. ?m # ms) (raw_members f t) else Some [?m])"
      by (simp add: f q k c d Let_def s4_def [symmetric] v' del: json_value.simps json_chars.simps)
    show ?thesis
    proof (cases "c = CHR '',''")
      case True
      then obtain us where us: "json_members n t = Some (us, r)" "ms = (k, w) # us" using out by auto
      obtain raws where "raw_members f t = Some raws" "member_texts raws us"
        using Suc.IH [OF us(1) _ f(2)] Suc.prems(2) len by auto
      then show ?thesis using step True us(2) v(2) by simp
    next
      case False
      then show ?thesis using step out v(2) by auto
    qed
  qed
qed simp

lemma json_parse_object:
  assumes "json_parse text = Some (JObject ms)" "ms \<noteq> []"
  obtains t r where "skip_space text = CHR ''{'' # t" "json_members (2 * length text) t = Some (ms, r)"
proof -
  obtain r where r: "json_value (2 * length text + 1) text = Some (JObject ms, r)"
    using assms(1) by (auto simp: json_parse_def simp del: json_value.simps split: option.splits if_splits)
  obtain c t where ct: "skip_space text = c # t" using r by (cases "skip_space text") auto
  have "c = CHR ''{''" using r ct by (auto split: if_splits list.splits)
  moreover have "json_members (2 * length text) t = Some (ms, r)" using r ct calculation assms(2) by (auto split: list.splits if_splits)
  ultimately show thesis using that ct by blast
qed

lemma raw_object_texts:
  assumes "json_parse text = Some (JObject ms)" "ms \<noteq> []"
  shows "\<exists>raws. raw_object text = Some raws \<and> member_texts raws ms"
proof -
  obtain u r where u: "skip_space text = CHR ''{'' # u" "json_members (2 * length text) u = Some (ms, r)"
    by (rule json_parse_object [OF assms])
  then have "length u < length text" using skip_space_length [of "text"] u(1) by simp
  then show ?thesis using raw_members_texts [OF u(2)] u(1) by (simp add: raw_object_def)
qed

section \<open>Decoding from text and from values\<close>

text \<open>
  A struct whose fields hold raw texts is decoded member by member, cutting the text of every value out of the
  document. When the fields agree on a text and its value, so do the structs.
\<close>

lemma decode_raw_members_rel:
  assumes field: "\<And>k raw j r r'. json_parse raw = Some j \<Longrightarrow> R r r' \<Longrightarrow> rel_option R (raw_field k raw r) (field k j r')"
  shows "member_texts raws ms \<Longrightarrow> R old old' \<Longrightarrow>
    rel_option R (decode_raw_members raw_field raws old) (decode_members field ms old')"
proof (induction raws arbitrary: ms old old')
  case Nil
  then show ?case by (simp add: member_texts_def)
next
  case (Cons m raws)
  obtain k raw j ms' where m: "m = (k, raw)" "ms = (k, j) # ms'" "json_parse raw = Some j" "member_texts raws ms'"
    using Cons.prems(1) by (cases m; cases ms) (auto simp: member_texts_def)
  have "rel_option R (raw_field k raw old) (field k j old')" by (rule field [OF m(3) Cons.prems(2)])
  then show ?case using m Cons.IH [OF m(4)] by (cases rule: option.rel_cases) simp_all
qed

lemma decode_raw_struct_rel:
  assumes field: "\<And>k raw j r r'. json_parse raw = Some j \<Longrightarrow> R r r' \<Longrightarrow> rel_option R (raw_field k raw r) (field k j r')"
    and old: "R old old'"
  shows "rel_option R (decode_raw_struct raw_field old data) (Option.bind (json_parse data) (decode_struct field old'))"
proof (cases "\<exists>ms. json_parse data = Some (JObject ms) \<and> ms \<noteq> []")
  case True
  then obtain ms where ms: "json_parse data = Some (JObject ms)" "ms \<noteq> []" by blast
  obtain raws where "raw_object data = Some raws" "member_texts raws ms" using raw_object_texts [OF ms] by blast
  then show ?thesis using ms decode_raw_members_rel [of R raw_field field, OF field _ old] by (simp add: decode_raw_struct_def decode_struct_def)
next
  case False
  then show ?thesis using old by (auto simp: decode_raw_struct_def decode_struct_def split: option.split json.split)
qed

lemma decode_raw_members_keeps_parsed:
  assumes "\<And>k raw j r r'. json_parse raw = Some j \<Longrightarrow> P r \<Longrightarrow> raw_field k raw r = Some r' \<Longrightarrow> P r'"
  shows "member_texts raws ms \<Longrightarrow> P old \<Longrightarrow> decode_raw_members raw_field raws old = Some new \<Longrightarrow> P new"
proof (induction raws arbitrary: ms old)
  case Nil
  then show ?case by simp
next
  case (Cons m raws)
  obtain k raw j ms' where m: "m = (k, raw)" "ms = (k, j) # ms'" "json_parse raw = Some j" "member_texts raws ms'"
    using Cons.prems(1) by (cases m; cases ms) (auto simp: member_texts_def)
  obtain mid where mid: "raw_field k raw old = Some mid" "decode_raw_members raw_field raws mid = Some new"
    using Cons.prems(3) m(1) by (auto split: option.splits)
  have "P mid" by (rule assms [OF m(3) Cons.prems(2) mid(1)])
  then show ?case using Cons.IH [OF m(4) _ mid(2)] by blast
qed

text \<open>What every field keeps for texts that are JSON, the struct keeps.\<close>

lemma decode_raw_struct_keeps_parsed:
  assumes "\<And>k raw j r r'. json_parse raw = Some j \<Longrightarrow> P r \<Longrightarrow> raw_field k raw r = Some r' \<Longrightarrow> P r'"
    and "P old" "decode_raw_struct raw_field old data = Some new"
  shows "P new"
proof (cases "\<exists>ms. json_parse data = Some (JObject ms) \<and> ms \<noteq> []")
  case True
  then obtain ms where ms: "json_parse data = Some (JObject ms)" "ms \<noteq> []" by blast
  have "\<exists>raws. raw_object data = Some raws \<and> member_texts raws ms" using raw_object_texts [OF ms] .
  then obtain raws where raws: "raw_object data = Some raws" "member_texts raws ms" by blast
  have "decode_raw_members raw_field raws old = Some new" using assms(3) ms raws(1) by (simp add: decode_raw_struct_def)
  with raws(2) assms(2) show ?thesis by (rule decode_raw_members_keeps_parsed [of P raw_field, rotated]) (rule assms(1))
next
  case False
  then show ?thesis using assms(2,3) by (auto simp: decode_raw_struct_def split: option.splits json.splits if_splits)
qed

end
