(* ===== verification/ConfigJson.thy ===== *)
theory ConfigJson
  imports Config JsonText
begin

text \<open>
  The JSON form of the settings: \<open>InstanceSettings.UnmarshalJSON\<close> of \<open>internal/config/model.go\<close> and the
  decoding of \<open>Settings\<close> and \<open>InstanceSettings\<close> with \<open>encoding/json\<close> by the tags of the structs.

  \<open>json.RawMessage\<close> keeps the text of a value, so the structs that hold one, directly or in a field, are
  decoded from text (theory \<open>JsonText\<close>), the fields below them from JSON values. A decoder with \<open>DisallowUnknownFields\<close> fails on a member that
  matches no tag; \<open>UnmarshalJSON\<close> uses one without it.
\<close>

section \<open>Values\<close>

definition decode_bool :: "bool \<Rightarrow> json \<Rightarrow> bool option" where
  "decode_bool old j = (case j of JNull \<Rightarrow> Some old | JBool b \<Rightarrow> Some b | _ \<Rightarrow> None)"

definition decode_int :: "int \<Rightarrow> json \<Rightarrow> int option" where
  "decode_int old j = (case j of JNull \<Rightarrow> Some old | JNumber l \<Rightarrow> atoi l | _ \<Rightarrow> None)"

definition decode_float :: "float64 \<Rightarrow> json \<Rightarrow> float64 option" where
  "decode_float old j = (case j of JNull \<Rightarrow> Some old | JNumber l \<Rightarrow> parse_float l | _ \<Rightarrow> None)"

text \<open>A pointer field: \<open>null\<close> makes it nil, another value is decoded into what it points to.\<close>

definition decode_pointer :: "('a \<Rightarrow> json \<Rightarrow> 'a option) \<Rightarrow> 'a \<Rightarrow> 'a option \<Rightarrow> json \<Rightarrow> 'a option option" where
  "decode_pointer dec zero old j =
     (if j = JNull then Some None else map_option Some (dec (case old of None \<Rightarrow> zero | Some x \<Rightarrow> x) j))"

definition decode_raw_pointer :: "('a \<Rightarrow> string \<Rightarrow> 'a option) \<Rightarrow> 'a \<Rightarrow> 'a option \<Rightarrow> string \<Rightarrow> 'a option option" where
  "decode_raw_pointer dec zero old raw =
     (if json_parse raw = Some JNull then Some None
      else map_option Some (dec (case old of None \<Rightarrow> zero | Some x \<Rightarrow> x) raw))"

definition decode_raw_value :: "('a \<Rightarrow> json \<Rightarrow> 'a option) \<Rightarrow> 'a \<Rightarrow> string \<Rightarrow> 'a option" where
  "decode_raw_value dec old raw = Option.bind (json_parse raw) (dec old)"

section \<open>Instances (\<open>model.go\<close>)\<close>

record raw_instance =
  RiScheme :: string
  RiHost :: string
  RiPort :: string

definition raw_instance_field :: "string \<Rightarrow> string \<Rightarrow> raw_instance \<Rightarrow> raw_instance option" where
  "raw_instance_field k raw r =
     (if equal_fold k ''scheme'' then map_option (\<lambda>v. r\<lparr>RiScheme := v\<rparr>) (decode_raw_value decode_string (RiScheme r) raw)
      else if equal_fold k ''host'' then map_option (\<lambda>v. r\<lparr>RiHost := v\<rparr>) (decode_raw_value decode_string (RiHost r) raw)
      else if equal_fold k ''port'' then Some (r\<lparr>RiPort := raw\<rparr>)
      else Some r)"

text \<open>The port: a JSON string, or else an integer.\<close>

definition port_of_raw :: "string \<Rightarrow> string option" where
  "port_of_raw raw = (case decode_raw_value decode_string [] raw of
     Some portString \<Rightarrow> Some portString
   | None \<Rightarrow> map_option itoa (decode_raw_value decode_int 0 raw))"

definition UnmarshalJSON :: "instance_settings \<Rightarrow> string \<Rightarrow> instance_settings option" where
  "UnmarshalJSON s data =
     (case decode_raw_struct raw_instance_field \<lparr>RiScheme = [], RiHost = [], RiPort = []\<rparr> data of
        None \<Rightarrow> None
      | Some raw \<Rightarrow>
          (case port_of_raw (RiPort raw) of
             None \<Rightarrow> None
           | Some port \<Rightarrow> Some (s\<lparr>Scheme := RiScheme raw, Host := RiHost raw, Port := port\<rparr>)))"

section \<open>Settings by their tags (\<open>model.go\<close>)\<close>

definition point_field :: "string \<Rightarrow> json \<Rightarrow> threshold_point \<Rightarrow> threshold_point option" where
  "point_field k j p =
     (if equal_fold k ''rps'' then map_option (\<lambda>v. p\<lparr>RPS := v\<rparr>) (decode_float (RPS p) j)
      else if equal_fold k ''in-flight'' then map_option (\<lambda>v. p\<lparr>InFlight := v\<rparr>) (decode_int (InFlight p) j)
      else None)"

definition threshold_field :: "string \<Rightarrow> json \<Rightarrow> threshold_settings \<Rightarrow> threshold_settings option" where
  "threshold_field k j t =
     (if equal_fold k ''normal'' then map_option (\<lambda>v. t\<lparr>Normal := v\<rparr>) (decode_struct point_field (Normal t) j)
      else if equal_fold k ''hot'' then map_option (\<lambda>v. t\<lparr>Hot := v\<rparr>) (decode_struct point_field (Hot t) j)
      else if equal_fold k ''super'' then map_option (\<lambda>v. t\<lparr>Super := v\<rparr>) (decode_struct point_field (Super t) j)
      else None)"

definition health_field :: "string \<Rightarrow> json \<Rightarrow> health_settings \<Rightarrow> health_settings option" where
  "health_field k j h =
     (if equal_fold k ''enabled'' then map_option (\<lambda>v. h\<lparr>Enabled := v\<rparr>) (decode_pointer decode_bool False (Enabled h) j)
      else if equal_fold k ''path'' then map_option (\<lambda>v. h\<lparr>HealthPath := v\<rparr>) (decode_string (HealthPath h) j)
      else if equal_fold k ''interval'' then map_option (\<lambda>v. h\<lparr>Interval := v\<rparr>) (decode_string (Interval h) j)
      else if equal_fold k ''timeout'' then map_option (\<lambda>v. h\<lparr>Timeout := v\<rparr>) (decode_string (Timeout h) j)
      else if equal_fold k ''jitter'' then map_option (\<lambda>v. h\<lparr>Jitter := v\<rparr>) (decode_string (Jitter h) j)
      else if equal_fold k ''max-backoff'' then map_option (\<lambda>v. h\<lparr>MaxBackoff := v\<rparr>) (decode_string (MaxBackoff h) j)
      else if equal_fold k ''failure-threshold'' then
        map_option (\<lambda>v. h\<lparr>FailureThreshold := v\<rparr>) (decode_int (FailureThreshold h) j)
      else if equal_fold k ''success-threshold'' then
        map_option (\<lambda>v. h\<lparr>SuccessThreshold := v\<rparr>) (decode_int (SuccessThreshold h) j)
      else None)"

definition endpoint_field :: "string \<Rightarrow> json \<Rightarrow> endpoint_settings \<Rightarrow> endpoint_settings option" where
  "endpoint_field k j e =
     (if equal_fold k ''path'' then map_option (\<lambda>v. e\<lparr>EndpointPath := v\<rparr>) (decode_string (EndpointPath e) j)
      else if equal_fold k ''method'' then map_option (\<lambda>v. e\<lparr>EndpointMethod := v\<rparr>) (decode_string (EndpointMethod e) j)
      else if equal_fold k ''roles'' then
        map_option (\<lambda>v. e\<lparr>EndpointRoles := v\<rparr>) (decode_slice decode_string [] (EndpointRoles e) j)
      else None)"

definition auth_field :: "string \<Rightarrow> string \<Rightarrow> auth_settings \<Rightarrow> auth_settings option" where
  "auth_field k raw a =
     (let str = decode_raw_value decode_string in
      if equal_fold k ''jwt_algorithm'' then map_option (\<lambda>v. a\<lparr>JWTAlgorithm := v\<rparr>) (str (JWTAlgorithm a) raw)
      else if equal_fold k ''jwt_audience'' then map_option (\<lambda>v. a\<lparr>JWTAudience := v\<rparr>) (str (JWTAudience a) raw)
      else if equal_fold k ''jwt_clock_skew'' then map_option (\<lambda>v. a\<lparr>JWTClockSkew := v\<rparr>) (str (JWTClockSkew a) raw)
      else if equal_fold k ''jwt_issuer'' then map_option (\<lambda>v. a\<lparr>JWTIssuer := v\<rparr>) (str (JWTIssuer a) raw)
      else if equal_fold k ''jwt_secret'' then map_option (\<lambda>v. a\<lparr>JWTSecret := v\<rparr>) (str (JWTSecret a) raw)
      else if equal_fold k ''jwks'' then Some (a\<lparr>JWKS := raw\<rparr>)
      else None)"

definition empty_auth :: auth_settings where
  "empty_auth = \<lparr>JWTAlgorithm = [], JWTAudience = [], JWTClockSkew = [], JWTIssuer = [], JWTSecret = [], JWKS = []\<rparr>"

definition global_field :: "string \<Rightarrow> string \<Rightarrow> global_settings \<Rightarrow> global_settings option" where
  "global_field k raw g =
     (if equal_fold k ''auth'' then
        map_option (\<lambda>v. g\<lparr>Auth := v\<rparr>) (decode_raw_pointer (decode_raw_struct auth_field) empty_auth (Auth g) raw)
      else None)"

definition empty_health :: health_settings where
  "empty_health = \<lparr>Enabled = None, HealthPath = [], Interval = [], Timeout = [], Jitter = [], MaxBackoff = [],
     FailureThreshold = 0, SuccessThreshold = 0\<rparr>"

definition empty_threshold :: threshold_settings where
  "empty_threshold = \<lparr>Normal = \<lparr>RPS = 0, InFlight = 0\<rparr>, Hot = \<lparr>RPS = 0, InFlight = 0\<rparr>, Super = \<lparr>RPS = 0, InFlight = 0\<rparr>\<rparr>"

definition empty_endpoint :: endpoint_settings where
  "empty_endpoint = \<lparr>EndpointPath = [], EndpointMethod = [], EndpointRoles = []\<rparr>"

definition empty_instance :: instance_settings where
  "empty_instance = \<lparr>Scheme = [], Host = [], Port = [], HealthKey = []\<rparr>"

definition settings_field :: "string \<Rightarrow> string \<Rightarrow> settings \<Rightarrow> settings option" where
  "settings_field k raw s =
     (if equal_fold k ''global'' then
        map_option (\<lambda>v. s\<lparr>Global := v\<rparr>) (decode_raw_pointer (decode_raw_struct global_field) \<lparr>Auth = None\<rparr> (Global s) raw)
      else if equal_fold k ''health'' then
        map_option (\<lambda>v. s\<lparr>Health := v\<rparr>)
          (decode_raw_value (decode_pointer (decode_struct health_field) empty_health) (Health s) raw)
      else if equal_fold k ''instance'' then
        map_option (\<lambda>v. s\<lparr>Instance := v\<rparr>) (decode_raw_pointer UnmarshalJSON empty_instance (Instance s) raw)
      else if equal_fold k ''service-name'' then
        map_option (\<lambda>v. s\<lparr>ServiceName := v\<rparr>) (decode_raw_value decode_string (ServiceName s) raw)
      else if equal_fold k ''threshold'' then
        map_option (\<lambda>v. s\<lparr>Threshold := v\<rparr>)
          (decode_raw_value (decode_pointer (decode_struct threshold_field) empty_threshold) (Threshold s) raw)
      else if equal_fold k ''endpoints'' then
        map_option (\<lambda>v. s\<lparr>Endpoints := v\<rparr>)
          (decode_raw_value (decode_slice (decode_struct endpoint_field) empty_endpoint) (Endpoints s) raw)
      else None)"

definition empty_settings :: settings where
  "empty_settings = \<lparr>Global = None, Health = None, Instance = None, ServiceName = [], Threshold = None, Endpoints = []\<rparr>"

section \<open>Decoded settings fit their Go types\<close>

text \<open>A field decoder keeps an invariant of the struct.\<close>

definition keeps :: "('r \<Rightarrow> bool) \<Rightarrow> ('k \<Rightarrow> 'j \<Rightarrow> 'r \<Rightarrow> 'r option) \<Rightarrow> bool" where
  "keeps P field \<longleftrightarrow> (\<forall>k j r r'. P r \<longrightarrow> field k j r = Some r' \<longrightarrow> P r')"

lemma keepsD: "keeps P field \<Longrightarrow> P r \<Longrightarrow> field k j r = Some r' \<Longrightarrow> P r'"
  unfolding keeps_def by blast

lemma decode_members_keeps: "keeps P field \<Longrightarrow> P r \<Longrightarrow> decode_members field ms r = Some r' \<Longrightarrow> P r'"
  by (induction ms arbitrary: r) (auto split: option.splits, metis keepsD)

lemma decode_raw_members_keeps: "keeps P field \<Longrightarrow> P r \<Longrightarrow> decode_raw_members field ms r = Some r' \<Longrightarrow> P r'"
  by (induction ms arbitrary: r) (auto split: option.splits, metis keepsD)

lemma decode_struct_keeps: "keeps P field \<Longrightarrow> P r \<Longrightarrow> decode_struct field r j = Some r' \<Longrightarrow> P r'"
  by (auto simp: decode_struct_def split: json.splits dest: decode_members_keeps)

lemma decode_raw_struct_keeps: "keeps P field \<Longrightarrow> P r \<Longrightarrow> decode_raw_struct field r raw = Some r' \<Longrightarrow> P r'"
  by (auto simp: decode_raw_struct_def split: json.splits option.splits if_splits dest: decode_raw_members_keeps)

lemma decode_pointer_keeps:
  assumes "keeps P field" "P zero" "pred_option P old" "decode_pointer (decode_struct field) zero old j = Some new"
  shows "pred_option P new"
  using assms decode_struct_keeps [OF assms(1)] by (cases old) (auto simp: decode_pointer_def split: if_splits)

definition is_int64 :: "int \<Rightarrow> bool" where
  "is_int64 n \<longleftrightarrow> - (2 ^ 63) \<le> n \<and> n < 2 ^ 63"

text \<open>A finite \<open>float64\<close>.\<close>

definition is_float64 :: "float64 \<Rightarrow> bool" where
  "is_float64 x \<longleftrightarrow> \<bar>x\<bar> < 2 ^ 1024 \<and> (\<exists>y. x = round64 y)"

definition point_typed :: "threshold_point \<Rightarrow> bool" where
  "point_typed p \<longleftrightarrow> is_float64 (RPS p) \<and> is_int64 (InFlight p)"

definition threshold_typed :: "threshold_settings \<Rightarrow> bool" where
  "threshold_typed t \<longleftrightarrow> point_typed (Normal t) \<and> point_typed (Hot t) \<and> point_typed (Super t)"

definition health_typed :: "health_settings \<Rightarrow> bool" where
  "health_typed h \<longleftrightarrow> is_int64 (FailureThreshold h) \<and> is_int64 (SuccessThreshold h)"

text \<open>Numbers in range, and no instance brings a health key of its own.\<close>

definition settings_typed :: "settings \<Rightarrow> bool" where
  "settings_typed s \<longleftrightarrow> pred_option threshold_typed (Threshold s) \<and> pred_option health_typed (Health s) \<and>
     pred_option (\<lambda>i. HealthKey i = []) (Instance s)"

lemma decode_int_typed: "is_int64 old \<Longrightarrow> decode_int old j = Some n \<Longrightarrow> is_int64 n"
  by (auto simp: decode_int_def is_int64_def atoi_def Let_def split: json.splits if_splits)

lemma decode_float_typed: "is_float64 old \<Longrightarrow> decode_float old j = Some x \<Longrightarrow> is_float64 x"
  by (auto simp: decode_float_def is_float64_def parse_float_def Let_def split: json.splits if_splits)

lemma point_field_typed: "keeps point_typed point_field"
  by (auto simp: keeps_def point_field_def point_typed_def split: if_splits dest: decode_int_typed decode_float_typed)

lemma threshold_field_typed: "keeps threshold_typed threshold_field"
  by (auto simp: keeps_def threshold_field_def threshold_typed_def split: if_splits intro: decode_struct_keeps [OF point_field_typed])

lemma health_field_typed: "keeps health_typed health_field"
  unfolding keeps_def health_field_def health_typed_def
  by (intro allI impI, elim conjE) (simp split: if_split_asm, safe, simp_all add: decode_int_typed)

lemma zero_typed: "threshold_typed empty_threshold" "health_typed empty_health"
proof -
  have "is_float64 0" by (auto simp: is_float64_def round64_def intro!: exI [of _ 0])
  then show "threshold_typed empty_threshold" "health_typed empty_health"
    by (simp_all add: threshold_typed_def point_typed_def empty_threshold_def health_typed_def empty_health_def is_int64_def)
qed

lemma UnmarshalJSON_key: "UnmarshalJSON s raw = Some i \<Longrightarrow> HealthKey i = HealthKey s"
  by (auto simp: UnmarshalJSON_def split: option.splits)

lemma settings_field_typed: "keeps settings_typed settings_field"
proof -
  have "pred_option threshold_typed new"
    if "decode_raw_value (decode_pointer (decode_struct threshold_field) empty_threshold) old raw = Some new"
      "pred_option threshold_typed old" for old new raw
    using that decode_pointer_keeps [OF threshold_field_typed zero_typed(1)]
    by (auto simp: decode_raw_value_def bind_eq_Some_conv)
  moreover have "pred_option health_typed new"
    if "decode_raw_value (decode_pointer (decode_struct health_field) empty_health) old raw = Some new"
      "pred_option health_typed old" for old new raw
    using that decode_pointer_keeps [OF health_field_typed zero_typed(2)]
    by (auto simp: decode_raw_value_def bind_eq_Some_conv)
  moreover have "pred_option (\<lambda>i. HealthKey i = []) new"
    if "decode_raw_pointer UnmarshalJSON empty_instance old raw = Some new" "pred_option (\<lambda>i. HealthKey i = []) old"
    for old new raw
    using that UnmarshalJSON_key
    by (cases old) (fastforce simp: decode_raw_pointer_def empty_instance_def split: if_splits)+
  ultimately show ?thesis by (auto simp: keeps_def settings_field_def settings_typed_def split: if_splits)
qed

lemma empty_settings_typed: "settings_typed empty_settings"
  by (simp add: settings_typed_def empty_settings_def)

section \<open>Ports\<close>

lemma nat_digits_head: "0 < n \<Longrightarrow> hd (nat_digits n) \<noteq> CHR ''0''"
proof (induction n rule: nat_digits.induct)
  case (1 n)
  show ?case
  proof (cases "n < 10")
    case True
    then have "n \<in> set [1 ..< 10]" using 1(2) by simp
    moreover have "list_all (\<lambda>n. digit_char n \<noteq> CHR ''0'') [1 ..< 10]" by code_simp
    ultimately show ?thesis using True by (subst nat_digits.simps) (simp add: list_all_iff)
  next
    case False
    then show ?thesis using 1 by (subst nat_digits.simps) simp
  qed
qed

lemma number_whole_nat_digits: "number_whole (nat_digits n) = Some (nat_digits n, [])"
proof (cases "n = 0")
  case True
  moreover have "digit_char 0 = CHR ''0''" by code_simp
  ultimately show ?thesis by (simp add: nat_digits.simps [of 0] number_whole_def)
next
  case False
  obtain c t where ct: "nat_digits n = c # t" by (cases "nat_digits n") auto
  have "c \<noteq> CHR ''0''" using nat_digits_head [of n] False ct by simp
  moreover have "\<forall>c \<in> set (nat_digits n). is_digit c" using nat_digits_digits by blast
  ultimately show ?thesis using ct by (simp add: number_whole_def digits_prefix_def)
qed

lemma digit_facts: "is_digit c \<Longrightarrow> c \<noteq> CHR ''-'' \<and> \<not> is_json_space c \<and> c \<notin> {CHR 0x22, CHR 0x5C, CHR ''['', CHR ''{'', CHR ''t'', CHR ''f'', CHR ''n''}"
  by (auto simp: is_digit_def is_json_space_def)

lemma itoa_shape:
  obtains (negative) ds where "n < 0" "itoa n = CHR ''-'' # ds" "ds = nat_digits (nat (- n))"
  | (positive) "0 \<le> n" "itoa n = nat_digits (nat n)"
  by (cases "n < 0") (auto simp: itoa_def)

lemma json_number_itoa: "json_number (itoa n) = Some (itoa n, [])"
proof (cases n rule: itoa_shape)
  case (negative ds)
  then show ?thesis
    by (simp add: json_number_def number_sign_def number_whole_nat_digits number_frac_def number_exp_def)
next
  case positive
  obtain c t where ct: "nat_digits (nat n) = c # t" by (cases "nat_digits (nat n)") auto
  then have "c \<noteq> CHR ''-''" using nat_digits_digits [of c "nat n"] digit_facts by simp
  then have "number_sign (nat_digits (nat n)) = ([], nat_digits (nat n))" using ct by (simp add: number_sign_def)
  then show ?thesis
    using positive by (simp add: json_number_def number_whole_nat_digits number_frac_def number_exp_def)
qed

lemma itoa_head: obtains c t where "itoa n = c # t" "c = CHR ''-'' \<or> is_digit c"
proof (cases n rule: itoa_shape)
  case (negative ds)
  then show ?thesis using that by simp
next
  case positive
  obtain c t where ct: "nat_digits (nat n) = c # t" by (cases "nat_digits (nat n)") auto
  then show ?thesis using that positive nat_digits_digits [of c "nat n"] by simp
qed

lemma json_parse_itoa: "json_parse (itoa n) = Some (JNumber (itoa n))"
proof -
  obtain c t where ct: "itoa n = c # t" "c = CHR ''-'' \<or> is_digit c" using itoa_head .
  then have c: "c \<noteq> CHR 0x22" "c \<noteq> CHR ''[''" "c \<noteq> CHR ''{''" "c \<noteq> CHR ''t''" "c \<noteq> CHR ''f''" "c \<noteq> CHR ''n''"
    "\<not> is_json_space c" using ct(2) digit_facts [of c] by (elim disjE; simp add: is_json_space_def)+
  have "skip_space (c # t) = c # t" using c by (simp add: skip_space_def)
  moreover have "\<not> has_prefix (c # t) ''true''" "\<not> has_prefix (c # t) ''false''" "\<not> has_prefix (c # t) ''null''"
    using c by (auto simp: has_prefix_def)
  ultimately have "json_value (2 * length (itoa n) + 1) (itoa n) = Some (JNumber (itoa n), [])"
    using c json_number_itoa [of n] ct(1) by simp
  then show ?thesis by (simp add: json_parse_def skip_space_def del: json_value.simps)
qed

text \<open>Characters that stand for themselves in a JSON string.\<close>

definition plain_char :: "char \<Rightarrow> bool" where
  "plain_char c \<longleftrightarrow> 32 \<le> (of_char c :: nat) \<and> (of_char c :: nat) < 128 \<and> c \<noteq> CHR 0x22 \<and> c \<noteq> CHR 0x5C"

lemma json_chars_plain:
  "list_all plain_char s \<Longrightarrow> length s < fuel \<Longrightarrow> json_chars fuel (s @ CHR 0x22 # r) = Some (s, r)"
proof (induction s arbitrary: fuel)
  case Nil
  then show ?case by (cases fuel) simp_all
next
  case (Cons c s)
  then obtain k where k: "fuel = Suc k" "length s < k" by (cases fuel) simp_all
  have "json_piece c t = Some ([c], t)" for t
    using Cons.prems(1) by (simp add: json_piece_def utf8_len_def plain_char_def Let_def)
  then show ?case using Cons k by (simp add: plain_char_def)
qed

lemma json_parse_quoted: "list_all plain_char s \<Longrightarrow> json_parse (CHR 0x22 # s @ [CHR 0x22]) = Some (JString s)"
  using json_chars_plain [of s "Suc (length s)" "[]"] by (simp add: json_parse_def skip_space_def is_json_space_def)

lemma digit_plain: "is_digit c \<Longrightarrow> plain_char c"
  by (auto simp: is_digit_def plain_char_def Let_def)

lemma itoa_plain: "list_all plain_char (itoa n)"
proof -
  have "list_all plain_char (nat_digits k)" for k
    using nat_digits_digits [of _ k] digit_plain by (auto simp: list_all_iff)
  moreover have "plain_char CHR ''-''" by (simp add: plain_char_def)
  ultimately show ?thesis by (cases n rule: itoa_shape) simp_all
qed

text \<open>
  Remark: A port may be given as a JSON number or as a JSON string, and both forms of an integer give the same
  port. Exactly these texts are accepted: a string, which is taken as it is, an integer literal of 64 bits without
  fraction and exponent, and \<open>null\<close>, which gives the empty port.
\<close>

theorem port_number_or_string:
  "(is_int64 n \<longrightarrow> port_of_raw (itoa n) = Some (itoa n) \<and> port_of_raw (CHR 0x22 # itoa n @ [CHR 0x22]) = Some (itoa n)) \<and>
   (port_of_raw raw = Some port \<longleftrightarrow>
      json_parse raw = Some JNull \<and> port = [] \<or> json_parse raw = Some (JString port) \<or>
      (\<exists>l k. json_parse raw = Some (JNumber l) \<and> atoi l = Some k \<and> port = itoa k))"
proof (intro conjI impI)
  assume "is_int64 n"
  then show "port_of_raw (itoa n) = Some (itoa n)"
    by (simp add: port_of_raw_def decode_raw_value_def json_parse_itoa decode_string_def decode_int_def is_int64_def atoi_itoa)
next
  show "port_of_raw (CHR 0x22 # itoa n @ [CHR 0x22]) = Some (itoa n)"
    by (simp add: port_of_raw_def decode_raw_value_def json_parse_quoted [OF itoa_plain] decode_string_def)
next
  show "port_of_raw raw = Some port \<longleftrightarrow>
      json_parse raw = Some JNull \<and> port = [] \<or> json_parse raw = Some (JString port) \<or>
      (\<exists>l k. json_parse raw = Some (JNumber l) \<and> atoi l = Some k \<and> port = itoa k)"
  proof (cases "json_parse raw")
    case (Some j)
    then show ?thesis
      by (cases j) (auto simp: port_of_raw_def decode_raw_value_def decode_string_def decode_int_def)
  qed (simp add: port_of_raw_def decode_raw_value_def)
qed

theorem port_number_or_string_witness:
  "port_of_raw (itoa 8080) = Some (itoa 8080) \<and> port_of_raw (CHR 0x22 # itoa 8080 @ [CHR 0x22]) = Some (itoa 8080)"
  using port_number_or_string [of 8080 "[]" "[]"] by (simp add: is_int64_def)

section \<open>Instances by value\<close>

text \<open>The reference: the members of the object are read as JSON values and the last port among them is used.\<close>

record instance_value =
  IvScheme :: string
  IvHost :: string
  IvPort :: "json option"

definition instance_value_field :: "string \<Rightarrow> json \<Rightarrow> instance_value \<Rightarrow> instance_value option" where
  "instance_value_field k j v =
     (if equal_fold k ''scheme'' then map_option (\<lambda>x. v\<lparr>IvScheme := x\<rparr>) (decode_string (IvScheme v) j)
      else if equal_fold k ''host'' then map_option (\<lambda>x. v\<lparr>IvHost := x\<rparr>) (decode_string (IvHost v) j)
      else if equal_fold k ''port'' then Some (v\<lparr>IvPort := Some j\<rparr>)
      else Some v)"

definition port_of_json :: "json \<Rightarrow> string option" where
  "port_of_json j = (case j of JNull \<Rightarrow> Some [] | JString s \<Rightarrow> Some s | JNumber l \<Rightarrow> map_option itoa (atoi l) | _ \<Rightarrow> None)"

definition instance_of_json :: "instance_settings \<Rightarrow> json \<Rightarrow> instance_settings option" where
  "instance_of_json s j = Option.bind (decode_struct instance_value_field \<lparr>IvScheme = [], IvHost = [], IvPort = None\<rparr> j)
     (\<lambda>v. Option.bind (Option.bind (IvPort v) port_of_json)
       (\<lambda>port. Some (s\<lparr>Scheme := IvScheme v, Host := IvHost v, Port := port\<rparr>)))"

lemma port_of_raw_parsed: "port_of_raw raw = Option.bind (json_parse raw) port_of_json"
proof (cases "json_parse raw")
  case (Some j)
  have "atoi (itoa 0) = Some 0" by (rule atoi_itoa) simp_all
  moreover have "itoa 0 = ''0''" by code_simp
  ultimately show ?thesis using Some
    by (cases j) (auto simp: port_of_raw_def decode_raw_value_def decode_string_def decode_int_def port_of_json_def)
qed (simp add: port_of_raw_def decode_raw_value_def)

definition same_instance :: "raw_instance \<Rightarrow> instance_value \<Rightarrow> bool" where
  "same_instance r v \<longleftrightarrow> RiScheme r = IvScheme v \<and> RiHost r = IvHost v \<and> json_parse (RiPort r) = IvPort v"

lemma json_parse_Nil [simp]: "json_parse [] = None"
  by (simp add: json_parse_def skip_space_def)

lemma same_instance_field:
  "json_parse raw = Some j \<Longrightarrow> same_instance r v \<Longrightarrow>
    rel_option same_instance (raw_instance_field k raw r) (instance_value_field k j v)"
  by (cases "decode_string (IvScheme v) j"; cases "decode_string (IvHost v) j")
    (simp_all add: raw_instance_field_def instance_value_field_def decode_raw_value_def same_instance_def)

lemma UnmarshalJSON_value:
  "UnmarshalJSON s data = Option.bind (json_parse data) (instance_of_json s)"
proof -
  let ?zero = "\<lparr>RiScheme = [], RiHost = [], RiPort = []\<rparr>"
  have "same_instance ?zero \<lparr>IvScheme = [], IvHost = [], IvPort = None\<rparr>" by (simp add: same_instance_def)
  then have "rel_option same_instance (decode_raw_struct raw_instance_field ?zero data)
      (Option.bind (json_parse data) (decode_struct instance_value_field \<lparr>IvScheme = [], IvHost = [], IvPort = None\<rparr>))"
    by (rule decode_raw_struct_rel [rotated]) (rule same_instance_field)
  then show ?thesis
    by (cases rule: option.rel_cases; cases "json_parse data")
      (auto simp: UnmarshalJSON_def instance_of_json_def port_of_raw_parsed same_instance_def simp del: Option.bind_assoc split: option.split)
qed

text \<open>
  C21: An instance is decoded from the text of its object, so that its port can be tried as a string and as a
  number. This gives exactly what reading the document as a JSON value gives: the scheme and the host are strings,
  of several members with one name the last that is not null counts, for the port the last in any case; unknown members
  are ignored, and without a port, or with one that is neither string, integer nor null, the instance is refused.
\<close>

theorem UnmarshalJSON_by_value:
  "UnmarshalJSON s data = Option.bind (json_parse data) (instance_of_json s)"
  by (rule UnmarshalJSON_value)

end
