(* ===== verification/Snapshot.thy ===== *)
theory Snapshot
  imports Config
begin

text \<open>
  Facts about the snapshot builder of \<open>internal/config/snapshot.go\<close>: what each operation leaves in
  the indexes, the invariant \<open>snapshot_ok\<close> that ties the route index and the wildcard list to the
  endpoints of the registered services, and its preservation by every candidate the builder makes.
\<close>

section \<open>The invariant\<close>

definition service_routes :: "service_settings \<Rightarrow> route_entry list" where
  "service_routes svc = map (endpoint_route (SvcName svc)) (SvcEndpoints svc)"

definition instance_addr :: "instance_settings \<Rightarrow> string \<times> string" where
  "instance_addr i = (Host i, Port i)"

definition service_ok :: "string \<Rightarrow> service_settings \<Rightarrow> bool" where
  "service_ok name svc \<longleftrightarrow>
     SvcName svc = name \<and> name \<noteq> [] \<and> normalizeServiceName name = name \<and>
     SvcGlobal svc \<noteq> None \<and>
     (case SvcHealth svc of None \<Rightarrow> False | Some h \<Rightarrow> health_normal h) \<and>
     SvcEndpoints svc \<noteq> [] \<and> list_all endpoint_normal (SvcEndpoints svc) \<and>
     distinct (map route_key_of (service_routes svc)) \<and>
     distinct (map instance_addr (SvcInstances svc)) \<and>
     list_all (instance_normal name) (SvcInstances svc)"

definition keyed :: "route_entry \<Rightarrow> route_key \<times> route_entry" where
  "keyed r = (route_key_of r, r)"

definition services_routes :: "(string, service_settings) gomap \<Rightarrow> route_entry list" where
  "services_routes m = concat (map (\<lambda>(n, svc). service_routes svc) m)"

definition snapshot_ok :: "snapshot \<Rightarrow> bool" where
  "snapshot_ok c \<longleftrightarrow>
     gomap_ok (Services c) \<and> gomap_ok (Routes c) \<and>
     list_all (\<lambda>(n, svc). service_ok n svc) (Services c) \<and>
     set (Routes c) = keyed ` set (services_routes (Services c)) \<and>
     distinct (WildcardRoutes c) \<and>
     set (WildcardRoutes c) = set (filter (\<lambda>r. isWildcardPath (RoutePath r)) (map snd (Routes c)))"

definition empty_snapshot :: snapshot where
  "empty_snapshot = \<lparr>Revision = 0, Services = [], Routes = [], WildcardRoutes = []\<rparr>"

lemma snapshot_ok_empty: "snapshot_ok empty_snapshot"
  by (simp add: snapshot_ok_def empty_snapshot_def services_routes_def)

lemma snapshot_okD:
  assumes "snapshot_ok c"
  shows "gomap_ok (Services c)" "gomap_ok (Routes c)"
    "map_of (Services c) n = Some svc \<Longrightarrow> service_ok n svc"
    "set (Routes c) = keyed ` set (services_routes (Services c))"
    "distinct (WildcardRoutes c)"
    "r \<in> set (WildcardRoutes c) \<longleftrightarrow>
       map_of (Routes c) (route_key_of r) = Some r \<and> isWildcardPath (RoutePath r)"
proof -
  show ok: "gomap_ok (Services c)" "gomap_ok (Routes c)"
    "set (Routes c) = keyed ` set (services_routes (Services c))" "distinct (WildcardRoutes c)"
    using assms by (auto simp: snapshot_ok_def)
  show "map_of (Services c) n = Some svc \<Longrightarrow> service_ok n svc"
    using assms by (auto simp: snapshot_ok_def list_all_iff dest: map_of_SomeD)
  have "r \<in> snd ` set (Routes c) \<longleftrightarrow> map_of (Routes c) (route_key_of r) = Some r"
  proof
    assume "r \<in> snd ` set (Routes c)"
    then have "(route_key_of r, r) \<in> set (Routes c)" unfolding ok(3) by (auto simp: keyed_def)
    then show "map_of (Routes c) (route_key_of r) = Some r" using ok(2) by simp
  qed (force dest: map_of_SomeD)
  then show "r \<in> set (WildcardRoutes c) \<longleftrightarrow>
      map_of (Routes c) (route_key_of r) = Some r \<and> isWildcardPath (RoutePath r)"
    using assms by (auto simp: snapshot_ok_def)
qed

text \<open>The entry under a key is a route of the registered service it names.\<close>

lemma snapshot_route_iff:
  assumes "snapshot_ok c"
  shows "map_of (Routes c) k = Some r \<longleftrightarrow> k = route_key_of r \<and>
    (\<exists>svc. map_of (Services c) (RouteService r) = Some svc \<and> r \<in> set (service_routes svc))"
proof -
  note ok = snapshot_okD [OF assms]
  have "map_of (Routes c) k = Some r \<longleftrightarrow> (k, r) \<in> set (Routes c)"
    using ok(2) by simp
  also have "\<dots> \<longleftrightarrow> k = route_key_of r \<and> r \<in> set (services_routes (Services c))"
    unfolding ok(4) by (auto simp: keyed_def)
  also have "r \<in> set (services_routes (Services c)) \<longleftrightarrow>
    (\<exists>n svc. map_of (Services c) n = Some svc \<and> r \<in> set (service_routes svc))"
    using ok(1) by (auto simp: services_routes_def)
  also have "\<dots> \<longleftrightarrow> (\<exists>svc. map_of (Services c) (RouteService r) = Some svc \<and> r \<in> set (service_routes svc))"
  proof -
    have "RouteService r = n" if "map_of (Services c) n = Some svc" "r \<in> set (service_routes svc)" for n svc
      using ok(3) [OF that(1)] that(2) by (auto simp: service_ok_def service_routes_def endpoint_route_def)
    then show ?thesis by blast
  qed
  finally show ?thesis .
qed

lemma snapshot_okI:
  assumes "gomap_ok (Services c)" "gomap_ok (Routes c)" "distinct (WildcardRoutes c)"
    and svc: "\<And>n svc. map_of (Services c) n = Some svc \<Longrightarrow> service_ok n svc"
    and routes: "\<And>k r. map_of (Routes c) k = Some r \<longleftrightarrow> k = route_key_of r \<and>
      (\<exists>svc. map_of (Services c) (RouteService r) = Some svc \<and> r \<in> set (service_routes svc))"
    and wild: "\<And>r. r \<in> set (WildcardRoutes c) \<longleftrightarrow>
       map_of (Routes c) (route_key_of r) = Some r \<and> isWildcardPath (RoutePath r)"
  shows "snapshot_ok c"
proof -
  have mem: "(k, r) \<in> set (Routes c) \<longleftrightarrow> map_of (Routes c) k = Some r" for k r
    using assms(2) by simp
  have svcs: "r \<in> set (services_routes (Services c)) \<longleftrightarrow>
    (\<exists>svc. map_of (Services c) (RouteService r) = Some svc \<and> r \<in> set (service_routes svc))" for r
  proof -
    have "r \<in> set (services_routes (Services c)) \<longleftrightarrow>
      (\<exists>n svc. map_of (Services c) n = Some svc \<and> r \<in> set (service_routes svc))"
      using assms(1) by (auto simp: services_routes_def)
    moreover have "RouteService r = n" if "map_of (Services c) n = Some svc" "r \<in> set (service_routes svc)" for n svc
      using svc [OF that(1)] that(2) by (auto simp: service_ok_def service_routes_def endpoint_route_def)
    ultimately show ?thesis by blast
  qed
  have "set (Routes c) = keyed ` set (services_routes (Services c))"
    using mem routes svcs by (auto simp: keyed_def)
  moreover have "set (WildcardRoutes c) = set (filter (\<lambda>r. isWildcardPath (RoutePath r)) (map snd (Routes c)))"
  proof -
    have "r \<in> snd ` set (Routes c) \<longleftrightarrow> map_of (Routes c) (route_key_of r) = Some r" for r
    proof
      assume "r \<in> snd ` set (Routes c)"
      then obtain k where "map_of (Routes c) k = Some r" using assms(2) by auto
      then show "map_of (Routes c) (route_key_of r) = Some r" using routes by metis
    next
      assume "map_of (Routes c) (route_key_of r) = Some r"
      then show "r \<in> snd ` set (Routes c)" by (force dest: map_of_SomeD)
    qed
    then show ?thesis using wild by auto
  qed
  moreover have "list_all (\<lambda>(n, svc). service_ok n svc) (Services c)"
    using svc assms(1) by (auto simp: list_all_iff)
  ultimately show ?thesis using assms(1-3) by (simp add: snapshot_ok_def)
qed

section \<open>Operations of the builder\<close>

lemma foldl_put_append:
  "gomap_ok (xs @ m) \<Longrightarrow> foldl (\<lambda>m (k, v). AList.update k v m) xs m = xs @ m"
proof (induction m arbitrary: xs)
  case (Cons p m)
  obtain k v where p: "p = (k, v)" by (cases p)
  have "AList.update k v xs = xs @ [(k, v)]"
    using Cons.prems p by (intro gomap_put_new) auto
  then show ?case using Cons p by simp
qed simp

lemma copySnapshotIndex_id: "snapshot_ok c \<Longrightarrow> copySnapshotIndex (Some c) = c"
  using foldl_put_append [of "[]" "Services c"] foldl_put_append [of "[]" "Routes c"]
  by (simp add: copySnapshotIndex_def snapshot_ok_def)

text \<open>Adding routes succeeds exactly when no key belongs to another service.\<close>

definition route_free :: "string \<Rightarrow> snapshot \<Rightarrow> route_entry \<Rightarrow> bool" where
  "route_free s c r = (case map_of (Routes c) (route_key_of r) of
     None \<Rightarrow> True | Some e \<Rightarrow> RouteService e = s)"

definition put_route :: "route_entry \<Rightarrow> snapshot \<Rightarrow> snapshot" where
  "put_route r c = c
     \<lparr>Routes := gomap_put (route_key_of r) r (Routes c),
      WildcardRoutes := (if isWildcardPath (RoutePath r)
        then WildcardRoutes c @ [r] else WildcardRoutes c)\<rparr>"

lemma put_route_simps [simp]:
  "Services (put_route r c) = Services c" "Revision (put_route r c) = Revision c"
  "Routes (put_route r c) = gomap_put (route_key_of r) r (Routes c)"
  "WildcardRoutes (put_route r c) =
     WildcardRoutes c @ filter (\<lambda>r. isWildcardPath (RoutePath r)) [r]"
  by (simp_all add: put_route_def)

lemma addServiceRoutes_Cons:
  "addServiceRoutes s (r # rs) c =
    (if route_free s c r then addServiceRoutes s rs (put_route r c)
     else Inl (invalid_settings ''route already belongs to service''))"
  by (simp add: route_free_def route_key_of_def put_route_def Let_def split: option.splits)

declare addServiceRoutes.simps(2) [simp del] addServiceRoutes_Cons [simp]

lemma addServiceRoutes_fields:
  "addServiceRoutes s rs c = Inr c' \<Longrightarrow>
     Services c' = Services c \<and> Revision c' = Revision c \<and>
     WildcardRoutes c' = WildcardRoutes c @ filter (\<lambda>r. isWildcardPath (RoutePath r)) rs \<and>
     (gomap_ok (Routes c) \<longrightarrow> gomap_ok (Routes c'))"
proof (induction rs arbitrary: c)
  case (Cons r rs)
  then have "addServiceRoutes s rs (put_route r c) = Inr c'" by (simp split: if_splits)
  from Cons.IH [OF this] show ?case by simp
qed simp

lemma addServiceRoutes_Inr_iff:
  assumes "\<forall>r \<in> set rs. RouteService r = s"
  shows "(\<exists>c'. addServiceRoutes s rs c = Inr c') \<longleftrightarrow> (\<forall>r \<in> set rs. route_free s c r)"
  using assms
proof (induction rs arbitrary: c)
  case (Cons r rs)
  have "route_free s (put_route r c) q \<longleftrightarrow> route_free s c q" if "route_free s c r" for q
    using that Cons.prems by (simp add: route_free_def split: option.splits)
  then show ?case using Cons by auto
qed simp

lemma addServiceRoutes_lookup:
  assumes "addServiceRoutes s rs c = Inr c'" "distinct (map route_key_of rs)"
  shows "map_of (Routes c') k =
    (case map_of (map keyed rs) k of Some r \<Rightarrow> Some r | None \<Rightarrow> map_of (Routes c) k)"
  using assms
proof (induction rs arbitrary: c)
  case (Cons r rs)
  have rec: "addServiceRoutes s rs (put_route r c) = Inr c'"
    using Cons.prems by (simp split: if_splits)
  have "map_of (map keyed rs) (route_key_of r) = None"
    using Cons.prems by (auto simp: map_of_eq_None_iff keyed_def)
  moreover have "map_of (map keyed (r # rs)) k = (if k = route_key_of r then Some r else map_of (map keyed rs) k)"
    by (simp add: keyed_def [of r])
  ultimately show ?case using Cons.IH [OF rec] Cons.prems by (auto split: option.splits)
qed simp

section \<open>Candidates keep the invariant\<close>

lemma upsert_addrs:
  "map instance_addr (upsertInstanceSettings is i) =
     (if instance_addr i \<in> set (map instance_addr is) then map instance_addr is
      else map instance_addr is @ [instance_addr i])"
  by (induction "is" i rule: upsertInstanceSettings.induct) (auto simp: instance_addr_def)

lemma upsert_distinct:
  "distinct (map instance_addr is) \<Longrightarrow> distinct (map instance_addr (upsertInstanceSettings is i))"
  unfolding upsert_addrs by simp

lemma upsert_set:
  "distinct (map instance_addr is) \<Longrightarrow>
   set (upsertInstanceSettings is i) = insert i {j \<in> set is. instance_addr j \<noteq> instance_addr i}"
  by (induction "is" i rule: upsertInstanceSettings.induct) (auto simp: instance_addr_def image_iff)

lemma remove_instance_loop_eq:
  "remove_instance_loop i is acc removed =
     (acc @ filter (\<lambda>j. instance_addr j \<noteq> instance_addr i) is,
      removed \<or> instance_addr i \<in> instance_addr ` set is)"
  by (induction i "is" acc removed rule: remove_instance_loop.induct) (auto simp: instance_addr_def)

text \<open>What the builder is given by \<open>normalizeSettings\<close>.\<close>

definition settings_normal :: "string \<Rightarrow> settings \<Rightarrow> instance_settings \<Rightarrow> bool" where
  "settings_normal name s inst \<longleftrightarrow> name \<noteq> [] \<and> normalizeServiceName name = name \<and>
     Global s \<noteq> None \<and> Endpoints s \<noteq> [] \<and>
     (case Health s of None \<Rightarrow> False | Some h \<Rightarrow> health_normal h) \<and>
     instance_normal name inst"

lemma normalizeSettings_normal:
  assumes "normalizeSettings s = Inr (name, s')"
  shows "\<exists>inst. Instance s' = Some inst \<and> settings_normal name s' inst \<and>
    name = normalizeServiceName (ServiceName s) \<and> ServiceName s' = name \<and>
    Endpoints s' = Endpoints s \<and> Global s' = Global s \<and> Threshold s' = Threshold s"
  using assms normalizeInstanceSettings_normal [of "normalizeServiceName (ServiceName s)"]
    normalizeHealthSettings_normal [of "Health s"]
  by (auto simp: normalizeSettings_def Let_def settings_normal_def split: if_splits option.splits)

lemma buildService_ok:
  assumes ok: "snapshot_ok c" and s: "settings_normal name s inst"
    and b: "buildService c name s inst = Inr (svc, rs)"
  shows "service_ok name svc \<and> rs = service_routes svc \<and> inst \<in> set (SvcInstances svc) \<and>
    SvcInstances svc = (case map_of (Services c) name of None \<Rightarrow> [inst]
      | Some old \<Rightarrow> upsertInstanceSettings (SvcInstances old) inst) \<and>
    SvcGlobal svc = Global s \<and> SvcHealth svc = Health s \<and> SvcThreshold svc = Threshold s"
proof -
  obtain es where r: "routeEntriesFromEndpointSettings name (Endpoints s) = Inr (es, rs)"
    and svc: "SvcName svc = (case map_of (Services c) name of None \<Rightarrow> name | Some old \<Rightarrow> SvcName old)"
      "SvcEndpoints svc = es" "SvcGlobal svc = Global s" "SvcHealth svc = Health s"
      "SvcThreshold svc = Threshold s"
      "SvcInstances svc = (case map_of (Services c) name of None \<Rightarrow> [inst]
         | Some old \<Rightarrow> upsertInstanceSettings (SvcInstances old) inst)"
    using b by (auto simp: buildService_def convertSettings_def Let_def
        split: sum.splits option.splits prod.splits)
  note spec = routeEntriesFromEndpointSettings_spec [OF r]
  have name: "SvcName svc = name"
    using svc(1) snapshot_okD(3) [OF ok] by (auto simp: service_ok_def split: option.splits)
  have insts: "distinct (map instance_addr (SvcInstances svc))"
    "list_all (instance_normal name) (SvcInstances svc)" "inst \<in> set (SvcInstances svc)"
    using svc(6) s snapshot_okD(3) [OF ok, of name]
    by (auto simp: settings_normal_def service_ok_def upsert_distinct upsert_set list_all_iff
        split: option.splits)
  have "es \<noteq> []" using spec(2) s by (auto simp: settings_normal_def)
  then show ?thesis using name insts svc spec s
    by (auto simp: service_ok_def settings_normal_def service_routes_def)
qed

text \<open>The whole of \<open>replaceService\<close>: which keys may be taken, and what the new indexes hold.\<close>

lemma removeServiceRoutes_lookup:
  assumes "gomap_ok (Routes c)"
  shows "map_of (Routes (removeServiceRoutes s c)) k = Some r \<longleftrightarrow>
    map_of (Routes c) k = Some r \<and> RouteService r \<noteq> s"
  by (cases "map_of (Routes c) k") (auto simp: removeServiceRoutes_eq gomap_get_keep [OF assms])

lemma service_routes_service: "r \<in> set (service_routes svc) \<Longrightarrow> RouteService r = SvcName svc"
  by (auto simp: service_routes_def endpoint_route_def)

lemma map_of_keyed:
  "distinct (map route_key_of rs) \<Longrightarrow>
     map_of (map keyed rs) k = Some r \<longleftrightarrow> r \<in> set rs \<and> k = route_key_of r"
proof -
  assume "distinct (map route_key_of rs)"
  then have "distinct (map fst (map keyed rs))" by (simp add: keyed_def comp_def)
  then have "map_of (map keyed rs) k = Some r \<longleftrightarrow> (k, r) \<in> set (map keyed rs)" by simp
  then show ?thesis by (auto simp: keyed_def)
qed

lemma replaceService_Inr:
  assumes ok: "snapshot_ok c" and s: "settings_normal name s inst"
    and r: "replaceService name s inst c = Inr c'"
  shows "\<exists>svc. buildService c name s inst = Inr (svc, service_routes svc) \<and> service_ok name svc \<and>
    Services c' = AList.update name svc (Services c) \<and> Revision c' = Revision c \<and>
    WildcardRoutes c' = filter (\<lambda>r. RouteService r \<noteq> name) (WildcardRoutes c) @
      filter (\<lambda>r. isWildcardPath (RoutePath r)) (service_routes svc) \<and>
    gomap_ok (Routes c') \<and>
    (\<forall>k r. map_of (Routes c') k = Some r \<longleftrightarrow>
       r \<in> set (service_routes svc) \<and> k = route_key_of r \<or>
       map_of (Routes c) k = Some r \<and> RouteService r \<noteq> name)"
proof -
  obtain svc rs added where b: "buildService c name s inst = Inr (svc, rs)"
    and a: "addServiceRoutes name rs (removeServiceRoutes name c) = Inr added"
    and c': "c' = added\<lparr>Services := AList.update name svc (Services added)\<rparr>"
    using r by (auto simp: replaceService_def split: sum.splits prod.splits)
  have svc: "service_ok name svc" "rs = service_routes svc"
    using buildService_ok [OF ok s b] by simp_all
  have d: "distinct (map route_key_of rs)" using svc by (simp add: service_ok_def)
  note f = addServiceRoutes_fields [OF a] and l = addServiceRoutes_lookup [OF a d]
  note rem = removeServiceRoutes_lookup [OF snapshot_okD(2) [OF ok]]
  have names: "\<forall>r \<in> set rs. RouteService r = name"
    using svc service_routes_service by (auto simp: service_ok_def)
  then have free: "\<forall>q \<in> set rs. route_free name (removeServiceRoutes name c) q"
    using addServiceRoutes_Inr_iff a by blast
  have none: "map_of (Routes (removeServiceRoutes name c)) (route_key_of q) = None"
    if "q \<in> set rs" for q
    using free that rem by (fastforce simp: route_free_def split: option.splits)
  have "map_of (Routes c') k = Some r \<longleftrightarrow> r \<in> set rs \<and> k = route_key_of r \<or>
       map_of (Routes c) k = Some r \<and> RouteService r \<noteq> name" for k r
  proof (cases "map_of (map keyed rs) k")
    case None
    then show ?thesis using l [of k] rem [of name k r] c' map_of_keyed [OF d, of k r] by auto
  next
    case (Some q)
    then have q: "q \<in> set rs" "k = route_key_of q" using map_of_keyed [OF d] by simp_all
    have "\<not> (map_of (Routes c) k = Some r \<and> RouteService r \<noteq> name)"
      using none [OF q(1)] q(2) rem [of name k r] by simp
    then show ?thesis
      using l [of k] Some c' map_of_keyed [OF d, of k r] by auto
  qed
  moreover have "gomap_ok (Routes (removeServiceRoutes name c))"
    using snapshot_okD(2) [OF ok] by (simp add: removeServiceRoutes_eq)
  ultimately show ?thesis
    using b svc f c' by (simp add: removeServiceRoutes_eq)
qed

lemma replaceService_ok:
  assumes ok: "snapshot_ok c" and s: "settings_normal name s inst"
    and r: "replaceService name s inst c = Inr c'"
  shows "snapshot_ok c'"
proof -
  obtain svc where svc: "service_ok name svc"
    and S: "Services c' = AList.update name svc (Services c)"
    and W: "WildcardRoutes c' = filter (\<lambda>r. RouteService r \<noteq> name) (WildcardRoutes c) @
      filter (\<lambda>r. isWildcardPath (RoutePath r)) (service_routes svc)"
    and gR: "gomap_ok (Routes c')"
    and R: "\<And>k r. map_of (Routes c') k = Some r \<longleftrightarrow>
       r \<in> set (service_routes svc) \<and> k = route_key_of r \<or>
       map_of (Routes c) k = Some r \<and> RouteService r \<noteq> name"
    using replaceService_Inr [OF ok s r] by blast
  note okc = snapshot_okD [OF ok] and names = service_routes_service [of _ svc]
  have sn: "SvcName svc = name" "distinct (map route_key_of (service_routes svc))"
    using svc by (simp_all add: service_ok_def)
  have uniq: "distinct (service_routes svc)" using sn(2) by (simp add: distinct_map)
  show ?thesis
  proof (rule snapshot_okI)
    show "gomap_ok (Services c')" using okc(1) S by simp
    show "gomap_ok (Routes c')" by (rule gR)
    show "distinct (WildcardRoutes c')"
      using okc(5) uniq names sn unfolding W by auto
    show "service_ok n v" if "map_of (Services c') n = Some v" for n v
      using that svc okc(3) S by (auto split: if_splits)
    show "map_of (Routes c') k = Some r \<longleftrightarrow> k = route_key_of r \<and>
      (\<exists>svc. map_of (Services c') (RouteService r) = Some svc \<and> r \<in> set (service_routes svc))" for k r
      using names sn(1) unfolding R snapshot_route_iff [OF ok] S by auto
    show "r \<in> set (WildcardRoutes c') \<longleftrightarrow>
       map_of (Routes c') (route_key_of r) = Some r \<and> isWildcardPath (RoutePath r)" for r
      unfolding W R by (auto simp: okc(6))
  qed
qed

lemma builder_snapshot_ok: "snapshot_ok c \<Longrightarrow> snapshot_ok (builder_snapshot c)"
  by (simp add: snapshot_ok_def builder_snapshot_def)

lemma buildCandidate_ok:
  assumes "snapshot_ok c" "settings_normal name s inst" "buildCandidate (Some c) name s inst = Inr c'"
  shows "snapshot_ok c'"
  using assms replaceService_ok builder_snapshot_ok
  by (auto simp: buildCandidate_def copySnapshotIndex_id)

lemma removeServiceInstance_Inr:
  assumes "removeServiceInstance name i c = Inr c'"
  shows "\<exists>svc. map_of (Services c) name = Some svc \<and>
    instance_addr i \<in> instance_addr ` set (SvcInstances svc) \<and>
    c' = c\<lparr>Services := AList.update name
      (svc\<lparr>SvcInstances := filter (\<lambda>j. instance_addr j \<noteq> instance_addr i) (SvcInstances svc)\<rparr>)
      (Services c)\<rparr>"
  using assms by (auto simp: removeServiceInstance_def remove_instance_loop_eq
      split: option.splits if_splits)

lemma removeServiceInstance_ok:
  assumes ok: "snapshot_ok c" and r: "removeServiceInstance name i c = Inr c'"
  shows "snapshot_ok c'"
proof -
  obtain svc where svc: "map_of (Services c) name = Some svc"
    and c': "c' = c\<lparr>Services := AList.update name
      (svc\<lparr>SvcInstances := filter (\<lambda>j. instance_addr j \<noteq> instance_addr i) (SvcInstances svc)\<rparr>)
      (Services c)\<rparr>" (is "c' = c\<lparr>Services := AList.update name ?svc _\<rparr>")
    using removeServiceInstance_Inr [OF r] by blast
  note okc = snapshot_okD [OF ok]
  have same: "service_routes ?svc = service_routes svc" by (simp add: service_routes_def)
  have "service_ok name svc" using okc(3) [OF svc] .
  then have svc': "service_ok name ?svc"
    unfolding service_ok_def same by (simp add: distinct_map_filter list_all_iff)
  show ?thesis
  proof (rule snapshot_okI)
    show "service_ok n v" if "map_of (Services c') n = Some v" for n v
      using that svc' okc(3) c' by (auto split: if_splits)
    show "map_of (Routes c') k = Some r \<longleftrightarrow> k = route_key_of r \<and>
      (\<exists>svc. map_of (Services c') (RouteService r) = Some svc \<and> r \<in> set (service_routes svc))" for k r
      using same svc by (auto simp: c' snapshot_route_iff [OF ok])
    show "r \<in> set (WildcardRoutes c') \<longleftrightarrow>
       map_of (Routes c') (route_key_of r) = Some r \<and> isWildcardPath (RoutePath r)" for r
      by (simp add: c' okc(6))
  qed (use okc(1,2,5) c' in simp_all)
qed

lemma buildDeregisterCandidate_ok:
  assumes "snapshot_ok c" "buildDeregisterCandidate (Some c) name i = Inr c'"
  shows "snapshot_ok c'"
  using assms removeServiceInstance_ok builder_snapshot_ok
  by (auto simp: buildDeregisterCandidate_def copySnapshotIndex_id)

text \<open>Which endpoint lists are accepted.\<close>

definition endpoint_valid :: "endpoint_settings \<Rightarrow> bool" where
  "endpoint_valid e \<longleftrightarrow> NormalizeHTTPPath (EndpointPath e) \<noteq> [] \<and>
     NormalizeHTTPMethod (EndpointMethod e) \<noteq> [] \<and> NormalizeRoles (EndpointRoles e) \<noteq> None"

definition endpoint_key :: "endpoint_settings \<Rightarrow> route_key" where
  "endpoint_key e = \<lparr>KeyMethod = NormalizeHTTPMethod (EndpointMethod e),
     KeyPath = NormalizeHTTPPath (EndpointPath e)\<rparr>"

lemma route_entries_loop_Inr_iff:
  "(\<exists>x. route_entries_loop s seen es = Inr x) \<longleftrightarrow>
     list_all endpoint_valid es \<and> distinct (map endpoint_key es) \<and>
     endpoint_key ` set es \<inter> set seen = {}"
proof (induction es arbitrary: seen)
  case (Cons e es)
  have step: "(\<exists>x. route_entries_loop s seen (e # es) = Inr x) \<longleftrightarrow>
    endpoint_valid e \<and> endpoint_key e \<notin> set seen \<and>
    (\<exists>x. route_entries_loop s (endpoint_key e # seen) es = Inr x)"
    by (auto simp: endpoint_valid_def endpoint_key_def Let_def split: option.splits sum.splits)
  then show ?case unfolding Cons.IH by auto
qed simp

lemma routeEntries_Inr_iff:
  "(\<exists>x. routeEntriesFromEndpointSettings s es = Inr x) \<longleftrightarrow>
     list_all endpoint_valid es \<and> distinct (map endpoint_key es)"
  using route_entries_loop_Inr_iff [of s "[]" es] by (simp add: routeEntriesFromEndpointSettings_def)

lemma route_entries_loop_keys:
  "route_entries_loop s seen es = Inr (ns, rs) \<Longrightarrow> map route_key_of rs = map endpoint_key es"
  by (induction s seen es arbitrary: ns rs rule: route_entries_loop.induct)
    (auto simp: Let_def route_key_of_def endpoint_key_def split: if_splits option.splits sum.splits)

lemma buildService_Inr_iff:
  "(\<exists>x. buildService c name s inst = Inr x) \<longleftrightarrow>
     list_all endpoint_valid (Endpoints s) \<and> distinct (map endpoint_key (Endpoints s))"
  by (auto simp: buildService_def Let_def simp flip: routeEntries_Inr_iff [of name]
      split: sum.splits option.splits)

text \<open>A candidate is refused exactly for a bad endpoint list or a route of another service.\<close>

definition route_taken :: "snapshot \<Rightarrow> string \<Rightarrow> route_key \<Rightarrow> bool" where
  "route_taken c name k \<longleftrightarrow>
     (case map_of (Routes c) k of None \<Rightarrow> False | Some r \<Rightarrow> RouteService r \<noteq> name)"

lemma route_free_removed:
  assumes "gomap_ok (Routes c)"
  shows "route_free name (removeServiceRoutes name c) r \<longleftrightarrow> \<not> route_taken c name (route_key_of r)"
proof (cases "map_of (Routes c) (route_key_of r)")
  case None
  then have "map_of (Routes (removeServiceRoutes name c)) (route_key_of r) = None"
    using removeServiceRoutes_lookup [OF assms, of name "route_key_of r"] by (metis option.exhaust option.simps(3))
  then show ?thesis using None by (simp add: route_free_def route_taken_def)
next
  case (Some q)
  show ?thesis
  proof (cases "RouteService q = name")
    case True
    then have "map_of (Routes (removeServiceRoutes name c)) (route_key_of r) = None"
      using removeServiceRoutes_lookup [OF assms, of name "route_key_of r"] Some by (metis option.exhaust option.inject)
    then show ?thesis using Some True by (simp add: route_free_def route_taken_def)
  next
    case False
    then have "map_of (Routes (removeServiceRoutes name c)) (route_key_of r) = Some q"
      using removeServiceRoutes_lookup [OF assms] Some by simp
    then show ?thesis using Some False by (simp add: route_free_def route_taken_def)
  qed
qed

lemma buildCandidate_Inr_iff:
  assumes ok: "snapshot_ok c" and s: "settings_normal name s inst"
  shows "(\<exists>c'. buildCandidate (Some c) name s inst = Inr c') \<longleftrightarrow>
    list_all endpoint_valid (Endpoints s) \<and> distinct (map endpoint_key (Endpoints s)) \<and>
    (\<forall>e \<in> set (Endpoints s). \<not> route_taken c name (endpoint_key e))"
proof (cases "\<exists>x. buildService c name s inst = Inr x")
  case False
  have "\<not> (\<exists>c'. buildCandidate (Some c) name s inst = Inr c')"
    using False
    by (auto simp: buildCandidate_def copySnapshotIndex_id [OF ok] replaceService_def split: sum.splits)
  moreover have "\<not> (list_all endpoint_valid (Endpoints s) \<and> distinct (map endpoint_key (Endpoints s)))"
    using False unfolding buildService_Inr_iff .
  ultimately show ?thesis by metis
next
  case True
  then obtain svc rs where b: "buildService c name s inst = Inr (svc, rs)" by auto
  then obtain ns where "routeEntriesFromEndpointSettings name (Endpoints s) = Inr (ns, rs)"
    by (auto simp: buildService_def Let_def split: sum.splits option.splits)
  then have keys: "map route_key_of rs = map endpoint_key (Endpoints s)"
    by (simp add: routeEntriesFromEndpointSettings_def route_entries_loop_keys)
  have "SvcName svc = name" "rs = service_routes svc"
    using buildService_ok [OF ok s b] by (simp_all add: service_ok_def)
  then have names: "\<forall>r \<in> set rs. RouteService r = name"
    using service_routes_service by blast
  have free: "route_free name (removeServiceRoutes name c) r \<longleftrightarrow>
      \<not> route_taken c name (route_key_of r)" for r
    by (rule route_free_removed [OF snapshot_okD(2) [OF ok]])
  have "(\<exists>c'. addServiceRoutes name rs (removeServiceRoutes name c) = Inr c') \<longleftrightarrow>
    (\<forall>r \<in> set rs. \<not> route_taken c name (route_key_of r))"
    unfolding addServiceRoutes_Inr_iff [OF names] free ..
  also have "\<dots> \<longleftrightarrow> (\<forall>k \<in> set (map route_key_of rs). \<not> route_taken c name k)" by simp
  finally have "(\<exists>c'. addServiceRoutes name rs (removeServiceRoutes name c) = Inr c') \<longleftrightarrow>
    (\<forall>e \<in> set (Endpoints s). \<not> route_taken c name (endpoint_key e))"
    unfolding keys by simp
  moreover have "(\<exists>c'. buildCandidate (Some c) name s inst = Inr c') \<longleftrightarrow>
    (\<exists>c'. addServiceRoutes name rs (removeServiceRoutes name c) = Inr c')"
    using b by (auto simp: buildCandidate_def copySnapshotIndex_id [OF ok] replaceService_def
        split: sum.splits)
  moreover have "list_all endpoint_valid (Endpoints s) \<and> distinct (map endpoint_key (Endpoints s))"
    using True unfolding buildService_Inr_iff .
  ultimately show ?thesis by metis
qed

end
