(* ===== verification/Manager.thy ===== *)
theory Manager
  imports Snapshot
begin

text \<open>
  \<open>internal/config/manager.go\<close>: the manager that turns a registration into a candidate snapshot,
  asks every validator, and publishes the candidate. The lock makes the part from the load of the
  current snapshot to the commit one step; the notification of the listeners happens after the
  unlock and is a separate step here as well.
\<close>

section \<open>The manager\<close>

type_synonym validator = "snapshot \<Rightarrow> go_error option"

text \<open>Interface values may be nil, so the lists hold options; \<open>'l\<close> names a listener.\<close>

record 'l manager =
  Validators :: "validator option list"
  Listeners :: "'l option list"
  Active :: "snapshot option"

definition NewManager :: "'l manager" where
  "NewManager = \<lparr>Validators = [], Listeners = [],
     Active = Some \<lparr>Revision = 0, Services = [], Routes = [], WildcardRoutes = []\<rparr>\<rparr>"

definition AddValidator :: "validator option \<Rightarrow> 'l manager \<Rightarrow> 'l manager" where
  "AddValidator v m = m\<lparr>Validators := Validators m @ [v]\<rparr>"

definition AddSnapshotListener :: "'l option \<Rightarrow> 'l manager \<Rightarrow> 'l manager" where
  "AddSnapshotListener l m = m\<lparr>Listeners := Listeners m @ [l]\<rparr>"

definition commit :: "snapshot \<Rightarrow> 'l manager \<Rightarrow> 'l manager" where
  "commit candidate m = m\<lparr>Active := Some candidate\<rparr>"

definition run_validator :: "snapshot \<Rightarrow> validator option \<Rightarrow> go_error option" where
  "run_validator candidate v = (case v of
     None \<Rightarrow> Some (invalid_settings ''validator is required'')
   | Some validate \<Rightarrow> (case validate candidate of
       None \<Rightarrow> None
     | Some e \<Rightarrow> Some (wrap_err [] ''validate config with component'' e)))"

definition commitCandidate :: "snapshot \<Rightarrow> 'l manager \<Rightarrow> 'l option list result \<times> 'l manager" where
  "commitCandidate candidate m =
     (case first_error (run_validator candidate) (Validators m) of
        Some e \<Rightarrow> (Inl e, m)
      | None \<Rightarrow> (Inr (Listeners m), commit candidate m))"

text \<open>The calls \<open>listener.OnSnapshotCommitted(snapshot)\<close> in their order; nil listeners are skipped.\<close>

definition notifySnapshotListeners :: "'l option list \<Rightarrow> snapshot \<Rightarrow> ('l \<times> snapshot) list" where
  "notifySnapshotListeners listeners snap =
     concat (map (\<lambda>l. case l of None \<Rightarrow> [] | Some listener \<Rightarrow> [(listener, snap)]) listeners)"

text \<open>The critical section of \<open>Register\<close>, and the whole call.\<close>

definition Register_locked ::
  "string \<Rightarrow> settings \<Rightarrow> 'l manager \<Rightarrow> ('l option list \<times> snapshot) result \<times> 'l manager" where
  "Register_locked serviceName s m =
     (case Instance s of None \<Rightarrow> (Inl (errorf [Ext] ''nil pointer dereference''), m)
      | Some inst \<Rightarrow>
     (case buildCandidate (Active m) serviceName s inst of
        Inl e \<Rightarrow> (Inl e, m)
      | Inr candidate \<Rightarrow>
        (case commitCandidate candidate m of
           (Inl e, m') \<Rightarrow> (Inl e, m')
         | (Inr listeners, m') \<Rightarrow> (Inr (listeners, candidate), m'))))"

definition Register_commit ::
  "settings \<Rightarrow> 'l manager \<Rightarrow> ('l option list \<times> snapshot) result \<times> 'l manager" where
  "Register_commit s m = (case normalizeSettings s of
     Inl e \<Rightarrow> (Inl e, m)
   | Inr (serviceName, normalizedSettings) \<Rightarrow> Register_locked serviceName normalizedSettings m)"

definition Register ::
  "settings \<Rightarrow> 'l manager \<Rightarrow> go_error option \<times> 'l manager \<times> ('l \<times> snapshot) list" where
  "Register s m = (case Register_commit s m of
     (Inl e, m') \<Rightarrow> (Some e, m', [])
   | (Inr (listeners, candidate), m') \<Rightarrow> (None, m', notifySnapshotListeners listeners candidate))"

definition DeregisterInstance_commit ::
  "string \<Rightarrow> instance_settings \<Rightarrow> 'l manager \<Rightarrow>
     ('l option list \<times> snapshot) result \<times> 'l manager" where
  "DeregisterInstance_commit serviceName inst m =
     (let normalizedServiceName = normalizeServiceName serviceName in
      if normalizedServiceName = [] then (Inl (invalid_settings ''service-name is required''), m)
      else (case normalizeInstanceSettings normalizedServiceName inst of
        Inl e \<Rightarrow> (Inl e, m)
      | Inr normalizedInstance \<Rightarrow>
        (case buildDeregisterCandidate (Active m) normalizedServiceName normalizedInstance of
           Inl e \<Rightarrow> (Inl e, m)
         | Inr candidate \<Rightarrow>
           (case commitCandidate candidate m of
              (Inl e, m') \<Rightarrow> (Inl e, m')
            | (Inr listeners, m') \<Rightarrow> (Inr (listeners, candidate), m')))))"

definition DeregisterInstance ::
  "string \<Rightarrow> instance_settings \<Rightarrow> 'l manager \<Rightarrow>
     go_error option \<times> 'l manager \<times> ('l \<times> snapshot) list" where
  "DeregisterInstance serviceName inst m = (case DeregisterInstance_commit serviceName inst m of
     (Inl e, m') \<Rightarrow> (Some e, m', [])
   | (Inr (listeners, candidate), m') \<Rightarrow> (None, m', notifySnapshotListeners listeners candidate))"

text \<open>\<open>None\<close> as the receiver is the nil manager.\<close>

definition Settings :: "'l manager option \<Rightarrow> snapshot option" where
  "Settings m = (case m of None \<Rightarrow> None | Some m \<Rightarrow> Active m)"

definition ConfigFor :: "string \<Rightarrow> 'l manager option \<Rightarrow> service_settings option" where
  "ConfigFor serviceName m = (case Settings m of
     None \<Rightarrow> None
   | Some snap \<Rightarrow>
       (let normalizedServiceName = normalizeServiceName serviceName in
        if normalizedServiceName = [] then None
        else (case gomap_get (Services snap) normalizedServiceName of
          None \<Rightarrow> None
        | Some s \<Rightarrow> Some (service_Clone s))))"

section \<open>The shape of a commit\<close>

definition accepted :: "'l manager \<Rightarrow> snapshot \<Rightarrow> bool" where
  "accepted m c \<longleftrightarrow> list_all (\<lambda>v. run_validator c v = None) (Validators m)"

lemma commitCandidate_eq:
  "commitCandidate c m = (if accepted m c then (Inr (Listeners m), commit c m)
     else (Inl (the (first_error (run_validator c) (Validators m))), m))"
  by (auto simp: commitCandidate_def accepted_def list_all_iff split: option.splits
      simp flip: first_error_None_iff)

lemma Register_commit_cases:
  obtains (failed) e where "Register_commit s m = (Inl e, m)"
  | (committed) name s' inst c where "Register_commit s m = (Inr (Listeners m, c), commit c m)"
      "normalizeSettings s = Inr (name, s')" "Instance s' = Some inst"
      "buildCandidate (Active m) name s' inst = Inr c" "accepted m c"
  by (cases "normalizeSettings s")
    (fastforce simp: Register_commit_def Register_locked_def commitCandidate_eq
      split: sum.splits option.splits prod.splits if_splits)+

lemma Deregister_commit_cases:
  obtains (failed) e where "DeregisterInstance_commit n i m = (Inl e, m)"
  | (committed) i' c where "DeregisterInstance_commit n i m = (Inr (Listeners m, c), commit c m)"
      "normalizeServiceName n \<noteq> []"
      "normalizeInstanceSettings (normalizeServiceName n) i = Inr i'"
      "buildDeregisterCandidate (Active m) (normalizeServiceName n) i' = Inr c" "accepted m c"
proof (cases "normalizeServiceName n = []")
  case True
  then show ?thesis using failed by (simp add: DeregisterInstance_commit_def)
next
  case False
  then show ?thesis
    by (cases "normalizeInstanceSettings (normalizeServiceName n) i";
        cases "buildDeregisterCandidate (Active m) (normalizeServiceName n)
          (projr (normalizeInstanceSettings (normalizeServiceName n) i))";
        cases "accepted m (projr (buildDeregisterCandidate (Active m) (normalizeServiceName n)
          (projr (normalizeInstanceSettings (normalizeServiceName n) i))))")
      (auto simp: DeregisterInstance_commit_def commitCandidate_eq Let_def intro: failed committed)
qed

lemma commit_simps [simp]:
  "Active (commit c m) = Some c" "Validators (commit c m) = Validators m"
  "Listeners (commit c m) = Listeners m"
  by (simp_all add: commit_def)

section \<open>What a validator promises\<close>

text \<open>
  The interface \<open>Validator\<close>: accepting a candidate means that the candidate satisfies what the
  component needs at run time. The components that are registered as validators (the route
  validator, the auth store, the policy store) interpret it with their own \<open>sound\<close>.
\<close>

definition guarded :: "validator \<Rightarrow> (snapshot \<Rightarrow> bool) \<Rightarrow> 'l manager \<Rightarrow> bool" where
  "guarded validate sound m \<longleftrightarrow> Some validate \<in> set (Validators m) \<and>
     (case Active m of None \<Rightarrow> False | Some c \<Rightarrow> sound c)"

locale snapshot_validator =
  fixes validate :: "snapshot \<Rightarrow> go_error option"
    and sound :: "snapshot \<Rightarrow> bool"
  assumes validate_sound: "validate c = None \<Longrightarrow> sound c"
begin

lemma accepted_sound: "accepted m c \<Longrightarrow> Some validate \<in> set (Validators m) \<Longrightarrow> sound c"
  by (rule validate_sound) (auto simp: accepted_def list_all_iff run_validator_def split: option.splits)

lemma Register_commit_guarded:
  "guarded validate sound m \<Longrightarrow> guarded validate sound (snd (Register_commit s m))"
  by (cases rule: Register_commit_cases [of s m]) (auto simp: guarded_def intro: accepted_sound)

lemma Deregister_commit_guarded:
  "guarded validate sound m \<Longrightarrow> guarded validate sound (snd (DeregisterInstance_commit n i m))"
  by (cases rule: Deregister_commit_cases [of n i m]) (auto simp: guarded_def intro: accepted_sound)

end

section \<open>Every reachable manager is consistent\<close>

definition manager_ok :: "'l manager \<Rightarrow> bool" where
  "manager_ok m \<longleftrightarrow> (case Active m of None \<Rightarrow> False | Some c \<Rightarrow> snapshot_ok c)"

text \<open>A manager, as the program builds and uses it.\<close>

inductive manager_reachable :: "'l manager \<Rightarrow> bool" where
  new: "manager_reachable NewManager"
| add_validator: "manager_reachable m \<Longrightarrow> manager_reachable (AddValidator v m)"
| add_listener: "manager_reachable m \<Longrightarrow> manager_reachable (AddSnapshotListener l m)"
| register: "manager_reachable m \<Longrightarrow> Register s m = (err, m', calls) \<Longrightarrow> manager_reachable m'"
| deregister: "manager_reachable m \<Longrightarrow> DeregisterInstance n i m = (err, m', calls) \<Longrightarrow>
    manager_reachable m'"

lemma Register_eq:
  "Register s m = (err, m', calls) \<Longrightarrow>
     m' = snd (Register_commit s m) \<and>
     (case fst (Register_commit s m) of
        Inl e \<Rightarrow> err = Some e \<and> calls = []
      | Inr (ls, c) \<Rightarrow> err = None \<and> calls = notifySnapshotListeners ls c)"
  by (auto simp: Register_def split: prod.splits sum.splits)

lemma Deregister_eq:
  "DeregisterInstance n i m = (err, m', calls) \<Longrightarrow>
     m' = snd (DeregisterInstance_commit n i m) \<and>
     (case fst (DeregisterInstance_commit n i m) of
        Inl e \<Rightarrow> err = Some e \<and> calls = []
      | Inr (ls, c) \<Rightarrow> err = None \<and> calls = notifySnapshotListeners ls c)"
  by (auto simp: DeregisterInstance_def split: prod.splits sum.splits)

lemma Register_commit_ok:
  assumes "manager_ok m"
  shows "manager_ok (snd (Register_commit s m))"
proof (cases rule: Register_commit_cases [of s m])
  case (committed name s' inst c)
  obtain c0 where c0: "Active m = Some c0" "snapshot_ok c0"
    using assms by (auto simp: manager_ok_def split: option.splits)
  have "settings_normal name s' inst"
    using normalizeSettings_normal [OF committed(2)] committed(3) by auto
  then have "snapshot_ok c"
    using buildCandidate_ok [OF c0(2)] committed(4) c0(1) by simp
  then show ?thesis using committed(1) by (simp add: manager_ok_def)
qed (use assms in simp)

lemma Deregister_commit_ok:
  assumes "manager_ok m"
  shows "manager_ok (snd (DeregisterInstance_commit n i m))"
proof (cases rule: Deregister_commit_cases [of n i m])
  case (committed i' c)
  obtain c0 where c0: "Active m = Some c0" "snapshot_ok c0"
    using assms by (auto simp: manager_ok_def split: option.splits)
  then have "snapshot_ok c"
    using buildDeregisterCandidate_ok [OF c0(2)] committed(4) by simp
  then show ?thesis using committed(1) by (simp add: manager_ok_def)
qed (use assms in simp)

lemma NewManager_ok: "manager_ok NewManager"
  using snapshot_ok_empty by (simp add: manager_ok_def NewManager_def empty_snapshot_def)

lemma reachable_ok: "manager_reachable m \<Longrightarrow> manager_ok m"
proof (induction rule: manager_reachable.induct)
  case (register m s err m' calls)
  then show ?case using Register_eq Register_commit_ok by metis
next
  case (deregister m n i err m' calls)
  then show ?case using Deregister_eq Deregister_commit_ok by metis
qed (simp_all add: NewManager_ok, simp_all add: manager_ok_def AddValidator_def AddSnapshotListener_def)

section \<open>When a registration is accepted\<close>

definition request_valid :: "settings \<Rightarrow> bool" where
  "request_valid s \<longleftrightarrow>
     normalizeServiceName (ServiceName s) \<noteq> [] \<and> Global s \<noteq> None \<and> Endpoints s \<noteq> [] \<and>
     (case Instance s of None \<Rightarrow> False
      | Some i \<Rightarrow> \<not> isl (normalizeInstanceSettings (ServiceName s) i)) \<and>
     \<not> isl (normalizeHealthSettings (Health s)) \<and>
     list_all endpoint_valid (Endpoints s) \<and> distinct (map endpoint_key (Endpoints s))"

lemma normalizeInstanceSettings_name:
  "normalizeInstanceSettings (normalizeServiceName n) i = normalizeInstanceSettings n i"
  by (simp add: normalizeInstanceSettings_def)

lemma normalizeSettings_Inr_iff:
  "(\<exists>x. normalizeSettings s = Inr x) \<longleftrightarrow>
     normalizeServiceName (ServiceName s) \<noteq> [] \<and> Global s \<noteq> None \<and> Endpoints s \<noteq> [] \<and>
     (case Instance s of None \<Rightarrow> False
      | Some i \<Rightarrow> \<not> isl (normalizeInstanceSettings (ServiceName s) i)) \<and>
     \<not> isl (normalizeHealthSettings (Health s))"
  by (cases "Instance s")
    (auto simp: normalizeSettings_def Let_def normalizeInstanceSettings_name res_bind_def isl_def
      split: sum.splits)

lemma Register_None_iff:
  assumes "Active m = Some c"
  shows "fst (Register s m) = None \<longleftrightarrow> (\<exists>name s' inst c'. normalizeSettings s = Inr (name, s') \<and>
    Instance s' = Some inst \<and> buildCandidate (Some c) name s' inst = Inr c' \<and> accepted m c')"
  using assms
  by (cases "normalizeSettings s")
    (auto simp: Register_def Register_commit_def Register_locked_def commitCandidate_eq split: sum.splits option.splits if_splits)

section \<open>What a registration does\<close>

lemma Register_success:
  assumes ok: "Active m = Some c" "snapshot_ok c" and r: "Register s m = (None, m', calls)"
  shows "\<exists>s' inst svc c'.
    normalizeSettings s = Inr (normalizeServiceName (ServiceName s), s') \<and> Instance s' = Some inst \<and>
    Active m' = Some c' \<and> snapshot_ok c' \<and> Revision c' = Revision c + 1 \<and> accepted m c' \<and>
    calls = notifySnapshotListeners (Listeners m) c' \<and>
    Services c' = AList.update (normalizeServiceName (ServiceName s)) svc (Services c) \<and>
    SvcGlobal svc = Global s \<and> SvcHealth svc = Health s' \<and> SvcThreshold svc = Threshold s \<and>
    map route_key_of (service_routes svc) = map endpoint_key (Endpoints s) \<and>
    list_all2 endpoint_taken_from (Endpoints s) (SvcEndpoints svc) \<and>
    inst \<in> set (SvcInstances svc) \<and>
    SvcInstances svc = (case map_of (Services c) (normalizeServiceName (ServiceName s)) of
      None \<Rightarrow> [inst] | Some old \<Rightarrow> upsertInstanceSettings (SvcInstances old) inst) \<and>
    (\<forall>k r. map_of (Routes c') k = Some r \<longleftrightarrow>
       r \<in> set (service_routes svc) \<and> k = route_key_of r \<or>
       map_of (Routes c) k = Some r \<and> RouteService r \<noteq> normalizeServiceName (ServiceName s))"
proof (cases rule: Register_commit_cases [of s m])
  case (failed e)
  then show ?thesis using r by (simp add: Register_def)
next
  case (committed name s' inst c')
  have n: "settings_normal name s' inst" "name = normalizeServiceName (ServiceName s)"
    "Global s' = Global s" "Threshold s' = Threshold s" "Endpoints s' = Endpoints s"
    using normalizeSettings_normal [OF committed(2)] committed(3) by auto
  obtain d where d: "replaceService name s' inst c = Inr d" "c' = builder_snapshot d"
    using committed(4) ok by (auto simp: buildCandidate_def copySnapshotIndex_id)
  obtain svc where b: "buildService c name s' inst = Inr (svc, service_routes svc)"
    and D: "Services d = AList.update name svc (Services c)" "Revision d = Revision c"
      "\<forall>k r. map_of (Routes d) k = Some r \<longleftrightarrow> r \<in> set (service_routes svc) \<and> k = route_key_of r \<or>
       map_of (Routes c) k = Some r \<and> RouteService r \<noteq> name"
    using replaceService_Inr [OF ok(2) n(1) d(1)] by blast
  obtain ns where "routeEntriesFromEndpointSettings name (Endpoints s') = Inr (ns, service_routes svc)"
    using b by (auto simp: buildService_def Let_def split: sum.splits option.splits)
  then have "map route_key_of (service_routes svc) = map endpoint_key (Endpoints s')"
    by (simp add: routeEntriesFromEndpointSettings_def route_entries_loop_keys)
  moreover have "snapshot_ok c'" using buildCandidate_ok [OF ok(2) n(1)] committed(4) ok(1) by simp
  ultimately show ?thesis
    using buildService_ok [OF ok(2) n(1) b] buildService_endpoints [OF b] committed r n D d(2)
    by (intro exI [of _ s'] exI [of _ inst] exI [of _ svc] exI [of _ c'])
      (auto simp: Register_def builder_snapshot_def)
qed

section \<open>A small configuration, for concrete instances of the properties\<close>

definition sample_settings :: "string \<Rightarrow> string \<Rightarrow> string \<Rightarrow> settings" where
  "sample_settings name host path =
     \<lparr>Global = Some \<lparr>Auth = None\<rparr>, Health = None,
      Instance = Some \<lparr>Scheme = ''http'', Host = host, Port = ''8080'', HealthKey = []\<rparr>,
      ServiceName = name, Threshold = None,
      Endpoints = [\<lparr>EndpointPath = path, EndpointMethod = ''get'', EndpointRoles = [''USER'']\<rparr>]\<rparr>"

definition register_all :: "settings list \<Rightarrow> nat manager" where
  "register_all ss = foldl (\<lambda>m s. fst (snd (Register s m))) NewManager ss"

definition sample_manager :: "nat manager" where
  "sample_manager = register_all
     [sample_settings '' Users'' ''10.0.0.1'' ''/users'', sample_settings ''users'' ''10.0.0.2'' ''/users'']"

lemma register_all_reachable: "manager_reachable (register_all ss)"
proof -
  have "manager_reachable m \<Longrightarrow> manager_reachable (foldl (\<lambda>m s. fst (snd (Register s m))) m ss)" for m
  proof (induction ss arbitrary: m)
    case (Cons s ss)
    obtain err m' calls where r: "Register s m = (err, m', calls)" by (metis prod.collapse)
    have "manager_reachable (fst (snd (Register s m)))"
      using manager_reachable.register [OF Cons.prems r] r by simp
    then show ?case using Cons.IH by simp
  qed simp
  from this [OF manager_reachable.new] show ?thesis unfolding register_all_def .
qed


definition sample_snapshot :: snapshot where
  "sample_snapshot =
     \<lparr>Revision = 2,
      Services = [(''users'', \<lparr>SvcName = ''users'', SvcGlobal = Some \<lparr>Auth = None\<rparr>,
        SvcHealth = Some \<lparr>Enabled = Some True, HealthPath = ''/actuator/health'', Interval = ''5s'',
          Timeout = ''2s'', Jitter = ''2s'', MaxBackoff = ''5m0s'', FailureThreshold = 2, SuccessThreshold = 1\<rparr>,
        SvcThreshold = None,
        SvcEndpoints = [\<lparr>EndpointPath = ''/users'', EndpointMethod = ''GET'', EndpointRoles = [''USER'']\<rparr>],
        SvcInstances =
          [\<lparr>Scheme = ''http'', Host = ''10.0.0.1'', Port = ''8080'', HealthKey = ''users|http|10.0.0.1|8080''\<rparr>,
           \<lparr>Scheme = ''http'', Host = ''10.0.0.2'', Port = ''8080'', HealthKey = ''users|http|10.0.0.2|8080''\<rparr>]\<rparr>)],
      Routes = [(\<lparr>KeyMethod = ''GET'', KeyPath = ''/users''\<rparr>,
        \<lparr>RouteService = ''users'', RoutePath = ''/users'', RouteMethod = ''GET'', RouteRoles = [''USER'']\<rparr>)],
      WildcardRoutes = []\<rparr>"
lemma sample_active: "Active sample_manager = Some sample_snapshot" by code_simp

lemma sample_reachable: "manager_reachable sample_manager"
  unfolding sample_manager_def by (rule register_all_reachable)

lemma sample_ok: "snapshot_ok sample_snapshot"
  using reachable_ok [OF sample_reachable] sample_active by (simp add: manager_ok_def)

lemma sample_validators: "Validators sample_manager = []" "Listeners sample_manager = []"
proof -
  have all: "Validators (foldl (\<lambda>m s. fst (snd (Register s m))) m ss) = Validators m \<and>
      Listeners (foldl (\<lambda>m s. fst (snd (Register s m))) m ss) = Listeners m" for m :: "nat manager" and ss
  proof (induction ss arbitrary: m)
    case (Cons s ss)
    have "fst (snd (Register s m)) = snd (Register_commit s m)"
      by (simp add: Register_def split: prod.splits sum.splits)
    moreover have "Validators (snd (Register_commit s m)) = Validators m \<and>
        Listeners (snd (Register_commit s m)) = Listeners m"
      by (cases rule: Register_commit_cases [of s m]) simp_all
    ultimately show ?case using Cons.IH [of "fst (snd (Register s m))"] by simp
  qed simp
  show "Validators sample_manager = []" "Listeners sample_manager = []"
    unfolding sample_manager_def register_all_def all [THEN conjunct1] all [THEN conjunct2]
    by (simp_all add: NewManager_def)
qed

section \<open>Properties of registration\<close>

text \<open>
  C4: In every manager the program can build by adding validators and listeners and by calls of
  \<open>Register\<close> and \<open>DeregisterInstance\<close>, successful or not, the active snapshot is consistent: the
  services are stored under their normalised names with normalised settings and pairwise different
  instance addresses, the route index holds exactly the routes of the registered endpoints, each
  under its own key and naming its own service, and the wildcard list holds exactly the wildcard
  routes of the index.
\<close>

theorem active_snapshot_consistent:
  assumes "manager_reachable m"
  shows "\<exists>c. Active m = Some c \<and> snapshot_ok c \<and>
    (\<forall>k r. map_of (Routes c) k = Some r \<longleftrightarrow> k = route_key_of r \<and>
       (\<exists>svc. map_of (Services c) (RouteService r) = Some svc \<and> r \<in> set (service_routes svc)))"
  using reachable_ok [OF assms] snapshot_route_iff
  by (auto simp: manager_ok_def simp del: map_of_eq_Some_iff split: option.splits)

theorem active_snapshot_consistent_witness:
  "\<exists>c. Active sample_manager = Some c \<and> snapshot_ok c \<and>
    (\<forall>k r. map_of (Routes c) k = Some r \<longleftrightarrow> k = route_key_of r \<and>
       (\<exists>svc. map_of (Services c) (RouteService r) = Some svc \<and> r \<in> set (service_routes svc)))"
  by (rule active_snapshot_consistent [OF sample_reachable])

text \<open>
  C5: A successful \<open>Register\<close> publishes the next revision. The service then answers to every spelling
  of its name with the settings of the request in normal form, roles included; its instance list is the old one with
  the new address inserted, or replaced in place when the address was known; its old routes are gone
  and exactly the requested ones are in the index; every other service and every other service's
  route is untouched; and exactly the non-nil listeners are called, once each, with that snapshot.
\<close>

theorem Register_effect:
  assumes m: "Active m = Some c" "snapshot_ok c" and r: "Register s m = (None, m', calls)"
    and name: "name = normalizeServiceName (ServiceName s)"
  shows "\<exists>c' svc s' inst.
    Active m' = Some c' \<and> Revision c' = Revision c + 1 \<and>
    (\<forall>spelling. normalizeServiceName spelling = name \<longrightarrow> ConfigFor spelling (Some m') = Some svc) \<and>
    normalizeSettings s = Inr (name, s') \<and> Instance s' = Some inst \<and>
    SvcGlobal svc = Global s \<and> SvcHealth svc = Health s' \<and> SvcThreshold svc = Threshold s \<and>
    SvcInstances svc = (case map_of (Services c) name of
      None \<Rightarrow> [inst] | Some old \<Rightarrow> upsertInstanceSettings (SvcInstances old) inst) \<and>
    map route_key_of (service_routes svc) = map endpoint_key (Endpoints s) \<and>
    list_all2 endpoint_taken_from (Endpoints s) (SvcEndpoints svc) \<and>
    (\<forall>n. n \<noteq> name \<longrightarrow> map_of (Services c') n = map_of (Services c) n) \<and>
    (\<forall>k r. map_of (Routes c') k = Some r \<longleftrightarrow>
       r \<in> set (service_routes svc) \<and> k = route_key_of r \<or>
       map_of (Routes c) k = Some r \<and> RouteService r \<noteq> name) \<and>
    calls = concat (map (\<lambda>l. case l of None \<Rightarrow> [] | Some x \<Rightarrow> [(x, c')]) (Listeners m))"
proof -
  obtain s' inst svc c' where e: "normalizeSettings s = Inr (name, s')" "Instance s' = Some inst"
    "Active m' = Some c'" "Revision c' = Revision c + 1"
    "calls = notifySnapshotListeners (Listeners m) c'"
    "Services c' = AList.update name svc (Services c)"
    "SvcGlobal svc = Global s" "SvcHealth svc = Health s'" "SvcThreshold svc = Threshold s"
    "map route_key_of (service_routes svc) = map endpoint_key (Endpoints s)"
    "list_all2 endpoint_taken_from (Endpoints s) (SvcEndpoints svc)"
    "SvcInstances svc = (case map_of (Services c) name of
      None \<Rightarrow> [inst] | Some old \<Rightarrow> upsertInstanceSettings (SvcInstances old) inst)"
    "\<forall>k r. map_of (Routes c') k = Some r \<longleftrightarrow> r \<in> set (service_routes svc) \<and> k = route_key_of r \<or>
       map_of (Routes c) k = Some r \<and> RouteService r \<noteq> name"
    using Register_success [OF m r] unfolding name by blast
  have "name \<noteq> []" using normalizeSettings_normal [OF e(1)] by (auto simp: settings_normal_def)
  then have "ConfigFor spelling (Some m') = Some svc" if "normalizeServiceName spelling = name" for spelling
    using that e(3,6) by (simp add: ConfigFor_def Settings_def)
  then show ?thesis using e
    by (intro exI [of _ c'] exI [of _ svc] exI [of _ s'] exI [of _ inst])
      (simp add: notifySnapshotListeners_def)
qed

definition sample_base :: "nat manager" where
  "sample_base = \<lparr>Validators = [], Listeners = [None, Some 7], Active = Some sample_snapshot\<rparr>"

definition sample_orders :: settings where
  "sample_orders = sample_settings ''Orders'' ''10.0.0.9'' ''/orders''"

lemma sample_base_simps [simp]:
  "Validators sample_base = []" "Active sample_base = Some sample_snapshot"
  by (simp_all add: sample_base_def)

lemma sample_registers: "fst (Register sample_orders sample_base) = None"
  by code_simp

lemma sample_registers_eq:
  "Register sample_orders sample_base =
     (None, fst (snd (Register sample_orders sample_base)), snd (snd (Register sample_orders sample_base)))"
  by (simp add: prod_eq_iff sample_registers)

lemma sample_names: "normalizeServiceName (ServiceName sample_orders) = ''orders''"
  "normalizeServiceName '' ORDERS'' = ''orders''"
  by code_simp+

theorem Register_effect_witness:
  "\<exists>c' svc. Active (fst (snd (Register sample_orders sample_base))) = Some c' \<and> Revision c' = 3 \<and>
     ConfigFor '' ORDERS'' (Some (fst (snd (Register sample_orders sample_base)))) = Some svc \<and>
     map_of (Services c') ''users'' = map_of (Services sample_snapshot) ''users'' \<and>
     snd (snd (Register sample_orders sample_base)) = [(7, c')]"
  using Register_effect [OF _ sample_ok sample_registers_eq refl, unfolded sample_names(1)] sample_names(2)
  by (fastforce simp: sample_base_def sample_snapshot_def)

text \<open>
  Remark: A refused operation changes nothing and calls nobody: when \<open>Register\<close> or
  \<open>DeregisterInstance\<close> returns an error, the manager, its active snapshot included, is the one
  before the call.
\<close>

theorem refused_changes_nothing:
  "(case Register s m of (err, m', calls) \<Rightarrow> err = None \<or> m' = m \<and> calls = []) \<and>
   (case DeregisterInstance n i m of (err, m', calls) \<Rightarrow> err = None \<or> m' = m \<and> calls = [])"
  by (cases rule: Register_commit_cases [of s m]; cases rule: Deregister_commit_cases [of n i m])
    (simp_all add: Register_def DeregisterInstance_def)

definition accepts_consistent :: "'l manager \<Rightarrow> bool" where
  "accepts_consistent m \<longleftrightarrow>
     (\<forall>v \<in> set (Validators m). \<exists>f. v = Some f \<and> (\<forall>d. snapshot_ok d \<longrightarrow> f d = None))"

lemma accepts_consistentD: "accepts_consistent m \<Longrightarrow> snapshot_ok d \<Longrightarrow> accepted m d"
  by (fastforce simp: accepts_consistent_def accepted_def list_all_iff run_validator_def)

lemma DeregisterInstance_result:
  assumes m: "Active m = Some c" "snapshot_ok c"
    and acc: "\<And>d. buildDeregisterCandidate (Some c) name i' = Inr d \<Longrightarrow> accepted m d"
    and n: "name = normalizeServiceName n" "name \<noteq> []" "normalizeInstanceSettings name i = Inr i'"
  shows "case map_of (Services c) name of
      None \<Rightarrow> \<exists>e. DeregisterInstance n i m = (Some e, m, []) \<and> errors_is e Config_ErrServiceNotFound
    | Some svc \<Rightarrow>
        if instance_addr i' \<in> instance_addr ` set (SvcInstances svc) then
          \<exists>c'. DeregisterInstance n i m = (None, m\<lparr>Active := Some c'\<rparr>, notifySnapshotListeners (Listeners m) c') \<and>
            Revision c' = Revision c + 1 \<and> Routes c' = Routes c \<and> WildcardRoutes c' = WildcardRoutes c \<and>
            (\<forall>k. map_of (Services c') k = (if k = name then
               Some (svc\<lparr>SvcInstances := filter (\<lambda>j. instance_addr j \<noteq> instance_addr i') (SvcInstances svc)\<rparr>)
               else map_of (Services c) k))
        else \<exists>e. DeregisterInstance n i m = (Some e, m, []) \<and> errors_is e Config_ErrInstanceNotFound"
proof -
  have b: "buildDeregisterCandidate (Some c) name i' =
    res_bind (removeServiceInstance name i' c) (\<lambda>d. Inr (builder_snapshot d))"
    by (simp add: buildDeregisterCandidate_def copySnapshotIndex_id [OF m(2)])
  show ?thesis
    using n m(1) b acc
    by (auto simp: DeregisterInstance_def DeregisterInstance_commit_def commitCandidate_eq commit_def
        removeServiceInstance_def remove_instance_loop_eq builder_snapshot_def Let_def
        split: option.splits if_splits)
qed

text \<open>
  Remark: Registering an instance at an address the service did not have and deregistering it again
  leaves the instance list as it was (empty for a service that did not exist before).
\<close>

theorem register_then_deregister:
  assumes m: "Active m = Some c" "snapshot_ok c" "accepts_consistent m"
    and r: "Register s m = (None, m1, calls)" and i: "Instance s = Some i"
    and name: "name = normalizeServiceName (ServiceName s)" "normalizeInstanceSettings name i = Inr i'"
    and fresh: "\<forall>svc. map_of (Services c) name = Some svc \<longrightarrow>
      instance_addr i' \<notin> instance_addr ` set (SvcInstances svc)"
  shows "\<exists>m2 calls2 svc. DeregisterInstance (ServiceName s) i m1 = (None, m2, calls2) \<and>
    ConfigFor (ServiceName s) (Some m2) = Some svc \<and>
    SvcInstances svc = (case map_of (Services c) name of None \<Rightarrow> [] | Some old \<Rightarrow> SvcInstances old)"
proof -
  obtain s' inst svc c1 where e: "normalizeSettings s = Inr (name, s')" "Instance s' = Some inst"
    "Active m1 = Some c1" "snapshot_ok c1" "Services c1 = AList.update name svc (Services c)"
    "SvcInstances svc = (case map_of (Services c) name of
      None \<Rightarrow> [inst] | Some old \<Rightarrow> upsertInstanceSettings (SvcInstances old) inst)"
    using Register_success [OF m(1,2) r] unfolding name(1) by blast
  have "name \<noteq> []" using normalizeSettings_normal [OF e(1)] by (auto simp: settings_normal_def)
  have inst: "inst = i'" using e(1,2) i name
    by (auto simp: normalizeSettings_def Let_def split: if_splits)
  have vals: "accepts_consistent m1"
    using m(3) r by (cases rule: Register_commit_cases [of s m])
      (auto simp: Register_def accepts_consistent_def)
  have ups: "filter (\<lambda>j. instance_addr j \<noteq> instance_addr i') (upsertInstanceSettings js i') = js"
    if "instance_addr i' \<notin> instance_addr ` set js" for js
    using that by (induction js i' rule: upsertInstanceSettings.induct) (auto simp: instance_addr_def)
  have filt: "filter (\<lambda>j. instance_addr j \<noteq> instance_addr i') (SvcInstances svc) =
      (case map_of (Services c) name of None \<Rightarrow> [] | Some old \<Rightarrow> SvcInstances old)"
    using fresh ups unfolding e(6) inst by (auto split: option.splits)
  have mem: "instance_addr i' \<in> instance_addr ` set (SvcInstances svc)"
  proof -
    have "i' \<in> set (upsertInstanceSettings js i')" for js
      by (induction js i' rule: upsertInstanceSettings.induct) auto
    then show ?thesis unfolding e(6) inst by (auto split: option.splits)
  qed
  have svc1: "map_of (Services c1) name = Some svc" using e(5) by simp
  have acc: "accepted m1 d" if "buildDeregisterCandidate (Some c1) name i' = Inr d" for d
    using accepts_consistentD [OF vals buildDeregisterCandidate_ok [OF e(4) that]] .
  obtain m2 calls2 c2 where d: "DeregisterInstance (ServiceName s) i m1 = (None, m2, calls2)"
    "Active m2 = Some c2" "map_of (Services c2) name = Some
       (svc\<lparr>SvcInstances := filter (\<lambda>j. instance_addr j \<noteq> instance_addr i') (SvcInstances svc)\<rparr>)"
    using DeregisterInstance_result [OF e(3,4) acc name(1) \<open>name \<noteq> []\<close> name(2)] mem
    unfolding svc1 by auto
  then have "ConfigFor (ServiceName s) (Some m2) = Some
      (svc\<lparr>SvcInstances := filter (\<lambda>j. instance_addr j \<noteq> instance_addr i') (SvcInstances svc)\<rparr>)"
    using \<open>name \<noteq> []\<close> name(1) by (simp add: ConfigFor_def Settings_def)
  then show ?thesis using d(1) filt by simp
qed


theorem register_then_deregister_witness:
  "\<exists>m2 calls2 svc. DeregisterInstance (ServiceName sample_orders) (the (Instance sample_orders))
      (fst (snd (Register sample_orders sample_base))) = (None, m2, calls2) \<and>
    ConfigFor (ServiceName sample_orders) (Some m2) = Some svc \<and> SvcInstances svc = []"
proof -
  let ?i = "\<lparr>Scheme = ''http'', Host = ''10.0.0.9'', Port = ''8080'',
    HealthKey = ''orders|http|10.0.0.9|8080''\<rparr>"
  have a: "accepts_consistent sample_base" by (simp add: accepts_consistent_def)
  have n: "normalizeInstanceSettings ''orders'' (the (Instance sample_orders)) = Inr ?i" by code_simp
  have none: "map_of (Services sample_snapshot) ''orders'' = None" by code_simp
  have i: "Instance sample_orders = Some (the (Instance sample_orders))"
    by (simp add: sample_orders_def sample_settings_def)
  show ?thesis
    using register_then_deregister [OF _ sample_ok a sample_registers_eq i sample_names(1) [symmetric] n]
    by (simp add: none)
qed

end
