(* ===== verification/AuthStore.thy ===== *)
theory AuthStore
  imports Manager GoJson
begin

unbundle bit_operations_syntax

text \<open>
  Package \<open>internal/auth/config\<close> (\<open>store.go\<close>, \<open>jwks.go\<close>): the key set of a service, the checked form of its
  settings and the look-ups of the token decoder.

  \<open>*rsa.PublicKey\<close> is the pair of modulus and exponent. The settings provider of a store is a value
  of type \<open>'p\<close> with the function \<open>provider_settings\<close> for its method \<open>Settings\<close>; the lock around the field
  is left out, every operation reads or writes the field once.
\<close>

section \<open>State\<close>

record rsa_public_key =
  KeyN :: nat
  KeyE :: int

record auth_config =
  CfgAlgorithm :: string
  CfgAudience :: string
  CfgClockSkew :: duration
  CfgIssuer :: string
  CfgSecret :: string
  CfgJWKS :: string

record auth_info =
  InfoAlgorithm :: string
  InfoAudience :: string
  InfoClockSkew :: duration
  InfoIssuer :: string
  InfoSecret :: string
  InfoJWKS :: string
  InfoKeys :: "(string, rsa_public_key) gomap"

record jwk =
  KAlgorithm :: string
  KExponent :: string
  KKeyID :: string
  KKeyType :: string
  KModulus :: string
  KUse :: string

record document =
  DocKeys :: "jwk list"

record 'p auth_store =
  Provider :: "'p option"

definition supportedJWTAlgorithm :: string where "supportedJWTAlgorithm = ''RS256''"
definition supportedHMACJWTAlgorithm :: string where "supportedHMACJWTAlgorithm = ''HS256''"

definition auth_config_error :: "string \<Rightarrow> go_error" where
  "auth_config_error msg = errorf [AuthConfig_ErrInvalidConfig] msg"

definition key_set_error :: "string \<Rightarrow> go_error" where
  "key_set_error msg = errorf [AuthConfig_ErrInvalidKeySet] msg"

section \<open>Key sets (\<open>jwks.go\<close>)\<close>

definition empty_jwk :: jwk where
  "empty_jwk = \<lparr>KAlgorithm = [], KExponent = [], KKeyID = [], KKeyType = [], KModulus = [], KUse = []\<rparr>"

text \<open>The struct tags of \<open>key\<close> and \<open>document\<close>.\<close>

definition jwk_field :: "string \<Rightarrow> json \<Rightarrow> jwk \<Rightarrow> jwk option" where
  "jwk_field name j k =
     (if equal_fold name ''alg'' then map_option (\<lambda>s. k\<lparr>KAlgorithm := s\<rparr>) (decode_string (KAlgorithm k) j)
      else if equal_fold name ''e'' then map_option (\<lambda>s. k\<lparr>KExponent := s\<rparr>) (decode_string (KExponent k) j)
      else if equal_fold name ''kid'' then map_option (\<lambda>s. k\<lparr>KKeyID := s\<rparr>) (decode_string (KKeyID k) j)
      else if equal_fold name ''kty'' then map_option (\<lambda>s. k\<lparr>KKeyType := s\<rparr>) (decode_string (KKeyType k) j)
      else if equal_fold name ''n'' then map_option (\<lambda>s. k\<lparr>KModulus := s\<rparr>) (decode_string (KModulus k) j)
      else if equal_fold name ''use'' then map_option (\<lambda>s. k\<lparr>KUse := s\<rparr>) (decode_string (KUse k) j)
      else Some k)"

definition document_field :: "string \<Rightarrow> json \<Rightarrow> document \<Rightarrow> document option" where
  "document_field name j d =
     (if equal_fold name ''keys''
      then map_option (\<lambda>ks. d\<lparr>DocKeys := ks\<rparr>) (decode_slice (decode_struct jwk_field) empty_jwk (DocKeys d) j)
      else Some d)"

definition newDocumentFromBytes :: "string \<Rightarrow> document result" where
  "newDocumentFromBytes payload =
     (case Option.bind (json_parse payload) (decode_struct document_field \<lparr>DocKeys = []\<rparr>) of
        None \<Rightarrow> Inl (errorf [AuthConfig_ErrInvalidKeySet, Ext] ''decode jwks payload'')
      | Some keyDocument \<Rightarrow> Inr keyDocument)"

text \<open>The loop over the bytes; the largest \<open>int\<close> is \<open>2 ^ 63 - 1\<close>.\<close>

fun exponent_loop :: "int \<Rightarrow> string \<Rightarrow> int result" where
  "exponent_loop exponentValue [] = Inr exponentValue"
| "exponent_loop exponentValue (part # rest) =
     (if exponentValue > drop_bit 8 (2 ^ 63 - 1) then Inl (errorf [] ''exponent overflows int'')
      else exponent_loop (push_bit 8 exponentValue OR int (of_char part)) rest)"

definition decodeExponent :: "string \<Rightarrow> int result" where
  "decodeExponent rawExponent = res_bind (exponent_loop 0 rawExponent) (\<lambda>exponentValue.
     if exponentValue \<le> 0 then Inl (errorf [] ''exponent must be greater than zero'')
     else Inr exponentValue)"

text \<open>\<open>big.Int.SetBytes\<close>: the bytes as a big-endian number.\<close>

definition big_endian :: "string \<Rightarrow> nat" where
  "big_endian bs = foldl (\<lambda>v c. v * 256 + of_char c) 0 bs"

definition publicKey :: "jwk \<Rightarrow> rsa_public_key option result" where
  "publicKey k =
     (if KKeyType k \<noteq> ''RSA'' then Inr None
      else if KUse k \<noteq> [] \<and> KUse k \<noteq> ''sig'' then Inr None
      else if KAlgorithm k \<noteq> [] \<and> KAlgorithm k \<noteq> supportedJWTAlgorithm then Inr None
      else if trim_space (KKeyID k) = [] then Inl (key_set_error ''kid is required'')
      else if trim_space (KModulus k) = [] then Inl (key_set_error ''modulus is required for kid'')
      else if trim_space (KExponent k) = [] then Inl (key_set_error ''exponent is required for kid'')
      else (case raw_url_decode (KModulus k) of
        None \<Rightarrow> Inl (errorf [AuthConfig_ErrInvalidKeySet, Ext] ''decode modulus for kid'')
      | Some modulusBytes \<Rightarrow> (case raw_url_decode (KExponent k) of
        None \<Rightarrow> Inl (errorf [AuthConfig_ErrInvalidKeySet, Ext] ''decode exponent for kid'')
      | Some exponentBytes \<Rightarrow>
          if length modulusBytes = 0 then Inl (key_set_error ''modulus is empty for kid'')
          else if length exponentBytes = 0 then Inl (key_set_error ''exponent is empty for kid'')
          else (case decodeExponent exponentBytes of
            Inl e \<Rightarrow> Inl (wrap_err [AuthConfig_ErrInvalidKeySet] ''decode exponent for kid'' e)
          | Inr exponent \<Rightarrow> Inr (Some \<lparr>KeyN = big_endian modulusBytes, KeyE = exponent\<rparr>)))))"

fun public_keys_loop ::
  "(string, rsa_public_key) gomap \<Rightarrow> jwk list \<Rightarrow> (string, rsa_public_key) gomap result" where
  "public_keys_loop found [] = Inr found"
| "public_keys_loop found (keyValue # rest) = (case publicKey keyValue of
     Inl e \<Rightarrow> Inl e
   | Inr None \<Rightarrow> public_keys_loop found rest
   | Inr (Some pk) \<Rightarrow>
       if gomap_get found (KKeyID keyValue) \<noteq> None then Inl (key_set_error ''duplicate kid'')
       else public_keys_loop (gomap_put (KKeyID keyValue) pk found) rest)"

definition publicKeys :: "document \<Rightarrow> (string, rsa_public_key) gomap result" where
  "publicKeys d =
     (if length (DocKeys d) = 0 then Inl (key_set_error ''keys is required'')
      else res_bind (public_keys_loop [] (DocKeys d)) (\<lambda>found.
        if length found = 0 then Inl (key_set_error ''no usable rsa signing keys'')
        else Inr found))"

section \<open>Checked settings (\<open>store.go\<close>)\<close>

definition build_keys :: "string \<Rightarrow> (string, rsa_public_key) gomap result" where
  "build_keys jwks =
     (if length jwks = 0 then Inl (auth_config_error ''jwks is required'')
      else (case newDocumentFromBytes jwks of
        Inl e \<Rightarrow> Inl (wrap_err [] ''decode jwks'' e)
      | Inr keyDocument \<Rightarrow> map_error (wrap_err [] ''parse jwks'') (publicKeys keyDocument)))"

definition buildAuthInfo :: "auth_settings option \<Rightarrow> auth_info result" where
  "buildAuthInfo sp = (case sp of
     None \<Rightarrow> Inl (auth_config_error ''auth settings is required'')
   | Some s \<Rightarrow>
       if trim_space (JWTAlgorithm s) = [] then Inl (auth_config_error ''jwt_algorithm is required'')
       else if trim_space (JWTAudience s) = [] then Inl (auth_config_error ''jwt_audience is required'')
       else if trim_space (JWTIssuer s) = [] then Inl (auth_config_error ''jwt_issuer is required'')
       else (case parse_duration (JWTClockSkew s) of
         None \<Rightarrow> Inl (errorf [AuthConfig_ErrInvalidConfig, Ext] ''parse auth clock skew'')
       | Some authClockSkew \<Rightarrow>
           if authClockSkew \<le> 0 then
             Inl (auth_config_error ''jwt_clock_skew must be greater than zero'')
           else
             (let jwtSecret = trim_space (JWTSecret s);
                  algorithm = trim_space (JWTAlgorithm s);
                  info = \<lparr>InfoAlgorithm = algorithm, InfoAudience = JWTAudience s,
                    InfoClockSkew = authClockSkew, InfoIssuer = JWTIssuer s, InfoSecret = jwtSecret,
                    InfoJWKS = JWKS s, InfoKeys = []\<rparr>
              in if algorithm = supportedJWTAlgorithm then
                   res_bind (build_keys (JWKS s)) (\<lambda>found. Inr (info\<lparr>InfoKeys := found\<rparr>))
                 else if algorithm = supportedHMACJWTAlgorithm then
                   (if length jwtSecret = 0 then Inl (auth_config_error ''jwt_secret is required'')
                    else Inr (info\<lparr>InfoJWKS := []\<rparr>))
                 else Inl (auth_config_error ''unsupported jwt_algorithm''))))"

section \<open>The store\<close>

definition Auth_NewStore :: "'p auth_store" where
  "Auth_NewStore = \<lparr>Provider = None\<rparr>"

definition UseSettingsProvider :: "'p option \<Rightarrow> 'p auth_store option \<Rightarrow> 'p auth_store option" where
  "UseSettingsProvider p sp = (case sp of None \<Rightarrow> None | Some s \<Rightarrow> Some (s\<lparr>Provider := p\<rparr>))"

definition Auth_Settings :: "('p \<Rightarrow> snapshot option) \<Rightarrow> 'p auth_store option \<Rightarrow> snapshot option" where
  "Auth_Settings provider_settings sp = (case sp of
     None \<Rightarrow> None | Some s \<Rightarrow> Option.bind (Provider s) provider_settings)"

definition check_auth :: "string \<times> service_settings \<Rightarrow> go_error option" where
  "check_auth p = (case SvcGlobal (snd p) of
     None \<Rightarrow> Some (auth_config_error ''global settings is required'')
   | Some g \<Rightarrow> (case buildAuthInfo (Auth g) of Inl e \<Rightarrow> Some e | Inr _ \<Rightarrow> None))"

definition Auth_Validate :: "'p auth_store option \<Rightarrow> snapshot \<Rightarrow> go_error option" where
  "Auth_Validate s candidate =
     (if s = None then Some (auth_config_error ''store is nil'')
      else first_error check_auth (Services candidate))"

definition Auth_Apply :: "'p auth_store option \<Rightarrow> settings \<Rightarrow> go_error option" where
  "Auth_Apply s st =
     (if s = None then Some (auth_config_error ''store is nil'')
      else (case Global st of
        None \<Rightarrow> Some (auth_config_error ''global settings is required'')
      | Some g \<Rightarrow>
          if NormalizeServiceName (ServiceName st) = [] then
            Some (auth_config_error ''service-name is required'')
          else (case buildAuthInfo (Auth g) of Inl e \<Rightarrow> Some e | Inr _ \<Rightarrow> None)))"

definition authInfoFor ::
  "('p \<Rightarrow> snapshot option) \<Rightarrow> 'p auth_store option \<Rightarrow> snapshot option \<Rightarrow> string \<Rightarrow> auth_info option" where
  "authInfoFor provider_settings s snap configKey =
     (case (case snap of None \<Rightarrow> Auth_Settings provider_settings s | Some sn \<Rightarrow> Some sn) of
        None \<Rightarrow> None
      | Some sn \<Rightarrow>
          (let serviceName = NormalizeServiceName configKey in
           if serviceName = [] then None
           else (case gomap_get (Services sn) serviceName of
             None \<Rightarrow> None
           | Some service \<Rightarrow> (case SvcGlobal service of
               None \<Rightarrow> None
             | Some g \<Rightarrow> (case buildAuthInfo (Auth g) of Inl _ \<Rightarrow> None | Inr cfg \<Rightarrow> Some cfg)))))"

definition configFromAuthInfo :: "auth_info \<Rightarrow> auth_config" where
  "configFromAuthInfo cfg = \<lparr>CfgAlgorithm = InfoAlgorithm cfg, CfgAudience = InfoAudience cfg,
     CfgClockSkew = InfoClockSkew cfg, CfgIssuer = InfoIssuer cfg, CfgSecret = InfoSecret cfg,
     CfgJWKS = InfoJWKS cfg\<rparr>"

definition SnapshotFor ::
  "('p \<Rightarrow> snapshot option) \<Rightarrow> 'p auth_store option \<Rightarrow> snapshot option \<Rightarrow> string \<Rightarrow> auth_config option" where
  "SnapshotFor provider_settings s snap configKey =
     (if s = None then None
      else map_option configFromAuthInfo (authInfoFor provider_settings s snap configKey))"

definition Auth_Snapshot :: "('p \<Rightarrow> snapshot option) \<Rightarrow> 'p auth_store option \<Rightarrow> auth_config option" where
  "Auth_Snapshot provider_settings s =
     SnapshotFor provider_settings s (Auth_Settings provider_settings s) []"

definition PublicKeyFor ::
  "('p \<Rightarrow> snapshot option) \<Rightarrow> 'p auth_store option \<Rightarrow> snapshot option \<Rightarrow> string \<Rightarrow> string \<Rightarrow>
   rsa_public_key result" where
  "PublicKeyFor provider_settings s snap configKey kid =
     (let trimmedKeyID = trim_space kid in
      if trimmedKeyID = [] then Inl (errorf [AuthConfig_ErrInvalidKeyID] ''kid is required'')
      else if s = None then Inl (errorf [AuthConfig_ErrKeySetUnavailable] ''no registered keys'')
      else (case authInfoFor provider_settings s snap configKey of
        None \<Rightarrow> Inl (errorf [AuthConfig_ErrKeySetUnavailable] ''no registered keys'')
      | Some cfg \<Rightarrow>
          if length (InfoKeys cfg) = 0 then
            Inl (errorf [AuthConfig_ErrKeySetUnavailable] ''no registered keys'')
          else (case gomap_get (InfoKeys cfg) trimmedKeyID of
            None \<Rightarrow> Inl (errorf [AuthConfig_ErrKeyNotFound] ''kid'')
          | Some pk \<Rightarrow> Inr pk)))"

definition PublicKey ::
  "('p \<Rightarrow> snapshot option) \<Rightarrow> 'p auth_store option \<Rightarrow> string \<Rightarrow> rsa_public_key result" where
  "PublicKey provider_settings s kid =
     PublicKeyFor provider_settings s (Auth_Settings provider_settings s) [] kid"

section \<open>The exponent\<close>

lemma or_byte: "b < 256 \<Longrightarrow> push_bit 8 v OR int b = v * 256 + int b"
proof -
  assume b: "b < 256"
  have "int b = take_bit 8 (int b)" using b by (simp add: take_bit_int_eq_self)
  then have "\<not> bit (push_bit 8 v) n \<or> \<not> bit (int b) n" for n
    by (metis bit_push_bit_iff_int bit_take_bit_iff not_le)
  then have "push_bit 8 v OR int b = push_bit 8 v + int b"
    by (simp add: disjunctive_add)
  then show ?thesis by (simp add: push_bit_eq_mult)
qed

abbreviation be_from :: "nat \<Rightarrow> string \<Rightarrow> nat" where
  "be_from v bs \<equiv> foldl (\<lambda>v c. v * 256 + of_char c) v bs"

lemma be_from_ge: "v \<le> be_from v bs"
proof (induction bs arbitrary: v)
  case (Cons c bs)
  show ?case using Cons [of "v * 256 + of_char c"] by simp
qed simp

lemma exponent_loop_exact:
  "v < 2 ^ 63 \<Longrightarrow> exponent_loop (int v) bs =
     (if be_from v bs < 2 ^ 63 then Inr (int (be_from v bs)) else Inl (errorf [] ''exponent overflows int''))"
proof (induction bs arbitrary: v)
  case (Cons c bs)
  define b where "b = (of_char c :: nat)"
  have b: "b < 256" by (simp add: b_def)
  have d: "drop_bit 8 (2 ^ 63 - 1 :: int) = 2 ^ 55 - 1" by (simp add: drop_bit_eq_div)
  show ?case
  proof (cases "v \<le> 2 ^ 55 - 1")
    case True
    then have lt: "v * 256 + b < 2 ^ 63" using b by simp
    have "push_bit 8 (int v) OR int b = int (v * 256 + b)" using or_byte [OF b] by simp
    moreover have "\<not> int v > 2 ^ 55 - 1" using True by simp
    ultimately show ?thesis using Cons.IH [OF lt] by (simp add: d flip: b_def)
  next
    case False
    then have "2 ^ 63 \<le> v * 256 + b" by simp
    then have "2 ^ 63 \<le> be_from v (c # bs)" using be_from_ge [of "v * 256 + b" bs] by (simp flip: b_def)
    moreover have "int v > 2 ^ 55 - 1" using False by simp
    ultimately show ?thesis by (simp add: d)
  qed
qed simp

lemma decodeExponent_bounds: "decodeExponent bs = Inr e \<Longrightarrow> 0 < e \<and> e < 2 ^ 63"
  using exponent_loop_exact [of 0 bs] by (auto simp: decodeExponent_def res_bind_def split: if_splits)

text \<open>
  C38: \<open>decodeExponent\<close> accepts exactly the byte strings that spell, in big-endian order, a number
  from 1 to \<open>2 ^ 63 - 1\<close>, and returns this number; the check in the loop rejects every larger number
  before the shift can overflow, and leading zero bytes do no harm.
\<close>

theorem decodeExponent_exact:
  "decodeExponent bs =
     (if big_endian bs \<ge> 2 ^ 63 then Inl (errorf [] ''exponent overflows int'')
      else if big_endian bs = 0 then Inl (errorf [] ''exponent must be greater than zero'')
      else Inr (int (big_endian bs)))"
  using exponent_loop_exact [of 0 bs] by (simp add: decodeExponent_def big_endian_def res_bind_def)

section \<open>The keys of a document\<close>

definition usable_key :: "jwk \<Rightarrow> (string \<times> rsa_public_key) option" where
  "usable_key k = (case publicKey k of Inr (Some pk) \<Rightarrow> Some (KKeyID k, pk) | _ \<Rightarrow> None)"

abbreviation usable_keys :: "jwk list \<Rightarrow> (string, rsa_public_key) gomap" where
  "usable_keys \<equiv> List.map_filter usable_key"

definition key_readable :: "jwk \<Rightarrow> bool" where
  "key_readable k = (case publicKey k of Inl _ \<Rightarrow> False | Inr _ \<Rightarrow> True)"

lemma public_keys_loop_iff:
  "gomap_ok found \<Longrightarrow> public_keys_loop found ks = Inr r \<longleftrightarrow>
     list_all key_readable ks \<and> gomap_ok (found @ usable_keys ks) \<and> r = found @ usable_keys ks"
proof (induction ks arbitrary: found)
  case (Cons k ks)
  note defs = usable_key_def key_readable_def
  show ?case
  proof (cases "publicKey k")
    case (Inr ko)
    show ?thesis
    proof (cases ko)
      case None
      then show ?thesis using Cons Inr by (simp add: defs)
    next
      case (Some pk)
      show ?thesis
      proof (cases "KKeyID k \<in> fst ` set found")
        case True
        then have "gomap_get found (KKeyID k) \<noteq> None" by (simp add: map_of_eq_None_iff)
        then show ?thesis using True Inr Some by (auto simp: defs)
      next
        case False
        then have "gomap_get found (KKeyID k) = None" by (simp add: map_of_eq_None_iff)
        moreover have "gomap_ok (found @ [(KKeyID k, pk)])" using False Cons.prems by auto
        ultimately show ?thesis using Cons.IH [of "found @ [(KKeyID k, pk)]"] False Inr Some
          by (simp add: defs gomap_put_new)
      qed
    qed
  qed (simp add: defs)
qed (auto simp: map_filter_simps)

text \<open>
  Remark: \<open>publicKeys\<close> succeeds exactly when every entry of the key set can be read, at least one of them is
  a usable RSA signing key and no two usable keys have the same key id; the result then maps the key id
  of every usable entry to its key and holds nothing else.
\<close>

theorem publicKeys_exact:
  "publicKeys d = Inr found \<longleftrightarrow>
     found = usable_keys (DocKeys d) \<and> found \<noteq> [] \<and> gomap_ok found \<and> list_all key_readable (DocKeys d)"
  using public_keys_loop_iff [of "[]" "DocKeys d"]
  by (cases "public_keys_loop [] (DocKeys d)")
    (auto simp: publicKeys_def res_bind_def)

lemma publicKey_exponent: "publicKey k = Inr (Some pk) \<Longrightarrow> 0 < KeyE pk \<and> KeyE pk < 2 ^ 63"
  by (auto simp: publicKey_def wrap_err_def split: if_splits option.splits sum.splits dest: decodeExponent_bounds)

section \<open>Accepted settings\<close>

lemma buildAuthInfo_cases:
  assumes "buildAuthInfo sp = Inr info"
  obtains (HS256) a where "sp = Some a" "InfoAlgorithm info = supportedHMACJWTAlgorithm" "InfoSecret info \<noteq> []"
      "InfoKeys info = []" "0 < InfoClockSkew info"
  | (RS256) a d where "sp = Some a" "InfoAlgorithm info = supportedJWTAlgorithm"
      "newDocumentFromBytes (JWKS a) = Inr d" "publicKeys d = Inr (InfoKeys info)" "0 < InfoClockSkew info"
  using assms
  by (auto simp: buildAuthInfo_def Let_def res_bind_def map_error_def build_keys_def
      split: option.splits if_splits sum.splits)

text \<open>Which settings are accepted, spelt out.\<close>

definition auth_acceptable :: "auth_settings \<Rightarrow> bool" where
  "auth_acceptable a \<longleftrightarrow> trim_space (JWTAudience a) \<noteq> [] \<and> trim_space (JWTIssuer a) \<noteq> [] \<and>
     (case parse_duration (JWTClockSkew a) of None \<Rightarrow> False | Some d \<Rightarrow> 0 < d) \<and>
     (trim_space (JWTAlgorithm a) = ''HS256'' \<and> trim_space (JWTSecret a) \<noteq> [] \<or>
      trim_space (JWTAlgorithm a) = ''RS256'' \<and> JWKS a \<noteq> [] \<and>
        (case newDocumentFromBytes (JWKS a) of Inl _ \<Rightarrow> False
         | Inr d \<Rightarrow> list_all key_readable (DocKeys d) \<and> usable_keys (DocKeys d) \<noteq> [] \<and>
             distinct (map fst (usable_keys (DocKeys d)))))"

lemma build_keys_acceptable:
  "(\<exists>ks. build_keys jwks = Inr ks) \<longleftrightarrow> jwks \<noteq> [] \<and>
     (case newDocumentFromBytes jwks of Inl _ \<Rightarrow> False
      | Inr d \<Rightarrow> list_all key_readable (DocKeys d) \<and> usable_keys (DocKeys d) \<noteq> [] \<and>
          distinct (map fst (usable_keys (DocKeys d))))"
proof -
  have keys: "(\<exists>ks. publicKeys d = Inr ks) \<longleftrightarrow> list_all key_readable (DocKeys d) \<and> usable_keys (DocKeys d) \<noteq> [] \<and>
      distinct (map fst (usable_keys (DocKeys d)))" for d
    using public_keys_loop_iff [of "[]" "DocKeys d"]
    by (cases "public_keys_loop [] (DocKeys d)") (auto simp: publicKeys_def res_bind_def)
  have "(\<exists>ks. map_error f x = Inr ks) \<longleftrightarrow> (\<exists>ks. x = Inr ks)" for f and x :: "'a result"
    by (cases x) (simp_all add: map_error_def)
  then show ?thesis by (auto simp: build_keys_def keys split: sum.split)
qed

lemma buildAuthInfo_acceptable:
  "(\<exists>info. buildAuthInfo (Some a) = Inr info) \<longleftrightarrow> auth_acceptable a"
proof -
  have "(\<exists>info. buildAuthInfo (Some a) = Inr info) \<longleftrightarrow>
      trim_space (JWTAudience a) \<noteq> [] \<and> trim_space (JWTIssuer a) \<noteq> [] \<and>
      (case parse_duration (JWTClockSkew a) of None \<Rightarrow> False | Some d \<Rightarrow> 0 < d) \<and>
      (trim_space (JWTAlgorithm a) = ''HS256'' \<and> trim_space (JWTSecret a) \<noteq> [] \<or>
       trim_space (JWTAlgorithm a) = ''RS256'' \<and> (\<exists>ks. build_keys (JWKS a) = Inr ks))"
    by (cases "build_keys (JWKS a)")
      (auto simp: buildAuthInfo_def Let_def supportedJWTAlgorithm_def supportedHMACJWTAlgorithm_def split: option.split)
  then show ?thesis unfolding auth_acceptable_def build_keys_acceptable by auto
qed

definition auth_usable :: "snapshot \<Rightarrow> bool" where
  "auth_usable c \<longleftrightarrow> list_all (\<lambda>(name, svc). case SvcGlobal svc of None \<Rightarrow> False
     | Some g \<Rightarrow> (case buildAuthInfo (Auth g) of Inl _ \<Rightarrow> False | Inr _ \<Rightarrow> True)) (Services c)"

lemma Auth_Validate_sound: "Auth_Validate (Some s) c = None \<Longrightarrow> auth_usable c"
  by (force simp: Auth_Validate_def auth_usable_def check_auth_def list_all_iff split: option.splits sum.splits)

interpretation auth_validator: snapshot_validator "Auth_Validate (Some s)" auth_usable for s
  by unfold_locales (rule Auth_Validate_sound)

lemma auth_usable_service:
  assumes "auth_usable c" "gomap_get (Services c) name = Some svc"
  obtains g info where "SvcGlobal svc = Some g" "buildAuthInfo (Auth g) = Inr info"
proof -
  have "(name, svc) \<in> set (Services c)" using assms(2) by (rule map_of_SomeD)
  then have "case SvcGlobal svc of None \<Rightarrow> False
     | Some g \<Rightarrow> (case buildAuthInfo (Auth g) of Inl _ \<Rightarrow> False | Inr _ \<Rightarrow> True)"
    using assms(1) by (auto simp: auth_usable_def list_all_iff)
  then show thesis using that by (auto split: option.splits sum.splits)
qed


lemma authInfoFor_Some:
  "authInfoFor prov s (Some sn) name = Some info \<longleftrightarrow> NormalizeServiceName name \<noteq> [] \<and>
     (\<exists>svc g. gomap_get (Services sn) (NormalizeServiceName name) = Some svc \<and> SvcGlobal svc = Some g \<and>
        buildAuthInfo (Auth g) = Inr info)"
  by (simp add: authInfoFor_def Let_def split: option.splits sum.splits)

text \<open>
  Remark: What \<open>Validate\<close> accepts can be used: for every service of an accepted snapshot, under any spelling
  of its name, \<open>SnapshotFor\<close> finds the configuration; its algorithm is HS256 with a non-empty secret or
  RS256 with at least one public key, and its clock skew is positive.
\<close>

theorem accepted_service_has_auth_config:
  assumes "Auth_Validate (Some s) c = None"
    and "gomap_get (Services c) (NormalizeServiceName name) = Some svc"
    and "NormalizeServiceName name \<noteq> []"
  shows "\<exists>info. authInfoFor prov (Some s) (Some c) name = Some info \<and>
    SnapshotFor prov (Some s) (Some c) name = Some (configFromAuthInfo info) \<and>
    0 < InfoClockSkew info \<and>
    (InfoAlgorithm info = ''HS256'' \<and> InfoSecret info \<noteq> [] \<or> InfoAlgorithm info = ''RS256'' \<and> InfoKeys info \<noteq> [])"
proof -
  obtain g info where g: "SvcGlobal svc = Some g" "buildAuthInfo (Auth g) = Inr info"
    using auth_usable_service [OF auth_validator.validate_sound [OF assms(1)] assms(2)] .
  have "authInfoFor prov (Some s) (Some c) name = Some info"
    using assms(2,3) g by (simp add: authInfoFor_Some)
  moreover have "0 < InfoClockSkew info \<and>
    (InfoAlgorithm info = ''HS256'' \<and> InfoSecret info \<noteq> [] \<or> InfoAlgorithm info = ''RS256'' \<and> InfoKeys info \<noteq> [])"
    by (cases rule: buildAuthInfo_cases [OF g(2)])
      (auto simp: supportedJWTAlgorithm_def supportedHMACJWTAlgorithm_def publicKeys_exact)
  ultimately show ?thesis by (auto simp: SnapshotFor_def)
qed

lemma usable_keys_get:
  "gomap_get (usable_keys ks) kid = Some pk \<Longrightarrow> \<exists>k \<in> set ks. KKeyID k = kid \<and> publicKey k = Inr (Some pk)"
proof -
  assume "gomap_get (usable_keys ks) kid = Some pk"
  then have "(kid, pk) \<in> set (usable_keys ks)" by (rule map_of_SomeD)
  then obtain k where "k \<in> set ks" "usable_key k = Some (kid, pk)"
    by (auto simp: List.map_filter_def)
  then show ?thesis by (auto simp: usable_key_def split: sum.splits option.splits)
qed

text \<open>A key under which a service is looked up, and where it stands in the registered key set.\<close>

definition service_key ::
  "('p \<Rightarrow> snapshot option) \<Rightarrow> 'p auth_store option \<Rightarrow> snapshot option \<Rightarrow> string \<Rightarrow> string \<Rightarrow> rsa_public_key \<Rightarrow> bool" where
  "service_key prov s snap service kid pk \<longleftrightarrow>
     (\<exists>info. authInfoFor prov s snap service = Some info \<and> gomap_get (InfoKeys info) (trim_space kid) = Some pk)"

lemma PublicKeyFor_service_key: "PublicKeyFor prov s snap service kid = Inr pk \<Longrightarrow> service_key prov s snap service kid pk"
  by (auto simp: PublicKeyFor_def service_key_def Let_def split: if_splits option.splits simp del: map_of_eq_Some_iff)

lemma service_key_listed:
  assumes "service_key prov s (Some sn) service kid pk"
  shows "\<exists>svc g a d k. gomap_get (Services sn) (NormalizeServiceName service) = Some svc \<and>
    SvcGlobal svc = Some g \<and> Auth g = Some a \<and> newDocumentFromBytes (JWKS a) = Inr d \<and>
    k \<in> set (DocKeys d) \<and> KKeyID k = trim_space kid \<and> publicKey k = Inr (Some pk)"
proof -
  obtain info where i: "authInfoFor prov s (Some sn) service = Some info"
      "gomap_get (InfoKeys info) (trim_space kid) = Some pk"
    using assms by (auto simp: service_key_def)
  obtain svc g where g: "gomap_get (Services sn) (NormalizeServiceName service) = Some svc"
      "SvcGlobal svc = Some g" "buildAuthInfo (Auth g) = Inr info"
    using i(1) unfolding authInfoFor_Some by blast
  from g(3) obtain a d where d: "Auth g = Some a" "newDocumentFromBytes (JWKS a) = Inr d" "publicKeys d = Inr (InfoKeys info)"
    by (cases rule: buildAuthInfo_cases) (use i(2) in simp_all)
  obtain k where k: "k \<in> set (DocKeys d)" "KKeyID k = trim_space kid" "publicKey k = Inr (Some pk)"
    using usable_keys_get [of "DocKeys d"] d(3) i(2) by (auto simp: publicKeys_exact simp del: map_of_eq_Some_iff)
  show ?thesis using g(1,2) d(1,2) k by blast
qed

text \<open>
  Remark: A key that \<open>PublicKeyFor\<close> returns is a usable RSA signing key of the key set of the very service
  that was asked for, listed there under exactly the trimmed key id, and its exponent is a positive
  63-bit number.
\<close>

theorem PublicKeyFor_sound:
  assumes "PublicKeyFor prov s (Some sn) service kid = Inr pk"
  shows "\<exists>svc g a d k. gomap_get (Services sn) (NormalizeServiceName service) = Some svc \<and>
    SvcGlobal svc = Some g \<and> Auth g = Some a \<and> newDocumentFromBytes (JWKS a) = Inr d \<and>
    k \<in> set (DocKeys d) \<and> KKeyID k = trim_space kid \<and> publicKey k = Inr (Some pk) \<and>
    0 < KeyE pk \<and> KeyE pk < 2 ^ 63"
  using service_key_listed [OF PublicKeyFor_service_key [OF assms]] publicKey_exponent by blast

section \<open>Sample settings\<close>

definition sample_jwks :: string where
  "sample_jwks = ''{\"keys\": [{\"kty\": \"EC\", \"kid\": \"x\"}, {\"kty\": \"RSA\", \"use\": \"sig\", \"kid\": \"a\", \"n\": \"AQAB\", \"e\": \"AAEAAQ\"}]}''"

definition sample_auth :: "string \<Rightarrow> string \<Rightarrow> auth_settings" where
  "sample_auth algorithm jwks = \<lparr>JWTAlgorithm = algorithm, JWTAudience = ''api'', JWTClockSkew = ''30s'',
     JWTIssuer = ''issuer'', JWTSecret = '' secret '', JWKS = jwks\<rparr>"

definition sample_auth_snapshot :: "auth_settings \<Rightarrow> snapshot" where
  "sample_auth_snapshot a = \<lparr>Revision = 1, Services = [(''users'', \<lparr>SvcName = ''users'',
     SvcGlobal = Some \<lparr>Auth = Some a\<rparr>, SvcHealth = None, SvcThreshold = None, SvcEndpoints = [],
     SvcInstances = []\<rparr>)], Routes = [], WildcardRoutes = []\<rparr>"

lemma sample_jwks_document:
  "newDocumentFromBytes sample_jwks = Inr \<lparr>DocKeys =
     [empty_jwk\<lparr>KKeyType := ''EC'', KKeyID := ''x''\<rparr>,
      empty_jwk\<lparr>KKeyType := ''RSA'', KUse := ''sig'', KKeyID := ''a'', KModulus := ''AQAB'', KExponent := ''AAEAAQ''\<rparr>]\<rparr>"
  by code_simp


abbreviation no_provider :: "unit \<Rightarrow> snapshot option" where
  "no_provider \<equiv> \<lambda>_. None"

theorem accepted_service_has_auth_config_witness:
  "\<exists>info. authInfoFor no_provider (Some Auth_NewStore) (Some (sample_auth_snapshot (sample_auth ''HS256'' []))) '' Users '' = Some info \<and>
    SnapshotFor no_provider (Some Auth_NewStore) (Some (sample_auth_snapshot (sample_auth ''HS256'' []))) '' Users '' =
      Some (configFromAuthInfo info) \<and> 0 < InfoClockSkew info \<and>
    (InfoAlgorithm info = ''HS256'' \<and> InfoSecret info \<noteq> [] \<or> InfoAlgorithm info = ''RS256'' \<and> InfoKeys info \<noteq> [])"
proof (rule accepted_service_has_auth_config)
  show "Auth_Validate (Some (Auth_NewStore :: unit auth_store)) (sample_auth_snapshot (sample_auth ''HS256'' [])) = None"
    by code_simp
  show "gomap_get (Services (sample_auth_snapshot (sample_auth ''HS256'' []))) (NormalizeServiceName '' Users '') =
      Some (snd (hd (Services (sample_auth_snapshot (sample_auth ''HS256'' [])))))"
    by code_simp
  show "NormalizeServiceName '' Users '' \<noteq> []" by code_simp
qed

lemma sample_public_key:
  "PublicKeyFor no_provider (Some Auth_NewStore) (Some (sample_auth_snapshot (sample_auth ''RS256'' sample_jwks)))
     ''users'' '' a '' = Inr \<lparr>KeyN = 65537, KeyE = 65537\<rparr>"
  by code_simp

theorem PublicKeyFor_sound_witness:
  "\<exists>svc g a d k. gomap_get (Services (sample_auth_snapshot (sample_auth ''RS256'' sample_jwks)))
      (NormalizeServiceName ''users'') = Some svc \<and>
    SvcGlobal svc = Some g \<and> Auth g = Some a \<and> newDocumentFromBytes (JWKS a) = Inr d \<and>
    k \<in> set (DocKeys d) \<and> KKeyID k = trim_space '' a '' \<and>
    publicKey k = Inr (Some \<lparr>KeyN = 65537, KeyE = 65537\<rparr>) \<and>
    0 < KeyE \<lparr>KeyN = 65537, KeyE = 65537\<rparr> \<and> KeyE \<lparr>KeyN = 65537, KeyE = 65537\<rparr> < 2 ^ 63"
  by (rule PublicKeyFor_sound [OF sample_public_key])

text \<open>
  A key id with surrounding space is accepted by \<open>Validate\<close> (the check trims it, the map key is not
  trimmed), but no \<open>kid\<close> finds the key.
\<close>

definition padded_jwks :: string where
  "padded_jwks = ''{\"keys\": [{\"kty\": \"RSA\", \"kid\": \" a \", \"n\": \"AQAB\", \"e\": \"AQAB\"}]}''"

lemma padded_kid_accepted:
  "Auth_Validate (Some s) (sample_auth_snapshot (sample_auth ''RS256'' padded_jwks)) = None"
proof -
  have "first_error check_auth (Services (sample_auth_snapshot (sample_auth ''RS256'' padded_jwks))) = None"
    by code_simp
  then show ?thesis by (simp add: Auth_Validate_def)
qed

lemma padded_document:
  "newDocumentFromBytes padded_jwks = Inr \<lparr>DocKeys =
     [empty_jwk\<lparr>KKeyType := ''RSA'', KKeyID := '' a '', KModulus := ''AQAB'', KExponent := ''AQAB''\<rparr>]\<rparr>"
  by code_simp

lemma trim_space_no_pad: "trim_space kid \<noteq> '' a ''"
proof
  assume "trim_space kid = '' a ''"
  then have "trim_space '' a '' = '' a ''" by (metis trim_space_idem)
  moreover have "trim_space '' a '' = ''a''" by code_simp
  ultimately show False by simp
qed

lemma padded_kid_unreachable:
  "PublicKeyFor prov (Some s) (Some (sample_auth_snapshot (sample_auth ''RS256'' padded_jwks))) ''users'' kid
     \<noteq> Inr pk"
proof
  let ?sn = "sample_auth_snapshot (sample_auth ''RS256'' padded_jwks)"
  assume "PublicKeyFor prov (Some s) (Some ?sn) ''users'' kid = Inr pk"
  then obtain info where i: "authInfoFor prov (Some s) (Some ?sn) ''users'' = Some info"
      "gomap_get (InfoKeys info) (trim_space kid) = Some pk"
    by (auto simp: PublicKeyFor_def Let_def split: if_splits option.splits simp del: map_of_eq_Some_iff)
  have name: "NormalizeServiceName ''users'' = ''users''" by code_simp
  have "buildAuthInfo (Some (sample_auth ''RS256'' padded_jwks)) = Inr info"
    using i(1) by (simp add: authInfoFor_Some sample_auth_snapshot_def name)
  then obtain d where "newDocumentFromBytes padded_jwks = Inr d" "publicKeys d = Inr (InfoKeys info)"
    by (cases rule: buildAuthInfo_cases) (use i(2) in \<open>auto simp: sample_auth_def\<close>)
  then have "gomap_get (usable_keys (DocKeys d)) (trim_space kid) = Some pk"
    and d: "newDocumentFromBytes padded_jwks = Inr d" using i(2) unfolding publicKeys_exact by metis+
  then obtain k where "k \<in> set (DocKeys d)" "KKeyID k = trim_space kid" using usable_keys_get by metis
  moreover have "DocKeys d = [empty_jwk\<lparr>KKeyType := ''RSA'', KKeyID := '' a '', KModulus := ''AQAB'', KExponent := ''AQAB''\<rparr>]"
    using d unfolding padded_document by auto
  ultimately show False using trim_space_no_pad [of kid] by simp
qed

end
