(* ===== verification/Decoder.thy ===== *)
theory Decoder
  imports AuthStore
begin

text \<open>
  Package \<open>internal/auth\<close> (\<open>decoder.go\<close>, \<open>model.go\<close>): the bearer token of a request, its signature and
  its claims.

  \<open>ConfigProvider\<close> is an interface: a decoder holds a provider of type \<open>'p\<close>, and the two methods are the
  functions \<open>config_for\<close> and \<open>key_for\<close>. The cryptography of the standard library is a parameter:
  \<open>hmac key message\<close> is the HMAC-SHA256 tag, and \<open>rsa_verify key message signature\<close> tells whether
  \<open>rsa.VerifyPKCS1v15\<close> accepts the signature of the SHA-256 hash of the message. The clock is the argument
  \<open>now\<close>. \<open>hmac.Equal\<close> compares byte strings.
\<close>

section \<open>State\<close>

record token_header =
  HdrAlgorithm :: string
  HdrKeyID :: string

record claims =
  Subject :: string
  Issuer :: string
  Audience :: "string list"
  ClaimRoles :: "string list"
  ExpiresAt :: time
  IssuedAt :: time
  NotBefore :: time
  RawClaims :: "(string, json) gomap"

record decoded_claims =
  Claims :: claims
  hasExpiresAt :: bool
  hasIssuedAt :: bool
  hasNotBefore :: bool

record numeric_date =
  DateTime :: time
  DateSet :: bool

record claims_payload =
  PAudience :: "string list"
  PExpiresAt :: numeric_date
  PIssuedAt :: numeric_date
  PIssuer :: string
  PNotBefore :: numeric_date
  PRoles :: "string list"
  PSubject :: string

record token_payload =
  PayloadHeader :: string
  SigningInput :: string

record 'p decoder =
  DecProvider :: "'p option"

definition NewDecoder :: "'p option \<Rightarrow> 'p decoder" where
  "NewDecoder provider = \<lparr>DecProvider = provider\<rparr>"

definition ReplaceProvider :: "'p option \<Rightarrow> 'p decoder \<Rightarrow> go_error option \<times> 'p decoder" where
  "ReplaceProvider provider d =
     (if provider = None then (Some (errorf [Auth_ErrNilProvider] ''auth config provider is required''), d)
      else (None, d\<lparr>DecProvider := provider\<rparr>))"

section \<open>The token\<close>

definition BearerTokenFor :: "string \<Rightarrow> string result" where
  "BearerTokenFor authorizationHeader =
     (let fs = GoStrings.fields (trim_space authorizationHeader) in
      if length fs \<noteq> 2 then
        Inl (errorf [Auth_ErrInvalidAuthorizationHeader] ''bearer token is required'')
      else if \<not> equal_fold (fs ! 0) ''Bearer'' then
        Inl (errorf [Auth_ErrInvalidAuthorizationHeader] ''bearer scheme is required'')
      else Inr (fs ! 1))"

definition token_error :: "string \<Rightarrow> go_error" where
  "token_error msg = errorf [Auth_ErrInvalidToken] msg"

definition decode_part :: "string \<Rightarrow> string \<Rightarrow> string result" where
  "decode_part what part = (case raw_url_decode part of
     None \<Rightarrow> Inl (errorf [Auth_ErrInvalidToken, Ext] what) | Some bytes \<Rightarrow> Inr bytes)"

definition splitToken :: "string \<Rightarrow> (token_payload \<times> string \<times> string) result" where
  "splitToken token =
     (let parts = split_on (CHR ''.'') token in
      if length parts \<noteq> 3 then Inl (token_error ''token must have three parts'')
      else
        res_bind (decode_part ''decode token header'' (parts ! 0)) (\<lambda>header.
        res_bind (decode_part ''decode token payload'' (parts ! 1)) (\<lambda>payload.
        res_bind (decode_part ''decode token signature'' (parts ! 2)) (\<lambda>signature.
          Inr (\<lparr>PayloadHeader = header, SigningInput = parts ! 0 @ ''.'' @ parts ! 1\<rparr>, payload, signature)))))"

definition header_field :: "string \<Rightarrow> json \<Rightarrow> token_header \<Rightarrow> token_header option" where
  "header_field name j h =
     (if equal_fold name ''alg'' then map_option (\<lambda>s. h\<lparr>HdrAlgorithm := s\<rparr>) (decode_string (HdrAlgorithm h) j)
      else if equal_fold name ''kid'' then map_option (\<lambda>s. h\<lparr>HdrKeyID := s\<rparr>) (decode_string (HdrKeyID h) j)
      else Some h)"

definition decodeTokenHeader :: "string \<Rightarrow> token_header result" where
  "decodeTokenHeader payload =
     (case Option.bind (json_parse payload) (decode_struct header_field \<lparr>HdrAlgorithm = [], HdrKeyID = []\<rparr>) of
        None \<Rightarrow> Inl (errorf [Auth_ErrInvalidToken, Ext] ''decode token header'')
      | Some header \<Rightarrow>
          if trim_space (HdrAlgorithm header) = [] then Inl (token_error ''alg is required'')
          else Inr header)"

section \<open>The claims\<close>

text \<open>\<open>audienceClaim.UnmarshalJSON\<close>: a string or a list of strings.\<close>

definition audience_claim :: "json \<Rightarrow> string list option" where
  "audience_claim j = (case j of
     JNull \<Rightarrow> Some []
   | JString s \<Rightarrow> Some [s]
   | JArray js \<Rightarrow> decode_slice decode_string [] [] (JArray js)
   | _ \<Rightarrow> None)"

text \<open>
  \<open>numericDate.UnmarshalJSON\<close>: \<open>json.Number\<close> takes a number, or a string that is a number literal.
\<close>

definition number_literal :: "json \<Rightarrow> string option" where
  "number_literal j = (case j of
     JNumber l \<Rightarrow> Some l
   | JString s \<Rightarrow> (case json_number s of Some (l, []) \<Rightarrow> Some l | _ \<Rightarrow> None)
   | _ \<Rightarrow> None)"

definition date_of_seconds :: "float64 \<Rightarrow> time" where
  "date_of_seconds seconds =
     (let wholeSeconds = of_int (truncate_rat seconds);
          fractionalSeconds = seconds - wholeSeconds
      in time_of_unix (int64_of_float wholeSeconds) (int64_of_float (round64 (fractionalSeconds * 1000000000))))"

definition numeric_date_claim :: "json \<Rightarrow> numeric_date option" where
  "numeric_date_claim j = (case j of
     JNull \<Rightarrow> Some \<lparr>DateTime = zero_time, DateSet = False\<rparr>
   | _ \<Rightarrow> (case number_literal j of None \<Rightarrow> None
     | Some l \<Rightarrow> (case parse_float l of None \<Rightarrow> None
       | Some seconds \<Rightarrow> Some \<lparr>DateTime = date_of_seconds seconds, DateSet = True\<rparr>)))"

definition claims_field :: "string \<Rightarrow> json \<Rightarrow> claims_payload \<Rightarrow> claims_payload option" where
  "claims_field name j p =
     (if equal_fold name ''aud'' then map_option (\<lambda>a. p\<lparr>PAudience := a\<rparr>) (audience_claim j)
      else if equal_fold name ''exp'' then map_option (\<lambda>d. p\<lparr>PExpiresAt := d\<rparr>) (numeric_date_claim j)
      else if equal_fold name ''iat'' then map_option (\<lambda>d. p\<lparr>PIssuedAt := d\<rparr>) (numeric_date_claim j)
      else if equal_fold name ''iss'' then map_option (\<lambda>s. p\<lparr>PIssuer := s\<rparr>) (decode_string (PIssuer p) j)
      else if equal_fold name ''nbf'' then map_option (\<lambda>d. p\<lparr>PNotBefore := d\<rparr>) (numeric_date_claim j)
      else if equal_fold name ''roles'' then
        map_option (\<lambda>rs. p\<lparr>PRoles := rs\<rparr>) (decode_slice decode_string [] (PRoles p) j)
      else if equal_fold name ''sub'' then map_option (\<lambda>s. p\<lparr>PSubject := s\<rparr>) (decode_string (PSubject p) j)
      else Some p)"

definition empty_claims_payload :: claims_payload where
  "empty_claims_payload = \<lparr>PAudience = [], PExpiresAt = \<lparr>DateTime = zero_time, DateSet = False\<rparr>,
     PIssuedAt = \<lparr>DateTime = zero_time, DateSet = False\<rparr>, PIssuer = [],
     PNotBefore = \<lparr>DateTime = zero_time, DateSet = False\<rparr>, PRoles = [], PSubject = []\<rparr>"

text \<open>
  Decoding into \<open>map[string]any\<close> fails when some number of the document has no \<open>float64\<close>; the last
  member of a name counts.
\<close>

fun numbers_in_range :: "json \<Rightarrow> bool" where
  "numbers_in_range (JNumber l) \<longleftrightarrow> parse_float l \<noteq> None"
| "numbers_in_range (JArray js) \<longleftrightarrow> list_all numbers_in_range js"
| "numbers_in_range (JObject ms) \<longleftrightarrow> list_all (\<lambda>m. numbers_in_range (snd m)) ms"
| "numbers_in_range _ \<longleftrightarrow> True"

definition raw_claims :: "json \<Rightarrow> (string, json) gomap option" where
  "raw_claims j = (if \<not> numbers_in_range j then None
     else (case j of
       JNull \<Rightarrow> Some []
     | JObject ms \<Rightarrow> Some (foldl (\<lambda>raw m. gomap_put (fst m) (snd m) raw) [] ms)
     | _ \<Rightarrow> None))"

definition decodeClaims :: "string \<Rightarrow> decoded_claims result" where
  "decodeClaims payload =
     (case Option.bind (json_parse payload) raw_claims of
        None \<Rightarrow> Inl (errorf [Auth_ErrInvalidToken, Ext] ''decode token claims'')
      | Some rawClaims \<Rightarrow>
     (case Option.bind (json_parse payload) (decode_struct claims_field empty_claims_payload) of
        None \<Rightarrow> Inl (errorf [Auth_ErrInvalidToken, Ext] ''decode standard claims'')
      | Some p \<Rightarrow> Inr \<lparr>
          Claims = \<lparr>Subject = PSubject p, Issuer = PIssuer p, Audience = PAudience p, ClaimRoles = PRoles p,
            ExpiresAt = DateTime (PExpiresAt p), IssuedAt = DateTime (PIssuedAt p),
            NotBefore = DateTime (PNotBefore p), RawClaims = rawClaims\<rparr>,
          hasExpiresAt = DateSet (PExpiresAt p),
          hasIssuedAt = DateSet (PIssuedAt p),
          hasNotBefore = DateSet (PNotBefore p)\<rparr>))"

fun containsAudience :: "string list \<Rightarrow> string \<Rightarrow> bool" where
  "containsAudience [] expected \<longleftrightarrow> False"
| "containsAudience (audience # audiences) expected \<longleftrightarrow> audience = expected \<or> containsAudience audiences expected"

definition validateClaims :: "time \<Rightarrow> auth_config \<Rightarrow> decoded_claims \<Rightarrow> go_error option" where
  "validateClaims now cfg d =
     (let c = Claims d; skew = CfgClockSkew cfg in
      if trim_space (Issuer c) = [] then Some (errorf [Auth_ErrInvalidIssuer] ''iss is required'')
      else if Issuer c \<noteq> CfgIssuer cfg then Some (errorf [Auth_ErrInvalidIssuer] ''unexpected issuer'')
      else if \<not> containsAudience (Audience c) (CfgAudience cfg) then
        Some (errorf [Auth_ErrInvalidAudience] ''audience is required'')
      else if \<not> hasExpiresAt d then Some (token_error ''exp is required'')
      else if now > time_add (ExpiresAt c) skew then Some (errorf [Auth_ErrTokenExpired] ''exp'')
      else if hasNotBefore d \<and> now < time_add (NotBefore c) (wrap_i64 (- skew)) then
        Some (errorf [Auth_ErrTokenNotYetValid] ''nbf'')
      else if hasIssuedAt d \<and> now < time_add (IssuedAt c) (wrap_i64 (- skew)) then
        Some (errorf [Auth_ErrTokenNotYetValid] ''iat'')
      else None)"

section \<open>The signature\<close>

definition verifyRS256Signature ::
  "(rsa_public_key \<Rightarrow> string \<Rightarrow> string \<Rightarrow> bool) \<Rightarrow> rsa_public_key \<Rightarrow> string \<Rightarrow> string \<Rightarrow> go_error option" where
  "verifyRS256Signature rsa_verify pk signingInput signature =
     (if rsa_verify pk signingInput signature then None
      else Some (errorf [Auth_ErrInvalidSignature, Ext] ''verify rs256 signature''))"

definition verifySignature ::
  "(string \<Rightarrow> string \<Rightarrow> string) \<Rightarrow> (rsa_public_key \<Rightarrow> string \<Rightarrow> string \<Rightarrow> bool) \<Rightarrow>
   (snapshot option \<Rightarrow> string \<Rightarrow> string \<Rightarrow> rsa_public_key result) \<Rightarrow>
   snapshot option \<Rightarrow> string \<Rightarrow> auth_config \<Rightarrow> token_header \<Rightarrow> string \<Rightarrow> string \<Rightarrow> go_error option" where
  "verifySignature hmac rsa_verify public_key_for snap serviceName cfg header signingInput signature =
     (if HdrAlgorithm header \<noteq> CfgAlgorithm cfg then
        Some (errorf [Auth_ErrUnsupportedAlgorithm] ''unexpected algorithm'')
      else if CfgAlgorithm cfg = ''HS256'' then
        (if hmac (CfgSecret cfg) signingInput \<noteq> signature then
           Some (errorf [Auth_ErrInvalidSignature] ''hs256 signature mismatch'')
         else None)
      else if CfgAlgorithm cfg = ''RS256'' then
        (let trimmedKeyID = trim_space (HdrKeyID header) in
         if trimmedKeyID = [] then Some (token_error ''kid is required'')
         else (case public_key_for snap serviceName trimmedKeyID of
           Inl e \<Rightarrow> Some (wrap_err [] ''load public key'' e)
         | Inr pk \<Rightarrow> verifyRS256Signature rsa_verify pk signingInput signature))
      else Some (errorf [Auth_ErrUnsupportedAlgorithm] ''unsupported algorithm''))"

definition DecodeFor ::
  "(string \<Rightarrow> string \<Rightarrow> string) \<Rightarrow> (rsa_public_key \<Rightarrow> string \<Rightarrow> string \<Rightarrow> bool) \<Rightarrow>
   ('p \<Rightarrow> snapshot option \<Rightarrow> string \<Rightarrow> auth_config option) \<Rightarrow>
   ('p \<Rightarrow> snapshot option \<Rightarrow> string \<Rightarrow> string \<Rightarrow> rsa_public_key result) \<Rightarrow>
   time \<Rightarrow> 'p decoder \<Rightarrow> snapshot option \<Rightarrow> string \<Rightarrow> string \<Rightarrow> claims result" where
  "DecodeFor hmac rsa_verify snapshot_for public_key_for now d snap serviceName token =
     (let trimmedToken = trim_space token in
      if trimmedToken = [] then Inl (token_error ''token is required'')
      else (case DecProvider d of
        None \<Rightarrow> Inl (errorf [Auth_ErrConfigUnavailable] ''auth config provider is required'')
      | Some provider \<Rightarrow> (case snapshot_for provider snap serviceName of
        None \<Rightarrow> Inl (errorf [Auth_ErrConfigUnavailable] ''auth config is not registered'')
      | Some cfg \<Rightarrow> (case splitToken trimmedToken of
        Inl e \<Rightarrow> Inl e
      | Inr (headerPayload, payload, signature) \<Rightarrow> (case decodeTokenHeader (PayloadHeader headerPayload) of
        Inl e \<Rightarrow> Inl e
      | Inr header \<Rightarrow> (case verifySignature hmac rsa_verify (public_key_for provider) snap serviceName cfg header
            (SigningInput headerPayload) signature of
        Some e \<Rightarrow> Inl e
      | None \<Rightarrow> (case decodeClaims payload of
        Inl e \<Rightarrow> Inl e
      | Inr claims \<Rightarrow> (case validateClaims now cfg claims of
        Some e \<Rightarrow> Inl e
      | None \<Rightarrow> Inr (Claims claims)))))))))"

section \<open>Splitting a token\<close>

lemma raw_url_encode_no_dot: "CHR ''.'' \<notin> set (raw_url_encode s)"
proof -
  have "list_all (\<lambda>v. base64_chars ! v \<noteq> CHR ''.'') [0 ..< 64]" by code_simp
  moreover have "\<forall>v \<in> set (sextets_of_bytes (map of_char s)). v < 64"
    using sextets_bound [of "map of_char s"] by (simp add: list_all_iff)
  ultimately show ?thesis by (auto simp: raw_url_encode_def list_all_iff)
qed

definition compact_token :: "string \<Rightarrow> string \<Rightarrow> string \<Rightarrow> string" where
  "compact_token header payload signature =
     raw_url_encode header @ ''.'' @ raw_url_encode payload @ ''.'' @ raw_url_encode signature"

lemma splitToken_compact:
  "splitToken (compact_token h p s) =
     Inr (\<lparr>PayloadHeader = h, SigningInput = raw_url_encode h @ ''.'' @ raw_url_encode p\<rparr>, p, s)"
proof -
  have "split_on (CHR ''.'') (compact_token h p s) = [raw_url_encode h, raw_url_encode p, raw_url_encode s]"
    using split_on_append [OF raw_url_encode_no_dot [of h], of "raw_url_encode p @ ''.'' @ raw_url_encode s"]
      split_on_append [OF raw_url_encode_no_dot [of p], of "raw_url_encode s"]
      split_on_single [OF raw_url_encode_no_dot [of s]]
    by (simp add: compact_token_def)
  then show ?thesis by (simp add: splitToken_def decode_part_def raw_url_decode_encode res_bind_def)
qed

lemma compact_token_chars: "set (compact_token h p s) \<subseteq> insert (CHR ''.'') (set base64_chars)"
proof -
  have "set (raw_url_encode x) \<subseteq> set base64_chars" for x
  proof -
    have "\<forall>v \<in> set (sextets_of_bytes (map of_char x)). v < 64"
      using sextets_bound [of "map of_char x"] by (simp add: list_all_iff)
    moreover have "length base64_chars = 64" by (simp add: base64_chars_def)
    ultimately show ?thesis by (auto simp: raw_url_encode_def intro: nth_mem)
  qed
  then show ?thesis by (auto simp: compact_token_def)
qed

lemma trim_space_compact: "trim_space (compact_token h p s) = compact_token h p s"
proof (rule trim_space_fixed)
  have "list_all (\<lambda>r. r \<noteq> [] \<and> hd r \<notin> insert (CHR ''.'') (set base64_chars)) space_runes" by code_simp
  then have ne: "\<not> set r \<subseteq> set (compact_token h p s)" if "r \<in> set space_runes" for r
    using that compact_token_chars [of h p s] by (fastforce simp: list_all_iff dest: hd_in_set)
  show "\<not> prefix r (compact_token h p s)" "\<not> suffix r (compact_token h p s)" if "r \<in> set space_runes" for r
    using ne [OF that] by (auto dest: set_mono_prefix set_mono_suffix)
qed

section \<open>The checks of the claims\<close>

lemma containsAudience_iff: "containsAudience as e \<longleftrightarrow> e \<in> set as"
  by (induction as) auto

lemma time_add_exact:
  assumes "\<bar>t\<bar> < 2 ^ 62 * second" "\<bar>d\<bar> < 2 ^ 63"
  shows "time_add t d = t + d"
proof -
  let ?n = "t mod second + go_mod d second" and ?e = "t div second + 62135596800 + go_div d second"
  have "go_div d second * second + go_mod d second = d" by (simp add: go_mod_def)
  moreover have "t div second * second + t mod second = t" by simp
  moreover have "?n div second * second + ?n mod second = ?n" by simp
  ultimately have sum: "(t div second + go_div d second + ?n div second) * second + ?n mod second = t + d"
    by (simp add: distrib_right)
  have b1: "- (2 ^ 62) \<le> t div second" "t div second < 2 ^ 62" using assms(1) by auto
  have b2: "\<bar>go_div d second\<bar> \<le> 9223372036"
  proof -
    have "\<bar>go_div d second\<bar> \<le> \<bar>d\<bar> div second" by (simp add: go_div_def abs_mult sgn_if)
    also have "\<dots> \<le> 2 ^ 63 div second" using assms(2) by (intro zdiv_mono1) auto
    finally show ?thesis by simp
  qed
  have b3: "\<bar>?n div second\<bar> \<le> 2"
  proof -
    have "go_mod d second = (if d < 0 then - ((- d) mod second) else d mod second)"
      by (simp add: go_mod_def go_div_def sgn_if minus_mult_div_eq_mod minus_div_mult_eq_mod [symmetric])
    then have "\<bar>go_mod d second\<bar> < second" by simp
    then show ?thesis by auto
  qed
  have "x + 62135596800 + y + z < 2 ^ 63 \<and> - (2 ^ 63) \<le> x + 62135596800 + y + z"
    if "- (2 ^ 62) \<le> x" "x < 2 ^ 62" "\<bar>y\<bar> \<le> 9223372036" "\<bar>z\<bar> \<le> 2" for x y z :: int
    using that by auto
  from this [OF b1 b2 b3] have "?e + ?n div second < 2 ^ 63" "- (2 ^ 63) \<le> ?e + ?n div second" by blast+
  then show ?thesis using sum unfolding time_add_def Let_def by (simp add: algebra_simps)
qed


lemma validateClaims_None:
  "validateClaims now cfg d = None \<longleftrightarrow>
     trim_space (Issuer (Claims d)) \<noteq> [] \<and> Issuer (Claims d) = CfgIssuer cfg \<and>
     CfgAudience cfg \<in> set (Audience (Claims d)) \<and> hasExpiresAt d \<and>
     now \<le> time_add (ExpiresAt (Claims d)) (CfgClockSkew cfg) \<and>
     \<not> (hasNotBefore d \<and> now < time_add (NotBefore (Claims d)) (wrap_i64 (- CfgClockSkew cfg))) \<and>
     \<not> (hasIssuedAt d \<and> now < time_add (IssuedAt (Claims d)) (wrap_i64 (- CfgClockSkew cfg)))"
  by (auto simp: validateClaims_def Let_def containsAudience_iff not_less)

text \<open>
  C37: The claims are accepted exactly when the issuer is not blank and equal to the configured one, the
  configured audience is among those of the token, an expiry is present, and \<open>now\<close> lies in the window
  that expiry, not-before and issued-at leave open when each is moved by the clock skew in favour of the
  token; both ends of the window are inside. The times must be less than \<open>2 ^ 62\<close> seconds from 1970.
\<close>

theorem claims_window:
  assumes "0 < CfgClockSkew cfg" "CfgClockSkew cfg \<le> max_duration"
    and "\<bar>ExpiresAt (Claims d)\<bar> < 2 ^ 62 * second"
    and "\<bar>NotBefore (Claims d)\<bar> < 2 ^ 62 * second" "\<bar>IssuedAt (Claims d)\<bar> < 2 ^ 62 * second"
  shows "validateClaims now cfg d = None \<longleftrightarrow>
     trim_space (Issuer (Claims d)) \<noteq> [] \<and> Issuer (Claims d) = CfgIssuer cfg \<and>
     CfgAudience cfg \<in> set (Audience (Claims d)) \<and> hasExpiresAt d \<and>
     now - CfgClockSkew cfg \<le> ExpiresAt (Claims d) \<and>
     (hasNotBefore d \<longrightarrow> NotBefore (Claims d) \<le> now + CfgClockSkew cfg) \<and>
     (hasIssuedAt d \<longrightarrow> IssuedAt (Claims d) \<le> now + CfgClockSkew cfg)"
proof -
  have w: "wrap_i64 (- CfgClockSkew cfg) = - CfgClockSkew cfg"
    using assms(1,2) by (intro wrap_i64_id) (auto simp: max_duration_def)
  have s: "\<bar>CfgClockSkew cfg\<bar> < 2 ^ 63" "\<bar>- CfgClockSkew cfg\<bar> < 2 ^ 63"
    using assms(1,2) by (auto simp: max_duration_def)
  have e: "time_add (ExpiresAt (Claims d)) (CfgClockSkew cfg) = ExpiresAt (Claims d) + CfgClockSkew cfg"
      "time_add (NotBefore (Claims d)) (- CfgClockSkew cfg) = NotBefore (Claims d) + - CfgClockSkew cfg"
      "time_add (IssuedAt (Claims d)) (- CfgClockSkew cfg) = IssuedAt (Claims d) + - CfgClockSkew cfg"
    by (rule time_add_exact; use assms s in blast)+
  show ?thesis unfolding validateClaims_None w e by auto
qed

section \<open>Dates\<close>

lemma number_chars_plain:
  assumes "\<forall>c \<in> set ds. is_digit c" "ds \<noteq> []"
  shows "literal_value ds = of_nat (digits_val ds)"
proof -
  have no: "c \<noteq> CHR ''e''" "c \<noteq> CHR ''E''" "c \<noteq> CHR ''.''" "c \<noteq> CHR ''-''" if "c \<in> set ds" for c
    using assms(1) that by (auto simp: is_digit_def)
  have tw: "takeWhile (\<lambda>c. c \<noteq> CHR ''e'' \<and> c \<noteq> CHR ''E'') ds = ds" "takeWhile (\<lambda>c. c \<noteq> CHR ''.'') ds = ds"
    using no by (simp_all add: takeWhile_eq_all_conv)
  have np: "has_prefix ds ''-'' = False" using no assms(2) by (cases ds) (auto simp: has_prefix_def)
  show ?thesis by (simp add: literal_value_def tw np pow10_def)
qed

lemma date_of_whole_seconds:
  assumes "n < 2 ^ 53"
  shows "date_of_seconds (of_nat n) = int n * second"
proof -
  have t: "truncate_rat (of_nat n) = int n" by (simp add: truncate_rat_def)
  have w: "wrap_i64 (int n) = int n" "wrap_i64 (int n + 62135596800) = int n + 62135596800"
    using assms by (auto intro!: wrap_i64_id)
  show ?thesis using assms
    by (simp add: date_of_seconds_def t int64_of_float_def time_of_unix_def w round64_def truncate_rat_def)
qed

lemma numeric_date_digits:
  assumes "\<forall>c \<in> set ds. is_digit c" "ds \<noteq> []" "digits_val ds < 2 ^ 53"
  shows "numeric_date_claim (JNumber ds) = Some \<lparr>DateTime = int (digits_val ds) * second, DateSet = True\<rparr>"
proof -
  have "\<bar>of_nat (digits_val ds) :: rat\<bar> < 2 ^ 1024"
  proof -
    have "(of_nat (digits_val ds) :: rat) < of_nat (2 ^ 53)" using assms(3) by (simp only: of_nat_less_iff)
    also have "\<dots> < 2 ^ 1024" by simp
    finally show ?thesis by simp
  qed
  then have "parse_float ds = Some (of_nat (digits_val ds))"
    using number_chars_plain [OF assms(1,2)] round64_of_nat [OF assms(3)] by (simp add: parse_float_def)
  then show ?thesis
    by (simp add: numeric_date_claim_def number_literal_def date_of_whole_seconds [OF assms(3)])
qed

text \<open>A quoted number literal counts like the number.\<close>

lemma numeric_date_quoted:
  "json_number s = Some (l, []) \<Longrightarrow> numeric_date_claim (JString s) = numeric_date_claim (JNumber l)"
  by (simp add: numeric_date_claim_def number_literal_def)

section \<open>Decoding with the keys of the store\<close>

definition decode_token ::
  "(string \<Rightarrow> string \<Rightarrow> string) \<Rightarrow> (rsa_public_key \<Rightarrow> string \<Rightarrow> string \<Rightarrow> bool) \<Rightarrow> ('p \<Rightarrow> snapshot option) \<Rightarrow>
   time \<Rightarrow> 'p auth_store \<Rightarrow> snapshot \<Rightarrow> string \<Rightarrow> string \<Rightarrow> claims result" where
  "decode_token hmac rsa_verify prov now s sn service token =
     DecodeFor hmac rsa_verify (\<lambda>s. SnapshotFor prov (Some s)) (\<lambda>s. PublicKeyFor prov (Some s)) now
       (NewDecoder (Some s)) (Some sn) service token"

lemma decode_token_Inr:
  "decode_token hmac rsa_verify prov now s sn service token = Inr c \<longleftrightarrow>
     (\<exists>info hp payload sig hdr dc. trim_space token \<noteq> [] \<and>
        authInfoFor prov (Some s) (Some sn) service = Some info \<and>
        splitToken (trim_space token) = Inr (hp, payload, sig) \<and> decodeTokenHeader (PayloadHeader hp) = Inr hdr \<and>
        verifySignature hmac rsa_verify (PublicKeyFor prov (Some s)) (Some sn) service (configFromAuthInfo info)
          hdr (SigningInput hp) sig = None \<and>
        decodeClaims payload = Inr dc \<and> validateClaims now (configFromAuthInfo info) dc = None \<and> c = Claims dc)"
  by (auto simp: decode_token_def DecodeFor_def NewDecoder_def SnapshotFor_def Let_def
      split: option.splits sum.splits prod.splits)

lemma verifySignature_None:
  "verifySignature hmac rsa_verify key_for sn service cfg hdr input sig = None \<longleftrightarrow>
     HdrAlgorithm hdr = CfgAlgorithm cfg \<and>
     (CfgAlgorithm cfg = ''HS256'' \<and> sig = hmac (CfgSecret cfg) input \<or>
      CfgAlgorithm cfg = ''RS256'' \<and> trim_space (HdrKeyID hdr) \<noteq> [] \<and>
        (\<exists>pk. key_for sn service (trim_space (HdrKeyID hdr)) = Inr pk \<and> rsa_verify pk input sig))"
  by (auto simp: verifySignature_def verifyRS256Signature_def Let_def split: sum.splits)

text \<open>
  The interface \<open>ConfigProvider\<close>, as the decoder relies on it: a configuration it hands out names one of two
  algorithms, with a secret for HS256; the keys it hands out are keys of the service; and for a service with a
  configuration for RS256 a key is only refused because it is not found.
\<close>

locale config_provider =
  fixes snapshot_for :: "snapshot option \<Rightarrow> string \<Rightarrow> auth_config option"
    and public_key_for :: "snapshot option \<Rightarrow> string \<Rightarrow> string \<Rightarrow> rsa_public_key result"
    and key_of :: "snapshot option \<Rightarrow> string \<Rightarrow> string \<Rightarrow> rsa_public_key \<Rightarrow> bool"
  assumes configured: "snapshot_for snap name = Some cfg \<Longrightarrow>
      CfgAlgorithm cfg = ''HS256'' \<and> CfgSecret cfg \<noteq> [] \<or> CfgAlgorithm cfg = ''RS256''"
    and key_found: "public_key_for snap name kid = Inr pk \<Longrightarrow> key_of snap name kid pk"
    and key_missing: "snapshot_for snap name = Some cfg \<Longrightarrow> CfgAlgorithm cfg = ''RS256'' \<Longrightarrow> trim_space kid \<noteq> [] \<Longrightarrow>
      public_key_for snap name kid = Inl e \<Longrightarrow> err_wraps e = [AuthConfig_ErrKeyNotFound]"
begin

lemma accepted_token:
  assumes "DecodeFor hmac rsa_verify sf pkf now \<lparr>DecProvider = Some p\<rparr> snap name token = Inr c"
    and provider: "sf p = snapshot_for" "pkf p = public_key_for"
  shows "\<exists>cfg hp payload sig hdr dc. snapshot_for snap name = Some cfg \<and>
    splitToken (trim_space token) = Inr (hp, payload, sig) \<and>
    decodeTokenHeader (PayloadHeader hp) = Inr hdr \<and> HdrAlgorithm hdr = CfgAlgorithm cfg \<and>
    (CfgAlgorithm cfg = ''HS256'' \<and> CfgSecret cfg \<noteq> [] \<and> sig = hmac (CfgSecret cfg) (SigningInput hp) \<or>
     CfgAlgorithm cfg = ''RS256'' \<and>
       (\<exists>pk. key_of snap name (trim_space (HdrKeyID hdr)) pk \<and> rsa_verify pk (SigningInput hp) sig)) \<and>
    decodeClaims payload = Inr dc \<and> validateClaims now cfg dc = None \<and> c = Claims dc"
proof -
  obtain cfg hp payload sig hdr dc where t: "snapshot_for snap name = Some cfg"
      "splitToken (trim_space token) = Inr (hp, payload, sig)" "decodeTokenHeader (PayloadHeader hp) = Inr hdr"
      "decodeClaims payload = Inr dc" "validateClaims now cfg dc = None" "c = Claims dc"
    and v: "verifySignature hmac rsa_verify public_key_for snap name cfg hdr (SigningInput hp) sig = None"
    using assms(1) unfolding DecodeFor_def Let_def
    by (auto simp: provider split: if_splits option.splits sum.splits prod.splits)
  show ?thesis using t v configured [OF t(1)] key_found unfolding verifySignature_None by auto
qed

end

lemma SnapshotFor_configured:
  assumes "SnapshotFor prov (Some s) snap name = Some cfg"
  obtains info where "authInfoFor prov (Some s) snap name = Some info" "cfg = configFromAuthInfo info"
    "CfgAlgorithm cfg = ''HS256'' \<and> CfgSecret cfg \<noteq> [] \<or> CfgAlgorithm cfg = ''RS256'' \<and> InfoKeys info \<noteq> []"
proof -
  obtain info where i: "authInfoFor prov (Some s) snap name = Some info" "cfg = configFromAuthInfo info"
    using assms by (auto simp: SnapshotFor_def)
  then obtain au where b: "buildAuthInfo au = Inr info"
    by (auto simp: authInfoFor_def Let_def split: option.splits if_splits sum.splits)
  have "CfgAlgorithm cfg = ''HS256'' \<and> CfgSecret cfg \<noteq> [] \<or> CfgAlgorithm cfg = ''RS256'' \<and> InfoKeys info \<noteq> []"
    unfolding i(2) by (cases rule: buildAuthInfo_cases [OF b])
      (auto simp: configFromAuthInfo_def supportedJWTAlgorithm_def supportedHMACJWTAlgorithm_def publicKeys_exact)
  then show thesis using that i by blast
qed

interpretation store_provider: config_provider
  "SnapshotFor prov (Some s)" "PublicKeyFor prov (Some s)" "service_key prov (Some s)" for prov s
proof unfold_locales
  fix snap name cfg kid e
  assume cfg: "SnapshotFor prov (Some s) snap name = Some cfg"
  obtain info where i: "authInfoFor prov (Some s) snap name = Some info" "cfg = configFromAuthInfo info"
    "CfgAlgorithm cfg = ''HS256'' \<and> CfgSecret cfg \<noteq> [] \<or> CfgAlgorithm cfg = ''RS256'' \<and> InfoKeys info \<noteq> []"
    by (rule SnapshotFor_configured [OF cfg])
  show "CfgAlgorithm cfg = ''HS256'' \<and> CfgSecret cfg \<noteq> [] \<or> CfgAlgorithm cfg = ''RS256''" using i(3) by auto
  assume "CfgAlgorithm cfg = ''RS256''" "trim_space kid \<noteq> []" "PublicKeyFor prov (Some s) snap name kid = Inl e"
  then show "err_wraps e = [AuthConfig_ErrKeyNotFound]"
    using i by (auto simp: PublicKeyFor_def Let_def errorf_def split: option.splits)
qed (rule PublicKeyFor_service_key)

text \<open>
  C8: A token is accepted only when it is signed for the service that was asked for: the algorithm in its
  header is the configured one, and the signature is the HMAC of the signing input under the non-empty
  configured secret, or it is accepted by a usable RSA key of the key set of this service that is listed
  under the trimmed key id of the header. In particular neither another algorithm nor a missing signature
  passes, and a public key is never used as an HMAC secret. The claims returned are those of the
  payload, and they pass the checks of issuer, audience and time.
\<close>

theorem accepted_token_is_genuine:
  assumes "decode_token hmac rsa_verify prov now s sn service token = Inr c"
  shows "\<exists>svc g a info hp payload sig hdr dc.
    gomap_get (Services sn) (NormalizeServiceName service) = Some svc \<and> SvcGlobal svc = Some g \<and>
    Auth g = Some a \<and> buildAuthInfo (Some a) = Inr info \<and>
    splitToken (trim_space token) = Inr (hp, payload, sig) \<and>
    decodeTokenHeader (PayloadHeader hp) = Inr hdr \<and> HdrAlgorithm hdr = InfoAlgorithm info \<and>
    (InfoAlgorithm info = ''HS256'' \<and> InfoSecret info \<noteq> [] \<and> sig = hmac (InfoSecret info) (SigningInput hp) \<or>
     InfoAlgorithm info = ''RS256'' \<and> (\<exists>d k pk. newDocumentFromBytes (JWKS a) = Inr d \<and> k \<in> set (DocKeys d) \<and>
       KKeyID k = trim_space (HdrKeyID hdr) \<and> publicKey k = Inr (Some pk) \<and> rsa_verify pk (SigningInput hp) sig)) \<and>
    decodeClaims payload = Inr dc \<and> validateClaims now (configFromAuthInfo info) dc = None \<and> c = Claims dc"
proof -
  from store_provider.accepted_token [OF assms [unfolded decode_token_def NewDecoder_def] refl refl]
  obtain cfg hp payload sig hdr dc where t: "SnapshotFor prov (Some s) (Some sn) service = Some cfg"
      "splitToken (trim_space token) = Inr (hp, payload, sig)" "decodeTokenHeader (PayloadHeader hp) = Inr hdr"
      "HdrAlgorithm hdr = CfgAlgorithm cfg" "decodeClaims payload = Inr dc" "validateClaims now cfg dc = None" "c = Claims dc"
    and v: "CfgAlgorithm cfg = ''HS256'' \<and> CfgSecret cfg \<noteq> [] \<and> sig = hmac (CfgSecret cfg) (SigningInput hp) \<or>
      CfgAlgorithm cfg = ''RS256'' \<and> (\<exists>pk. service_key prov (Some s) (Some sn) service (trim_space (HdrKeyID hdr)) pk \<and>
        rsa_verify pk (SigningInput hp) sig)"
    by blast
  obtain info where i: "authInfoFor prov (Some s) (Some sn) service = Some info" "cfg = configFromAuthInfo info"
    using t(1) by (rule SnapshotFor_configured)
  obtain svc g where g: "gomap_get (Services sn) (NormalizeServiceName service) = Some svc"
      "SvcGlobal svc = Some g" "buildAuthInfo (Auth g) = Inr info"
    using i unfolding authInfoFor_Some by blast
  from g(3) obtain a where a: "Auth g = Some a" by (rule buildAuthInfo_cases)
  have "InfoAlgorithm info = ''HS256'' \<and> InfoSecret info \<noteq> [] \<and> sig = hmac (InfoSecret info) (SigningInput hp) \<or>
     InfoAlgorithm info = ''RS256'' \<and> (\<exists>d k pk. newDocumentFromBytes (JWKS a) = Inr d \<and> k \<in> set (DocKeys d) \<and>
       KKeyID k = trim_space (HdrKeyID hdr) \<and> publicKey k = Inr (Some pk) \<and> rsa_verify pk (SigningInput hp) sig)"
    using v service_key_listed [of prov "Some s" sn service] g(1,2) a i(2) by (fastforce simp: configFromAuthInfo_def)
  moreover have "buildAuthInfo (Some a) = Inr info" using g(3) a by simp
  ultimately show ?thesis using g(1,2) a t i(2) by (auto simp: configFromAuthInfo_def)
qed

lemma signed_token_accepted:
  assumes "authInfoFor prov (Some s) (Some sn) service = Some info" "InfoAlgorithm info = ''HS256''"
    and "decodeTokenHeader header = Inr hdr" "HdrAlgorithm hdr = ''HS256''"
    and "decodeClaims payload = Inr dc" "validateClaims now (configFromAuthInfo info) dc = None"
  shows "decode_token hmac rsa_verify prov now s sn service (compact_token header payload
      (hmac (InfoSecret info) (raw_url_encode header @ ''.'' @ raw_url_encode payload))) = Inr (Claims dc)"
proof -
  let ?sig = "hmac (InfoSecret info) (raw_url_encode header @ ''.'' @ raw_url_encode payload)"
  let ?t = "compact_token header payload ?sig"
  have "trim_space ?t = ?t" by (rule trim_space_compact)
  moreover have "?t \<noteq> []" by (simp add: compact_token_def)
  ultimately show ?thesis
    unfolding decode_token_Inr using assms
    by (simp add: splitToken_compact verifySignature_None configFromAuthInfo_def)
qed


text \<open>
  C36: Every token that is built for an HS256 service is accepted: when the header names HS256 and the
  claims pass their checks, the token whose three parts are the base64 forms of header, payload and of the
  HMAC of the first two under the configured secret is decoded to exactly these claims.
\<close>

theorem signed_token_round_trip:
  assumes "authInfoFor prov (Some s) (Some sn) service = Some info" "InfoAlgorithm info = ''HS256''"
    and "decodeTokenHeader header = Inr hdr" "HdrAlgorithm hdr = ''HS256''"
    and "decodeClaims payload = Inr dc" "validateClaims now (configFromAuthInfo info) dc = None"
  shows "decode_token hmac rsa_verify prov now s sn service (compact_token header payload
      (hmac (InfoSecret info) (raw_url_encode header @ ''.'' @ raw_url_encode payload))) = Inr (Claims dc)"
  using assms by (rule signed_token_accepted)

section \<open>A signed token\<close>

definition sample_header :: string where
  "sample_header = ''{\"alg\":\"HS256\",\"typ\":\"JWT\"}''"

definition sample_payload :: string where
  "sample_payload = ''{\"iss\":\"issuer\",\"aud\":\"api\",\"exp\":\"9\"}''"

text \<open>A toy tag: key, length and last character of the message.\<close>

definition sample_hmac :: "string \<Rightarrow> string \<Rightarrow> string" where
  "sample_hmac key message = key @ [last message]"

definition sample_token :: string where
  "sample_token = compact_token sample_header sample_payload
     (sample_hmac ''secret'' (raw_url_encode sample_header @ ''.'' @ raw_url_encode sample_payload))"

definition sample_claims :: decoded_claims where
  "sample_claims = \<lparr>Claims = \<lparr>Subject = [], Issuer = ''issuer'', Audience = [''api''], ClaimRoles = [],
       ExpiresAt = 9 * second, IssuedAt = zero_time, NotBefore = zero_time,
       RawClaims = [(''iss'', JString ''issuer''), (''aud'', JString ''api''), (''exp'', JString ''9'')]\<rparr>,
     hasExpiresAt = True, hasIssuedAt = False, hasNotBefore = False\<rparr>"

lemma sample_header_decodes: "decodeTokenHeader sample_header = Inr \<lparr>HdrAlgorithm = ''HS256'', HdrKeyID = []\<rparr>"
  by code_simp

lemma sample_payload_json: "json_parse sample_payload =
    Some (JObject [(''iss'', JString ''issuer''), (''aud'', JString ''api''), (''exp'', JString ''9'')])"
  by code_simp

lemma sample_date: "numeric_date_claim (JString ''9'') = Some \<lparr>DateTime = 9 * second, DateSet = True\<rparr>"
proof -
  have "json_number ''9'' = Some (''9'', [])" "digits_val ''9'' = 9" by code_simp+
  then show ?thesis using numeric_date_quoted [of "''9''" "''9''"] numeric_date_digits [of "''9''"]
    by (simp add: is_digit_def)
qed

lemma sample_field_names:
  "equal_fold ''iss'' ''aud'' = False" "equal_fold ''iss'' ''exp'' = False" "equal_fold ''iss'' ''iat'' = False"
  "equal_fold ''iss'' ''iss'' = True" "equal_fold ''aud'' ''aud'' = True" "equal_fold ''exp'' ''aud'' = False"
  "equal_fold ''exp'' ''exp'' = True"
  by code_simp+

lemma sample_payload_decodes: "decodeClaims sample_payload = Inr sample_claims"
  by (simp add: decodeClaims_def sample_payload_json raw_claims_def decode_struct_def claims_field_def sample_field_names
      sample_date audience_claim_def decode_string_def empty_claims_payload_def sample_claims_def)

abbreviation hs256_snapshot :: snapshot where
  "hs256_snapshot \<equiv> sample_auth_snapshot (sample_auth ''HS256'' [])"

definition hs256_info :: auth_info where
  "hs256_info = \<lparr>InfoAlgorithm = ''HS256'', InfoAudience = ''api'', InfoClockSkew = 30 * second,
     InfoIssuer = ''issuer'', InfoSecret = ''secret'', InfoJWKS = [], InfoKeys = []\<rparr>"

lemma hs256_info_found:
  "authInfoFor no_provider (Some Auth_NewStore) (Some hs256_snapshot) ''users'' = Some hs256_info"
  by code_simp

lemma sample_claims_valid: "validateClaims (39 * second) (configFromAuthInfo hs256_info) sample_claims = None"
  by code_simp

theorem signed_token_round_trip_witness:
  "decode_token sample_hmac (\<lambda>_ _ _. False) no_provider (39 * second) Auth_NewStore hs256_snapshot ''users''
     (compact_token sample_header sample_payload
       (sample_hmac (InfoSecret hs256_info) (raw_url_encode sample_header @ ''.'' @ raw_url_encode sample_payload))) =
   Inr (Claims sample_claims)"
  by (rule signed_token_round_trip [OF hs256_info_found _ sample_header_decodes _ sample_payload_decodes
        sample_claims_valid]) (simp_all add: hs256_info_def)

lemma sample_token_accepted:
  "decode_token sample_hmac (\<lambda>_ _ _. False) no_provider (39 * second) Auth_NewStore hs256_snapshot ''users''
     sample_token = Inr (Claims sample_claims)"
proof -
  have "sample_token = compact_token sample_header sample_payload
      (sample_hmac (InfoSecret hs256_info) (raw_url_encode sample_header @ ''.'' @ raw_url_encode sample_payload))"
    by (simp add: sample_token_def hs256_info_def)
  then show ?thesis
    by (elim ssubst) (rule signed_token_accepted [OF hs256_info_found _ sample_header_decodes _ sample_payload_decodes
        sample_claims_valid]; simp add: hs256_info_def)
qed

theorem accepted_token_is_genuine_witness:
  "\<exists>svc g a info hp payload sig hdr dc.
    gomap_get (Services hs256_snapshot) (NormalizeServiceName ''users'') = Some svc \<and> SvcGlobal svc = Some g \<and>
    Auth g = Some a \<and> buildAuthInfo (Some a) = Inr info \<and>
    splitToken (trim_space sample_token) = Inr (hp, payload, sig) \<and>
    decodeTokenHeader (PayloadHeader hp) = Inr hdr \<and> HdrAlgorithm hdr = InfoAlgorithm info \<and>
    (InfoAlgorithm info = ''HS256'' \<and> InfoSecret info \<noteq> [] \<and> sig = sample_hmac (InfoSecret info) (SigningInput hp) \<or>
     InfoAlgorithm info = ''RS256'' \<and> (\<exists>d k pk. newDocumentFromBytes (JWKS a) = Inr d \<and> k \<in> set (DocKeys d) \<and>
       KKeyID k = trim_space (HdrKeyID hdr) \<and> publicKey k = Inr (Some pk) \<and>
       (\<lambda>_ _ _. False) pk (SigningInput hp) sig)) \<and>
    decodeClaims payload = Inr dc \<and> validateClaims (39 * second) (configFromAuthInfo info) dc = None \<and>
    Claims sample_claims = Claims dc"
  by (rule accepted_token_is_genuine [OF sample_token_accepted])

theorem claims_window_witness:
  "(validateClaims (39 * second) (configFromAuthInfo hs256_info) sample_claims = None) \<noteq>
   (validateClaims (39 * second + 1) (configFromAuthInfo hs256_info) sample_claims = None)"
proof -
  have b: "0 < CfgClockSkew (configFromAuthInfo hs256_info)" "CfgClockSkew (configFromAuthInfo hs256_info) \<le> max_duration"
    "\<bar>ExpiresAt (Claims sample_claims)\<bar> < 2 ^ 62 * second"
    "\<bar>NotBefore (Claims sample_claims)\<bar> < 2 ^ 62 * second" "\<bar>IssuedAt (Claims sample_claims)\<bar> < 2 ^ 62 * second"
    by (simp_all add: configFromAuthInfo_def hs256_info_def sample_claims_def max_duration_def zero_time_def)
  have i: "trim_space ''issuer'' = ''issuer''" by code_simp
  show ?thesis unfolding claims_window [OF b]
    by (simp add: configFromAuthInfo_def hs256_info_def sample_claims_def i)
qed

end
