(* ===== verification/Route.thy ===== *)
theory Route
  imports Manager
begin

text \<open>
  Package \<open>internal/route/config\<close>: the stateless router (\<open>router.go\<close>), the validator of a
  candidate's route index (\<open>validator.go\<close>) and the round-robin load balancer with its per-service
  cursors (\<open>load_balancer.go\<close>).
\<close>

section \<open>The router (\<open>model.go\<close>, \<open>router.go\<close>)\<close>

definition zero_instance :: instance_settings where
  "zero_instance = \<lparr>Scheme = [], Host = [], Port = [], HealthKey = []\<rparr>"

record route_info =
  InfoService :: string
  InfoPath :: string
  InfoHttpMethod :: string
  InfoRoles :: "string list"
  InfoInstance :: instance_settings

datatype router = Router

definition route_isWildcardPath :: "string \<Rightarrow> bool" where
  "route_isWildcardPath path = has_suffix (trim_space path) ''/**''"

definition matchRouteEntry :: "route_entry \<Rightarrow> string \<Rightarrow> string \<Rightarrow> bool" where
  "matchRouteEntry route m path =
     (if RouteMethod route \<noteq> ''ALL'' \<and> RouteMethod route \<noteq> m then False
      else let routePath = trim_space (RoutePath route) in
      if route_isWildcardPath routePath then has_prefix path (trim_suffix routePath ''/**'')
      else routePath = path)"

definition routeInfoFromEntry :: "route_entry \<Rightarrow> route_info" where
  "routeInfoFromEntry route =
     \<lparr>InfoService = RouteService route, InfoPath = RoutePath route,
      InfoHttpMethod = RouteMethod route, InfoRoles = RouteRoles route,
      InfoInstance = zero_instance\<rparr>"

text \<open>An exact lookup counts only when the entry found is no wildcard.\<close>

definition exact_route :: "snapshot \<Rightarrow> route_key \<Rightarrow> route_entry option" where
  "exact_route snap key = (case gomap_get (Routes snap) key of
     None \<Rightarrow> None
   | Some route \<Rightarrow> if \<not> route_isWildcardPath (RoutePath route) then Some route else None)"

definition RouteFor :: "router option \<Rightarrow> snapshot option \<Rightarrow> string \<Rightarrow> string \<Rightarrow> route_info option" where
  "RouteFor r current m path = (case (r, current) of
     (Some _, Some snap) \<Rightarrow>
       (let key = \<lparr>KeyMethod = NormalizeHTTPMethod m, KeyPath = NormalizeHTTPPath path\<rparr> in
        if KeyMethod key = [] \<or> KeyPath key = [] then None
        else (case exact_route snap key of
          Some route \<Rightarrow> Some (routeInfoFromEntry route)
        | None \<Rightarrow>
          (case exact_route snap \<lparr>KeyMethod = ''ALL'', KeyPath = KeyPath key\<rparr> of
             Some route \<Rightarrow> Some (routeInfoFromEntry route)
           | None \<Rightarrow>
             (case find (\<lambda>route. matchRouteEntry route (KeyMethod key) (KeyPath key))
                     (WildcardRoutes snap) of
                Some route \<Rightarrow> Some (routeInfoFromEntry route)
              | None \<Rightarrow> None))))
   | _ \<Rightarrow> None)"

section \<open>The validator (\<open>validator.go\<close>)\<close>

definition route_error :: "string \<Rightarrow> go_error" where
  "route_error msg = errorf [Route_ErrInvalidConfig] msg"

definition check_service :: "string \<times> service_settings \<Rightarrow> go_error option" where
  "check_service p = (case p of (serviceName, service) \<Rightarrow>
     if NormalizeServiceName serviceName = [] \<or> SvcName service = [] then
       Some (route_error ''service-name is required'')
     else if length (SvcEndpoints service) = 0 then
       Some (route_error ''endpoints are required'')
     else None)"

definition check_route :: "snapshot \<Rightarrow> route_key \<times> route_entry \<Rightarrow> go_error option" where
  "check_route candidate p = (case p of (key, route) \<Rightarrow>
     if KeyMethod key = [] \<or> KeyPath key = [] \<or> RouteMethod route = [] \<or> RoutePath route = [] then
       Some (route_error ''route method and path are required'')
     else if gomap_get (Services candidate) (RouteService route) = None then
       Some (route_error ''route references unknown service'')
     else None)"

definition check_wildcard :: "snapshot \<Rightarrow> route_entry \<Rightarrow> go_error option" where
  "check_wildcard candidate route =
     (if \<not> route_isWildcardPath (RoutePath route) then
        Some (route_error ''wildcard route is not wildcard'')
      else if gomap_get (Services candidate) (RouteService route) = None then
        Some (route_error ''wildcard route references unknown service'')
      else None)"

datatype route_validator = Validator

definition Route_Validate :: "route_validator option \<Rightarrow> snapshot \<Rightarrow> go_error option" where
  "Route_Validate v candidate =
     (if v = None then Some (route_error ''route validator is nil'')
      else (case first_error check_service (Services candidate) of
        Some e \<Rightarrow> Some e
      | None \<Rightarrow> (case first_error (check_route candidate) (Routes candidate) of
          Some e \<Rightarrow> Some e
        | None \<Rightarrow> first_error (check_wildcard candidate) (WildcardRoutes candidate))))"

section \<open>The load balancer (\<open>load_balancer.go\<close>)\<close>

text \<open>
  The state is the map of cursors; \<open>Health\<close> is the injected provider, \<open>None\<close> when absent. The
  cursor is an atomic 64-bit counter that wraps; \<open>LoadOrStore\<close> and \<open>Add\<close> are one step here because
  no other operation looks at the cursor in between.
\<close>

record load_balancer =
  Cursors :: "(string, 64 word) gomap"
  LBHealth :: "(string \<Rightarrow> bool) option"

definition NewLoadBalancer :: "(string \<Rightarrow> bool) option \<Rightarrow> load_balancer" where
  "NewLoadBalancer health = \<lparr>Cursors = [], LBHealth = health\<rparr>"

definition routableInstance :: "load_balancer \<Rightarrow> instance_settings \<Rightarrow> bool" where
  "routableInstance lb inst = (case LBHealth lb of
     None \<Rightarrow> True | Some is_routable \<Rightarrow> is_routable (HealthKey inst))"

text \<open>The scan: \<open>(index + offset) % n\<close> in 64-bit arithmetic, \<open>fuel\<close> counting the offsets left.\<close>

fun scan_instances ::
  "load_balancer \<Rightarrow> instance_settings list \<Rightarrow> 64 word \<Rightarrow> nat \<Rightarrow> 64 word \<Rightarrow> instance_settings option"
where
  "scan_instances lb instances index 0 offset = None"
| "scan_instances lb instances index (Suc left) offset =
     (let inst = instances ! unat ((index + offset) mod of_nat (length instances)) in
      if routableInstance lb inst then Some inst
      else scan_instances lb instances index left (offset + 1))"

definition cursor_for :: "load_balancer \<Rightarrow> string \<Rightarrow> 64 word" where
  "cursor_for lb name = (case gomap_get (Cursors lb) name of None \<Rightarrow> 0 | Some c \<Rightarrow> c)"

definition NextInstance ::
  "load_balancer option \<Rightarrow> snapshot option \<Rightarrow> string \<Rightarrow>
   instance_settings result \<times> load_balancer option" where
  "NextInstance lbp current serviceName = (case lbp of
     None \<Rightarrow> (Inl (route_error ''load balancer is nil''), None)
   | Some lb \<Rightarrow> (case current of
       None \<Rightarrow> (Inl (errorf [Route_ErrConfigNotFound] ''settings snapshot is required''), lbp)
     | Some snap \<Rightarrow>
       (let normalizedServiceName = NormalizeServiceName serviceName in
        if normalizedServiceName = [] then (Inl (route_error ''service-name is required''), lbp)
        else (case gomap_get (Services snap) normalizedServiceName of
          None \<Rightarrow> (Inl (errorf [Route_ErrConfigNotFound] normalizedServiceName), lbp)
        | Some service \<Rightarrow>
          if length (SvcInstances service) = 0 then
            (Inl (errorf [Route_ErrNoHealthyInstance] ''service has no instances''), lbp)
          else
            (let cursor = cursor_for lb normalizedServiceName + 1;
                 lb' = lb\<lparr>Cursors := gomap_put normalizedServiceName cursor (Cursors lb)\<rparr>;
                 index = cursor - 1
             in (case scan_instances lb' (SvcInstances service) index
                        (length (SvcInstances service)) 0 of
                   Some inst \<Rightarrow> (Inr inst, Some lb')
                 | None \<Rightarrow> (Inl (errorf [Route_ErrNoHealthyInstance] ''service''), Some lb')))))))"

section \<open>Lemmas on the router\<close>

lemma isWildcard_same: "route_isWildcardPath = isWildcardPath"
  by (simp add: fun_eq_iff route_isWildcardPath_def isWildcardPath_def)

text \<open>
  Which registered entry a request may be sent to: an exact entry of its method, an exact entry
  of the method \<open>ALL\<close>, or a wildcard entry whose prefix the path has.
\<close>

definition serves :: "route_entry \<Rightarrow> string \<Rightarrow> string \<Rightarrow> bool" where
  "serves r m p \<longleftrightarrow> (RouteMethod r = m \<or> RouteMethod r = ''ALL'') \<and>
     (if isWildcardPath (RoutePath r) then has_prefix p (trim_suffix (RoutePath r) ''/**'')
      else RoutePath r = p)"

definition registered :: "snapshot \<Rightarrow> route_entry \<Rightarrow> bool" where
  "registered c r \<longleftrightarrow> map_of (Routes c) (route_key_of r) = Some r"

lemma registered_normal:
  assumes "snapshot_ok c" "registered c r"
  shows "trim_space (RoutePath r) = RoutePath r" "RoutePath r \<noteq> []" "RouteMethod r \<noteq> []"
    "NormalizeHTTPMethod (RouteMethod r) = RouteMethod r"
    "\<exists>svc. map_of (Services c) (RouteService r) = Some svc \<and> r \<in> set (service_routes svc)"
proof -
  obtain svc where svc: "map_of (Services c) (RouteService r) = Some svc" "r \<in> set (service_routes svc)"
    using assms snapshot_route_iff by (auto simp: registered_def)
  then obtain e where "e \<in> set (SvcEndpoints svc)" "r = endpoint_route (SvcName svc) e"
    by (auto simp: service_routes_def)
  moreover have "list_all endpoint_normal (SvcEndpoints svc)"
    using snapshot_okD(3) [OF assms(1) svc(1)] by (simp add: service_ok_def)
  ultimately show "trim_space (RoutePath r) = RoutePath r" "RoutePath r \<noteq> []" "RouteMethod r \<noteq> []"
    "NormalizeHTTPMethod (RouteMethod r) = RouteMethod r"
    by (auto simp: list_all_iff endpoint_normal_def endpoint_route_def NormalizeHTTPPath_def
        NormalizeTrimmed_def)
  show "\<exists>svc. map_of (Services c) (RouteService r) = Some svc \<and> r \<in> set (service_routes svc)"
    using svc by blast
qed

lemma matchRouteEntry_serves:
  assumes "trim_space (RoutePath r) = RoutePath r"
  shows "matchRouteEntry r m p \<longleftrightarrow> serves r m p"
  using assms by (auto simp: matchRouteEntry_def serves_def isWildcard_same Let_def)

lemma exact_route_Some:
  assumes "snapshot_ok c"
  shows "exact_route c k = Some r \<longleftrightarrow>
    registered c r \<and> \<not> isWildcardPath (RoutePath r) \<and> k = route_key_of r"
proof -
  have "map_of (Routes c) k = Some r \<longleftrightarrow> registered c r \<and> k = route_key_of r"
    using snapshot_route_iff [OF assms] by (auto simp: registered_def)
  then show ?thesis
    by (auto simp: exact_route_def isWildcard_same split: option.splits)
qed

definition normal_request :: "string \<Rightarrow> string \<Rightarrow> bool" where
  "normal_request m p \<longleftrightarrow> NormalizeHTTPMethod m \<noteq> [] \<and> NormalizeHTTPPath p \<noteq> []"

lemma find_wildcard:
  assumes "snapshot_ok c"
  shows "find (\<lambda>route. matchRouteEntry route m p) (WildcardRoutes c) =
    find (\<lambda>route. serves route m p) (WildcardRoutes c)"
proof (rule find_cong [OF refl])
  fix r assume "r \<in> set (WildcardRoutes c)"
  then have "registered c r" using snapshot_okD(6) [OF assms] by (simp add: registered_def)
  then show "matchRouteEntry r m p = serves r m p"
    using registered_normal(1) [OF assms] matchRouteEntry_serves by simp
qed

text \<open>The three stages of the lookup, on a consistent snapshot.\<close>

definition pick_route :: "snapshot \<Rightarrow> string \<Rightarrow> string \<Rightarrow> route_entry option" where
  "pick_route c m p =
     (case exact_route c \<lparr>KeyMethod = m, KeyPath = p\<rparr> of
        Some r \<Rightarrow> Some r
      | None \<Rightarrow> (case exact_route c \<lparr>KeyMethod = ''ALL'', KeyPath = p\<rparr> of
          Some r \<Rightarrow> Some r
        | None \<Rightarrow> find (\<lambda>r. serves r m p) (WildcardRoutes c)))"

lemma RouteFor_eq:
  assumes "snapshot_ok c"
  shows "RouteFor (Some Router) (Some c) m p =
    (if normal_request m p
     then map_option routeInfoFromEntry (pick_route c (NormalizeHTTPMethod m) (NormalizeHTTPPath p))
     else None)"
  by (simp add: RouteFor_def normal_request_def pick_route_def find_wildcard [OF assms] Let_def
      split: option.splits)

lemma pick_route_sound:
  assumes "snapshot_ok c" "pick_route c m p = Some r"
  shows "registered c r \<and> serves r m p"
  using assms snapshot_okD(6) [OF assms(1), of r]
  by (auto simp: pick_route_def serves_def exact_route_Some route_key_of_def registered_def
      find_Some_iff split: option.splits dest: nth_mem)

lemma pick_route_None:
  assumes "snapshot_ok c"
  shows "pick_route c m p = None \<longleftrightarrow> (\<forall>r. registered c r \<longrightarrow> \<not> serves r m p)"
proof
  assume none: "pick_route c m p = None"
  then have e: "exact_route c \<lparr>KeyMethod = m, KeyPath = p\<rparr> = None"
    "exact_route c \<lparr>KeyMethod = ''ALL'', KeyPath = p\<rparr> = None"
    "find (\<lambda>r. serves r m p) (WildcardRoutes c) = None"
    by (auto simp: pick_route_def split: option.splits)
  show "\<forall>r. registered c r \<longrightarrow> \<not> serves r m p"
  proof (intro allI impI notI)
    fix r assume r: "registered c r" "serves r m p"
    show False
    proof (cases "isWildcardPath (RoutePath r)")
      case True
      then have "r \<in> set (WildcardRoutes c)"
        using r(1) snapshot_okD(6) [OF assms] by (simp add: registered_def)
      then show False using e(3) r(2) by (simp add: find_None_iff)
    next
      case False
      then have "exact_route c (route_key_of r) = Some r"
        using r(1) exact_route_Some [OF assms] by simp
      moreover have "route_key_of r = \<lparr>KeyMethod = m, KeyPath = p\<rparr> \<or>
          route_key_of r = \<lparr>KeyMethod = ''ALL'', KeyPath = p\<rparr>"
        using r(2) False by (auto simp: serves_def route_key_of_def)
      ultimately show False using e by auto
    qed
  qed
next
  assume "\<forall>r. registered c r \<longrightarrow> \<not> serves r m p"
  then show "pick_route c m p = None"
    using pick_route_sound [OF assms] by (cases "pick_route c m p") auto
qed

lemma pick_route_exact:
  assumes "snapshot_ok c" "registered c r" "\<not> isWildcardPath (RoutePath r)"
  shows "pick_route c (RouteMethod r) (RoutePath r) = Some r"
proof -
  have "exact_route c \<lparr>KeyMethod = RouteMethod r, KeyPath = RoutePath r\<rparr> = Some r"
    using assms exact_route_Some [OF assms(1)] by (simp add: route_key_of_def)
  then show ?thesis by (simp add: pick_route_def)
qed

text \<open>The first matching wildcard in registration order answers when no exact entry does.\<close>

lemma pick_route_wildcard:
  assumes "snapshot_ok c" "pick_route c m p = Some r" "isWildcardPath (RoutePath r)"
  shows "find (\<lambda>r. serves r m p) (WildcardRoutes c) = Some r \<and>
    (\<forall>q. registered c q \<longrightarrow> \<not> isWildcardPath (RoutePath q) \<longrightarrow> \<not> serves q m p)"
proof -
  have none: "exact_route c \<lparr>KeyMethod = m, KeyPath = p\<rparr> = None"
    "exact_route c \<lparr>KeyMethod = ''ALL'', KeyPath = p\<rparr> = None"
    "find (\<lambda>r. serves r m p) (WildcardRoutes c) = Some r"
    using assms(2,3) exact_route_Some [OF assms(1)]
    by (auto simp: pick_route_def split: option.splits)
  have "False" if q: "registered c q" "\<not> isWildcardPath (RoutePath q)" "serves q m p" for q
  proof -
    have "exact_route c (route_key_of q) = Some q" using q exact_route_Some [OF assms(1)] by simp
    moreover have "route_key_of q = \<lparr>KeyMethod = m, KeyPath = p\<rparr> \<or>
        route_key_of q = \<lparr>KeyMethod = ''ALL'', KeyPath = p\<rparr>"
      using q by (auto simp: serves_def route_key_of_def)
    ultimately show False using none by auto
  qed
  then show ?thesis using none(3) by blast
qed

section \<open>Lemmas on the validator\<close>

definition routes_resolve :: "snapshot \<Rightarrow> bool" where
  "routes_resolve c \<longleftrightarrow>
     list_all (\<lambda>(n, svc). NormalizeServiceName n \<noteq> [] \<and> SvcName svc \<noteq> [] \<and> SvcEndpoints svc \<noteq> [])
       (Services c) \<and>
     list_all (\<lambda>(k, r). RouteMethod r \<noteq> [] \<and> RoutePath r \<noteq> [] \<and>
       map_of (Services c) (RouteService r) \<noteq> None) (Routes c) \<and>
     list_all (\<lambda>r. isWildcardPath (RoutePath r) \<and> map_of (Services c) (RouteService r) \<noteq> None)
       (WildcardRoutes c)"

lemma Route_Validate_None_iff:
  "Route_Validate (Some v) c = None \<longleftrightarrow>
     (\<forall>x \<in> set (Services c). check_service x = None) \<and>
     (\<forall>x \<in> set (Routes c). check_route c x = None) \<and>
     (\<forall>x \<in> set (WildcardRoutes c). check_wildcard c x = None)"
  by (simp add: Route_Validate_def split: option.splits flip: first_error_None_iff)

lemma checks_None_iff:
  "check_service (n, svc) = None \<longleftrightarrow>
     NormalizeServiceName n \<noteq> [] \<and> SvcName svc \<noteq> [] \<and> SvcEndpoints svc \<noteq> []"
  "check_route c (k, r) = None \<longleftrightarrow> KeyMethod k \<noteq> [] \<and> KeyPath k \<noteq> [] \<and>
     RouteMethod r \<noteq> [] \<and> RoutePath r \<noteq> [] \<and> map_of (Services c) (RouteService r) \<noteq> None"
  "check_wildcard c r = None \<longleftrightarrow>
     isWildcardPath (RoutePath r) \<and> map_of (Services c) (RouteService r) \<noteq> None"
  by (auto simp: check_service_def check_route_def check_wildcard_def isWildcard_same)

lemma Route_Validate_sound: "Route_Validate (Some v) c = None \<Longrightarrow> routes_resolve c"
  unfolding Route_Validate_None_iff routes_resolve_def list_all_iff
  by (fastforce simp: checks_None_iff)

interpretation route_validator: snapshot_validator "Route_Validate (Some Validator)" routes_resolve
  by unfold_locales (rule Route_Validate_sound)

text \<open>The candidates of the builder are never refused by this validator.\<close>

lemma Route_Validate_builder:
  assumes "snapshot_ok c"
  shows "Route_Validate (Some v) c = None"
  unfolding Route_Validate_None_iff
proof (intro conjI ballI)
  note ok = snapshot_okD [OF assms]
  show "check_service x = None" if "x \<in> set (Services c)" for x
  proof -
    obtain n svc where x: "x = (n, svc)" by fastforce
    then have "service_ok n svc" using ok(3) that ok(1) by simp
    then show ?thesis by (simp add: x checks_None_iff service_ok_def normalizeServiceName_def)
  qed
  show "check_route c x = None" if x: "x \<in> set (Routes c)" for x
  proof -
    obtain k r where kr: "x = (k, r)" by (cases x)
    have "map_of (Routes c) k = Some r" using x ok(2) kr by simp
    then have "k = route_key_of r" "registered c r"
      using snapshot_route_iff [OF assms] by (auto simp: registered_def)
    then show ?thesis
      using registered_normal(2,3) [OF assms] registered_normal(5) [OF assms, of r] kr
      by (auto simp: checks_None_iff route_key_of_def)
  qed
  show "check_wildcard c r = None" if "r \<in> set (WildcardRoutes c)" for r
    using that ok(6) [of r] registered_normal(5) [OF assms, of r]
    by (auto simp: checks_None_iff registered_def)
qed

section \<open>Lemmas on the load balancer\<close>

definition pick_index :: "instance_settings list \<Rightarrow> 64 word \<Rightarrow> nat \<Rightarrow> instance_settings" where
  "pick_index is index k = is ! unat ((index + of_nat k) mod of_nat (length is))"

lemma scan_instances_find:
  "scan_instances lb is index left (of_nat off) =
     find (routableInstance lb) (map (pick_index is index) [off ..< off + left])"
proof (induction left arbitrary: off)
  case (Suc left)
  have "[off ..< off + Suc left] = off # [Suc off ..< Suc off + left]" by (simp add: upt_rec)
  then show ?case using Suc [of "Suc off"] by (simp add: pick_index_def Let_def add.commute)
qed simp

text \<open>Without a wrap of the cursor inside the scan, the scan visits every instance once.\<close>

lemma pick_index_no_wrap:
  assumes "is \<noteq> []" "length is < 2 ^ 64" "unat index + k < 2 ^ 64"
  shows "pick_index is index k = is ! ((unat index + k) mod length is)"
proof -
  have "unat (index + of_nat k) = unat index + k"
    using assms(3) by (simp add: unat_word_ariths unat_of_nat)
  moreover have "unat (of_nat (length is) :: 64 word) = length is"
    using assms(2) by (simp add: unat_of_nat)
  ultimately show ?thesis by (simp add: pick_index_def unat_mod)
qed

lemma rotate_nth_mod:
  assumes "is \<noteq> []"
  shows "map (\<lambda>k. is ! ((i + k) mod length is)) [0 ..< length is] = rotate i is"
  using assms by (intro nth_equalityI) (simp_all add: nth_rotate)

lemma scan_instances_rotate:
  assumes "is \<noteq> []" "unat index + length is < 2 ^ 64"
  shows "scan_instances lb is index (length is) 0 = find (routableInstance lb) (rotate (unat index) is)"
proof -
  have "map (pick_index is index) [0 ..< length is] = rotate (unat index) is"
    unfolding rotate_nth_mod [OF assms(1), symmetric]
    using assms by (intro map_cong refl pick_index_no_wrap) auto
  then show ?thesis using scan_instances_find [of lb "is" index "length is" 0] by simp
qed

text \<open>Whatever the cursor, the scan returns an instance of the list that is routable.\<close>

lemma scan_instances_sound:
  assumes "is \<noteq> []" "length is < 2 ^ 64" "scan_instances lb is index left off = Some i"
  shows "i \<in> set is \<and> routableInstance lb i"
  using assms
proof (induction lb "is" index left off rule: scan_instances.induct)
  case (2 lb "is" index left off)
  have "unat ((index + off) mod of_nat (length is)) < length is"
    using "2.prems"(1,2) by (simp add: unat_mod unat_of_nat)
  then show ?case
    using "2" by (auto simp: Let_def split: if_splits)
qed simp

lemma NextInstance_cases:
  obtains (failed) e where "NextInstance (Some lb) (Some c) n = (Inl e, Some lb)"
      "map_of (Services c) (NormalizeServiceName n) = None \<or> NormalizeServiceName n = [] \<or>
       (\<exists>svc. map_of (Services c) (NormalizeServiceName n) = Some svc \<and> SvcInstances svc = [])"
  | (scanned) svc lb' where
      "map_of (Services c) (NormalizeServiceName n) = Some svc" "NormalizeServiceName n \<noteq> []"
      "SvcInstances svc \<noteq> []"
      "lb' = lb\<lparr>Cursors := AList.update (NormalizeServiceName n)
         (cursor_for lb (NormalizeServiceName n) + 1) (Cursors lb)\<rparr>"
      "NextInstance (Some lb) (Some c) n =
        (case scan_instances lb' (SvcInstances svc) (cursor_for lb (NormalizeServiceName n))
               (length (SvcInstances svc)) 0 of
           Some inst \<Rightarrow> Inr inst
         | None \<Rightarrow> Inl (errorf [Route_ErrNoHealthyInstance] ''service''), Some lb')"
proof (cases "NormalizeServiceName n = [] \<or>
    (case map_of (Services c) (NormalizeServiceName n) of None \<Rightarrow> True | Some svc \<Rightarrow> SvcInstances svc = [])")
  case True
  then show ?thesis
    by (intro failed [of "projl (fst (NextInstance (Some lb) (Some c) n))"])
      (auto simp: NextInstance_def Let_def split: option.splits)
next
  case False
  then obtain svc where "map_of (Services c) (NormalizeServiceName n) = Some svc"
    "SvcInstances svc \<noteq> []" "NormalizeServiceName n \<noteq> []"
    by (auto split: option.splits)
  then show ?thesis
    by (intro scanned [OF _ _ _ refl]) (auto simp: NextInstance_def Let_def split: option.splits)
qed

lemma routableInstance_cursors [simp]:
  "routableInstance (lb\<lparr>Cursors := m\<rparr>) = routableInstance lb"
  by (simp add: fun_eq_iff routableInstance_def)

lemma cursor_for_put [simp]:
  "cursor_for (lb\<lparr>Cursors := AList.update n v (Cursors lb)\<rparr>) k = (if k = n then v else cursor_for lb k)"
  by (simp add: cursor_for_def)


text \<open>Consecutive calls for one service, as one caller after the other makes them.\<close>

fun next_instances ::
  "nat \<Rightarrow> load_balancer option \<Rightarrow> snapshot option \<Rightarrow> string \<Rightarrow>
   instance_settings result list \<times> load_balancer option" where
  "next_instances 0 lb current n = ([], lb)"
| "next_instances (Suc k) lb current n =
     (let (r, lb') = NextInstance lb current n;
          (rs, lb'') = next_instances k lb' current n
      in (r # rs, lb''))"

lemma NextInstance_all_routable:
  assumes svc: "map_of (Services c) (NormalizeServiceName n) = Some svc" "NormalizeServiceName n \<noteq> []"
    and insts: "SvcInstances svc = is" "is \<noteq> []" "list_all (routableInstance lb) is"
    and cur: "unat (cursor_for lb (NormalizeServiceName n)) + length is < 2 ^ 64"
  shows "\<exists>lb'. NextInstance (Some lb) (Some c) n =
      (Inr (is ! (unat (cursor_for lb (NormalizeServiceName n)) mod length is)), Some lb') \<and>
    cursor_for lb' (NormalizeServiceName n) = cursor_for lb (NormalizeServiceName n) + 1 \<and>
    LBHealth lb' = LBHealth lb"
proof -
  let ?i = "unat (cursor_for lb (NormalizeServiceName n))"
  have "rotate ?i is ! 0 = is ! (?i mod length is)" "rotate ?i is \<noteq> []"
    using insts(2) by (simp_all add: nth_rotate)
  moreover have "routableInstance lb (rotate ?i is ! 0)"
    using insts calculation(1) by (simp add: list_all_length)
  ultimately have "find (routableInstance lb) (rotate ?i is) = Some (is ! (?i mod length is))"
    by (cases "rotate ?i is") auto
  then show ?thesis
    using svc insts scan_instances_rotate [OF insts(2) cur]
    by (cases rule: NextInstance_cases [of lb c n]) auto
qed

lemma next_instances_rotation:
  assumes svc: "map_of (Services c) (NormalizeServiceName n) = Some svc" "NormalizeServiceName n \<noteq> []"
    and insts: "SvcInstances svc = is" "is \<noteq> []" "list_all (routableInstance lb) is"
    and cur: "unat (cursor_for lb (NormalizeServiceName n)) + k + length is < 2 ^ 64"
  shows "fst (next_instances k (Some lb) (Some c) n) =
    map (\<lambda>j. Inr (is ! ((unat (cursor_for lb (NormalizeServiceName n)) + j) mod length is))) [0 ..< k]"
  using insts(3) cur
proof (induction k arbitrary: lb)
  case (Suc k)
  obtain lb' where lb': "NextInstance (Some lb) (Some c) n =
      (Inr (is ! (unat (cursor_for lb (NormalizeServiceName n)) mod length is)), Some lb')"
    and cu: "cursor_for lb' (NormalizeServiceName n) = cursor_for lb (NormalizeServiceName n) + 1"
    and h: "LBHealth lb' = LBHealth lb"
    using NextInstance_all_routable [OF svc insts(1,2)] Suc.prems by fastforce
  have u: "unat (cursor_for lb' (NormalizeServiceName n)) =
      Suc (unat (cursor_for lb (NormalizeServiceName n)))"
    unfolding cu using Suc.prems(2) by (simp add: unat_word_ariths)
  have "routableInstance lb' = routableInstance lb" using h by (simp add: fun_eq_iff routableInstance_def)
  then have "fst (next_instances k (Some lb') (Some c) n) =
    map (\<lambda>j. Inr (is ! ((Suc (unat (cursor_for lb (NormalizeServiceName n))) + j) mod length is))) [0 ..< k]"
    using Suc.IH [of lb'] Suc.prems u by simp
  then show ?case
    using lb' by (simp add: case_prod_beta map_upt_Suc del: upt_Suc)
qed simp

section \<open>Properties of the router\<close>

text \<open>
  C6: On a consistent snapshot the router finds a route exactly when a registered endpoint serves the
  request, and what it returns is the service, path, method and roles of such an endpoint. Serving
  means: the entry has the request's method or \<open>ALL\<close>, and its path is the request's path, or it is a
  wildcard whose prefix the path has. Method and path are compared in normal form.
\<close>

theorem RouteFor_refines:
  assumes "snapshot_ok c"
  shows "case RouteFor (Some Router) (Some c) m p of
      None \<Rightarrow> normal_request m p \<longrightarrow>
        (\<forall>r. registered c r \<longrightarrow> \<not> serves r (NormalizeHTTPMethod m) (NormalizeHTTPPath p))
    | Some info \<Rightarrow> normal_request m p \<and>
        (\<exists>r. registered c r \<and> serves r (NormalizeHTTPMethod m) (NormalizeHTTPPath p) \<and>
           InfoService info = RouteService r \<and> InfoPath info = RoutePath r \<and>
           InfoHttpMethod info = RouteMethod r \<and> InfoRoles info = RouteRoles r)"
proof (cases "normal_request m p")
  case True
  let ?m = "NormalizeHTTPMethod m" and ?p = "NormalizeHTTPPath p"
  show ?thesis
  proof (cases "pick_route c ?m ?p")
    case None
    then have "\<forall>r. registered c r \<longrightarrow> \<not> serves r ?m ?p" using pick_route_None [OF assms] by blast
    then show ?thesis by (simp add: RouteFor_eq [OF assms] None True)
  next
    case (Some r)
    then show ?thesis using pick_route_sound [OF assms Some] True
      by (auto simp: RouteFor_eq [OF assms] routeInfoFromEntry_def)
  qed
qed (simp add: RouteFor_eq [OF assms])

theorem RouteFor_refines_witness:
  "\<exists>r. registered sample_snapshot r \<and> serves r (NormalizeHTTPMethod ''get'') (NormalizeHTTPPath '' /users'')"
proof -
  have "RouteFor (Some Router) (Some sample_snapshot) ''get'' '' /users'' \<noteq> None"
    by code_simp
  then show ?thesis
    using RouteFor_refines [OF sample_ok, of "''get''" "'' /users''"] by (auto split: option.splits)
qed

text \<open>
  Remark: A registered path without wildcard is always routed to its own service with its own roles, for
  every spelling of the method and however many wildcard or \<open>ALL\<close> routes also match.
\<close>

theorem RouteFor_exact:
  assumes "snapshot_ok c" "map_of (Services c) name = Some svc" "e \<in> set (SvcEndpoints svc)"
    and "\<not> isWildcardPath (EndpointPath e)"
    and "NormalizeHTTPMethod m = EndpointMethod e" "NormalizeHTTPPath p = EndpointPath e"
  shows "RouteFor (Some Router) (Some c) m p =
    Some \<lparr>InfoService = name, InfoPath = EndpointPath e, InfoHttpMethod = EndpointMethod e,
          InfoRoles = EndpointRoles e, InfoInstance = zero_instance\<rparr>"
proof -
  let ?r = "endpoint_route name e"
  have svc: "service_ok name svc" by (rule snapshot_okD(3) [OF assms(1,2)])
  then have r: "?r \<in> set (service_routes svc)" using assms(3) by (simp add: service_ok_def service_routes_def)
  have "RouteService ?r = name" by (simp add: endpoint_route_def)
  then have reg: "registered c ?r"
    using snapshot_route_iff [OF assms(1)] r assms(2) by (auto simp: registered_def)
  have f: "RouteMethod ?r = EndpointMethod e" "RoutePath ?r = EndpointPath e" "RouteRoles ?r = EndpointRoles e"
    by (simp_all add: endpoint_route_def)
  have "pick_route c (NormalizeHTTPMethod m) (NormalizeHTTPPath p) = Some ?r"
    using pick_route_exact [OF assms(1) reg] assms(4-6) f by simp
  moreover have "normal_request m p"
    using registered_normal(2,3) [OF assms(1) reg] assms(5,6) f by (simp add: normal_request_def)
  ultimately show ?thesis
    by (simp add: RouteFor_eq [OF assms(1)] routeInfoFromEntry_def endpoint_route_def)
qed

theorem RouteFor_exact_witness:
  "RouteFor (Some Router) (Some sample_snapshot) '' gEt '' '' /users'' =
    Some \<lparr>InfoService = ''users'', InfoPath = ''/users'', InfoHttpMethod = ''GET'',
          InfoRoles = [''USER''], InfoInstance = zero_instance\<rparr>"
proof -
  let ?svc = "the (map_of (Services sample_snapshot) ''users'')"
  have s: "map_of (Services sample_snapshot) ''users'' = Some ?svc"
    by (simp add: sample_snapshot_def)
  have e: "hd (SvcEndpoints ?svc) \<in> set (SvcEndpoints ?svc)"
    "EndpointPath (hd (SvcEndpoints ?svc)) = ''/users''" "EndpointMethod (hd (SvcEndpoints ?svc)) = ''GET''"
    "EndpointRoles (hd (SvcEndpoints ?svc)) = [''USER'']"
    by (simp_all add: sample_snapshot_def)
  have n: "\<not> isWildcardPath ''/users''" "NormalizeHTTPMethod '' gEt '' = ''GET''"
    "NormalizeHTTPPath '' /users'' = ''/users''"
    by code_simp+
  show ?thesis
    using RouteFor_exact [OF sample_ok s e(1), of "'' gEt ''" "'' /users''"] e n by simp
qed

text \<open>
  Remark: When a wildcard answers, no exact or \<open>ALL\<close> route without wildcard serves the request, and the
  answer is the first serving wildcard in the order of the wildcard list, not the most specific one.
\<close>

theorem RouteFor_wildcard:
  assumes "snapshot_ok c" "RouteFor (Some Router) (Some c) m p = Some info" "isWildcardPath (InfoPath info)"
  shows "\<exists>r. find (\<lambda>r. serves r (NormalizeHTTPMethod m) (NormalizeHTTPPath p)) (WildcardRoutes c) = Some r \<and>
    InfoService info = RouteService r \<and> InfoRoles info = RouteRoles r \<and>
    (\<forall>q. registered c q \<longrightarrow> \<not> isWildcardPath (RoutePath q) \<longrightarrow>
       \<not> serves q (NormalizeHTTPMethod m) (NormalizeHTTPPath p))"
proof -
  obtain r where r: "pick_route c (NormalizeHTTPMethod m) (NormalizeHTTPPath p) = Some r"
    "info = routeInfoFromEntry r"
    using assms(2) by (auto simp: RouteFor_eq [OF assms(1)] split: if_splits)
  then have "isWildcardPath (RoutePath r)" using assms(3) by (simp add: routeInfoFromEntry_def)
  from pick_route_wildcard [OF assms(1) r(1) this] show ?thesis
    using r(2) by (auto simp: routeInfoFromEntry_def)
qed

lemma register_all_ok: "snapshot_ok (the (Active (register_all ss)))"
  using reachable_ok [OF register_all_reachable [of ss]]
  by (simp add: manager_ok_def split: option.splits)

definition wild_snapshot :: snapshot where
  "wild_snapshot = the (Active (register_all
     [sample_settings ''a'' ''10.0.0.1'' ''/api/**'', sample_settings ''b'' ''10.0.0.2'' ''/api/v1/**'']))"

lemma wild_ok: "snapshot_ok wild_snapshot"
  unfolding wild_snapshot_def by (rule register_all_ok)

lemma wild_request: "RouteFor (Some Router) (Some wild_snapshot) ''GET'' ''/api/v1/x'' =
    Some \<lparr>InfoService = ''a'', InfoPath = ''/api/**'', InfoHttpMethod = ''GET'',
      InfoRoles = [''USER''], InfoInstance = zero_instance\<rparr>"
  by code_simp

theorem RouteFor_wildcard_witness:
  "\<exists>r. find (\<lambda>r. serves r (NormalizeHTTPMethod ''GET'') (NormalizeHTTPPath ''/api/v1/x''))
      (WildcardRoutes wild_snapshot) = Some r \<and> RouteService r = ''a''"
proof -
  have "isWildcardPath ''/api/**''" by code_simp
  then show ?thesis using RouteFor_wildcard [OF wild_ok wild_request] by auto
qed

text \<open>
  Remark: The answer of overlapping wildcards depends on who registered last: the route of a wildcard
  request moves from one service to the other when the first service registers again with unchanged
  settings, because its wildcards are removed and appended behind the others.
\<close>

theorem reregistration_moves_wildcards:
  "map_option InfoService (RouteFor (Some Router) (Active (register_all
     [sample_settings ''a'' ''10.0.0.1'' ''/api/**'', sample_settings ''b'' ''10.0.0.2'' ''/api/v1/**'']))
     ''GET'' ''/api/v1/x'') = Some ''a'' \<and>
   map_option InfoService (RouteFor (Some Router) (Active (register_all
     [sample_settings ''a'' ''10.0.0.1'' ''/api/**'', sample_settings ''b'' ''10.0.0.2'' ''/api/v1/**'',
      sample_settings ''a'' ''10.0.0.1'' ''/api/**'']))
     ''GET'' ''/api/v1/x'') = Some ''b''"
  by code_simp

section \<open>Properties of the validator\<close>

text \<open>
  Remark: The route validator never refuses a candidate that the snapshot builder makes, and it makes the
  manager keep its own requirement: in every manager that has it among its validators and whose
  active routes resolve, they still resolve after any registration or deregistration.
\<close>

theorem Route_Validate_complete_and_kept:
  "(snapshot_ok c \<longrightarrow> Route_Validate (Some Validator) c = None) \<and>
   (guarded (Route_Validate (Some Validator)) routes_resolve m \<longrightarrow>
      guarded (Route_Validate (Some Validator)) routes_resolve (snd (Register_commit s m)) \<and>
      guarded (Route_Validate (Some Validator)) routes_resolve (snd (DeregisterInstance_commit n i m)))"
  by (blast intro: Route_Validate_builder route_validator.Register_commit_guarded
      route_validator.Deregister_commit_guarded)

theorem Route_Validate_complete_and_kept_witness:
  "Route_Validate (Some Validator) sample_snapshot = None \<and>
   guarded (Route_Validate (Some Validator)) routes_resolve
     (snd (Register_commit sample_orders (AddValidator (Some (Route_Validate (Some Validator))) sample_base)))"
proof -
  have "guarded (Route_Validate (Some Validator)) routes_resolve
      (AddValidator (Some (Route_Validate (Some Validator))) sample_base)"
    by (simp add: guarded_def AddValidator_def) code_simp
  then show ?thesis using Route_Validate_complete_and_kept sample_ok by blast
qed

section \<open>Properties of the load balancer\<close>

text \<open>What the load balancer needs to know about a health provider.\<close>

locale health_status =
  fixes is_routable :: "string \<Rightarrow> bool" and known_bad :: "string \<Rightarrow> bool"
  assumes unroutable: "\<not> is_routable k \<Longrightarrow> known_bad k"
begin

lemma NextInstance_refused:
  assumes "LBHealth lb = Some is_routable" "map_of (Services c) (NormalizeServiceName n) = Some svc"
    and "NextInstance (Some lb) (Some c) n = (Inl e, lb')" "NormalizeServiceName n \<noteq> []"
    and "unat (cursor_for lb (NormalizeServiceName n)) + length (SvcInstances svc) < 2 ^ 64"
  shows "\<forall>i \<in> set (SvcInstances svc). known_bad (HealthKey i)"
proof (cases rule: NextInstance_cases [of lb c n])
  case (failed e)
  then show ?thesis using assms(2,4) by auto
next
  case (scanned svc' lb'')
  have svc: "svc' = svc" using scanned(1) assms(2) by simp
  have "find (routableInstance lb) (rotate (unat (cursor_for lb (NormalizeServiceName n))) (SvcInstances svc)) = None"
    using scanned(3,4,5) assms(3,5) unfolding svc
    by (simp add: scan_instances_rotate split: option.splits)
  then have "\<forall>i \<in> set (SvcInstances svc). \<not> routableInstance lb i"
    by (simp add: find_None_iff)
  then show ?thesis using assms(1) unroutable by (simp add: routableInstance_def)
qed

end

text \<open>
  Remark: Whatever the cursor, the instance the load balancer returns is registered for that service in
  the given snapshot and is routable at that moment; the call only advances the cursor of that
  service, by one, and a failed lookup of the service advances nothing.
\<close>

theorem NextInstance_sound:
  assumes "\<forall>svc. map_of (Services c) (NormalizeServiceName n) = Some svc \<longrightarrow> length (SvcInstances svc) < 2 ^ 64"
  shows "case NextInstance (Some lb) (Some c) n of
      (Inr i, lb') \<Rightarrow> \<exists>svc l'. map_of (Services c) (NormalizeServiceName n) = Some svc \<and>
        i \<in> set (SvcInstances svc) \<and> routableInstance lb i \<and> lb' = Some l' \<and>
        (\<forall>k. cursor_for l' k = cursor_for lb k + (if k = NormalizeServiceName n then 1 else 0))
    | (Inl e, lb') \<Rightarrow> lb' = Some lb \<or> errors_is e Route_ErrNoHealthyInstance"
proof (cases rule: NextInstance_cases [of lb c n])
  case (scanned svc lb')
  show ?thesis
  proof (cases "scan_instances lb' (SvcInstances svc) (cursor_for lb (NormalizeServiceName n))
      (length (SvcInstances svc)) 0")
    case (Some i)
    then show ?thesis
      using scanned scan_instances_sound [OF scanned(3) _ Some] assms by simp
  qed (use scanned in simp)
qed simp

theorem NextInstance_sound_witness:
  "fst (NextInstance (Some (NewLoadBalancer None)) (Some sample_snapshot) ''Users'') \<in>
     Inr ` set (SvcInstances (the (map_of (Services sample_snapshot) ''users'')))"
proof -
  have l: "\<forall>svc. map_of (Services sample_snapshot) (NormalizeServiceName ''Users'') = Some svc \<longrightarrow>
      length (SvcInstances svc) < 2 ^ 64"
  proof -
    have "NormalizeServiceName ''Users'' = ''users''" by code_simp
    then show ?thesis by (simp add: sample_snapshot_def)
  qed
  have "\<not> isl (fst (NextInstance (Some (NewLoadBalancer None)) (Some sample_snapshot) ''Users''))"
    "NormalizeServiceName ''Users'' = ''users''"
    by code_simp+
  then show ?thesis using NextInstance_sound [OF l, of "NewLoadBalancer None"]
    by (cases "NextInstance (Some (NewLoadBalancer None)) (Some sample_snapshot) ''Users''")
      (auto split: sum.splits)
qed

text \<open>
  C26: Round robin: while all instances are routable, any number of consecutive calls for a service
  walks through its instance list in order from the cursor, wrapping around the list, so that any
  \<open>length\<close> many consecutive calls use every instance once. The bound keeps the 64-bit cursor from
  wrapping during the calls.
\<close>

theorem NextInstance_round_robin:
  assumes svc: "map_of (Services c) (NormalizeServiceName n) = Some svc" "NormalizeServiceName n \<noteq> []"
    and insts: "SvcInstances svc \<noteq> []" "list_all (routableInstance lb) (SvcInstances svc)"
    and cur: "unat (cursor_for lb (NormalizeServiceName n)) + k + length (SvcInstances svc) < 2 ^ 64"
  shows "fst (next_instances k (Some lb) (Some c) n) =
      map (\<lambda>j. Inr (SvcInstances svc ! ((unat (cursor_for lb (NormalizeServiceName n)) + j) mod
        length (SvcInstances svc)))) [0 ..< k] \<and>
    (k = length (SvcInstances svc) \<longrightarrow>
      fst (next_instances k (Some lb) (Some c) n) =
        map Inr (rotate (unat (cursor_for lb (NormalizeServiceName n))) (SvcInstances svc)))"
  unfolding next_instances_rotation [OF svc refl insts cur] rotate_nth_mod [OF insts(1), symmetric]
  by (simp add: comp_def)

theorem NextInstance_round_robin_witness:
  "map (map_sum id Host) (fst (next_instances 3 (Some (NewLoadBalancer None)) (Some sample_snapshot) ''users'')) =
     [Inr ''10.0.0.1'', Inr ''10.0.0.2'', Inr ''10.0.0.1'']"
proof -
  let ?svc = "the (map_of (Services sample_snapshot) ''users'')"
  have n: "NormalizeServiceName ''users'' = ''users''" by code_simp
  have s: "map_of (Services sample_snapshot) (NormalizeServiceName ''users'') = Some ?svc"
    "NormalizeServiceName ''users'' \<noteq> []" "SvcInstances ?svc \<noteq> []"
    "list_all (routableInstance (NewLoadBalancer None)) (SvcInstances ?svc)"
    "unat (cursor_for (NewLoadBalancer None) (NormalizeServiceName ''users'')) + 3 + length (SvcInstances ?svc) < 2 ^ 64"
    unfolding n
    by (simp_all add: sample_snapshot_def routableInstance_def NewLoadBalancer_def cursor_for_def)
  have c: "cursor_for (NewLoadBalancer None) (NormalizeServiceName ''users'') = 0"
    by (simp add: cursor_for_def NewLoadBalancer_def)
  show ?thesis
    using NextInstance_round_robin [OF s] unfolding c
    by (simp add: sample_snapshot_def upt_rec)
qed

text \<open>
  Remark: When the cursor wraps inside the scan, the scan can miss an instance: with three instances of
  which only the last is routable and the cursor at its largest value, the offsets hit the first
  instance twice and the call reports that there is no healthy instance.
\<close>

theorem cursor_wrap_misses_instance:
  "let is = map (\<lambda>h. \<lparr>Scheme = ''http'', Host = h, Port = ''80'', HealthKey = h\<rparr>) [''a'', ''b'', ''c''];
       svc = \<lparr>SvcName = ''s'', SvcGlobal = None, SvcHealth = None, SvcThreshold = None,
              SvcEndpoints = [], SvcInstances = is\<rparr>;
       c = \<lparr>Revision = 1, Services = [(''s'', svc)], Routes = [], WildcardRoutes = []\<rparr>;
       lb = \<lparr>Cursors = [(''s'', - 1)], LBHealth = Some (\<lambda>k. k = ''c'')\<rparr>
   in routableInstance lb (is ! 2) \<and>
      (case NextInstance (Some lb) (Some c) ''s'' of
         (Inl e, _) \<Rightarrow> errors_is e Route_ErrNoHealthyInstance
       | _ \<Rightarrow> False)"
  by code_simp

end
