(* ===== verification/Health.thy ===== *)
theory Health
  imports Route
begin

text \<open>
  Package \<open>internal/health\<close>: the status store read by the load balancer (\<open>store.go\<close>), the parsed
  settings, jitter and back-off (\<open>config.go\<close>), the manager that follows the committed snapshots
  (\<open>manager.go\<close>) and the check loop of one instance (\<open>checker.go\<close>).

  A goroutine running \<open>run\<close> is a record of its local counters; the system of a manager and its loops
  is a step relation in which loops tick in any order, also after they were cancelled, because a
  check may be in flight when the cancellation arrives.
\<close>

section \<open>Data (\<open>model.go\<close>)\<close>

type_synonym health_status = string

definition StatusUnknown :: health_status where "StatusUnknown = ''unknown''"
definition StatusHealthy :: health_status where "StatusHealthy = ''healthy''"
definition StatusUnhealthy :: health_status where "StatusUnhealthy = ''unhealthy''"

lemmas status_defs = StatusUnknown_def StatusHealthy_def StatusUnhealthy_def

record target_key =
  TServiceName :: string
  TScheme :: string
  THost :: string
  TPort :: string
  THealthKey :: string

record runtime_settings =
  REnabled :: bool
  RPath :: string
  RInterval :: duration
  RTimeout :: duration
  RJitter :: duration
  RMaxBackoff :: duration
  RFailureThreshold :: int
  RSuccessThreshold :: int

record target =
  TargetKey :: target_key
  TargetInstance :: instance_settings
  TargetSettings :: runtime_settings
  TargetJitter :: duration
  TargetGeneration :: "64 word"

record status_record =
  RecStatus :: health_status
  RecCheckedAt :: time
  RecFailures :: int
  RecSuccesses :: int
  RecGeneration :: "64 word"
  RecLastError :: string

record desired_target =
  DesiredKey :: target_key
  DesiredInstance :: instance_settings
  DesiredSettings :: runtime_settings
  DesiredJitter :: duration

section \<open>The store (\<open>store.go\<close>)\<close>

text \<open>
  The published map is never modified: a writer copies it, changes the copy and publishes it under
  the lock. With immutable values the copy is the map itself, and one call of \<open>update\<close> is one step.
  A nil store is \<open>None\<close>.
\<close>

type_synonym health_store = "(string, status_record) gomap"

definition NewStore :: health_store where
  "NewStore = []"

definition zero_status_record :: status_record where
  "zero_status_record = \<lparr>RecStatus = [], RecCheckedAt = zero_time, RecFailures = 0,
     RecSuccesses = 0, RecGeneration = 0, RecLastError = []\<rparr>"

definition recordFor :: "string \<Rightarrow> health_store \<Rightarrow> status_record option" where
  "recordFor healthKey s = gomap_get s healthKey"

definition IsRoutableKey :: "health_store option \<Rightarrow> string \<Rightarrow> bool" where
  "IsRoutableKey sp healthKey = (case sp of None \<Rightarrow> True | Some s \<Rightarrow>
     if healthKey = [] then True
     else (case recordFor healthKey s of None \<Rightarrow> True
       | Some r \<Rightarrow> RecStatus r \<noteq> StatusUnhealthy))"

definition SetUnknown :: "string \<Rightarrow> 64 word \<Rightarrow> health_store \<Rightarrow> health_store" where
  "SetUnknown healthKey generation s =
     (if healthKey = [] then s
      else gomap_put healthKey
        (zero_status_record\<lparr>RecStatus := StatusUnknown, RecGeneration := generation\<rparr>) s)"

definition Delete :: "string \<Rightarrow> health_store \<Rightarrow> health_store" where
  "Delete healthKey s = (if healthKey = [] then s else gomap_del healthKey s)"

definition UpdateStatus ::
  "time \<Rightarrow> string \<Rightarrow> 64 word \<Rightarrow> health_status \<Rightarrow> int \<Rightarrow> int \<Rightarrow> go_error option \<Rightarrow> health_store \<Rightarrow>
     (status_record \<times> bool) \<times> health_store" where
  "UpdateStatus now healthKey generation st failures successes err s =
     (if healthKey = [] then ((zero_status_record, False), s)
      else let lastError = (case err of None \<Rightarrow> [] | Some e \<Rightarrow> err_msg e) in
      (case gomap_get s healthKey of
        None \<Rightarrow> ((zero_status_record, False), s)
      | Some previous \<Rightarrow>
          if RecGeneration previous \<noteq> generation then ((previous, False), s)
          else ((previous, True),
            gomap_put healthKey
              \<lparr>RecStatus = st, RecCheckedAt = now, RecFailures = failures,
               RecSuccesses = successes, RecGeneration = generation,
               RecLastError = lastError\<rparr> s)))"

section \<open>Settings, jitter and back-off (\<open>config.go\<close>)\<close>

definition parseDurationWithDefault :: "string \<Rightarrow> string \<Rightarrow> string \<Rightarrow> duration result" where
  "parseDurationWithDefault value defaultValue fieldName =
     (let trimmedValue = trim_space value;
          trimmedValue = (if trimmedValue = [] then defaultValue else trimmedValue)
      in (case parse_duration trimmedValue of
        None \<Rightarrow> Inl (errorf [Ext] (''parse '' @ fieldName))
      | Some d \<Rightarrow> Inr d))"

definition runtimeSettingsFrom :: "health_settings option \<Rightarrow> runtime_settings result" where
  "runtimeSettingsFrom sp =
     (let defaultSettings = DefaultHealthSettings;
          s = (case sp of None \<Rightarrow> defaultSettings | Some s \<Rightarrow> s);
          enabled = (case Enabled s of None \<Rightarrow> True | Some b \<Rightarrow> b)
      in res_bind (parseDurationWithDefault (Interval s) (Interval defaultSettings) ''health interval'') (\<lambda>interval.
         res_bind (parseDurationWithDefault (Timeout s) (Timeout defaultSettings) ''health timeout'') (\<lambda>timeout.
         res_bind (parseDurationWithDefault (Jitter s) (Jitter defaultSettings) ''health jitter'') (\<lambda>jitter.
         res_bind (parseDurationWithDefault (MaxBackoff s) (MaxBackoff defaultSettings) ''health max backoff'') (\<lambda>maxBackoff.
           let path = trim_space (HealthPath s);
               path = (if path = [] then HealthPath defaultSettings else path)
           in Inr
             \<lparr>REnabled = enabled, RPath = path, RInterval = interval, RTimeout = timeout,
              RJitter = jitter, RMaxBackoff = maxBackoff,
              RFailureThreshold = (if FailureThreshold s \<le> 0
                 then FailureThreshold defaultSettings else FailureThreshold s),
              RSuccessThreshold = (if SuccessThreshold s \<le> 0
                 then SuccessThreshold defaultSettings else SuccessThreshold s)\<rparr>)))))"

fun backoff_loop :: "nat \<Rightarrow> duration \<Rightarrow> duration \<Rightarrow> duration" where
  "backoff_loop 0 maxBackoff interval = interval"
| "backoff_loop (Suc n) maxBackoff interval =
     (if interval \<ge> go_div maxBackoff 2 then maxBackoff
      else backoff_loop n maxBackoff (wrap_i64 (interval * 2)))"

definition nextInterval :: "runtime_settings \<Rightarrow> duration \<Rightarrow> int \<Rightarrow> duration" where
  "nextInterval s jitter consecutiveFailures =
     (let interval = RInterval s;
          interval = (if consecutiveFailures \<ge> RFailureThreshold s
            then backoff_loop (nat (consecutiveFailures - RFailureThreshold s + 1)) (RMaxBackoff s) interval
            else interval);
          interval = (if interval > RMaxBackoff s then RMaxBackoff s else interval)
      in wrap_i64 (interval + jitter))"

text \<open>FNV-1a over the bytes of the key.\<close>

definition fnv1a :: "string \<Rightarrow> 64 word" where
  "fnv1a s = foldl (\<lambda>h c. (xor h (of_char c)) * 1099511628211) 14695981039346656037 s"

definition jitterFor :: "target_key \<Rightarrow> duration \<Rightarrow> duration" where
  "jitterFor key maxJitter =
     (if maxJitter \<le> 0 then 0
      else uint (fnv1a (THealthKey key) mod (word_of_int maxJitter :: 64 word)))"

definition targetKeyFor :: "string \<Rightarrow> instance_settings \<Rightarrow> target_key" where
  "targetKeyFor serviceName inst =
     (let normalizedServiceName = NormalizeServiceName serviceName;
          scheme = to_lower (trim_space (Scheme inst));
          host = trim_space (Host inst);
          port = trim_space (Port inst);
          healthKey = trim_space (HealthKey inst);
          healthKey = (if healthKey = [] \<and> normalizedServiceName \<noteq> [] \<and> scheme \<noteq> [] \<and>
                          host \<noteq> [] \<and> port \<noteq> []
            then normalizedServiceName @ ''|'' @ scheme @ ''|'' @ host @ ''|'' @ port else healthKey)
      in \<lparr>TServiceName = normalizedServiceName, TScheme = scheme, THost = host, TPort = port,
          THealthKey = healthKey\<rparr>)"

definition desire_instance ::
  "string \<Rightarrow> runtime_settings \<Rightarrow> (target_key, desired_target) gomap \<Rightarrow> instance_settings \<Rightarrow>
     (target_key, desired_target) gomap" where
  "desire_instance serviceName s targets inst =
     (let key = targetKeyFor serviceName inst in
      if TServiceName key = [] \<or> THost key = [] \<or> TPort key = [] \<or> THealthKey key = [] then targets
      else gomap_put key
        \<lparr>DesiredKey = key, DesiredInstance = inst, DesiredSettings = s,
         DesiredJitter = jitterFor key (RJitter s)\<rparr> targets)"

definition desire_service ::
  "(target_key, desired_target) gomap \<Rightarrow> string \<times> service_settings \<Rightarrow>
     (target_key, desired_target) gomap" where
  "desire_service targets p = (case p of (serviceName, service) \<Rightarrow>
     (case runtimeSettingsFrom (SvcHealth service) of
        Inl _ \<Rightarrow> targets
      | Inr s \<Rightarrow> if \<not> REnabled s then targets
          else foldl (desire_instance serviceName s) targets (SvcInstances service)))"

definition desiredTargets :: "snapshot option \<Rightarrow> (target_key, desired_target) gomap" where
  "desiredTargets current = (case current of None \<Rightarrow> []
     | Some snap \<Rightarrow> foldl desire_service [] (Services snap))"

section \<open>The manager (\<open>manager.go\<close>)\<close>

text \<open>\<open>Client\<close> is the connection limit of the current health client, \<open>None\<close> before the first one.\<close>

record health_manager =
  Targets :: "(target_key, target) gomap"
  Store :: health_store
  Client :: "int option"
  MaxIdleConns :: int
  ManagerGeneration :: "64 word"

definition replaceClientLocked :: "int \<Rightarrow> health_manager \<Rightarrow> health_manager" where
  "replaceClientLocked targetCount m =
     (let maxIdleConns = (if targetCount < 1 then 1 else targetCount) in
      if Client m \<noteq> None \<and> MaxIdleConns m = maxIdleConns then m
      else m\<lparr>Client := Some maxIdleConns, MaxIdleConns := maxIdleConns\<rparr>)"

definition Health_NewManager :: "health_store option \<Rightarrow> health_manager" where
  "Health_NewManager store =
     replaceClientLocked 1
       \<lparr>Targets = [], Store = (case store of None \<Rightarrow> NewStore | Some s \<Rightarrow> s), Client = None,
        MaxIdleConns = 0, ManagerGeneration = 0\<rparr>"

text \<open>The loop over the existing targets; the result lists the targets to cancel.\<close>

fun reconcile_existing ::
  "(target_key \<times> target) list \<Rightarrow> (target_key, desired_target) gomap \<Rightarrow> health_manager \<Rightarrow>
     target list \<times> (target_key, desired_target) gomap \<times> health_manager" where
  "reconcile_existing [] desired m = ([], desired, m)"
| "reconcile_existing ((key, existingTarget) # rest) desired m =
     (if (case gomap_get desired key of None \<Rightarrow> False
          | Some nextTarget \<Rightarrow> TargetSettings existingTarget = DesiredSettings nextTarget)
      then reconcile_existing rest (gomap_del key desired) m
      else (let (cancels, desired', m') = reconcile_existing rest desired
              (m\<lparr>Targets := gomap_del key (Targets m), Store := Delete (THealthKey key) (Store m)\<rparr>)
            in (existingTarget # cancels, desired', m')))"

text \<open>The loop over what is left of \<open>desired\<close>; the result lists the targets whose loop starts.\<close>

fun reconcile_start ::
  "(target_key \<times> desired_target) list \<Rightarrow> health_manager \<Rightarrow> target list \<times> health_manager" where
  "reconcile_start [] m = ([], m)"
| "reconcile_start ((key, nextTarget) # rest) m =
     (let generation = ManagerGeneration m + 1;
          managedTarget = \<lparr>TargetKey = key, TargetInstance = DesiredInstance nextTarget,
            TargetSettings = DesiredSettings nextTarget, TargetJitter = DesiredJitter nextTarget,
            TargetGeneration = generation\<rparr>;
          (started, m') = reconcile_start rest
            (m\<lparr>ManagerGeneration := generation,
               Targets := gomap_put key managedTarget (Targets m),
               Store := SetUnknown (THealthKey key) generation (Store m)\<rparr>)
      in (managedTarget # started, m'))"

definition reconcile ::
  "snapshot option \<Rightarrow> health_manager \<Rightarrow> target list \<times> target list \<times> health_manager" where
  "reconcile current m =
     (let (toCancel, desired, m1) = reconcile_existing (Targets m) (desiredTargets current) m;
          (started, m2) = reconcile_start desired m1
      in (toCancel, started, replaceClientLocked (int (length (Targets m2))) m2))"

section \<open>The check loop (\<open>checker.go\<close>)\<close>

text \<open>What the HTTP client reports: the request or the call failed, or a status code came back.\<close>

datatype check_outcome = RequestError | SendError | ResponseStatus int

definition check :: "int option \<Rightarrow> check_outcome \<Rightarrow> bool \<times> go_error option" where
  "check client outcome = (case client of
     None \<Rightarrow> (False, Some (errorf [] ''health client is unavailable''))
   | Some _ \<Rightarrow> (case outcome of
       RequestError \<Rightarrow> (False, Some (errorf [Ext] ''build health request''))
     | SendError \<Rightarrow> (False, Some (errorf [Ext] ''send health request''))
     | ResponseStatus code \<Rightarrow>
         if code < 200 \<or> code \<ge> 400 then (False, Some (errorf [] ''health response status''))
         else (True, None)))"

text \<open>The result says whether a status change is logged.\<close>

definition setStatus ::
  "time \<Rightarrow> target \<Rightarrow> health_status \<Rightarrow> int \<Rightarrow> int \<Rightarrow> go_error option \<Rightarrow> health_store \<Rightarrow>
     bool \<times> health_store" where
  "setStatus now tgt st failures successes err s =
     (case UpdateStatus now (THealthKey (TargetKey tgt)) (TargetGeneration tgt) st failures successes err s of
        ((previousRecord, updated), s') \<Rightarrow>
          if \<not> updated then (False, s')
          else (RecStatus previousRecord \<noteq> st, s'))"

record check_loop =
  LoopTarget :: target
  LoopStatus :: health_status
  LoopFailures :: int
  LoopSuccesses :: int

definition start_loop :: "target \<Rightarrow> check_loop" where
  "start_loop tgt = \<lparr>LoopTarget = tgt, LoopStatus = StatusUnknown, LoopFailures = 0, LoopSuccesses = 0\<rparr>"

definition loop_result :: "bool \<Rightarrow> check_loop \<Rightarrow> check_loop" where
  "loop_result ok l =
     (if ok then
        let successes = LoopSuccesses l + 1 in
        l\<lparr>LoopSuccesses := successes, LoopFailures := 0,
          LoopStatus := (if successes \<ge> RSuccessThreshold (TargetSettings (LoopTarget l))
            then StatusHealthy else LoopStatus l)\<rparr>
      else
        let failures = LoopFailures l + 1 in
        l\<lparr>LoopFailures := failures, LoopSuccesses := 0,
          LoopStatus := (if failures \<ge> RFailureThreshold (TargetSettings (LoopTarget l))
            then StatusUnhealthy else LoopStatus l)\<rparr>)"

text \<open>One iteration: the check, the counters, the store, and the delay of the next timer.\<close>

definition run_tick ::
  "time \<Rightarrow> check_outcome \<Rightarrow> check_loop \<Rightarrow> health_manager \<Rightarrow> duration \<times> check_loop \<times> health_manager" where
  "run_tick now outcome l m =
     (let (ok, err) = check (Client m) outcome;
          l' = loop_result ok l;
          (_, s') = setStatus now (LoopTarget l') (LoopStatus l') (LoopFailures l') (LoopSuccesses l') err (Store m)
      in (nextInterval (TargetSettings (LoopTarget l')) (TargetJitter (LoopTarget l')) (LoopFailures l'),
          l', m\<lparr>Store := s'\<rparr>))"

section \<open>The store\<close>

lemma IsRoutableKey_iff:
  "IsRoutableKey (Some s) k \<longleftrightarrow> k = [] \<or>
     (case map_of s k of None \<Rightarrow> True | Some r \<Rightarrow> RecStatus r \<noteq> StatusUnhealthy)"
  by (simp add: IsRoutableKey_def recordFor_def)

lemma SetUnknown_get:
  "map_of (SetUnknown k g s) x = (if x = k \<and> k \<noteq> [] then
     Some (zero_status_record\<lparr>RecStatus := StatusUnknown, RecGeneration := g\<rparr>) else map_of s x)"
  by (simp add: SetUnknown_def)

lemma Delete_get: "map_of (Delete k s) x = (if x = k \<and> k \<noteq> [] then None else map_of s x)"
  by (simp add: Delete_def)

lemma store_ok [simp]:
  "gomap_ok s \<Longrightarrow> gomap_ok (SetUnknown k g s)" "gomap_ok s \<Longrightarrow> gomap_ok (Delete k s)"
  by (simp_all add: SetUnknown_def Delete_def)

lemma setStatus_get:
  "map_of (snd (setStatus now t st f u err s)) x =
     (case map_of s (THealthKey (TargetKey t)) of
        Some r \<Rightarrow> if x = THealthKey (TargetKey t) \<and> x \<noteq> [] \<and> RecGeneration r = TargetGeneration t
          then Some \<lparr>RecStatus = st, RecCheckedAt = now, RecFailures = f, RecSuccesses = u,
                     RecGeneration = TargetGeneration t,
                     RecLastError = (case err of None \<Rightarrow> [] | Some e \<Rightarrow> err_msg e)\<rparr>
          else map_of s x
      | None \<Rightarrow> map_of s x)"
  by (auto simp: setStatus_def UpdateStatus_def Let_def split: option.splits prod.splits if_splits)

lemma setStatus_ok: "gomap_ok s \<Longrightarrow> gomap_ok (snd (setStatus now t st f u err s))"
  by (auto simp: setStatus_def UpdateStatus_def Let_def split: option.splits prod.splits if_splits)

section \<open>Back-off and jitter\<close>

definition settings_sane :: "runtime_settings \<Rightarrow> bool" where
  "settings_sane s \<longleftrightarrow> 0 < RInterval s \<and> RInterval s \<le> RMaxBackoff s \<and> RMaxBackoff s \<le> max_duration \<and>
     1 \<le> RFailureThreshold s \<and> 1 \<le> RSuccessThreshold s"

lemma backoff_loop_bounds:
  assumes "0 < i" "i \<le> mb" "mb \<le> max_duration"
  shows "i \<le> backoff_loop n mb i \<and> backoff_loop n mb i \<le> mb"
  using assms
proof (induction n mb i rule: backoff_loop.induct)
  case (2 n mb i)
  show ?case
  proof (cases "i \<ge> go_div mb 2")
    case False
    then have "i * 2 \<le> mb" using "2.prems" by (simp add: go_div_nonneg)
    moreover from this have "wrap_i64 (i * 2) = i * 2"
      using "2.prems" by (intro wrap_i64_id) (auto simp: max_duration_def)
    ultimately show ?thesis using "2.IH" [OF False] "2.prems" False by simp
  qed (use "2.prems" in simp)
qed simp

text \<open>The doubling in closed form.\<close>

lemma backoff_loop_closed:
  assumes "0 < i" "i \<le> mb" "mb \<le> max_duration"
  shows "backoff_loop (Suc n) mb i = (if i * 2 ^ n \<ge> mb div 2 then mb else i * 2 ^ Suc n)"
  using assms
proof (induction n arbitrary: i)
  case 0
  then have "i < mb div 2 \<Longrightarrow> wrap_i64 (i * 2) = i * 2"
    by (intro wrap_i64_id) (auto simp: max_duration_def)
  then show ?case using 0 by (auto simp: go_div_nonneg)
next
  case (Suc n)
  show ?case
  proof (cases "i \<ge> mb div 2")
    case True
    have "1 \<le> (2 :: int) ^ Suc n" by (rule one_le_power) simp
    then have "i * 1 \<le> i * 2 ^ Suc n" using Suc.prems(1) by (intro mult_left_mono) auto
    then have "mb div 2 \<le> i * 2 ^ Suc n" using True by linarith
    moreover have "backoff_loop (Suc (Suc n)) mb i = mb"
      using True Suc.prems by (simp add: go_div_nonneg)
    ultimately show ?thesis by simp
  next
    case False
    then have le: "i * 2 \<le> mb" by simp
    have w: "wrap_i64 (i * 2) = i * 2"
      using Suc.prems le by (intro wrap_i64_id) (auto simp: max_duration_def)
    have "backoff_loop (Suc (Suc n)) mb i = backoff_loop (Suc n) mb (i * 2)"
      using False Suc.prems w by (simp add: go_div_nonneg)
    then show ?thesis using Suc.IH [of "i * 2"] Suc.prems le by (simp add: mult.assoc)
  qed
qed

lemma nextInterval_eq:
  assumes "settings_sane s" "0 \<le> j" "RMaxBackoff s + j \<le> max_duration"
  shows "nextInterval s j cf = j +
    (if cf < RFailureThreshold s then RInterval s
     else let i = RInterval s * 2 ^ nat (cf - RFailureThreshold s) in
       if i \<ge> RMaxBackoff s div 2 then RMaxBackoff s else i * 2)"
proof -
  let ?n = "nat (cf - RFailureThreshold s)"
  have s: "0 < RInterval s" "RInterval s \<le> RMaxBackoff s" "RMaxBackoff s \<le> max_duration"
    using assms(1) by (simp_all add: settings_sane_def)
  have b: "backoff_loop (Suc ?n) (RMaxBackoff s) (RInterval s) \<le> RMaxBackoff s"
    "0 < backoff_loop (Suc ?n) (RMaxBackoff s) (RInterval s)"
    using backoff_loop_bounds [OF s, of "Suc ?n"] s(1) by linarith+
  have w: "wrap_i64 (i + j) = j + i" if "0 < i" "i \<le> RMaxBackoff s" for i
    using that assms(2,3) wrap_i64_id [of "i + j"] by (simp add: max_duration_def)
  show ?thesis
  proof (cases "cf < RFailureThreshold s")
    case True
    then show ?thesis using w [of "RInterval s"] s by (simp add: nextInterval_def Let_def)
  next
    case False
    then have "nat (cf - RFailureThreshold s + 1) = Suc ?n" by simp
    then have "nextInterval s j cf = j + backoff_loop (Suc ?n) (RMaxBackoff s) (RInterval s)"
      using False b w [of "backoff_loop (Suc ?n) (RMaxBackoff s) (RInterval s)"]
      by (simp add: nextInterval_def Let_def del: backoff_loop.simps)
    then show ?thesis
      using False unfolding backoff_loop_closed [OF s] by (simp add: Let_def)
  qed
qed

lemma jitterFor_bounds:
  assumes "0 < j" "j \<le> max_duration"
  shows "0 \<le> jitterFor k j \<and> jitterFor k j < j"
proof -
  have "uint (word_of_int j :: 64 word) = j"
    using assms by (simp add: uint_word_of_int max_duration_def)
  then have "uint (fnv1a (THealthKey k) mod (word_of_int j :: 64 word)) = uint (fnv1a (THealthKey k)) mod j"
    by (simp add: uint_mod)
  then show ?thesis using assms by (simp add: jitterFor_def)
qed

section \<open>Settings that the manager stores always parse\<close>

lemma parseDurationWithDefault_plain:
  assumes "trim_space v = v" "v \<noteq> []" "parse_duration v = Some d"
  shows "parseDurationWithDefault v dv f = Inr d"
  using assms by (simp add: parseDurationWithDefault_def)

lemma runtimeSettingsFrom_normal:
  assumes "health_normal h"
  shows "\<exists>s. runtimeSettingsFrom (Some h) = Inr s \<and> settings_sane s \<and> 0 \<le> RJitter s \<and>
    RJitter s \<le> max_duration \<and> 0 < RTimeout s \<and>
    REnabled s = the (Enabled h) \<and> RPath s = HealthPath h \<and>
    RFailureThreshold s = FailureThreshold h \<and> RSuccessThreshold s = SuccessThreshold h \<and>
    Interval h = duration_string (RInterval s) \<and> Timeout h = duration_string (RTimeout s) \<and>
    Jitter h = duration_string (RJitter s) \<and> MaxBackoff h = duration_string (RMaxBackoff s)"
proof -
  obtain i t j b where p: "0 < i" "0 < t" "0 \<le> j" "i \<le> b" "parse_duration (Interval h) = Some i"
    "parse_duration (Timeout h) = Some t" "parse_duration (Jitter h) = Some j"
    "parse_duration (MaxBackoff h) = Some b"
    and h: "Interval h = duration_string i" "Timeout h = duration_string t"
    "Jitter h = duration_string j" "MaxBackoff h = duration_string b"
    using assms by (auto simp: health_normal_def split: option.splits)
  have m: "b \<le> max_duration" "j \<le> max_duration" using p parse_duration_bounds by blast+
  have ne: "duration_string d \<noteq> []" if "0 \<le> d" for d
    using duration_string_ends [OF that] by auto
  have "parseDurationWithDefault (Interval h) dv f = Inr i"
    "parseDurationWithDefault (Timeout h) dv f = Inr t"
    "parseDurationWithDefault (Jitter h) dv f = Inr j"
    "parseDurationWithDefault (MaxBackoff h) dv f = Inr b" for dv f
    using p h ne by (auto intro!: parseDurationWithDefault_plain simp: trim_duration_string)
  moreover have "HealthPath h \<noteq> []" "trim_space (HealthPath h) = HealthPath h" "Enabled h \<noteq> None"
    "0 < FailureThreshold h" "0 < SuccessThreshold h"
    using assms by (auto simp: health_normal_def has_prefix_iff)
  ultimately show ?thesis using p(1-4) m h
    by (auto simp: runtimeSettingsFrom_def Let_def settings_sane_def)
qed


section \<open>The status of a loop\<close>

definition loop_after :: "target \<Rightarrow> bool list \<Rightarrow> check_loop" where
  "loop_after t results = foldl (\<lambda>l ok. loop_result ok l) (start_loop t) results"

lemma loop_after_simps [simp]:
  "loop_after t [] = start_loop t"
  "loop_after t (bs @ [ok]) = loop_result ok (loop_after t bs)"
  by (simp_all add: loop_after_def)

lemma loop_result_target [simp]: "LoopTarget (loop_result ok l) = LoopTarget l"
  by (simp add: loop_result_def Let_def)

lemma loop_after_target [simp]: "LoopTarget (loop_after t bs) = t"
  by (induction bs rule: rev_induct) (simp_all add: start_loop_def)

text \<open>The counters are the lengths of the last runs of equal results.\<close>

definition trailing :: "bool \<Rightarrow> bool list \<Rightarrow> nat" where
  "trailing b bs = length (takeWhile (\<lambda>x. x = b) (rev bs))"

lemma trailing_snoc [simp]: "trailing b (bs @ [x]) = (if x = b then Suc (trailing b bs) else 0)"
  by (simp add: trailing_def)

lemma trailing_Nil [simp]: "trailing b [] = 0"
  by (simp add: trailing_def)

lemma loop_counters:
  "LoopFailures (loop_after t bs) = int (trailing False bs) \<and>
   LoopSuccesses (loop_after t bs) = int (trailing True bs)"
  by (induction bs rule: rev_induct) (auto simp: start_loop_def loop_result_def Let_def)

lemma loop_status_step:
  "LoopStatus (loop_after t (bs @ [ok])) =
     (if ok then (if int (trailing True (bs @ [ok])) \<ge> RSuccessThreshold (TargetSettings t)
        then StatusHealthy else LoopStatus (loop_after t bs))
      else (if int (trailing False (bs @ [ok])) \<ge> RFailureThreshold (TargetSettings t)
        then StatusUnhealthy else LoopStatus (loop_after t bs)))"
  using loop_counters [of t bs] by (simp add: loop_result_def Let_def)

text \<open>
  Hysteresis: unhealthy means that some run of failures reached the failure threshold, and that no
  run of successes has reached the success threshold since.
\<close>

text \<open>How one more probe changes "a failing prefix and no recovery since".\<close>

lemma unhealthy_prefix_step:
  fixes ft st :: int
  defines "P \<equiv> \<lambda>bs. \<exists>i \<le> length bs. int (trailing False (take i bs)) \<ge> ft \<and>
    (\<forall>j. i < j \<and> j \<le> length bs \<longrightarrow> int (trailing True (take j bs)) < st)"
  shows "P (bs @ [ok]) \<longleftrightarrow>
    int (trailing False (bs @ [ok])) \<ge> ft \<or> P bs \<and> int (trailing True (bs @ [ok])) < st"
proof -
  let ?n = "length bs" and ?Q = "\<lambda>i. int (trailing False (take i (bs @ [ok]))) \<ge> ft"
    and ?R = "\<lambda>j. int (trailing True (take j (bs @ [ok]))) < st"
  have ex_Suc: "(\<exists>i \<le> Suc ?n. A i) \<longleftrightarrow> (\<exists>i \<le> ?n. A i) \<or> A (Suc ?n)" for A by (auto simp: le_Suc_eq)
  have all_Suc: "(\<forall>j. i < j \<and> j \<le> Suc ?n \<longrightarrow> ?R j) \<longleftrightarrow> (\<forall>j. i < j \<and> j \<le> ?n \<longrightarrow> ?R j) \<and> ?R (Suc ?n)"
    if "i \<le> ?n" for i
    using that less_Suc_eq_le [of i ?n] by (metis le_Suc_eq)
  have "P (bs @ [ok]) \<longleftrightarrow>
      (\<exists>i \<le> ?n. ?Q i \<and> (\<forall>j. i < j \<and> j \<le> Suc ?n \<longrightarrow> ?R j)) \<or> ?Q (Suc ?n)"
    unfolding P_def length_append_singleton ex_Suc by auto
  also have "\<dots> \<longleftrightarrow> (\<exists>i \<le> ?n. ?Q i \<and> (\<forall>j. i < j \<and> j \<le> ?n \<longrightarrow> ?R j)) \<and> ?R (Suc ?n) \<or> ?Q (Suc ?n)"
    using all_Suc by blast
  also have "(\<exists>i \<le> ?n. ?Q i \<and> (\<forall>j. i < j \<and> j \<le> ?n \<longrightarrow> ?R j)) \<longleftrightarrow> P bs"
    unfolding P_def by auto
  finally show ?thesis by auto
qed

lemma loop_unhealthy_iff:
  fixes t
  defines "ft \<equiv> RFailureThreshold (TargetSettings t)" and "st \<equiv> RSuccessThreshold (TargetSettings t)"
  assumes "1 \<le> ft" "1 \<le> st"
  shows "LoopStatus (loop_after t bs) = StatusUnhealthy \<longleftrightarrow>
    (\<exists>i \<le> length bs. int (trailing False (take i bs)) \<ge> ft \<and>
      (\<forall>j. i < j \<and> j \<le> length bs \<longrightarrow> int (trailing True (take j bs)) < st))"
proof (induction bs rule: rev_induct)
  case Nil
  then show ?case using assms(3) by (simp add: start_loop_def status_defs)
next
  case (snoc ok bs)
  show ?case unfolding unhealthy_prefix_step loop_status_step snoc.IH [symmetric] using assms
    by (cases ok) (auto simp: status_defs)
qed

section \<open>Desired targets\<close>

definition desired_ok :: "(target_key, desired_target) gomap \<Rightarrow> bool" where
  "desired_ok m \<longleftrightarrow> gomap_ok m \<and>
     (\<forall>k d. map_of m k = Some d \<longrightarrow> DesiredKey d = k \<and> THealthKey k \<noteq> [])"

lemma desire_instance_ok: "desired_ok m \<Longrightarrow> desired_ok (desire_instance n s m i)"
  by (auto simp: desire_instance_def Let_def desired_ok_def simp del: map_of_eq_Some_iff)

lemma desire_instances_ok: "desired_ok m \<Longrightarrow> desired_ok (foldl (desire_instance n s) m is)"
  by (induction "is" arbitrary: m) (simp_all add: desire_instance_ok)

lemma desire_service_ok: "desired_ok m \<Longrightarrow> desired_ok (desire_service m p)"
  by (auto simp: desire_service_def desire_instances_ok split: prod.splits sum.splits)

lemma desiredTargets_ok: "desired_ok (desiredTargets c)"
proof -
  have "desired_ok m \<Longrightarrow> desired_ok (foldl desire_service m ps)" for m ps
    by (induction ps arbitrary: m) (simp_all add: desire_service_ok)
  moreover have "desired_ok []" by (simp add: desired_ok_def)
  ultimately show ?thesis by (simp add: desiredTargets_def split: option.splits)
qed

section \<open>Reconciliation\<close>

definition keeps :: "(target_key, desired_target) gomap \<Rightarrow> target_key \<Rightarrow> target \<Rightarrow> bool" where
  "keeps desired k t = (case map_of desired k of None \<Rightarrow> False
     | Some d \<Rightarrow> TargetSettings t = DesiredSettings d)"

definition dropped :: "(target_key \<times> target) list \<Rightarrow> (target_key, desired_target) gomap \<Rightarrow>
    (target_key \<times> target) list" where
  "dropped ts desired = filter (\<lambda>(k, t). \<not> keeps desired k t) ts"

definition kept :: "(target_key \<times> target) list \<Rightarrow> (target_key, desired_target) gomap \<Rightarrow>
    (target_key \<times> target) list" where
  "kept ts desired = filter (\<lambda>(k, t). keeps desired k t) ts"

definition drop_target :: "health_manager \<Rightarrow> target_key \<times> target \<Rightarrow> health_manager" where
  "drop_target m p = m\<lparr>Targets := AList.delete (fst p) (Targets m),
     Store := Delete (THealthKey (fst p)) (Store m)\<rparr>"

lemma keeps_delete: "k' \<noteq> k \<Longrightarrow> keeps (AList.delete k desired) k' t = keeps desired k' t"
  by (simp add: keeps_def)

lemma filter_delete:
  assumes "k \<notin> fst ` set ts"
  shows "dropped ts (AList.delete k desired) = dropped ts desired"
    "kept ts (AList.delete k desired) = kept ts desired"
proof -
  have eq: "keeps (AList.delete k desired) k' t = keeps desired k' t" if "(k', t) \<in> set ts" for k' t
    by (rule keeps_delete) (use that assms in force)
  show "dropped ts (AList.delete k desired) = dropped ts desired"
    unfolding dropped_def by (rule filter_cong [OF refl]) (simp add: eq case_prod_beta)
  show "kept ts (AList.delete k desired) = kept ts desired"
    unfolding kept_def by (rule filter_cong [OF refl]) (simp add: eq case_prod_beta)
qed

text \<open>The first loop, in terms of what it keeps and what it drops.\<close>

lemma reconcile_existing_eq:
  "distinct (map fst ts) \<Longrightarrow> reconcile_existing ts desired m =
     (map snd (dropped ts desired),
      foldl (\<lambda>d p. AList.delete (fst p) d) desired (kept ts desired),
      foldl drop_target m (dropped ts desired))"
proof (induction ts arbitrary: desired m)
  case (Cons kt ts)
  obtain k t where kt: "kt = (k, t)" by (cases kt)
  have d: "distinct (map fst ts)" "k \<notin> fst ` set ts" using Cons.prems kt by auto
  have step: "reconcile_existing ((k, t) # ts) desired m =
    (if keeps desired k t then reconcile_existing ts (AList.delete k desired) m
     else (t # fst (reconcile_existing ts desired (drop_target m (k, t))),
           snd (reconcile_existing ts desired (drop_target m (k, t)))))"
    by (simp add: keeps_def drop_target_def case_prod_beta split: option.splits)
  show ?case
    unfolding kt step Cons.IH [OF d(1)] filter_delete [OF d(2)]
    by (simp add: dropped_def [of "(k, t) # ts"] kept_def [of "(k, t) # ts"])
      (simp flip: dropped_def kept_def)
qed (simp add: dropped_def kept_def)

lemma drop_targets_get:
  "map_of (Targets (foldl drop_target m ps)) k =
     (if k \<in> fst ` set ps then None else map_of (Targets m) k)"
  "map_of (Store (foldl drop_target m ps)) h =
     (if h \<noteq> [] \<and> h \<in> THealthKey ` fst ` set ps then None else map_of (Store m) h)"
  "ManagerGeneration (foldl drop_target m ps) = ManagerGeneration m"
  "gomap_ok (Targets m) \<Longrightarrow> gomap_ok (Targets (foldl drop_target m ps))"
  "gomap_ok (Store m) \<Longrightarrow> gomap_ok (Store (foldl drop_target m ps))"
proof (induction ps arbitrary: m)
  case (Cons p ps)
  { case 1 show ?case using Cons(1) [of "drop_target m p"] by (simp add: drop_target_def)
  next case 2 show ?case using Cons(2) [of "drop_target m p"] by (simp add: drop_target_def Delete_get)
  next case 3 show ?case using Cons(3) [of "drop_target m p"] by (simp add: drop_target_def)
  next case 4 then show ?case using Cons(4) [of "drop_target m p"] by (simp add: drop_target_def)
  next case 5 then show ?case using Cons(5) [of "drop_target m p"] by (simp add: drop_target_def) }
qed simp_all

lemma delete_all_get:
  "map_of (foldl (\<lambda>d p. AList.delete (fst p) d) desired ps) k =
     (if k \<in> fst ` set ps then None else map_of desired k)"
  "gomap_ok desired \<Longrightarrow> gomap_ok (foldl (\<lambda>d p. AList.delete (fst p) d) desired ps)"
  by (induction ps arbitrary: desired) auto

definition new_target :: "target_key \<Rightarrow> desired_target \<Rightarrow> 64 word \<Rightarrow> target" where
  "new_target k d g = \<lparr>TargetKey = k, TargetInstance = DesiredInstance d,
     TargetSettings = DesiredSettings d, TargetJitter = DesiredJitter d, TargetGeneration = g\<rparr>"

lemma new_target_simps [simp]:
  "TargetKey (new_target k d g) = k" "TargetGeneration (new_target k d g) = g"
  "TargetSettings (new_target k d g) = DesiredSettings d"
  by (simp_all add: new_target_def)

definition fresh_record :: "64 word \<Rightarrow> status_record" where
  "fresh_record g = zero_status_record\<lparr>RecStatus := StatusUnknown, RecGeneration := g\<rparr>"

definition add_target :: "health_manager \<Rightarrow> target \<Rightarrow> health_manager" where
  "add_target m t = m\<lparr>ManagerGeneration := TargetGeneration t,
     Targets := AList.update (TargetKey t) t (Targets m),
     Store := SetUnknown (THealthKey (TargetKey t)) (TargetGeneration t) (Store m)\<rparr>"

fun new_targets :: "64 word \<Rightarrow> (target_key \<times> desired_target) list \<Rightarrow> target list" where
  "new_targets g [] = []"
| "new_targets g ((k, d) # ds) = new_target k d (g + 1) # new_targets (g + 1) ds"

lemma reconcile_start_eq:
  "reconcile_start ds m =
     (new_targets (ManagerGeneration m) ds, foldl add_target m (new_targets (ManagerGeneration m) ds))"
proof (induction ds arbitrary: m)
  case (Cons kd ds)
  obtain k d where kd: "kd = (k, d)" by (cases kd)
  let ?t = "new_target k d (ManagerGeneration m + 1)"
  have "reconcile_start (kd # ds) m =
    (?t # fst (reconcile_start ds (add_target m ?t)), snd (reconcile_start ds (add_target m ?t)))"
    by (simp add: kd new_target_def add_target_def case_prod_beta Let_def)
  moreover have "ManagerGeneration (add_target m ?t) = ManagerGeneration m + 1"
    by (simp add: add_target_def)
  ultimately show ?case unfolding Cons.IH by (simp add: kd)
qed simp

lemma new_targets_props:
  "map TargetKey (new_targets g ds) = map fst ds"
  "map TargetGeneration (new_targets g ds) = map (\<lambda>i. g + of_nat i) [1 ..< Suc (length ds)]"
  "map TargetSettings (new_targets g ds) = map (DesiredSettings \<circ> snd) ds"
  "length (new_targets g ds) = length ds"
proof (induction g ds rule: new_targets.induct)
  case (2 g k d ds)
  { case 1 then show ?case using 2 by simp
  next
    case 2
    have "[1 ..< Suc (length ((k, d) # ds))] = 1 # map Suc [1 ..< Suc (length ds)]"
      by (simp only: map_Suc_upt list.size) (simp add: upt_rec)
    then show ?case using "2.IH"(2) by (simp add: add.assoc del: upt_Suc)
  next case 3 then show ?case using 2 by simp
  next case 4 then show ?case using 2 by simp }
qed simp_all

lemma add_targets_other:
  "k \<notin> TargetKey ` set ts \<Longrightarrow> map_of (Targets (foldl add_target m ts)) k = map_of (Targets m) k"
  by (induction ts arbitrary: m) (simp_all add: add_target_def)

lemma add_targets_new:
  "distinct (map TargetKey ts) \<Longrightarrow> t \<in> set ts \<Longrightarrow>
     map_of (Targets (foldl add_target m ts)) (TargetKey t) = Some t"
proof (induction ts arbitrary: m)
  case (Cons u ts)
  show ?case
  proof (cases "t = u")
    case True
    then have "TargetKey t \<notin> TargetKey ` set ts" using Cons.prems by simp
    then have "map_of (Targets (foldl add_target m (u # ts))) (TargetKey t) =
        map_of (Targets (add_target m u)) (TargetKey t)"
      by (simp add: add_targets_other)
    also have "\<dots> = Some t" using True by (simp add: add_target_def)
    finally show ?thesis .
  next
    case False
    then show ?thesis using Cons by simp
  qed
qed simp

lemma add_targets_store:
  assumes "map_of (Store (foldl add_target m ts)) h = Some r"
  shows "(\<exists>t \<in> set ts. THealthKey (TargetKey t) = h \<and> r = fresh_record (TargetGeneration t)) \<or>
    map_of (Store m) h = Some r \<and> (\<forall>t \<in> set ts. THealthKey (TargetKey t) \<noteq> h \<or> h = [])"
  using assms
proof (induction ts arbitrary: m)
  case (Cons u ts)
  then show ?case
    using Cons.IH [of "add_target m u"]
    by (auto simp: add_target_def SetUnknown_get fresh_record_def split: if_splits)
qed simp

lemma add_targets_ok:
  "gomap_ok (Targets m) \<Longrightarrow> gomap_ok (Targets (foldl add_target m ts))"
  "gomap_ok (Store m) \<Longrightarrow> gomap_ok (Store (foldl add_target m ts))"
  by (induction ts arbitrary: m) (simp_all add: add_target_def)

lemma add_new_targets_generation:
  "ManagerGeneration (foldl add_target m (new_targets (ManagerGeneration m) ds)) =
     ManagerGeneration m + of_nat (length ds)"
proof (induction ds arbitrary: m)
  case (Cons kd ds)
  obtain k d where kd: "kd = (k, d)" by (cases kd)
  have "ManagerGeneration (add_target m (new_target k d (ManagerGeneration m + 1))) = ManagerGeneration m + 1"
    by (simp add: add_target_def)
  then show ?case
    using Cons.IH [of "add_target m (new_target k d (ManagerGeneration m + 1))"] kd by (simp add: add.assoc)
qed simp

lemma replaceClientLocked_simps [simp]:
  "Targets (replaceClientLocked n m) = Targets m" "Store (replaceClientLocked n m) = Store m"
  "ManagerGeneration (replaceClientLocked n m) = ManagerGeneration m"
  by (simp_all add: replaceClientLocked_def Let_def)

text \<open>The whole of \<open>reconcile\<close>, for targets with distinct keys.\<close>

definition missing :: "(target_key \<times> target) list \<Rightarrow> (target_key, desired_target) gomap \<Rightarrow>
    (target_key, desired_target) gomap" where
  "missing ts desired = foldl (\<lambda>d p. AList.delete (fst p) d) desired (kept ts desired)"

lemma reconcile_eq:
  assumes "gomap_ok (Targets m)" and "d = desiredTargets c" "started = new_targets (ManagerGeneration m) (missing (Targets m) d)"
    "m1 = foldl drop_target m (dropped (Targets m) d)" "m2 = foldl add_target m1 started"
  shows "reconcile c m = (map snd (dropped (Targets m) d), started,
     replaceClientLocked (int (length (Targets m2))) m2)"
  using assms(1)
  by (simp add: reconcile_def reconcile_existing_eq reconcile_start_eq missing_def assms(2-5)
      drop_targets_get)

lemma missing_props:
  assumes "gomap_ok ts"
  shows "map_of (missing ts (desiredTargets c)) k =
    (case map_of ts k of Some t \<Rightarrow> if keeps (desiredTargets c) k t then None else map_of (desiredTargets c) k
     | None \<Rightarrow> map_of (desiredTargets c) k)"
    "gomap_ok (missing ts (desiredTargets c))"
    "d \<in> set (missing ts (desiredTargets c)) \<Longrightarrow> THealthKey (fst d) \<noteq> []"
proof -
  let ?d = "desiredTargets c"
  have ok: "desired_ok ?d" by (rule desiredTargets_ok)
  then show gok: "gomap_ok (missing ts ?d)"
    by (simp add: missing_def delete_all_get desired_ok_def)
  have mem: "k \<in> fst ` set (kept ts ?d) \<longleftrightarrow> (\<exists>t. map_of ts k = Some t \<and> keeps ?d k t)" for k
    using assms by (force simp: kept_def)
  show get: "map_of (missing ts ?d) k =
    (case map_of ts k of Some t \<Rightarrow> if keeps ?d k t then None else map_of ?d k
     | None \<Rightarrow> map_of ?d k)" for k
    unfolding missing_def delete_all_get mem by (simp split: option.splits)
  show "THealthKey (fst d) \<noteq> []" if "d \<in> set (missing ts ?d)"
  proof -
    obtain k v where d: "d = (k, v)" by (cases d)
    then have "map_of (missing ts ?d) k = Some v" using that gok by simp
    then have "map_of ?d k = Some v" unfolding get by (auto split: option.splits if_splits)
    then show ?thesis using ok d unfolding desired_ok_def by auto
  qed
qed

section \<open>The manager and its loops\<close>

record health_system =
  HManager :: health_manager
  Loops :: "check_loop list"
  Cancelled :: "target list"

definition health_init :: health_system where
  "health_init = \<lparr>HManager = Health_NewManager None, Loops = [], Cancelled = []\<rparr>"

text \<open>The index counts the loops started so far.\<close>

inductive health_run :: "nat \<Rightarrow> health_system \<Rightarrow> bool" where
  init: "health_run 0 health_init"
| commit: "health_run n sys \<Longrightarrow> reconcile c (HManager sys) = (cancels, started, m') \<Longrightarrow>
    health_run (n + length started)
      \<lparr>HManager = m', Loops = Loops sys @ map start_loop started, Cancelled = Cancelled sys @ cancels\<rparr>"
| tick: "health_run n sys \<Longrightarrow> i < length (Loops sys) \<Longrightarrow>
    run_tick now outcome (Loops sys ! i) (HManager sys) = (delay, l', m') \<Longrightarrow>
    health_run n (sys\<lparr>HManager := m', Loops := (Loops sys)[i := l']\<rparr>)"
| exit: "health_run n sys \<Longrightarrow> i < length (Loops sys) \<Longrightarrow>
    LoopTarget (Loops sys ! i) \<in> set (Cancelled sys) \<Longrightarrow>
    health_run n (sys\<lparr>Loops := take i (Loops sys) @ drop (Suc i) (Loops sys)\<rparr>)"

definition loop_generation :: "check_loop \<Rightarrow> 64 word" where
  "loop_generation l = TargetGeneration (LoopTarget l)"

definition born :: "nat \<Rightarrow> 64 word \<Rightarrow> bool" where
  "born n w \<longleftrightarrow> (\<exists>g. 1 \<le> g \<and> g \<le> n \<and> w = of_nat g)"

definition current :: "health_manager \<Rightarrow> target \<Rightarrow> bool" where
  "current m t \<longleftrightarrow> map_of (Targets m) (TargetKey t) = Some t"

text \<open>The status under a key is what the loop of the current target with that key has seen.\<close>

definition store_tracks :: "health_manager \<Rightarrow> check_loop list \<Rightarrow> bool" where
  "store_tracks m ls \<longleftrightarrow> (\<forall>h r. map_of (Store m) h = Some r \<longrightarrow>
     (\<exists>l \<in> set ls. loop_generation l = RecGeneration r \<and> current m (LoopTarget l) \<and>
        THealthKey (TargetKey (LoopTarget l)) = h \<and> RecStatus r = LoopStatus l \<and>
        RecFailures r = LoopFailures l \<and> RecSuccesses r = LoopSuccesses l))"

definition targets_run :: "health_manager \<Rightarrow> target set \<Rightarrow> target set \<Rightarrow> bool" where
  "targets_run m looped cancelled \<longleftrightarrow>
     (\<forall>k t. map_of (Targets m) k = Some t \<longrightarrow>
        TargetKey t = k \<and> THealthKey k \<noteq> [] \<and> t \<notin> cancelled \<and> t \<in> looped) \<and>
     (\<forall>t \<in> looped. t \<in> cancelled \<or> current m t)"

definition health_inv :: "nat \<Rightarrow> health_system \<Rightarrow> bool" where
  "health_inv n sys \<longleftrightarrow>
     gomap_ok (Targets (HManager sys)) \<and> gomap_ok (Store (HManager sys)) \<and>
     ManagerGeneration (HManager sys) = of_nat n \<and>
     distinct (map loop_generation (Loops sys)) \<and>
     (\<forall>w \<in> loop_generation ` set (Loops sys). born n w) \<and>
     (\<forall>w \<in> TargetGeneration ` set (Cancelled sys). born n w) \<and>
     targets_run (HManager sys) (LoopTarget ` set (Loops sys)) (set (Cancelled sys)) \<and>
     store_tracks (HManager sys) (Loops sys)"

lemma health_inv_init: "health_inv 0 health_init"
  by (simp add: health_inv_def health_init_def Health_NewManager_def NewStore_def
      targets_run_def store_tracks_def)

lemma run_tick_fields:
  assumes "run_tick now outcome l m = (delay, l', m')"
  shows "Targets m' = Targets m" "ManagerGeneration m' = ManagerGeneration m"
    "LoopTarget l' = LoopTarget l"
    "\<exists>ok err. check (Client m) outcome = (ok, err) \<and> l' = loop_result ok l \<and>
      Store m' = snd (setStatus now (LoopTarget l') (LoopStatus l') (LoopFailures l') (LoopSuccesses l') err (Store m))"
    "gomap_ok (Store m) \<Longrightarrow> gomap_ok (Store m')"
proof -
  show r: "Targets m' = Targets m" "ManagerGeneration m' = ManagerGeneration m"
    "LoopTarget l' = LoopTarget l"
    "\<exists>ok err. check (Client m) outcome = (ok, err) \<and> l' = loop_result ok l \<and>
      Store m' = snd (setStatus now (LoopTarget l') (LoopStatus l') (LoopFailures l') (LoopSuccesses l') err (Store m))"
    using assms by (auto simp: run_tick_def Let_def split: prod.splits)
  show "gomap_ok (Store m')" if "gomap_ok (Store m)"
    using r(4) setStatus_ok [OF that] by metis
qed

lemma distinct_generation:
  "distinct (map loop_generation ls) \<Longrightarrow> l \<in> set ls \<Longrightarrow> l' \<in> set ls \<Longrightarrow>
     loop_generation l = loop_generation l' \<Longrightarrow> l = l'"
  by (simp add: distinct_map inj_on_def)

lemma store_tracks_tick:
  assumes st: "store_tracks m ls" and dist: "distinct (map loop_generation ls)"
    and tr: "targets_run m (LoopTarget ` set ls) cs" and i: "i < length ls"
    and r: "run_tick now outcome (ls ! i) m = (delay, l', m')"
  shows "store_tracks m' (ls[i := l'])"
  unfolding store_tracks_def
proof (intro allI impI)
  fix h r assume rec: "map_of (Store m') h = Some r"
  let ?l = "ls ! i" and ?k = "THealthKey (TargetKey (LoopTarget (ls ! i)))"
  note f = run_tick_fields [OF r]
  have cur: "current m' t \<longleftrightarrow> current m t" for t using f(1) by (simp add: current_def)
  obtain ok err where s: "Store m' = snd (setStatus now (LoopTarget l') (LoopStatus l')
      (LoopFailures l') (LoopSuccesses l') err (Store m))"
    using f(4) by blast
  show "\<exists>l \<in> set (ls[i := l']). loop_generation l = RecGeneration r \<and> current m' (LoopTarget l) \<and>
      THealthKey (TargetKey (LoopTarget l)) = h \<and> RecStatus r = LoopStatus l \<and>
      RecFailures r = LoopFailures l \<and> RecSuccesses r = LoopSuccesses l"
  proof (cases "\<exists>q. map_of (Store m) ?k = Some q \<and> h = ?k \<and> h \<noteq> [] \<and> RecGeneration q = loop_generation ?l")
    case True
    then obtain q where q: "map_of (Store m) ?k = Some q" "h = ?k" "h \<noteq> []"
      "RecGeneration q = loop_generation ?l" by blast
    then obtain l where l: "l \<in> set ls" "loop_generation l = loop_generation ?l" "current m (LoopTarget l)"
      using st unfolding store_tracks_def by metis
    then have "l = ?l" using distinct_generation [OF dist l(1) nth_mem [OF i]] by simp
    moreover have "r = \<lparr>RecStatus = LoopStatus l', RecCheckedAt = now, RecFailures = LoopFailures l',
        RecSuccesses = LoopSuccesses l', RecGeneration = loop_generation ?l,
        RecLastError = (case err of None \<Rightarrow> [] | Some e \<Rightarrow> err_msg e)\<rparr>"
      using rec q unfolding s setStatus_get by (simp add: f(3) loop_generation_def)
    moreover have "l' \<in> set (ls[i := l'])" using i by (simp add: set_update_memI)
    ultimately show ?thesis
      using l(3) q(2) f(3) cur by (intro bexI [of _ l']) (simp_all add: loop_generation_def)
  next
    case False
    then have same: "map_of (Store m) h = Some r"
      using rec unfolding s setStatus_get
      by (auto simp: f(3) loop_generation_def split: option.splits if_splits)
    then obtain l where l: "l \<in> set ls" "loop_generation l = RecGeneration r" "current m (LoopTarget l)"
      "THealthKey (TargetKey (LoopTarget l)) = h" "RecStatus r = LoopStatus l"
      "RecFailures r = LoopFailures l" "RecSuccesses r = LoopSuccesses l"
      using st unfolding store_tracks_def by metis
    have "h \<noteq> []" using l(3,4) tr unfolding targets_run_def current_def by metis
    then have "l \<noteq> ?l" using False same l(2,4) by metis
    then have "l \<in> set (ls[i := l'])" using set_update_keeps [OF l(1)] by metis
    then show ?thesis using l cur by (intro bexI [of _ l]) simp_all
  qed
qed

lemma health_invD:
  assumes "health_inv n sys"
  shows "gomap_ok (Targets (HManager sys))" "gomap_ok (Store (HManager sys))"
    "ManagerGeneration (HManager sys) = of_nat n"
    "distinct (map loop_generation (Loops sys))" "\<forall>w \<in> loop_generation ` set (Loops sys). born n w"
    "\<forall>w \<in> TargetGeneration ` set (Cancelled sys). born n w"
    "targets_run (HManager sys) (LoopTarget ` set (Loops sys)) (set (Cancelled sys))"
    "store_tracks (HManager sys) (Loops sys)"
  using assms unfolding health_inv_def by blast+

lemma health_inv_tick:
  assumes inv: "health_inv n sys" and i: "i < length (Loops sys)"
    and r: "run_tick now outcome (Loops sys ! i) (HManager sys) = (delay, l', m')"
  shows "health_inv n (sys\<lparr>HManager := m', Loops := (Loops sys)[i := l']\<rparr>)"
proof -
  let ?l = "Loops sys ! i" and ?ls = "Loops sys" and ?m = "HManager sys"
  note f = run_tick_fields [OF r]
  have tg: "map LoopTarget (?ls[i := l']) = map LoopTarget ?ls"
    unfolding map_update f(3) using i by (simp add: list_update_same_conv)
  have lg: "loop_generation l' = loop_generation ?l" unfolding loop_generation_def f(3) ..
  have gens: "map loop_generation (?ls[i := l']) = map loop_generation ?ls"
    unfolding map_update lg using i by (simp add: list_update_same_conv)
  have tset: "LoopTarget ` set (?ls[i := l']) = LoopTarget ` set ?ls"
    using arg_cong [OF tg, of set] by simp
  have gset: "loop_generation ` set (?ls[i := l']) = loop_generation ` set ?ls"
    using arg_cong [OF gens, of set] by simp
  note I = health_invD [OF inv]
  have t: "targets_run m' (LoopTarget ` set ?ls) (set (Cancelled sys))"
    using I(7) unfolding targets_run_def current_def f(1) .
  have sel: "HManager (sys\<lparr>HManager := m', Loops := ?ls[i := l']\<rparr>) = m'"
    "Loops (sys\<lparr>HManager := m', Loops := ?ls[i := l']\<rparr>) = ?ls[i := l']"
    "Cancelled (sys\<lparr>HManager := m', Loops := ?ls[i := l']\<rparr>) = Cancelled sys" by simp_all
  show ?thesis
    unfolding health_inv_def sel gens gset tset f(1,2)
    by (intro conjI I(1,3-6) f(5) [OF I(2)] t store_tracks_tick [OF I(8,4,7) i r])
qed


lemma health_inv_exit:
  assumes inv: "health_inv n sys" and i: "i < length (Loops sys)"
    and c: "LoopTarget (Loops sys ! i) \<in> set (Cancelled sys)"
  shows "health_inv n (sys\<lparr>Loops := take i (Loops sys) @ drop (Suc i) (Loops sys)\<rparr>)"
proof -
  let ?l = "Loops sys ! i" and ?ls = "Loops sys" and ?m = "HManager sys"
  let ?ls' = "take i ?ls @ drop (Suc i) ?ls"
  note I = health_invD [OF inv]
  have ls: "?ls = take i ?ls @ ?l # drop (Suc i) ?ls" using i by (simp add: id_take_nth_drop)
  then have "set ?ls = set (take i ?ls @ ?l # drop (Suc i) ?ls)" by (rule arg_cong)
  then have set_ls: "set ?ls = insert ?l (set ?ls')" unfolding set_append list.set by blast
  have d: "distinct (map loop_generation ?ls')"
    using I(4) unfolding arg_cong [OF ls, of "map loop_generation"] by auto
  have not_current: "\<not> current ?m (LoopTarget ?l)"
    using I(7) c unfolding targets_run_def current_def by blast
  have keep: "l \<in> set ?ls'" if "l \<in> set ?ls" "current ?m (LoopTarget l)" for l
    using that not_current set_ls by auto
  have t: "targets_run ?m (LoopTarget ` set ?ls') (set (Cancelled sys))"
    unfolding targets_run_def
  proof (intro conjI allI impI)
    fix k t assume k: "map_of (Targets ?m) k = Some t"
    then show "TargetKey t = k" "THealthKey k \<noteq> []" "t \<notin> set (Cancelled sys)"
      using I(7) unfolding targets_run_def by blast+
    obtain l where "l \<in> set ?ls" "t = LoopTarget l"
      using k I(7) unfolding targets_run_def by blast
    then show "t \<in> LoopTarget ` set ?ls'" using \<open>t \<notin> set (Cancelled sys)\<close> c set_ls by auto
  next
    show "\<forall>t \<in> LoopTarget ` set ?ls'. t \<in> set (Cancelled sys) \<or> current ?m t"
      using I(7) set_ls unfolding targets_run_def by blast
  qed
  have s: "store_tracks ?m ?ls'"
    using I(8) keep unfolding store_tracks_def by meson
  have b: "\<forall>w \<in> loop_generation ` set ?ls'. born n w" using I(5) set_ls by blast
  have sel: "HManager (sys\<lparr>Loops := ?ls'\<rparr>) = ?m" "Loops (sys\<lparr>Loops := ?ls'\<rparr>) = ?ls'"
    "Cancelled (sys\<lparr>Loops := ?ls'\<rparr>) = Cancelled sys" by simp_all
  show ?thesis
    unfolding health_inv_def sel by (intro conjI I(1-3,6) d b t s)
qed


lemma lookup_after_adds:
  assumes dk: "distinct (map TargetKey started)"
    and old: "\<And>k t. map_of (Targets m) k = Some t \<longleftrightarrow> P k t"
    and free: "\<And>k t. P k t \<Longrightarrow> k \<notin> TargetKey ` set started"
  shows "map_of (Targets (foldl add_target m started)) k = Some t \<longleftrightarrow>
    t \<in> set started \<and> TargetKey t = k \<or> P k t"
proof (cases "k \<in> TargetKey ` set started")
  case True
  then obtain u where u: "u \<in> set started" "TargetKey u = k" by blast
  have "map_of (Targets (foldl add_target m started)) k = Some u"
    using add_targets_new [OF dk u(1), of m] u(2) by simp
  moreover have "t = u" if "t \<in> set started" "TargetKey t = k"
    using that u dk by (simp add: distinct_map inj_on_def)
  ultimately show ?thesis using u free True by auto
next
  case False
  then show ?thesis using old by (auto simp: add_targets_other)
qed

lemma store_after_drops_and_adds:
  assumes dr: "\<And>k t. (k, t) \<in> set dropping \<longleftrightarrow> map_of (Targets m) k = Some t \<and> \<not> K k t"
    and sq: "map_of (Store (foldl add_target (foldl drop_target m dropping) started)) h = Some q"
  shows "(\<exists>t \<in> set started. THealthKey (TargetKey t) = h \<and> q = fresh_record (TargetGeneration t)) \<or>
    map_of (Store m) h = Some q \<and>
      (h \<noteq> [] \<longrightarrow> (\<forall>k t. map_of (Targets m) k = Some t \<and> THealthKey k = h \<longrightarrow> K k t))"
  using add_targets_store [OF sq]
proof
  assume "map_of (Store (foldl drop_target m dropping)) h = Some q \<and>
    (\<forall>t \<in> set started. THealthKey (TargetKey t) \<noteq> h \<or> h = [])"
  then have b: "map_of (Store m) h = Some q" "h = [] \<or> h \<notin> THealthKey ` fst ` set dropping"
    unfolding drop_targets_get by (auto split: if_splits)
  have "K k t" if "map_of (Targets m) k = Some t" "THealthKey k = h" "h \<noteq> []" for k t
    using b(2) that dr [of k t] by force
  then show ?thesis using b(1) by blast
qed blast

lemma reconcile_effect:
  assumes gok: "gomap_ok (Targets m)" and r: "reconcile c m = (cancels, started, m')"
  shows "map TargetGeneration started = map (\<lambda>i. ManagerGeneration m + of_nat i) [1 ..< Suc (length started)]"
    and "ManagerGeneration m' = ManagerGeneration m + of_nat (length started)"
    and "distinct (map TargetKey started)" and "\<forall>t \<in> set started. THealthKey (TargetKey t) \<noteq> []"
    and "t \<in> set cancels \<longleftrightarrow> (\<exists>k. map_of (Targets m) k = Some t \<and> \<not> keeps (desiredTargets c) k t)"
    and "map_of (Targets m') k = Some t \<longleftrightarrow> t \<in> set started \<and> TargetKey t = k \<or>
      map_of (Targets m) k = Some t \<and> keeps (desiredTargets c) k t"
    and "gomap_ok (Targets m')" and "gomap_ok (Store m) \<Longrightarrow> gomap_ok (Store m')"
    and "map_of (Store m') h = Some q \<Longrightarrow>
      (\<exists>t \<in> set started. THealthKey (TargetKey t) = h \<and> q = fresh_record (TargetGeneration t)) \<or>
      map_of (Store m) h = Some q \<and>
        (h \<noteq> [] \<longrightarrow> (\<forall>k t. map_of (Targets m) k = Some t \<and> THealthKey k = h \<longrightarrow> keeps (desiredTargets c) k t))"
proof -
  let ?d = "desiredTargets c" and ?g = "ManagerGeneration m"
  let ?miss = "missing (Targets m) ?d" and ?dr = "dropped (Targets m) ?d"
  define m1 where "m1 = foldl drop_target m ?dr"
  define m2 where "m2 = foldl add_target m1 started"
  have st: "started = new_targets ?g ?miss" and ca: "cancels = map snd ?dr"
    and m': "m' = replaceClientLocked (int (length (Targets m2))) m2"
    using r unfolding reconcile_eq [OF gok refl refl refl refl] m1_def m2_def by auto
  note np = new_targets_props [of ?g ?miss, folded st] and mp = missing_props [OF gok, where c = c]
  have len: "length started = length ?miss" by (rule np(4))
  show "map TargetGeneration started = map (\<lambda>i. ?g + of_nat i) [1 ..< Suc (length started)]"
    using np(2) unfolding len .
  have g1: "ManagerGeneration m1 = ?g" unfolding m1_def by (rule drop_targets_get)
  show "ManagerGeneration m' = ?g + of_nat (length started)"
    using add_new_targets_generation [of m1 ?miss] unfolding m' m2_def st g1 len [unfolded st] by simp
  show dk: "distinct (map TargetKey started)" unfolding np(1) by (rule mp(2))
  have keys: "TargetKey ` set started = fst ` set ?miss" using arg_cong [OF np(1), of set] by simp
  show "\<forall>t \<in> set started. THealthKey (TargetKey t) \<noteq> []"
    using mp(3) keys by (metis imageE image_eqI)
  have dr: "(k, t) \<in> set ?dr \<longleftrightarrow> map_of (Targets m) k = Some t \<and> \<not> keeps ?d k t" for k t
    unfolding dropped_def using gok by auto
  show "t \<in> set cancels \<longleftrightarrow> (\<exists>k. map_of (Targets m) k = Some t \<and> \<not> keeps ?d k t)"
    unfolding ca using dr by force
  have drk: "k \<in> fst ` set ?dr \<longleftrightarrow> (\<exists>t. map_of (Targets m) k = Some t \<and> \<not> keeps ?d k t)" for k
    using dr by force
  have T1: "map_of (Targets m1) k = Some t \<longleftrightarrow> map_of (Targets m) k = Some t \<and> keeps ?d k t" for k t
    unfolding m1_def drop_targets_get drk by auto
  have inm: "k \<in> fst ` set ?miss \<longleftrightarrow> map_of ?miss k \<noteq> None" for k
    by (simp add: map_of_eq_None_iff)
  have kn: "k \<notin> TargetKey ` set started" if "map_of (Targets m) k = Some t" "keeps ?d k t" for k t
    unfolding keys inm mp(1) using that by simp
  show "map_of (Targets m') k = Some t \<longleftrightarrow> t \<in> set started \<and> TargetKey t = k \<or>
      map_of (Targets m) k = Some t \<and> keeps ?d k t" for k t
    using lookup_after_adds [OF dk T1 kn] by (simp add: m' m2_def)
  show "gomap_ok (Targets m')" unfolding m' m2_def m1_def
    by (simp add: add_targets_ok drop_targets_get gok)
  show "gomap_ok (Store m')" if "gomap_ok (Store m)" unfolding m' m2_def m1_def
    using that by (simp add: add_targets_ok drop_targets_get)
  show "(\<exists>t \<in> set started. THealthKey (TargetKey t) = h \<and> q = fresh_record (TargetGeneration t)) \<or>
      map_of (Store m) h = Some q \<and>
        (h \<noteq> [] \<longrightarrow> (\<forall>k t. map_of (Targets m) k = Some t \<and> THealthKey k = h \<longrightarrow> keeps ?d k t))"
    if sq: "map_of (Store m') h = Some q" for h q
    using store_after_drops_and_adds [OF dr, of started h q] sq by (simp add: m' m2_def m1_def)
qed

lemma born_mono: "born n w \<Longrightarrow> n \<le> k \<Longrightarrow> born k w"
  unfolding born_def by (metis le_trans)

lemma of_nat_eq_small:
  "a < 2 ^ 64 \<Longrightarrow> b < 2 ^ 64 \<Longrightarrow> (of_nat a :: 64 word) = of_nat b \<longleftrightarrow> a = b"
  by (auto simp: word_of_nat_eq_iff take_bit_nat_eq_self)

text \<open>The generations of the loops that a commit starts.\<close>

lemma started_generations:
  assumes gens: "map TargetGeneration started = map (\<lambda>i. of_nat (n + i)) [1 ..< Suc (length started)]"
    and small: "n + length started < 2 ^ 64"
  shows "t \<in> set started \<Longrightarrow> \<not> born n (TargetGeneration t)"
    and "t \<in> set started \<Longrightarrow> born (n + length started) (TargetGeneration t)"
    and "distinct (map TargetGeneration started)"
proof -
  have "TargetGeneration ` set started = (\<lambda>i. of_nat (n + i)) ` {1 ..< Suc (length started)}"
    using arg_cong [OF gens, of set] unfolding set_map set_upt .
  then have gen_of: "\<exists>i. 1 \<le> i \<and> i \<le> length started \<and> TargetGeneration t = of_nat (n + i)" if "t \<in> set started" for t
    using that by (fastforce simp: less_Suc_eq_le simp del: of_nat_add)
  show "\<not> born n (TargetGeneration t)" if asm: "t \<in> set started"
  proof
    assume "born n (TargetGeneration t)"
    then obtain g where g: "g \<le> n" "TargetGeneration t = of_nat g" unfolding born_def by blast
    moreover obtain i where "1 \<le> i" "i \<le> length started" "TargetGeneration t = of_nat (n + i)"
      using gen_of [OF asm] by blast
    ultimately show False using small of_nat_eq_small [of "n + i" g] by simp
  qed
  show "born (n + length started) (TargetGeneration t)" if asm: "t \<in> set started"
  proof -
    obtain i where "1 \<le> i" "i \<le> length started" "TargetGeneration t = of_nat (n + i)"
      using gen_of [OF asm] by blast
    then show ?thesis unfolding born_def by (intro exI [of _ "n + i"]) simp
  qed
  show "distinct (map TargetGeneration started)"
    unfolding gens distinct_map using small by (auto intro!: inj_onI simp: of_nat_eq_small simp del: of_nat_add)
qed

lemma start_loop_simps [simp]:
  "loop_generation (start_loop t) = TargetGeneration t" "LoopTarget (start_loop t) = t"
  by (simp_all add: loop_generation_def start_loop_def)

text \<open>
  What a commit does to the targets, and what follows for the loops and for the store. \<open>keep\<close> are the targets
  that stay.
\<close>

lemma targets_run_commit:
  assumes tr: "targets_run m looped cancelled"
    and started: "\<And>t. t \<in> set started \<Longrightarrow> t \<notin> looped \<and> t \<notin> cancelled \<and> THealthKey (TargetKey t) \<noteq> []"
    and cancels: "\<And>t. t \<in> set cancels \<longleftrightarrow> (\<exists>k. map_of (Targets m) k = Some t \<and> \<not> keep k t)"
    and targets: "\<And>k t. map_of (Targets m') k = Some t \<longleftrightarrow> t \<in> set started \<and> TargetKey t = k \<or>
      map_of (Targets m) k = Some t \<and> keep k t"
  shows "targets_run m' (looped \<union> set started) (cancelled \<union> set cancels)"
  unfolding targets_run_def
proof (intro conjI allI impI ballI)
  have loop_of: "t \<in> looped" "TargetKey t = k" "t \<notin> cancelled" "THealthKey k \<noteq> []" if "map_of (Targets m) k = Some t" for k t
    using tr that unfolding targets_run_def by blast+
  fix k t assume "map_of (Targets m') k = Some t"
  then consider "t \<in> set started" "TargetKey t = k" | "map_of (Targets m) k = Some t" "keep k t"
    using targets by blast
  then have "TargetKey t = k \<and> THealthKey k \<noteq> [] \<and> t \<notin> cancelled \<union> set cancels \<and> t \<in> looped \<union> set started"
  proof cases
    case 1
    then show ?thesis using started [OF 1(1)] cancels [of t] loop_of(1) by auto
  next
    case 2
    then show ?thesis using loop_of [OF 2(1)] cancels [of t] loop_of(2) by auto
  qed
  then show "TargetKey t = k" "THealthKey k \<noteq> []" "t \<notin> cancelled \<union> set cancels" "t \<in> looped \<union> set started" by blast+
next
  fix t assume "t \<in> looped \<union> set started"
  moreover have "t \<in> cancelled \<or> current m t" if "t \<in> looped" using tr that unfolding targets_run_def by blast
  ultimately show "t \<in> cancelled \<union> set cancels \<or> current m' t"
    using targets cancels unfolding current_def by blast
qed

lemma store_tracks_commit:
  assumes st: "store_tracks m ls" and keyed: "\<And>k t. map_of (Targets m) k = Some t \<Longrightarrow> THealthKey k \<noteq> []"
    and targets: "\<And>k t. map_of (Targets m') k = Some t \<longleftrightarrow> t \<in> set started \<and> TargetKey t = k \<or>
      map_of (Targets m) k = Some t \<and> keep k t"
    and records: "\<And>h q. map_of (Store m') h = Some q \<Longrightarrow>
      (\<exists>t \<in> set started. THealthKey (TargetKey t) = h \<and> q = fresh_record (TargetGeneration t)) \<or>
      map_of (Store m) h = Some q \<and> (h \<noteq> [] \<longrightarrow> (\<forall>k t. map_of (Targets m) k = Some t \<and> THealthKey k = h \<longrightarrow> keep k t))"
  shows "store_tracks m' (ls @ map start_loop started)"
  unfolding store_tracks_def
proof (intro allI impI)
  fix h q assume "map_of (Store m') h = Some q"
  from records [OF this]
  show "\<exists>l \<in> set (ls @ map start_loop started). loop_generation l = RecGeneration q \<and>
    current m' (LoopTarget l) \<and> THealthKey (TargetKey (LoopTarget l)) = h \<and> RecStatus q = LoopStatus l \<and>
    RecFailures q = LoopFailures l \<and> RecSuccesses q = LoopSuccesses l"
  proof
    assume "\<exists>t \<in> set started. THealthKey (TargetKey t) = h \<and> q = fresh_record (TargetGeneration t)"
    then obtain t where "t \<in> set started" "THealthKey (TargetKey t) = h" "q = fresh_record (TargetGeneration t)"
      by blast
    moreover have "current m' t" if "t \<in> set started" for t using that targets unfolding current_def by blast
    ultimately show ?thesis
      by (intro bexI [of _ "start_loop t"]) (simp_all add: fresh_record_def zero_status_record_def start_loop_def loop_generation_def)
  next
    assume a: "map_of (Store m) h = Some q \<and>
      (h \<noteq> [] \<longrightarrow> (\<forall>k t. map_of (Targets m) k = Some t \<and> THealthKey k = h \<longrightarrow> keep k t))"
    then obtain l where l: "l \<in> set ls" "loop_generation l = RecGeneration q" "current m (LoopTarget l)"
      "THealthKey (TargetKey (LoopTarget l)) = h" "RecStatus q = LoopStatus l"
      "RecFailures q = LoopFailures l" "RecSuccesses q = LoopSuccesses l"
      using st unfolding store_tracks_def by blast
    have "h \<noteq> []" using l(3,4) keyed unfolding current_def by blast
    then have "current m' (LoopTarget l)" using a l(3,4) targets unfolding current_def by blast
    then show ?thesis using l by (intro bexI [of _ l]) simp_all
  qed
qed

lemma health_inv_commit:
  assumes inv: "health_inv n sys" and r: "reconcile c (HManager sys) = (cancels, started, m')"
    and small: "n + length started < 2 ^ 64"
  shows "health_inv (n + length started)
    \<lparr>HManager = m', Loops = Loops sys @ map start_loop started, Cancelled = Cancelled sys @ cancels\<rparr>"
proof -
  let ?ls = "Loops sys" and ?m = "HManager sys" and ?n = "n + length started"
  note I = health_invD [OF inv]
  note R = reconcile_effect [OF I(1) r]
  have gens: "map TargetGeneration started = map (\<lambda>i. of_nat (n + i)) [1 ..< Suc (length started)]"
    using R(1) unfolding I(3) by simp
  note fresh = started_generations(1) [OF gens small] and born' = started_generations(2) [OF gens small]
  have loop_of: "t \<in> LoopTarget ` set ?ls" "THealthKey k \<noteq> []" if "map_of (Targets ?m) k = Some t" for k t
    using I(7) that unfolding targets_run_def by blast+
  have loop_born: "born n (TargetGeneration t)" if "t \<in> LoopTarget ` set ?ls" for t
    using I(5) that unfolding loop_generation_def by blast
  have new: "t \<notin> LoopTarget ` set ?ls \<and> t \<notin> set (Cancelled sys) \<and> THealthKey (TargetKey t) \<noteq> []" if "t \<in> set started" for t
    using loop_born fresh [OF that] I(6) R(4) that by blast
  have "LoopTarget ` set (?ls @ map start_loop started) = LoopTarget ` set ?ls \<union> set started"
    by (simp add: image_Un image_image)
  then have T: "targets_run m' (LoopTarget ` set (?ls @ map start_loop started)) (set (Cancelled sys @ cancels))"
    using targets_run_commit [OF I(7) new R(5,6)] by simp
  have S: "store_tracks m' (?ls @ map start_loop started)"
    by (rule store_tracks_commit [OF I(8) loop_of(2) R(6,9)])
  have G: "ManagerGeneration m' = of_nat ?n" using R(2) I(3) by simp
  have "loop_generation ` set ?ls \<inter> TargetGeneration ` set started = {}"
  proof (rule Int_emptyI)
    fix w assume "w \<in> loop_generation ` set ?ls" "w \<in> TargetGeneration ` set started"
    then have "born n w" "\<exists>t \<in> set started. w = TargetGeneration t" using I(5) by blast+
    then show False using fresh by metis
  qed
  moreover have "loop_generation \<circ> start_loop = TargetGeneration" by (simp add: fun_eq_iff)
  ultimately have D: "distinct (map loop_generation (?ls @ map start_loop started))"
    unfolding map_append distinct_append using I(4) started_generations(3) [OF gens small] by simp
  have B1: "\<forall>w \<in> loop_generation ` set (?ls @ map start_loop started). born ?n w"
    using I(5) born' born_mono [of n _ ?n] by auto
  have B2: "\<forall>w \<in> TargetGeneration ` set (Cancelled sys @ cancels). born ?n w"
    using I(6) R(5) loop_of(1) loop_born born_mono [of n _ ?n] by fastforce
  have sel: "HManager \<lparr>HManager = m', Loops = x, Cancelled = y\<rparr> = m'"
    "Loops \<lparr>HManager = m', Loops = x, Cancelled = y\<rparr> = x"
    "Cancelled \<lparr>HManager = m', Loops = x, Cancelled = y\<rparr> = y" for x y by simp_all
  show ?thesis
    unfolding health_inv_def sel by (intro conjI R(7) R(8) [OF I(2)] G D B1 B2 T S)
qed

lemma health_run_inv: "health_run n sys \<Longrightarrow> n < 2 ^ 64 \<Longrightarrow> health_inv n sys"
proof (induction rule: health_run.induct)
  case init
  show ?case by (rule health_inv_init)
next
  case (commit n sys c cancels started m')
  then show ?case by (intro health_inv_commit) simp_all
next
  case (tick n sys i now outcome delay l' m')
  then show ?case by (intro health_inv_tick) simp_all
next
  case (exit n sys i)
  then show ?case by (intro health_inv_exit) simp_all
qed

section \<open>Properties of the health checks\<close>

text \<open>The store is what the load balancer is given: an unroutable key is a key recorded as unhealthy.\<close>

definition recorded_unhealthy :: "health_store \<Rightarrow> string \<Rightarrow> bool" where
  "recorded_unhealthy s k \<longleftrightarrow>
     (case map_of s k of None \<Rightarrow> False | Some r \<Rightarrow> RecStatus r = StatusUnhealthy)"

interpretation store_status: health_status "IsRoutableKey (Some s)" "recorded_unhealthy s" for s
  by unfold_locales (auto simp: IsRoutableKey_iff recorded_unhealthy_def split: option.splits)

text \<open>
  C25: The load balancer over the health store refuses a service that has instances only when every
  one of its instances is recorded as unhealthy at that moment: an instance without a record, or one
  still unknown, keeps the service available.
\<close>

theorem NextInstance_fails_only_if_all_unhealthy:
  assumes "LBHealth lb = Some (IsRoutableKey (Some store))"
    and "map_of (Services c) (NormalizeServiceName n) = Some svc" "NormalizeServiceName n \<noteq> []"
    and "NextInstance (Some lb) (Some c) n = (Inl e, lb')"
    and "unat (cursor_for lb (NormalizeServiceName n)) + length (SvcInstances svc) < 2 ^ 64"
  shows "\<forall>i \<in> set (SvcInstances svc). recorded_unhealthy store (HealthKey i)"
  by (rule store_status.NextInstance_refused [OF assms(1,2,4,3,5)])

definition bad_record :: status_record where
  "bad_record = zero_status_record\<lparr>RecStatus := StatusUnhealthy, RecFailures := 2, RecGeneration := 1\<rparr>"

theorem NextInstance_fails_only_if_all_unhealthy_witness:
  "list_all (\<lambda>i. recorded_unhealthy
       [(''users|http|10.0.0.1|8080'', bad_record), (''users|http|10.0.0.2|8080'', bad_record)] (HealthKey i))
     (SvcInstances (the (map_of (Services sample_snapshot) ''users'')))"
proof -
  let ?store = "[(''users|http|10.0.0.1|8080'', bad_record), (''users|http|10.0.0.2|8080'', bad_record)]"
  let ?lb = "NewLoadBalancer (Some (IsRoutableKey (Some ?store)))"
  let ?svc = "the (map_of (Services sample_snapshot) ''users'')"
  have n: "NormalizeServiceName ''users'' = ''users''" by code_simp
  have h: "LBHealth ?lb = Some (IsRoutableKey (Some ?store))" by (simp add: NewLoadBalancer_def)
  have s: "map_of (Services sample_snapshot) (NormalizeServiceName ''users'') = Some ?svc"
    "NormalizeServiceName ''users'' \<noteq> []"
    "unat (cursor_for ?lb (NormalizeServiceName ''users'')) + length (SvcInstances ?svc) < 2 ^ 64"
    unfolding n by (simp_all add: sample_snapshot_def NewLoadBalancer_def cursor_for_def)
  have "isl (fst (NextInstance (Some ?lb) (Some sample_snapshot) ''users''))" by code_simp
  then obtain e lb' where "NextInstance (Some ?lb) (Some sample_snapshot) ''users'' = (Inl e, lb')"
    by (cases "NextInstance (Some ?lb) (Some sample_snapshot) ''users''") (auto simp: isl_def)
  from NextInstance_fails_only_if_all_unhealthy [OF h s(1,2) this s(3)] show ?thesis
    by (simp only: list_all_iff)
qed

text \<open>
  C7: In every run of the health manager and its check loops, in which snapshots are committed, loops
  tick in any order (cancelled loops too) and cancelled loops end, a key is withheld from routing
  only while the current target with that key has a running loop whose own status is unhealthy. No
  late result of a replaced or removed target can make an instance unroutable. The bound is that
  of the 64-bit generation counter.
\<close>

theorem unroutable_means_current_loop_unhealthy:
  assumes "health_run n sys" "n < 2 ^ 64" "\<not> IsRoutableKey (Some (Store (HManager sys))) k"
  shows "\<exists>l \<in> set (Loops sys).
    map_of (Targets (HManager sys)) (TargetKey (LoopTarget l)) = Some (LoopTarget l) \<and>
    THealthKey (TargetKey (LoopTarget l)) = k \<and> LoopStatus l = StatusUnhealthy \<and>
    LoopTarget l \<notin> set (Cancelled sys)"
proof -
  have inv: "store_tracks (HManager sys) (Loops sys)"
    "targets_run (HManager sys) (LoopTarget ` set (Loops sys)) (set (Cancelled sys))"
    using health_run_inv [OF assms(1,2)] unfolding health_inv_def by blast+
  obtain r where "map_of (Store (HManager sys)) k = Some r" "RecStatus r = StatusUnhealthy"
    using assms(3) by (auto simp: IsRoutableKey_iff split: option.splits)
  then obtain l where "l \<in> set (Loops sys)" "current (HManager sys) (LoopTarget l)"
    "THealthKey (TargetKey (LoopTarget l)) = k" "LoopStatus l = StatusUnhealthy"
    using inv(1) unfolding store_tracks_def by metis
  then show ?thesis using inv(2) unfolding targets_run_def current_def by blast
qed

text \<open>A concrete run: one commit, then two failed checks of the first loop.\<close>

definition sample_runtime :: runtime_settings where
  "sample_runtime = \<lparr>REnabled = True, RPath = ''/actuator/health'', RInterval = 5 * second,
     RTimeout = 2 * second, RJitter = 2 * second, RMaxBackoff = 5 * minute,
     RFailureThreshold = 2, RSuccessThreshold = 1\<rparr>"

definition sample_svc :: service_settings where
  "sample_svc = the (map_of (Services sample_snapshot) ''users'')"

lemma sample_runtime_eq: "runtimeSettingsFrom (SvcHealth sample_svc) = Inr sample_runtime"
  by code_simp

definition sample_key :: "nat \<Rightarrow> target_key" where
  "sample_key i = targetKeyFor ''users'' (SvcInstances sample_svc ! i)"

lemma sample_keys:
  "sample_key 0 = \<lparr>TServiceName = ''users'', TScheme = ''http'', THost = ''10.0.0.1'',
     TPort = ''8080'', THealthKey = ''users|http|10.0.0.1|8080''\<rparr>"
  "sample_key (Suc 0) = \<lparr>TServiceName = ''users'', TScheme = ''http'', THost = ''10.0.0.2'',
     TPort = ''8080'', THealthKey = ''users|http|10.0.0.2|8080''\<rparr>"
  by code_simp+

definition sample_desire :: "nat \<Rightarrow> desired_target" where
  "sample_desire i = \<lparr>DesiredKey = sample_key i, DesiredInstance = SvcInstances sample_svc ! i,
     DesiredSettings = sample_runtime, DesiredJitter = jitterFor (sample_key i) (2 * second)\<rparr>"

lemma sample_svc_instances: "SvcInstances sample_svc =
    [SvcInstances sample_svc ! 0, SvcInstances sample_svc ! Suc 0]"
  by (simp add: sample_svc_def sample_snapshot_def)

lemma desire_sample:
  "desire_instance ''users'' sample_runtime m (SvcInstances sample_svc ! 0) =
     AList.update (sample_key 0) (sample_desire 0) m"
  "desire_instance ''users'' sample_runtime m (SvcInstances sample_svc ! Suc 0) =
     AList.update (sample_key (Suc 0)) (sample_desire (Suc 0)) m"
  by (simp_all add: desire_instance_def Let_def sample_desire_def sample_keys sample_runtime_def
      flip: sample_key_def)

lemma sample_services: "Services sample_snapshot = [(''users'', sample_svc)]"
  by (simp add: sample_svc_def sample_snapshot_def)

lemma desire_service_sample:
  "desire_service m (''users'', svc) =
     foldl (desire_instance ''users'' sample_runtime) m (SvcInstances svc)"
  if "SvcHealth svc = SvcHealth sample_svc"
  unfolding desire_service_def using that by (simp add: sample_runtime_eq sample_runtime_def)

lemma sample_desired: "desiredTargets (Some sample_snapshot) =
    [(sample_key 0, sample_desire 0), (sample_key (Suc 0), sample_desire (Suc 0))]"
  unfolding desiredTargets_def option.case sample_services foldl.simps
    desire_service_sample [OF refl]
  by (subst sample_svc_instances) (simp add: desire_sample sample_keys)

definition sample_started :: "nat \<Rightarrow> target" where
  "sample_started i = new_target (sample_key i) (sample_desire i) (of_nat i + 1)"

lemma sample_reconcile:
  "reconcile (Some sample_snapshot) (HManager health_init) =
     ([], [sample_started 0, sample_started (Suc 0)],
      \<lparr>Targets = [(sample_key 0, sample_started 0), (sample_key (Suc 0), sample_started (Suc 0))],
       Store = [(THealthKey (sample_key 0), fresh_record 1), (THealthKey (sample_key (Suc 0)), fresh_record 2)],
       Client = Some 2, MaxIdleConns = 2, ManagerGeneration = 2\<rparr>)"
  unfolding reconcile_def sample_desired
  by (simp add: health_init_def Health_NewManager_def replaceClientLocked_def NewStore_def
      sample_started_def new_target_def fresh_record_def SetUnknown_def sample_keys Let_def)

definition run_two_failures :: "health_system" where
  "run_two_failures =
     (let (cancels, started, m1) = reconcile (Some sample_snapshot) (HManager health_init);
          ls = map start_loop started;
          (d1, l1, m2) = run_tick 0 SendError (ls ! 0) m1;
          (d2, l2, m3) = run_tick 1 (ResponseStatus 503) l1 m2
      in \<lparr>HManager = m3, Loops = ls[0 := l2], Cancelled = cancels\<rparr>)"

lemma run_two_failures_run: "health_run 2 run_two_failures"
proof -
  obtain cs st m1 where r: "reconcile (Some sample_snapshot) (HManager health_init) = (cs, st, m1)"
    by (metis prod.collapse)
  let ?ls = "map start_loop st"
  obtain d1 l1 m2 where t1: "run_tick 0 SendError (?ls ! 0) m1 = (d1, l1, m2)" by (metis prod.collapse)
  obtain d2 l2 m3 where t2: "run_tick 1 (ResponseStatus 503) l1 m2 = (d2, l2, m3)" by (metis prod.collapse)
  have len: "length st = 2" using r sample_reconcile by auto
  have c: "Cancelled health_init = []" "Loops health_init = []" by (simp_all add: health_init_def)
  have "health_run 2 \<lparr>HManager = m1, Loops = ?ls, Cancelled = cs\<rparr>"
    using health_run.commit [OF health_run.init r] by (simp add: len c numeral_2_eq_2)
  then have "health_run 2 \<lparr>HManager = m2, Loops = ?ls[0 := l1], Cancelled = cs\<rparr>"
    using health_run.tick [of 2 "\<lparr>HManager = m1, Loops = ?ls, Cancelled = cs\<rparr>" 0] len t1 by simp
  then have "health_run 2 \<lparr>HManager = m3, Loops = ?ls[0 := l2], Cancelled = cs\<rparr>"
    using health_run.tick [of 2 "\<lparr>HManager = m2, Loops = ?ls[0 := l1], Cancelled = cs\<rparr>" 0] len t2 by simp
  then show ?thesis using r t1 t2 by (simp add: run_two_failures_def)
qed

lemma sample_started_simps:
  "TargetKey (sample_started i) = sample_key i" "TargetGeneration (sample_started i) = of_nat i + 1"
  "TargetSettings (sample_started i) = sample_runtime"
  by (simp_all add: sample_started_def sample_desire_def)

lemma run_two_failures_store:
  "map_option RecStatus (map_of (Store (HManager run_two_failures)) ''users|http|10.0.0.1|8080'') =
     Some StatusUnhealthy"
  "map_of (Targets (HManager run_two_failures)) (sample_key 0) = Some (sample_started 0)"
  by (simp_all add: run_two_failures_def sample_reconcile run_tick_def check_def loop_result_def start_loop_def
      setStatus_def UpdateStatus_def sample_started_simps sample_keys fresh_record_def Let_def
      sample_runtime_def)

theorem unroutable_means_current_loop_unhealthy_witness:
  "\<exists>l \<in> set (Loops run_two_failures). LoopStatus l = StatusUnhealthy"
proof -
  have "\<not> IsRoutableKey (Some (Store (HManager run_two_failures))) ''users|http|10.0.0.1|8080''"
    using run_two_failures_store(1) by (auto simp: IsRoutableKey_iff)
  then show ?thesis
    using unroutable_means_current_loop_unhealthy [OF run_two_failures_run] by fastforce
qed

text \<open>
  C24: Hysteresis of one loop: after any sequence of check results the status is unhealthy exactly
  when at some point the failure threshold of consecutive failures was reached and at no later point
  the success threshold of consecutive successes was; and the stored counters are the lengths of
  the current runs.
\<close>

theorem loop_status_hysteresis:
  assumes "1 \<le> RFailureThreshold (TargetSettings t)" "1 \<le> RSuccessThreshold (TargetSettings t)"
  shows "(LoopStatus (loop_after t bs) = StatusUnhealthy \<longleftrightarrow>
      (\<exists>i \<le> length bs. int (trailing False (take i bs)) \<ge> RFailureThreshold (TargetSettings t) \<and>
        (\<forall>j. i < j \<and> j \<le> length bs \<longrightarrow>
           int (trailing True (take j bs)) < RSuccessThreshold (TargetSettings t)))) \<and>
    LoopFailures (loop_after t bs) = int (trailing False bs) \<and>
    LoopSuccesses (loop_after t bs) = int (trailing True bs)"
  using loop_unhealthy_iff [OF assms, of bs] loop_counters [of t bs] by blast

theorem loop_status_hysteresis_witness:
  "LoopStatus (loop_after (sample_started 0) [True, False, False]) = StatusUnhealthy"
proof -
  have "int (trailing False (take 3 [True, False, False])) \<ge> RFailureThreshold sample_runtime"
    by code_simp
  moreover have "1 \<le> RFailureThreshold (TargetSettings (sample_started 0))"
    "1 \<le> RSuccessThreshold (TargetSettings (sample_started 0))"
    by (simp_all add: sample_started_simps sample_runtime_def)
  ultimately show ?thesis
    using loop_status_hysteresis [of "sample_started 0" "[True, False, False]"] unfolding sample_started_simps
    by fastforce
qed

text \<open>
  C27: The delay before the next check: the interval while the failures stay below the threshold, then
  the interval doubled once per further failure until half of the maximal back-off is passed, then
  exactly the maximal back-off; in every case with the jitter added. It never leaves the range from
  interval plus jitter to maximal back-off plus jitter and never shrinks when failures are added.
\<close>

theorem nextInterval_backoff:
  assumes s: "settings_sane s" "0 \<le> j" "RMaxBackoff s + j \<le> max_duration"
  shows "nextInterval s j cf = j +
      (if cf < RFailureThreshold s then RInterval s
       else let i = RInterval s * 2 ^ nat (cf - RFailureThreshold s) in
         if i \<ge> RMaxBackoff s div 2 then RMaxBackoff s else i * 2) \<and>
    RInterval s + j \<le> nextInterval s j cf \<and> nextInterval s j cf \<le> RMaxBackoff s + j \<and>
    nextInterval s j cf \<le> nextInterval s j (cf + 1)"
proof -
  note eq = nextInterval_eq [OF s]
  have b: "0 < RInterval s" "RInterval s \<le> RMaxBackoff s" using s(1) by (simp_all add: settings_sane_def)
  let ?p = "\<lambda>n. RInterval s * 2 ^ n"
  have mono: "?p n \<le> ?p (Suc n)" "RInterval s \<le> ?p n" for n
    using b(1) one_le_power [of "2 :: int" n] by (simp_all add: mult_le_cancel_left1)
  have suc: "nat (cf + 1 - RFailureThreshold s) = Suc (nat (cf - RFailureThreshold s))"
    if "\<not> cf < RFailureThreshold s" using that by simp
  have one: "(1 :: int) \<le> 2 ^ n * 2" for n using one_le_power [of "2 :: int" n] by linarith
  have "RInterval s + j \<le> nextInterval s j cf \<and> nextInterval s j cf \<le> RMaxBackoff s + j"
    unfolding eq Let_def using b mono [of "nat (cf - RFailureThreshold s)"]
    by (auto simp: one)
  moreover have "nextInterval s j cf \<le> nextInterval s j (cf + 1)"
  proof (cases "cf < RFailureThreshold s")
    case True
    then show ?thesis unfolding eq Let_def using b mono(2) by (smt (verit))
  next
    case False
    then have f: "\<not> cf + 1 < RFailureThreshold s" by simp
    show ?thesis unfolding eq Let_def suc [OF False] using False f mono [of "nat (cf - RFailureThreshold s)"]
      by auto
  qed
  ultimately show ?thesis using eq by simp
qed

theorem nextInterval_backoff_witness:
  "nextInterval sample_runtime 7 3 = 20 * second + 7 \<and>
   nextInterval sample_runtime 7 100 \<le> 5 * minute + 7"
proof -
  have s: "settings_sane sample_runtime" "(0 :: int) \<le> 7"
    "RMaxBackoff sample_runtime + 7 \<le> max_duration"
    by (simp_all add: sample_runtime_def settings_sane_def max_duration_def)
  show ?thesis
    using nextInterval_backoff [OF s, of 3] nextInterval_backoff [OF s, of 100]
    by (simp add: sample_runtime_def)
qed


section \<open>Properties of the reconciliation\<close>

lemma started_desired:
  assumes gok: "gomap_ok (Targets m)" and r: "reconcile c m = (cancels, started, m')"
  shows "TargetKey ` set started = {k. map_of (missing (Targets m) (desiredTargets c)) k \<noteq> None}"
    and "t \<in> set started \<Longrightarrow>
      \<exists>d. map_of (desiredTargets c) (TargetKey t) = Some d \<and> TargetSettings t = DesiredSettings d"
proof -
  let ?mi = "missing (Targets m) (desiredTargets c)"
  have st: "started = new_targets (ManagerGeneration m) ?mi"
    using r unfolding reconcile_eq [OF gok refl refl refl refl] by auto
  note np = new_targets_props [of "ManagerGeneration m" ?mi, folded st]
  show "TargetKey ` set started = {k. map_of ?mi k \<noteq> None}"
    using arg_cong [OF np(1), of set] by (auto simp: map_of_eq_None_iff)
  assume "t \<in> set started"
  then obtain i where i: "i < length ?mi" "started ! i = t" using np(4) by (metis in_set_conv_nth)
  then have t: "TargetKey t = fst (?mi ! i)" "TargetSettings t = DesiredSettings (snd (?mi ! i))"
    using arg_cong [OF np(1), of "\<lambda>xs. xs ! i"] arg_cong [OF np(3), of "\<lambda>xs. xs ! i"] np(4) by simp_all
  have "map_of ?mi (fst (?mi ! i)) = Some (snd (?mi ! i))" using missing_props(2) [OF gok, of c] i by simp
  then have "map_of (desiredTargets c) (fst (?mi ! i)) = Some (snd (?mi ! i))"
    unfolding missing_props(1) [OF gok] by (auto split: option.splits if_splits)
  then show "\<exists>d. map_of (desiredTargets c) (TargetKey t) = Some d \<and> TargetSettings t = DesiredSettings d" using t by auto
qed

lemma reconciled_targets:
  assumes gok: "gomap_ok (Targets m)" and r: "reconcile c m = (cancels, started, m')"
  shows "map_of (Targets m') k = Some t \<Longrightarrow>
      \<exists>d. map_of (desiredTargets c) k = Some d \<and> TargetSettings t = DesiredSettings d"
    and "map_of (Targets m') k = None \<longleftrightarrow> map_of (desiredTargets c) k = None"
proof -
  let ?d = "desiredTargets c"
  note R = reconcile_effect(6) [OF gok r]
  show cur: "\<exists>d. map_of ?d k = Some d \<and> TargetSettings t = DesiredSettings d" if asm: "map_of (Targets m') k = Some t" for t
  proof -
    consider "t \<in> set started" "TargetKey t = k" | "keeps ?d k t" using asm unfolding R by blast
    then show ?thesis
    proof cases
      case 1
      then show ?thesis using started_desired(2) [OF gok r] by blast
    next
      case 2
      then show ?thesis by (cases "map_of ?d k") (simp_all add: keeps_def)
    qed
  qed
  have "map_of (Targets m') k \<noteq> None" if "map_of ?d k \<noteq> None"
  proof -
    have "map_of (missing (Targets m) ?d) k \<noteq> None \<or> (\<exists>t. map_of (Targets m) k = Some t \<and> keeps ?d k t)"
      using that unfolding missing_props(1) [OF gok] by (auto split: option.splits)
    then have "k \<in> TargetKey ` set started \<or> (\<exists>t. map_of (Targets m) k = Some t \<and> keeps ?d k t)"
      unfolding started_desired(1) [OF gok r] by simp
    then show ?thesis using R by (metis imageE option.distinct(1))
  qed
  then show "map_of (Targets m') k = None \<longleftrightarrow> map_of ?d k = None" using cur by (metis not_None_eq option.distinct(1))
qed

text \<open>
  C23: After \<open>OnSnapshotCommitted\<close> the targets are exactly the desired ones of that snapshot with
  their settings; a target whose settings did not change keeps its record, its generation and its
  loop, and exactly the others are cancelled or started; the status of a dropped target is forgotten,
  so its key is routable unless a kept or new target shares it.
\<close>

theorem reconcile_follows_snapshot:
  assumes gok: "gomap_ok (Targets m)" and r: "reconcile c m = (cancels, started, m')"
  shows "(\<forall>k. (map_of (Targets m') k = None) = (map_of (desiredTargets c) k = None)) \<and>
    (\<forall>k t. map_of (Targets m') k = Some t \<longrightarrow>
       TargetSettings t = DesiredSettings (the (map_of (desiredTargets c) k)) \<and>
       (t \<in> set started \<or> map_of (Targets m) k = Some t)) \<and>
    (\<forall>k t. map_of (Targets m) k = Some t \<longrightarrow>
       (if keeps (desiredTargets c) k t then map_of (Targets m') k = Some t else t \<in> set cancels)) \<and>
    (\<forall>k. THealthKey k \<noteq> [] \<and> (\<exists>t. map_of (Targets m) k = Some t \<and> \<not> keeps (desiredTargets c) k t) \<longrightarrow>
       IsRoutableKey (Some (Store m')) (THealthKey k))"
proof (intro conjI allI impI)
  note R = reconcile_effect [OF gok r] and T = reconciled_targets [OF gok r]
  let ?d = "desiredTargets c"
  show "(map_of (Targets m') k = None) = (map_of ?d k = None)" for k by (rule T(2))
  show "TargetSettings t = DesiredSettings (the (map_of ?d k))" if "map_of (Targets m') k = Some t" for k t
    using T(1) [OF that] by auto
  show "t \<in> set started \<or> map_of (Targets m) k = Some t" if "map_of (Targets m') k = Some t" for k t
    using that R(6) by blast
  show "if keeps ?d k t then map_of (Targets m') k = Some t else t \<in> set cancels"
    if "map_of (Targets m) k = Some t" for k t
    using that R(5,6) by auto
  show "IsRoutableKey (Some (Store m')) (THealthKey k)"
    if a: "THealthKey k \<noteq> [] \<and> (\<exists>t. map_of (Targets m) k = Some t \<and> \<not> keeps ?d k t)" for k
  proof (cases "map_of (Store m') (THealthKey k)")
    case (Some q)
    then have "RecStatus q = StatusUnknown"
      using R(9) [OF Some] a by (auto simp: fresh_record_def)
    then show ?thesis using Some by (simp add: IsRoutableKey_iff status_defs)
  qed (simp add: IsRoutableKey_iff)
qed

theorem reconcile_follows_snapshot_witness:
  "\<exists>cancels started m'. reconcile None (HManager run_two_failures) = (cancels, started, m') \<and>
     IsRoutableKey (Some (Store m')) ''users|http|10.0.0.1|8080''"
proof -
  let ?m = "HManager run_two_failures"
  obtain cs st m' where r: "reconcile None ?m = (cs, st, m')" by (metis prod.collapse)
  have g: "gomap_ok (Targets ?m)" using health_run_inv [OF run_two_failures_run] by (simp add: health_inv_def)
  let ?k = "sample_key 0"
  have "map_of (Targets ?m) ?k = Some (sample_started 0)" by (rule run_two_failures_store)
  moreover have "\<not> keeps (desiredTargets None) ?k (sample_started 0)" by (simp add: keeps_def desiredTargets_def)
  moreover have "THealthKey ?k = ''users|http|10.0.0.1|8080''" by (simp add: sample_keys)
  ultimately have "IsRoutableKey (Some (Store m')) (THealthKey ?k)"
    using reconcile_follows_snapshot [OF g r, THEN conjunct2, THEN conjunct2, THEN conjunct2, rule_format, of ?k]
    by auto
  then show ?thesis using r \<open>THealthKey ?k = _\<close> by metis
qed

text \<open>
  Remark: Every service of a consistent snapshot is watched with sane settings: its stored health settings
  parse back without error to positive interval, timeout and back-off within the bounds of
  \<open>time.Duration\<close>, so \<open>desiredTargets\<close> never skips a service because of its settings, and the
  deterministic jitter of an instance lies below the configured one.
\<close>

theorem registered_health_settings_parse:
  assumes "snapshot_ok c" "map_of (Services c) n = Some svc"
  shows "\<exists>h s. SvcHealth svc = Some h \<and> runtimeSettingsFrom (Some h) = Inr s \<and> settings_sane s \<and>
    0 < RTimeout s \<and> REnabled s = the (Enabled h) \<and>
    Interval h = duration_string (RInterval s) \<and> MaxBackoff h = duration_string (RMaxBackoff s) \<and>
    (\<forall>k. 0 \<le> jitterFor k (RJitter s) \<and> (jitterFor k (RJitter s) < RJitter s \<or> RJitter s = 0))"
proof -
  obtain h where h: "SvcHealth svc = Some h" "health_normal h"
    using snapshot_okD(3) [OF assms] by (auto simp: service_ok_def split: option.splits)
  obtain s where s: "runtimeSettingsFrom (Some h) = Inr s" "settings_sane s" "0 \<le> RJitter s"
    "RJitter s \<le> max_duration" "0 < RTimeout s" "REnabled s = the (Enabled h)"
    "Interval h = duration_string (RInterval s)" "MaxBackoff h = duration_string (RMaxBackoff s)"
    using runtimeSettingsFrom_normal [OF h(2)] by blast
  have "0 \<le> jitterFor k (RJitter s) \<and> (jitterFor k (RJitter s) < RJitter s \<or> RJitter s = 0)" for k
    using jitterFor_bounds [of "RJitter s" k] s(3,4) by (cases "RJitter s = 0") (auto simp: jitterFor_def)
  then show ?thesis using h(1) s by blast
qed

theorem registered_health_settings_parse_witness:
  "\<exists>h s. SvcHealth (the (map_of (Services sample_snapshot) ''users'')) = Some h \<and>
     runtimeSettingsFrom (Some h) = Inr s \<and> settings_sane s"
proof -
  have "map_of (Services sample_snapshot) ''users'' = Some (the (map_of (Services sample_snapshot) ''users''))"
    by (simp add: sample_snapshot_def)
  from registered_health_settings_parse [OF sample_ok this] show ?thesis by blast
qed

definition sample_snapshot1 :: snapshot where
  "sample_snapshot1 = sample_snapshot\<lparr>Revision := 1,
     Services := [(''users'', sample_svc\<lparr>SvcInstances := [SvcInstances sample_svc ! 0]\<rparr>)]\<rparr>"

definition listening :: "nat manager" where
  "listening = AddSnapshotListener (Some 0) NewManager"

lemma Register_commit_from:
  assumes "fst (Register_commit s m) = Inr (ls, c)"
  shows "Register_commit s m = (Inr (ls, c), commit c m)"
  using assms by (cases rule: Register_commit_cases [of s m]) auto

lemma register_first:
  "Register_commit (sample_settings ''users'' ''10.0.0.1'' ''/users'') listening =
     (Inr ([Some 0], sample_snapshot1), commit sample_snapshot1 listening)"
  by (rule Register_commit_from) code_simp

lemma register_second:
  "Register_commit (sample_settings ''users'' ''10.0.0.2'' ''/users'') (commit sample_snapshot1 listening) =
     (Inr ([Some 0], sample_snapshot), commit sample_snapshot (commit sample_snapshot1 listening))"
  by (rule Register_commit_from) code_simp

lemma sample_desired1: "desiredTargets (Some sample_snapshot1) = [(sample_key 0, sample_desire 0)]"
  by (simp add: desiredTargets_def sample_snapshot1_def desire_service_sample desire_sample)

text \<open>
  Remark: \<open>Register\<close> calls its listeners after it has released the lock, and the health manager does not
  look at the revision, so two registrations can notify in the other order: the active snapshot then
  has two instances while the health manager is left with the target of the older snapshot only, and
  the second instance is not checked.
\<close>

theorem late_notification_leaves_stale_targets:
  "let (r1, m1) = Register_commit (sample_settings ''users'' ''10.0.0.1'' ''/users'') listening;
       (r2, m2) = Register_commit (sample_settings ''users'' ''10.0.0.2'' ''/users'') m1;
       calls1 = notifySnapshotListeners (fst (projr r1)) (snd (projr r1));
       calls2 = notifySnapshotListeners (fst (projr r2)) (snd (projr r2));
       h0 = Health_NewManager None;
       (cancels2, started2, h1) = reconcile (Some (snd (hd calls2))) h0;
       (cancels1, started1, h2) = reconcile (Some (snd (hd calls1))) h1
   in \<not> isl r1 \<and> \<not> isl r2 \<and>
      length (SvcInstances (the (ConfigFor ''users'' (Some m2)))) = 2 \<and>
      map (THost \<circ> fst) (Targets h2) = [''10.0.0.1'']"
proof -
  have two: "length (SvcInstances (the (ConfigFor ''users'' (Some (commit sample_snapshot (commit sample_snapshot1 listening)))))) = 2"
    by code_simp
  have h0: "HManager health_init = Health_NewManager None" by (simp add: health_init_def)
  show ?thesis
    using two
    by (simp add: register_first register_second notifySnapshotListeners_def sample_reconcile [unfolded h0])
      (simp add: reconcile_def sample_desired1 sample_started_simps sample_desire_def sample_keys
        replaceClientLocked_def Let_def)
qed

end
