(* ===== verification/GoPath.thy ===== *)
theory GoPath
  imports GoStrings
begin

text \<open>
  The functions of \<open>path/filepath\<close> the program uses, for Unix paths: \<open>IsAbs\<close>, \<open>Clean\<close>, \<open>Join\<close> and
  \<open>Dir\<close>, and the bounds on their lengths that make a walk to the root directory end.
\<close>

definition path_is_abs :: "string \<Rightarrow> bool" where
  "path_is_abs p = has_prefix p ''/''"

text \<open>The components of a path, the last one first: \<open>.\<close> and empty components vanish, \<open>..\<close> drops one.\<close>

fun path_stack :: "bool \<Rightarrow> string list \<Rightarrow> string list \<Rightarrow> string list" where
  "path_stack rooted st [] = st"
| "path_stack rooted st (c # cs) =
     (if c = [] \<or> c = ''.'' then path_stack rooted st cs
      else if c = ''..'' then
        (case st of
           [] \<Rightarrow> path_stack rooted (if rooted then [] else [c]) cs
         | d # ds \<Rightarrow> path_stack rooted (if d = ''..'' then c # st else ds) cs)
      else path_stack rooted (c # st) cs)"

fun join_with :: "char \<Rightarrow> string list \<Rightarrow> string" where
  "join_with c [] = []"
| "join_with c [x] = x"
| "join_with c (x # y # xs) = x @ c # join_with c (y # xs)"

definition path_clean :: "string \<Rightarrow> string" where
  "path_clean p =
     (let rooted = path_is_abs p;
          out = rev (path_stack rooted [] (split_on CHR ''/'' p))
      in if rooted then CHR ''/'' # join_with CHR ''/'' out
         else if out = [] then ''.'' else join_with CHR ''/'' out)"

definition path_join :: "string \<Rightarrow> string \<Rightarrow> string" where
  "path_join a b =
     (if a = [] then (if b = [] then [] else path_clean b) else path_clean (a @ CHR ''/'' # b))"

text \<open>\<open>Dir\<close>: everything up to the last separator, cleaned.\<close>

definition path_dir :: "string \<Rightarrow> string" where
  "path_dir p = path_clean (rev (dropWhile (\<lambda>c. c \<noteq> CHR ''/'') (rev p)))"

section \<open>Lengths\<close>

definition comps_length :: "string list \<Rightarrow> nat" where
  "comps_length cs = (\<Sum>c \<leftarrow> cs. length c + 1)"

lemma comps_length_simps [simp]:
  "comps_length [] = 0" "comps_length (c # cs) = length c + 1 + comps_length cs"
  "comps_length (cs @ ds) = comps_length cs + comps_length ds"
  "comps_length (rev cs) = comps_length cs"
  by (simp_all add: comps_length_def rev_map [symmetric])

lemma comps_length_split: "comps_length (split_on c s) = length s + 1"
  by (induction c s rule: split_on.induct) (auto split: list.splits)

lemma length_join_with: "xs \<noteq> [] \<Longrightarrow> length (join_with c xs) + 1 = comps_length xs"
  by (induction c xs rule: join_with.induct) auto

lemma length_join_with_le: "length (join_with c xs) \<le> comps_length xs - 1"
  using length_join_with [of xs c] by (cases "xs = []") auto

lemma path_stack_length:
  "comps_length (path_stack rooted st cs) \<le> comps_length st + comps_length (filter (\<lambda>c. c \<noteq> []) cs)"
  by (induction rooted st cs rule: path_stack.induct) (auto split: list.splits if_splits)

lemma comps_length_filter_le: "comps_length (filter P cs) \<le> comps_length cs"
  by (induction cs) auto

lemma comps_length_filter_less:
  "[] \<in> set cs \<Longrightarrow> comps_length (filter (\<lambda>c. c \<noteq> []) cs) + 1 \<le> comps_length cs"
proof (induction cs)
  case (Cons c cs)
  then show ?case using comps_length_filter_le [of "\<lambda>c. c \<noteq> []" cs] by (cases "c = []") auto
qed simp

lemma split_on_snoc: "split_on c (s @ [c]) = split_on c s @ [[]]"
  by (induction c s rule: split_on.induct) (auto split: list.splits)

lemma split_on_empty_last: "s \<noteq> [] \<Longrightarrow> last s = c \<Longrightarrow> [] \<in> set (split_on c s)"
  using split_on_snoc [of c "butlast s"] append_butlast_last_id [of s] by auto

text \<open>\<open>Clean\<close> never makes a non-empty path longer, and makes one that ends in a separator shorter.\<close>

lemma path_clean_length: "p \<noteq> [] \<Longrightarrow> length (path_clean p) \<le> length p"
proof -
  assume p: "p \<noteq> []"
  let ?st = "path_stack (path_is_abs p) [] (split_on CHR ''/'' p)"
  have st: "comps_length ?st \<le> comps_length (filter (\<lambda>c. c \<noteq> []) (split_on CHR ''/'' p))"
    using path_stack_length [of "path_is_abs p" "[]" "split_on CHR ''/'' p"] by simp
  have all: "comps_length (filter (\<lambda>c. c \<noteq> []) (split_on CHR ''/'' p)) \<le> length p + 1"
    using comps_length_filter_le comps_length_split [of "CHR ''/''" p] by metis
  have j: "length (join_with CHR ''/'' (rev ?st)) \<le> comps_length ?st - 1"
    using length_join_with_le [of "CHR ''/''" "rev ?st"] by simp
  show "length (path_clean p) \<le> length p"
  proof (cases "path_is_abs p")
    case True
    then obtain q where q: "p = CHR ''/'' # q" using p by (cases p) (auto simp: path_is_abs_def has_prefix_def)
    have "comps_length (filter (\<lambda>c. c \<noteq> []) (split_on CHR ''/'' p)) \<le> length p"
      using comps_length_filter_le [of "\<lambda>c. c \<noteq> []" "split_on CHR ''/'' q"]
        comps_length_split [of "CHR ''/''" q] by (simp add: q)
    then show ?thesis using True st j p by (simp add: path_clean_def Let_def) (cases p; simp)
  next
    case False
    then show ?thesis using st all j p by (auto simp: path_clean_def Let_def Suc_le_eq)
  qed
qed

lemma path_clean_shorter:
  assumes "p \<noteq> []" "last p = CHR ''/''" "p \<noteq> ''/''"
  shows "length (path_clean p) < length p"
proof -
  let ?st = "path_stack (path_is_abs p) [] (split_on CHR ''/'' p)"
  have st: "comps_length ?st \<le> comps_length (filter (\<lambda>c. c \<noteq> []) (split_on CHR ''/'' p))"
    using path_stack_length [of "path_is_abs p" "[]" "split_on CHR ''/'' p"] by simp
  have j: "length (join_with CHR ''/'' (rev ?st)) \<le> comps_length ?st - 1"
    using length_join_with_le [of "CHR ''/''" "rev ?st"] by simp
  show ?thesis
  proof (cases "path_is_abs p")
    case True
    then obtain q where q: "p = CHR ''/'' # q" "q \<noteq> []" "last q = CHR ''/''"
      using assms by (cases p) (auto simp: path_is_abs_def has_prefix_def)
    have "comps_length (filter (\<lambda>c. c \<noteq> []) (split_on CHR ''/'' p)) + 1 \<le> length p"
      using comps_length_filter_less [OF split_on_empty_last [OF q(2,3)]]
        comps_length_split [of "CHR ''/''" q] by (simp add: q)
    then have "comps_length ?st \<le> length q" using st q(1) by simp
    moreover have "0 < length q" using q by simp
    ultimately have "comps_length ?st - 1 < length q" by arith
    then show ?thesis using True j q(1) by (simp add: path_clean_def Let_def)
  next
    case False
    then have "2 \<le> length p" using assms
      by (cases p; cases "tl p") (auto simp: path_is_abs_def has_prefix_def)
    moreover have "comps_length (filter (\<lambda>c. c \<noteq> []) (split_on CHR ''/'' p)) \<le> length p"
      using comps_length_filter_less [OF split_on_empty_last [OF assms(1,2)]]
        comps_length_split [of "CHR ''/''" p] by simp
    ultimately show ?thesis using False st j by (auto simp: path_clean_def Let_def)
  qed
qed

lemma path_stack_nonempty: "[] \<notin> set st \<Longrightarrow> [] \<notin> set (path_stack rooted st cs)"
  by (induction rooted st cs rule: path_stack.induct) (auto split: list.splits if_splits)

lemma join_with_Nil: "join_with c xs = [] \<Longrightarrow> xs = [] \<or> xs = [[]]"
  by (induction c xs rule: join_with.induct) auto

lemma path_clean_nonempty: "path_clean p \<noteq> []"
  using path_stack_nonempty [of "[]" "path_is_abs p" "split_on CHR ''/'' p"]
  by (auto simp: path_clean_def Let_def dest!: join_with_Nil)

lemma path_dir_shorter: "p \<noteq> [] \<Longrightarrow> path_dir p \<noteq> p \<Longrightarrow> p \<noteq> ''.'' \<Longrightarrow> length (path_dir p) < length p \<or> path_dir p = ''.''"
proof -
  assume p: "p \<noteq> []" and ne: "path_dir p \<noteq> p" and nd: "p \<noteq> ''.''"
  let ?q = "rev (dropWhile (\<lambda>c. c \<noteq> CHR ''/'') (rev p))"
  let ?t = "rev (takeWhile (\<lambda>c. c \<noteq> CHR ''/'') (rev p))"
  have split: "p = ?q @ ?t" by (metis rev_append rev_rev_ident takeWhile_dropWhile_id)
  have le: "length p = length ?q + length ?t" using arg_cong [OF split, of length] by (simp only: length_append)
  show ?thesis
  proof (cases "?q = []")
    case True
    then have "path_dir p = ''.''" unfolding path_dir_def True
      by (simp add: path_clean_def path_is_abs_def has_prefix_def)
    then show ?thesis by simp
  next
    case False
    then have "dropWhile (\<lambda>c. c \<noteq> CHR ''/'') (rev p) \<noteq> []" by simp
    then have l: "last ?q = CHR ''/''"
      using hd_dropWhile [of "\<lambda>c. c \<noteq> CHR ''/''" "rev p"] by (simp only: last_rev not_not not_False_eq_True)
    show ?thesis
    proof (cases "?q = ''/''")
      case True
      then have d: "path_dir p = ''/''" unfolding path_dir_def True
        by (simp add: path_clean_def path_is_abs_def has_prefix_def)
      have "?t \<noteq> []"
      proof
        assume "?t = []"
        then have "p = ''/''" using split unfolding True by simp
        then show False using d ne by simp
      qed
      then have "0 < length ?t" by simp
      then show ?thesis using d le True by simp
    next
      case f: False
      then show ?thesis using path_clean_shorter [OF False l f] le unfolding path_dir_def by linarith
    qed
  qed
qed

end
