(* ===== verification/PoolConfig.thy ===== *)
theory PoolConfig
  imports GoPath Utils GoTime
begin

text \<open>
  Package \<open>internal/pool/config\<close> (\<open>config.go\<close>, \<open>consts.go\<close>, \<open>file.go\<close>): the connection pool settings of
  the shared pool and of the dedicated tiers, the package variables they are kept in, and the
  settings file they are read from.

  A \<open>Tier\<close> is a Go string type, so any string can arrive; the four constants are named below. The
  package variables are the record \<open>pool_globals\<close>. The file system and the YAML decoder are
  parameters: \<open>stat\<close> tells whether a path exists, \<open>decode\<close> what the file holds.
\<close>

section \<open>State\<close>

type_synonym tier = string

definition TierShared :: tier where "TierShared = ''shared''"
definition TierNormal :: tier where "TierNormal = ''normal''"
definition TierHot :: tier where "TierHot = ''hot''"
definition TierSuper :: tier where "TierSuper = ''super''"

lemmas tier_defs = TierShared_def TierNormal_def TierHot_def TierSuper_def

record pool_config =
  PCTier :: tier
  MaxIdleConns :: int
  MaxIdleConnsPerHost :: int
  MaxConnsPerHost :: int
  IdleConnTimeout :: duration
  ResponseHeaderTimeout :: duration
  TLSHandshakeTimeout :: duration
  ExpectContinueTimeout :: duration

record pool_globals =
  GlobalShared :: pool_config
  GlobalTiers :: "(tier, pool_config) gomap"
  Configured :: bool

definition empty_pool_config :: pool_config where
  "empty_pool_config = \<lparr>PCTier = [], MaxIdleConns = 0, MaxIdleConnsPerHost = 0, MaxConnsPerHost = 0,
     IdleConnTimeout = 0, ResponseHeaderTimeout = 0, TLSHandshakeTimeout = 0, ExpectContinueTimeout = 0\<rparr>"

definition initial_pool_globals :: pool_globals where
  "initial_pool_globals = \<lparr>GlobalShared = empty_pool_config, GlobalTiers = [], Configured = False\<rparr>"

definition pool_config_error :: "string \<Rightarrow> go_error" where
  "pool_config_error msg = errorf [PoolConfig_ErrInvalidConfig] msg"

section \<open>Operations (\<open>config.go\<close>)\<close>

definition normalizeTier :: "tier \<Rightarrow> tier result" where
  "normalizeTier tier =
     (case NormalizeEnum tier [] [TierShared, TierNormal, TierHot, TierSuper] of
        None \<Rightarrow> Inl (pool_config_error ''unsupported tier'')
      | Some normalizedTier \<Rightarrow> Inr normalizedTier)"

definition validateConfig :: "pool_config \<Rightarrow> go_error option" where
  "validateConfig config =
     (if MaxIdleConns config < 0 then
        Some (pool_config_error ''max idle connections must be greater than or equal to zero'')
      else if MaxIdleConnsPerHost config < 0 then
        Some (pool_config_error ''max idle connections per host must be greater than or equal to zero'')
      else if MaxConnsPerHost config < 0 then
        Some (pool_config_error ''max connections per host must be greater than or equal to zero'')
      else if IdleConnTimeout config < 0 then
        Some (pool_config_error ''idle connection timeout must be greater than or equal to zero'')
      else if ResponseHeaderTimeout config < 0 then
        Some (pool_config_error ''response header timeout must be greater than or equal to zero'')
      else if TLSHandshakeTimeout config < 0 then
        Some (pool_config_error ''tls handshake timeout must be greater than or equal to zero'')
      else if ExpectContinueTimeout config < 0 then
        Some (pool_config_error ''expect continue timeout must be greater than or equal to zero'')
      else None)"

text \<open>The loop over the tiers, in the order the map gives.\<close>

fun tier_configs_loop ::
  "(tier, pool_config) gomap \<Rightarrow> (tier, pool_config) gomap \<Rightarrow> (tier, pool_config) gomap result" where
  "tier_configs_loop nextTierConfigs [] = Inr nextTierConfigs"
| "tier_configs_loop nextTierConfigs ((tier, config) # tiers) =
     (if NormalizeTrimmed tier = [] then Inl (pool_config_error ''tier is required'')
      else (case normalizeTier tier of
        Inl e \<Rightarrow> Inl (wrap_err [] ''normalize tier'' e)
      | Inr normalizedTier \<Rightarrow>
          if normalizedTier = TierShared then
            Inl (pool_config_error ''shared pool must be configured separately from dedicated tiers'')
          else (let config = config\<lparr>PCTier := normalizedTier\<rparr> in
            case validateConfig config of
              Some e \<Rightarrow> Inl (wrap_err [] ''validate tier pool config'' e)
            | None \<Rightarrow> tier_configs_loop (gomap_put normalizedTier config nextTierConfigs) tiers)))"

definition require_tier :: "(tier, pool_config) gomap \<Rightarrow> tier \<Rightarrow> go_error option" where
  "require_tier nextTierConfigs tier =
     (if gomap_get nextTierConfigs tier = None then Some (pool_config_error ''tier config is required'')
      else None)"

definition Configure ::
  "pool_config \<Rightarrow> (tier, pool_config) gomap \<Rightarrow> pool_globals \<Rightarrow> go_error option \<times> pool_globals" where
  "Configure shared tiers g =
     (let shared = shared\<lparr>PCTier := TierShared\<rparr> in
      case validateConfig shared of
        Some e \<Rightarrow> (Some (wrap_err [] ''validate shared pool config'' e), g)
      | None \<Rightarrow> (case tier_configs_loop [] tiers of
          Inl e \<Rightarrow> (Some e, g)
        | Inr nextTierConfigs \<Rightarrow>
          (case first_error (require_tier nextTierConfigs) [TierNormal, TierHot, TierSuper] of
             Some e \<Rightarrow> (Some e, g)
           | None \<Rightarrow> (None, g\<lparr>GlobalShared := shared, GlobalTiers := nextTierConfigs, Configured := True\<rparr>))))"

definition SharedConfig :: "pool_globals \<Rightarrow> pool_config result" where
  "SharedConfig g =
     (if \<not> Configured g then Inl (pool_config_error ''pool config is not loaded'')
      else Inr (GlobalShared g))"

definition pool_ConfigFor :: "tier \<Rightarrow> pool_globals \<Rightarrow> pool_config result" where
  "pool_ConfigFor tier g =
     (if \<not> Configured g then Inl (pool_config_error ''pool config is not loaded'')
      else (case normalizeTier tier of
        Inl e \<Rightarrow> Inl e
      | Inr normalizedTier \<Rightarrow>
          if normalizedTier = TierShared then Inr (GlobalShared g)
          else (case gomap_get (GlobalTiers g) normalizedTier of
            None \<Rightarrow> Inl (pool_config_error ''unsupported tier'')
          | Some config \<Rightarrow> Inr config)))"

section \<open>The settings file (\<open>file.go\<close>)\<close>

record file_pool_value =
  FMaxIdleConns :: "int option"
  FMaxIdleConnsPerHost :: "int option"
  FMaxConnsPerHost :: "int option"
  FIdleConnTimeout :: "string option"
  FResponseHeaderTimeout :: "string option"
  FTLSHandshakeTimeout :: "string option"
  FExpectContinueTimeout :: "string option"

record file_pool_config =
  FShared :: "file_pool_value option"
  FTier :: "(tier, file_pool_value) gomap"

record file_config =
  FPool :: file_pool_config

definition parse_timeout :: "string \<Rightarrow> string \<Rightarrow> duration result" where
  "parse_timeout what s = (case parse_duration s of
     None \<Rightarrow> Inl (errorf [Ext] what) | Some d \<Rightarrow> Inr d)"

definition optional_timeout :: "string \<Rightarrow> string option \<Rightarrow> duration result" where
  "optional_timeout what s = (case s of None \<Rightarrow> Inr 0 | Some s \<Rightarrow> parse_timeout what s)"

definition file_value_config :: "file_pool_value \<Rightarrow> pool_config result" where
  "file_value_config c = (case FMaxIdleConns c of
     None \<Rightarrow> Inl (pool_config_error ''MaxIdleConns is required'')
   | Some maxIdleConns \<Rightarrow> (case FMaxIdleConnsPerHost c of
     None \<Rightarrow> Inl (pool_config_error ''MaxIdleConnsPerHost is required'')
   | Some maxIdleConnsPerHost \<Rightarrow> (case FMaxConnsPerHost c of
     None \<Rightarrow> Inl (pool_config_error ''MaxConnsPerHost is required'')
   | Some maxConnsPerHost \<Rightarrow> (case FIdleConnTimeout c of
     None \<Rightarrow> Inl (pool_config_error ''IdleConnTimeout is required'')
   | Some idle \<Rightarrow>
       res_bind (parse_timeout ''parse idle connection timeout'' idle) (\<lambda>idleConnTimeout.
       res_bind (optional_timeout ''parse response header timeout'' (FResponseHeaderTimeout c)) (\<lambda>responseHeaderTimeout.
       res_bind (optional_timeout ''parse tls handshake timeout'' (FTLSHandshakeTimeout c)) (\<lambda>tlsHandshakeTimeout.
       res_bind (optional_timeout ''parse expect continue timeout'' (FExpectContinueTimeout c)) (\<lambda>expectContinueTimeout.
         Inr \<lparr>PCTier = [], MaxIdleConns = maxIdleConns, MaxIdleConnsPerHost = maxIdleConnsPerHost,
           MaxConnsPerHost = maxConnsPerHost, IdleConnTimeout = idleConnTimeout,
           ResponseHeaderTimeout = responseHeaderTimeout, TLSHandshakeTimeout = tlsHandshakeTimeout,
           ExpectContinueTimeout = expectContinueTimeout\<rparr>))))))))"

fun file_tiers_loop :: "(tier, pool_config) gomap \<Rightarrow> (tier, file_pool_value) gomap \<Rightarrow>
  (tier, pool_config) gomap result" where
  "file_tiers_loop configs [] = Inr configs"
| "file_tiers_loop configs ((tier, fileConfig) # rest) =
     res_bind (file_value_config fileConfig) (\<lambda>poolConfig.
       file_tiers_loop (gomap_put tier (poolConfig\<lparr>PCTier := tier\<rparr>) configs) rest)"

definition file_configs :: "file_pool_config \<Rightarrow> (pool_config \<times> (tier, pool_config) gomap) result" where
  "file_configs c = (case FShared c of
     None \<Rightarrow> Inl (pool_config_error ''shared pool config is required'')
   | Some shared \<Rightarrow>
       if length (FTier c) = 0 then Inl (pool_config_error ''tier pool configs are required'')
       else res_bind (file_value_config shared) (\<lambda>sharedConfig.
         let sharedConfig = sharedConfig\<lparr>PCTier := TierShared\<rparr> in
         res_bind (file_tiers_loop [] (FTier c)) (\<lambda>configs. Inr (sharedConfig, configs))))"

datatype stat_result = Exists | NotExist | StatError

text \<open>The walk from the working directory to the root.\<close>

function search_parents :: "(string \<Rightarrow> stat_result) \<Rightarrow> string \<Rightarrow> string \<Rightarrow> string result" where
  "search_parents stat path workingDirectory =
     (case stat (path_join workingDirectory path) of
        Exists \<Rightarrow> Inr (path_join workingDirectory path)
      | StatError \<Rightarrow> Inl (errorf [Ext] ''stat pool config file'')
      | NotExist \<Rightarrow>
          (let parent = path_dir workingDirectory in
           if parent = workingDirectory then Inl (pool_config_error ''pool config file not found'')
           else search_parents stat path parent))"
  by pat_completeness auto

definition dir_measure :: "string \<Rightarrow> nat" where
  "dir_measure d = (if d = ''.'' then 0 else if d = [] then 1 else length d)"

lemma dir_measure_decreases: "path_dir d \<noteq> d \<Longrightarrow> dir_measure (path_dir d) < dir_measure d"
proof -
  assume ne: "path_dir d \<noteq> d"
  have dot: "path_dir ''.'' = ''.''" "path_dir [] = ''.''"
    by (simp_all add: path_dir_def path_clean_def path_is_abs_def has_prefix_def)
  show ?thesis
  proof (cases "d = [] \<or> d = ''.''")
    case True
    then show ?thesis using dot ne by (auto simp: dir_measure_def)
  next
    case False
    then have "length (path_dir d) < length d \<or> path_dir d = ''.''"
      using path_dir_shorter [of d] ne by blast
    then show ?thesis using False path_clean_nonempty by (cases d) (auto simp: dir_measure_def path_dir_def)
  qed
qed

termination search_parents
  by (relation "measure (\<lambda>(_, _, d). dir_measure d)") (auto intro: dir_measure_decreases)

declare search_parents.simps [simp del]

definition resolveConfigPath ::
  "(string \<Rightarrow> stat_result) \<Rightarrow> string option \<Rightarrow> string \<Rightarrow> string result" where
  "resolveConfigPath stat getwd path =
     (if path_is_abs path then Inr path
      else (case stat path of
        Exists \<Rightarrow> Inr path
      | StatError \<Rightarrow> Inl (errorf [Ext] ''stat pool config file'')
      | NotExist \<Rightarrow> (case getwd of
          None \<Rightarrow> Inl (errorf [Ext] ''get working directory'')
        | Some workingDirectory \<Rightarrow> search_parents stat path workingDirectory)))"

definition LoadConfig ::
  "(string \<Rightarrow> stat_result) \<Rightarrow> string option \<Rightarrow> (string \<Rightarrow> 'b option) \<Rightarrow> ('b \<Rightarrow> file_config option) \<Rightarrow>
   string \<Rightarrow> pool_globals \<Rightarrow> go_error option \<times> pool_globals" where
  "LoadConfig stat getwd read_file decode path g =
     (case resolveConfigPath stat getwd path of
        Inl e \<Rightarrow> (Some e, g)
      | Inr resolvedPath \<Rightarrow> (case read_file resolvedPath of
          None \<Rightarrow> (Some (errorf [Ext] ''read pool config file''), g)
        | Some configBody \<Rightarrow> (case decode configBody of
            None \<Rightarrow> (Some (errorf [Ext] ''decode pool config file''), g)
          | Some config \<Rightarrow> (case file_configs (FPool config) of
              Inl e \<Rightarrow> (Some e, g)
            | Inr (sharedConfig, tierConfigs) \<Rightarrow>
                (case Configure sharedConfig tierConfigs g of
                   (Some e, g') \<Rightarrow> (Some (wrap_err [] ''configure pool'' e), g')
                 | (None, g') \<Rightarrow> (None, g'))))))"

section \<open>The walk to the root\<close>

function ancestors :: "string \<Rightarrow> string list" where
  "ancestors d = d # (if path_dir d = d then [] else ancestors (path_dir d))"
  by pat_completeness auto

termination ancestors
  by (relation "measure dir_measure") (auto intro: dir_measure_decreases)

declare ancestors.simps [simp del]

lemma ancestors_length: "length (ancestors d) \<le> dir_measure d + 1"
proof (induction d rule: ancestors.induct)
  case (1 d)
  then show ?case using dir_measure_decreases [of d] by (subst ancestors.simps) auto
qed

section \<open>Clean absolute paths\<close>

definition plain_component :: "string \<Rightarrow> bool" where
  "plain_component c \<longleftrightarrow> c \<noteq> [] \<and> c \<noteq> ''.'' \<and> c \<noteq> ''..'' \<and> CHR ''/'' \<notin> set c"

definition abs_path :: "string list \<Rightarrow> string" where
  "abs_path cs = (if cs = [] then ''/'' else concat (map (\<lambda>c. CHR ''/'' # c) cs))"

lemma join_with_concat: "cs \<noteq> [] \<Longrightarrow> c # join_with c cs = concat (map (Cons c) cs)"
  by (induction c cs rule: join_with.induct) auto

lemma split_on_components:
  "list_all (\<lambda>w. c \<notin> set w) cs \<Longrightarrow> split_on c (concat (map (Cons c) cs) @ [c]) = [] # cs @ [[]]"
proof (induction cs)
  case (Cons w cs)
  then have "split_on c (concat (map (Cons c) cs) @ [c]) = [] # cs @ [[]]" by simp
  moreover obtain rest where rest: "concat (map (Cons c) cs) @ [c] = c # rest" by (cases cs) simp_all
  ultimately have "split_on c rest = cs @ [[]]" by simp
  then show ?case using Cons.prems split_on_append [of c w rest] rest by simp
qed simp

lemma path_stack_plain: "list_all plain_component cs \<Longrightarrow> path_stack True st (cs @ [[]]) = rev cs @ st"
  by (induction cs arbitrary: st) (auto simp: plain_component_def)

lemma path_clean_components:
  assumes "list_all plain_component cs"
  shows "path_clean (concat (map (Cons (CHR ''/'')) cs) @ ''/'') = abs_path cs"
proof -
  have "list_all (\<lambda>w. CHR ''/'' \<notin> set w) cs" using assms by (simp add: list_all_iff plain_component_def)
  then have "split_on (CHR ''/'') (concat (map (Cons (CHR ''/'')) cs) @ ''/'') = [] # cs @ [[]]" by (rule split_on_components)
  moreover have "path_is_abs (concat (map (Cons (CHR ''/'')) cs) @ ''/'')"
    by (cases cs) (simp_all add: path_is_abs_def has_prefix_def)
  ultimately show ?thesis using path_stack_plain [OF assms, of "[]"] join_with_concat [of cs "CHR ''/''"]
    by (simp add: path_clean_def Let_def abs_path_def)
qed

lemma path_dir_components:
  assumes "list_all plain_component (cs @ [c])"
  shows "path_dir (abs_path (cs @ [c])) = abs_path cs"
proof -
  have "\<forall>x \<in> set (rev c). x \<noteq> CHR ''/''" using assms by (auto simp: plain_component_def)
  then have "dropWhile (\<lambda>x. x \<noteq> CHR ''/'') (rev c @ CHR ''/'' # xs) = CHR ''/'' # xs" for xs
    by (subst dropWhile_append2) simp_all
  then have "rev (dropWhile (\<lambda>x. x \<noteq> CHR ''/'') (rev (abs_path (cs @ [c])))) = concat (map (Cons (CHR ''/'')) cs) @ ''/''"
    by (simp add: abs_path_def)
  then show ?thesis using assms path_clean_components [of cs] by (simp add: path_dir_def)
qed

lemma path_dir_root: "path_dir ''/'' = ''/''"
  by code_simp

lemma path_dir_fixed: "path_dir p = p \<Longrightarrow> p = ''/'' \<or> p = ''.''"
proof -
  assume fixed: "path_dir p = p"
  let ?q = "rev (dropWhile (\<lambda>c. c \<noteq> CHR ''/'') (rev p))"
  have "p = ?q @ rev (takeWhile (\<lambda>c. c \<noteq> CHR ''/'') (rev p))" by (metis rev_append rev_rev_ident takeWhile_dropWhile_id)
  from arg_cong [OF this, of length] have le: "length ?q \<le> length p" by simp
  have dir: "path_clean ?q = p" using fixed by (simp only: path_dir_def)
  show ?thesis
  proof (cases "?q = []")
    case True
    have "path_clean [] = ''.''" by code_simp
    then show ?thesis using dir True by simp
  next
    case False
    then have "dropWhile (\<lambda>c. c \<noteq> CHR ''/'') (rev p) \<noteq> []" by simp
    then have l: "last ?q = CHR ''/''"
      using hd_dropWhile [of "\<lambda>c. c \<noteq> CHR ''/''" "rev p"] by (simp only: last_rev not_not not_False_eq_True)
    show ?thesis
    proof (cases "?q = ''/''")
      case True
      have "path_clean ''/'' = ''/''" by code_simp
      then show ?thesis using dir True by simp
    next
      case f: False
      then show ?thesis using path_clean_shorter [OF False l f] le dir by simp
    qed
  qed
qed

lemma ancestors_walk:
  "hd (ancestors d) = d \<and> last (ancestors d) \<in> {''/'', ''.''} \<and> distinct (ancestors d) \<and>
   sorted_wrt (\<lambda>a b. dir_measure b < dir_measure a) (ancestors d)"
proof (induction d rule: ancestors.induct)
  case (1 d)
  show ?case
  proof (cases "path_dir d = d")
    case True
    then show ?thesis using path_dir_fixed [OF True] by (subst (1 2 3 4) ancestors.simps) simp
  next
    case False
    let ?as = "ancestors (path_dir d)"
    have as: "ancestors d = d # ?as" using False by (subst ancestors.simps) simp
    have ih: "hd ?as = path_dir d" "last ?as \<in> {''/'', ''.''}" "distinct ?as"
      "sorted_wrt (\<lambda>a b. dir_measure b < dir_measure a) ?as" using 1 [OF False] by simp_all
    obtain bs where bs: "?as = path_dir d # bs" using ancestors.simps [of "path_dir d"] by metis
    have less: "dir_measure a < dir_measure d" if "a \<in> set ?as" for a
      using that ih(4) dir_measure_decreases [OF False] unfolding bs by auto
    then have "d \<notin> set ?as" by blast
    then show ?thesis using ih less bs unfolding as by simp
  qed
qed

lemma ancestors_components:
  "list_all plain_component cs \<Longrightarrow>
     ancestors (abs_path cs) = map (\<lambda>n. abs_path (take n cs)) (rev [0 ..< Suc (length cs)])"
proof (induction cs rule: rev_induct)
  case Nil
  show ?case using path_dir_root by (subst ancestors.simps) (simp add: abs_path_def)
next
  case (snoc c cs)
  have dir: "path_dir (abs_path (cs @ [c])) = abs_path cs" using path_dir_components [OF snoc.prems] .
  moreover have "length (abs_path cs) < length (abs_path (cs @ [c])) \<or> cs = []" by (simp add: abs_path_def)
  moreover have "abs_path [c] \<noteq> abs_path []" using snoc.prems by (simp add: abs_path_def plain_component_def)
  ultimately have "path_dir (abs_path (cs @ [c])) \<noteq> abs_path (cs @ [c])" by auto
  then have "ancestors (abs_path (cs @ [c])) = abs_path (cs @ [c]) # ancestors (abs_path cs)"
    by (subst ancestors.simps) (simp add: dir)
  moreover have "map (\<lambda>n. abs_path (take n (cs @ [c]))) (rev [0 ..< Suc (length cs)]) =
      map (\<lambda>n. abs_path (take n cs)) (rev [0 ..< Suc (length cs)])" by simp
  ultimately show ?case using snoc by simp
qed

lemma search_parents_find:
  "search_parents stat path d =
     (case List.find (\<lambda>a. stat (path_join a path) \<noteq> NotExist) (ancestors d) of
        None \<Rightarrow> Inl (pool_config_error ''pool config file not found'')
      | Some a \<Rightarrow> if stat (path_join a path) = Exists then Inr (path_join a path)
          else Inl (errorf [Ext] ''stat pool config file''))"
proof (induction stat path d rule: search_parents.induct)
  case (1 stat path d)
  then show ?case
    by (subst search_parents.simps, subst ancestors.simps)
      (auto simp: Let_def split: stat_result.splits)
qed

text \<open>
  C40: The search for the settings file always returns. From a working directory \<open>/c1/.../cn\<close> it looks at that directory
  and then at its parents, each shorter by one component, down to the root \<open>/\<close>, at each once; from any other directory,
  such as one with \<open>..\<close> in it, at a chain of different directories, at most as many as the path has characters and two,
  that ends at \<open>/\<close> (at \<open>.\<close> if it is relative). It stops at the first one where the file exists or \<open>Stat\<close> fails, and
  fails when there is none.
\<close>

theorem search_parents_terminates:
  "\<exists>ds. search_parents stat path d =
      (case List.find (\<lambda>a. stat (path_join a path) \<noteq> NotExist) ds of
         None \<Rightarrow> Inl (pool_config_error ''pool config file not found'')
       | Some a \<Rightarrow> if stat (path_join a path) = Exists then Inr (path_join a path)
           else Inl (errorf [Ext] ''stat pool config file'')) \<and>
    hd ds = d \<and> last ds \<in> {''/'', ''.''} \<and> distinct ds \<and> length ds \<le> length d + 2 \<and>
    (\<forall>cs. d = abs_path cs \<and> list_all plain_component cs \<longrightarrow>
       ds = map (\<lambda>n. abs_path (take n cs)) (rev [0 ..< Suc (length cs)]))"
proof (intro exI [of _ "ancestors d"] conjI)
  show "length (ancestors d) \<le> length d + 2"
    using ancestors_length [of d] by (auto simp: dir_measure_def split: if_splits)
qed (use search_parents_find ancestors_walk ancestors_components in blast)+

text \<open>From \<open>/srv/gate\<close>, where only the root has the file.\<close>

theorem search_parents_terminates_witness:
  "search_parents (\<lambda>p. if p = ''/config.yml'' then Exists else NotExist) ''config.yml'' ''/srv/gate'' = Inr ''/config.yml''"
proof -
  let ?stat = "\<lambda>p. if p = ''/config.yml'' then Exists else NotExist" and ?cs = "[''srv'', ''gate'']"
  have d: "''/srv/gate'' = abs_path ?cs" "list_all plain_component ?cs" by code_simp+
  have dirs: "map (\<lambda>n. abs_path (take n ?cs)) (rev [0 ..< Suc (length ?cs)]) = [''/srv/gate'', ''/srv'', ''/'']" by code_simp
  have joins: "path_join ''/srv/gate'' ''config.yml'' = ''/srv/gate/config.yml''"
    "path_join ''/srv'' ''config.yml'' = ''/srv/config.yml''" "path_join ''/'' ''config.yml'' = ''/config.yml''" by code_simp+
  obtain ds where "search_parents ?stat ''config.yml'' ''/srv/gate'' =
      (case List.find (\<lambda>a. ?stat (path_join a ''config.yml'') \<noteq> NotExist) ds of
         None \<Rightarrow> Inl (pool_config_error ''pool config file not found'')
       | Some a \<Rightarrow> if ?stat (path_join a ''config.yml'') = Exists then Inr (path_join a ''config.yml'')
           else Inl (errorf [Ext] ''stat pool config file''))"
    "\<forall>cs. ''/srv/gate'' = abs_path cs \<and> list_all plain_component cs \<longrightarrow>
       ds = map (\<lambda>n. abs_path (take n cs)) (rev [0 ..< Suc (length cs)])"
    using search_parents_terminates [of ?stat "''config.yml''" "''/srv/gate''"] by blast
  moreover from this(2) have "ds = [''/srv/gate'', ''/srv'', ''/'']" using d unfolding dirs [symmetric] by blast
  ultimately show ?thesis using joins by simp
qed

section \<open>What the globals hold\<close>

lemma normalizeTier_eq:
  "normalizeTier t = (if NormalizeLower t \<in> {TierShared, TierNormal, TierHot, TierSuper}
     then Inr (NormalizeLower t) else Inl (pool_config_error ''unsupported tier''))"
proof -
  have n: "TierShared \<noteq> []" "TierNormal \<noteq> []" "TierHot \<noteq> []" "TierSuper \<noteq> []" "NormalizeLower [] = []"
    by (simp_all add: tier_defs NormalizeLower_def to_lower_def)
  have lower: "map NormalizeLower [TierShared, TierNormal, TierHot, TierSuper] = [TierShared, TierNormal, TierHot, TierSuper]"
    by code_simp
  have "NormalizeEnum t [] [TierShared, TierNormal, TierHot, TierSuper] =
      (if NormalizeLower t \<in> {TierShared, TierNormal, TierHot, TierSuper} then Some (NormalizeLower t) else None)"
    using n lower by (cases "NormalizeLower t = []") (auto simp: NormalizeEnum_def Let_def)
  then show ?thesis by (simp add: normalizeTier_def)
qed

lemma normalizeTier_Inr_iff:
  "normalizeTier t = Inr n \<longleftrightarrow> n = NormalizeLower t \<and> n \<in> {TierShared, TierNormal, TierHot, TierSuper}"
  by (auto simp: normalizeTier_eq)

lemma normalizeTier_tier [simp]:
  "normalizeTier TierShared = Inr TierShared" "normalizeTier TierNormal = Inr TierNormal"
  "normalizeTier TierHot = Inr TierHot" "normalizeTier TierSuper = Inr TierSuper"
  by code_simp+

lemma tier_distinct [simp]:
  "TierNormal \<noteq> TierShared" "TierHot \<noteq> TierShared" "TierSuper \<noteq> TierShared"
  "TierShared \<noteq> TierNormal" "TierShared \<noteq> TierHot" "TierShared \<noteq> TierSuper"
  "TierNormal \<noteq> TierHot" "TierHot \<noteq> TierNormal" "TierNormal \<noteq> TierSuper" "TierSuper \<noteq> TierNormal"
  "TierHot \<noteq> TierSuper" "TierSuper \<noteq> TierHot"
  by (simp_all add: tier_defs)

lemma validateConfig_tier [simp]: "validateConfig (c\<lparr>PCTier := t\<rparr>) = validateConfig c"
  by (simp add: validateConfig_def)

abbreviation dedicated_tiers :: "tier set" where
  "dedicated_tiers \<equiv> {TierNormal, TierHot, TierSuper}"

definition tier_map_ok :: "(tier, pool_config) gomap \<Rightarrow> bool" where
  "tier_map_ok m \<longleftrightarrow> gomap_ok m \<and> (\<forall>t c. gomap_get m t = Some c \<longrightarrow>
     t \<in> dedicated_tiers \<and> PCTier c = t \<and> validateConfig c = None)"

definition pool_globals_ok :: "pool_globals \<Rightarrow> bool" where
  "pool_globals_ok g \<longleftrightarrow> (Configured g \<longrightarrow>
     PCTier (GlobalShared g) = TierShared \<and> validateConfig (GlobalShared g) = None \<and>
     tier_map_ok (GlobalTiers g) \<and> (\<forall>t \<in> dedicated_tiers. gomap_get (GlobalTiers g) t \<noteq> None))"

lemma tier_configs_loop_ok:
  "tier_configs_loop acc tiers = Inr m \<Longrightarrow> tier_map_ok acc \<Longrightarrow> tier_map_ok m"
proof (induction acc tiers rule: tier_configs_loop.induct)
  case (2 acc tier config tiers)
  then obtain n where n: "normalizeTier tier = Inr n" "n \<noteq> TierShared" "validateConfig config = None"
    and loop: "tier_configs_loop (gomap_put n (config\<lparr>PCTier := n\<rparr>) acc) tiers = Inr m"
    by (auto simp: Let_def split: if_splits sum.splits option.splits)
  have "n \<in> dedicated_tiers" using n normalizeTier_Inr_iff by auto
  then have "tier_map_ok (gomap_put n (config\<lparr>PCTier := n\<rparr>) acc)"
    using 2(3) n(3) unfolding tier_map_ok_def by (simp add: gomap_ok_put)
  then show ?case using 2 n loop by (auto simp: Let_def split: if_splits)
qed (simp add: tier_map_ok_def)

text \<open>The condition under which the tiers are accepted.\<close>

definition tier_entry_ok :: "tier \<times> pool_config \<Rightarrow> bool" where
  "tier_entry_ok p \<longleftrightarrow> NormalizeLower (fst p) \<in> dedicated_tiers \<and> validateConfig (snd p) = None"

lemma tier_configs_loop_iff:
  "(\<exists>m. tier_configs_loop acc tiers = Inr m) \<longleftrightarrow> list_all tier_entry_ok tiers"
proof (induction acc tiers rule: tier_configs_loop.induct)
  case (2 acc tier config tiers)
  have "NormalizeTrimmed tier = [] \<Longrightarrow> NormalizeLower tier = []"
    by (simp add: NormalizeTrimmed_def NormalizeLower_def to_lower_def)
  moreover have "[] \<notin> dedicated_tiers" by (simp add: tier_defs)
  ultimately have blank: "NormalizeTrimmed tier = [] \<Longrightarrow> NormalizeLower tier \<notin> dedicated_tiers" by metis
  show ?case
  proof (cases "NormalizeLower tier \<in> dedicated_tiers \<and> validateConfig config = None")
    case True
    then have "normalizeTier tier = Inr (NormalizeLower tier)" "NormalizeLower tier \<noteq> TierShared"
      "NormalizeTrimmed tier \<noteq> []" using normalizeTier_Inr_iff blank by auto
    then show ?thesis using 2 True by (simp add: tier_entry_ok_def Let_def)
  next
    case False
    have "\<nexists>m. tier_configs_loop acc ((tier, config) # tiers) = Inr m"
    proof (cases "normalizeTier tier")
      case (Inl e)
      then show ?thesis by simp
    next
      case (Inr n)
      then have "n = TierShared \<or> validateConfig config \<noteq> None"
        using False normalizeTier_Inr_iff [of tier n] by (metis insert_iff)
      then show ?thesis using Inr by auto
    qed
    then show ?thesis using False by (auto simp: tier_entry_ok_def)
  qed
qed simp

lemma tier_configs_loop_dom:
  "tier_configs_loop acc tiers = Inr m \<Longrightarrow>
     gomap_get m t \<noteq> None \<longleftrightarrow> gomap_get acc t \<noteq> None \<or> t \<in> NormalizeLower ` fst ` set tiers"
proof (induction acc tiers rule: tier_configs_loop.induct)
  case (2 acc tier config tiers)
  then obtain n where n: "normalizeTier tier = Inr n" "n \<noteq> TierShared" "validateConfig config = None"
      "NormalizeTrimmed tier \<noteq> []"
    and loop: "tier_configs_loop (gomap_put n (config\<lparr>PCTier := n\<rparr>) acc) tiers = Inr m"
    by (auto simp: Let_def split: if_splits sum.splits option.splits)
  have "n = NormalizeLower tier" using n normalizeTier_Inr_iff by auto
  then show ?case using 2(1) [OF n(4,1,2) refl _ loop] n by (auto split: if_splits)
qed simp


definition Configure_accepts :: "pool_config \<Rightarrow> (tier, pool_config) gomap \<Rightarrow> bool" where
  "Configure_accepts shared tiers \<longleftrightarrow> validateConfig shared = None \<and> list_all tier_entry_ok tiers \<and>
     dedicated_tiers \<subseteq> NormalizeLower ` fst ` set tiers"

lemma Configure_cases:
  obtains (refused) e where "Configure shared tiers g = (Some e, g)" "\<not> Configure_accepts shared tiers"
  | (accepted) m where "Configure shared tiers g =
      (None, g\<lparr>GlobalShared := shared\<lparr>PCTier := TierShared\<rparr>, GlobalTiers := m, Configured := True\<rparr>)"
      "Configure_accepts shared tiers" "tier_configs_loop [] tiers = Inr m"
      "\<forall>t \<in> dedicated_tiers. gomap_get m t \<noteq> None"
proof (cases "validateConfig shared")
  case (Some e)
  then show ?thesis by (intro refused) (simp_all add: Configure_def Configure_accepts_def)
next
  case None
  show ?thesis
  proof (cases "tier_configs_loop [] tiers")
    case (Inl e)
    then have "\<not> list_all tier_entry_ok tiers" using tier_configs_loop_iff [of "[]" tiers] by simp
    then show ?thesis using None Inl by (intro refused) (simp_all add: Configure_def Configure_accepts_def)
  next
    case (Inr m)
    then have ok: "list_all tier_entry_ok tiers" using tier_configs_loop_iff [of "[]" tiers] by blast
    have dom: "gomap_get m t \<noteq> None \<longleftrightarrow> t \<in> NormalizeLower ` fst ` set tiers" for t
      using tier_configs_loop_dom [OF Inr, of t] by simp
    show ?thesis
    proof (cases "first_error (require_tier m) [TierNormal, TierHot, TierSuper]")
      case None': None
      then have all: "\<forall>t \<in> dedicated_tiers. gomap_get m t \<noteq> None"
        by (simp only: first_error_None_iff) (simp add: require_tier_def split: if_splits)
      then have "Configure_accepts shared tiers"
        using None ok dom by (simp add: Configure_accepts_def)
      then show ?thesis using None None' Inr all by (intro accepted) (simp_all only: Configure_def Let_def
            validateConfig_tier option.case sum.case)
    next
      case (Some e)
      then have "\<not> (\<forall>t \<in> dedicated_tiers. gomap_get m t \<noteq> None)"
        using first_error_None_iff [of "require_tier m" "[TierNormal, TierHot, TierSuper]"]
        by (auto simp: require_tier_def simp del: first_error.simps split: if_splits)
      then have "\<not> Configure_accepts shared tiers" unfolding dom Configure_accepts_def by blast
      then show ?thesis using None Some Inr by (intro refused) (simp_all only: Configure_def Let_def
            validateConfig_tier option.case sum.case not_False_eq_True)
    qed
  qed
qed

text \<open>
  Remark: \<open>Configure\<close> succeeds iff the shared settings and those of every tier are non-negative, every tier
  name is, trimmed and in lower case, \<open>normal\<close>, \<open>hot\<close> or \<open>super\<close>, and all three occur; otherwise the
  globals stay as they were.
\<close>

theorem Configure_succeeds_iff:
  "(fst (Configure shared tiers g) = None \<longleftrightarrow> Configure_accepts shared tiers) \<and>
   (fst (Configure shared tiers g) = None \<or> snd (Configure shared tiers g) = g)"
  by (cases rule: Configure_cases [of shared tiers g]) simp_all

lemma Configure_ok: "pool_globals_ok g \<Longrightarrow> pool_globals_ok (snd (Configure shared tiers g))"
proof (cases rule: Configure_cases [of shared tiers g])
  case (accepted m)
  have "tier_map_ok m" using tier_configs_loop_ok [OF accepted(3)] by (simp add: tier_map_ok_def)
  then show ?thesis using accepted by (simp add: pool_globals_ok_def Configure_accepts_def)
qed simp

lemma LoadConfig_ok:
  "pool_globals_ok g \<Longrightarrow> pool_globals_ok (snd (LoadConfig stat getwd read_file decode path g))"
proof -
  assume g: "pool_globals_ok g"
  have "pool_globals_ok g'" if "Configure shared tiers g = (e, g')" for shared tiers e g'
    using Configure_ok [OF g, of shared tiers] that by simp
  then show ?thesis using g unfolding LoadConfig_def
    by (auto split: sum.splits option.splits prod.splits)
qed

lemma initial_pool_globals_ok: "pool_globals_ok initial_pool_globals"
  by (simp add: pool_globals_ok_def initial_pool_globals_def)

text \<open>Once configured, \<open>ConfigFor\<close> answers exactly for the four tier names.\<close>

lemma pool_ConfigFor_configured:
  assumes "pool_globals_ok g" "Configured g" "NormalizeLower t \<in> {TierShared, TierNormal, TierHot, TierSuper}"
  shows "\<exists>c. pool_ConfigFor t g = Inr c \<and> PCTier c = NormalizeLower t \<and> validateConfig c = None"
proof (cases "NormalizeLower t = TierShared")
  case True
  then show ?thesis using assms by (simp add: pool_ConfigFor_def normalizeTier_eq pool_globals_ok_def)
next
  case False
  then have d: "NormalizeLower t \<in> dedicated_tiers" using assms(3) by blast
  then obtain c where c: "gomap_get (GlobalTiers g) (NormalizeLower t) = Some c"
    using assms(1,2) unfolding pool_globals_ok_def by blast
  then have "PCTier c = NormalizeLower t \<and> validateConfig c = None"
    using assms(1,2) unfolding pool_globals_ok_def tier_map_ok_def by blast
  moreover have "normalizeTier t = Inr (NormalizeLower t)" using assms(3) normalizeTier_Inr_iff by blast
  ultimately show ?thesis using assms(2) False c by (simp add: pool_ConfigFor_def)
qed

lemma pool_ConfigFor_Inr:
  assumes "pool_globals_ok g" "pool_ConfigFor t g = Inr c"
  shows "Configured g \<and> PCTier c = NormalizeLower t \<and> NormalizeLower t \<in> {TierShared, TierNormal, TierHot, TierSuper} \<and>
    validateConfig c = None"
proof -
  obtain n where n: "Configured g" "normalizeTier t = Inr n"
    using assms(2) by (auto simp: pool_ConfigFor_def split: if_splits sum.splits)
  then have "n = NormalizeLower t" "n \<in> {TierShared, TierNormal, TierHot, TierSuper}"
    using normalizeTier_Inr_iff by blast+
  then show ?thesis using pool_ConfigFor_configured [OF assms(1) n(1), of t] assms(2) n(1) by auto
qed


text \<open>The globals after a list of calls of \<open>Configure\<close>.\<close>

definition configure_all :: "(pool_config \<times> (tier, pool_config) gomap) list \<Rightarrow> pool_globals" where
  "configure_all calls = foldl (\<lambda>g (shared, tiers). snd (Configure shared tiers g)) initial_pool_globals calls"

lemma configure_all_inv:
  "pool_globals_ok (configure_all calls) \<and>
   (Configured (configure_all calls) \<longleftrightarrow> list_ex (\<lambda>(shared, tiers). Configure_accepts shared tiers) calls)"
proof (induction calls rule: rev_induct)
  case Nil
  then show ?case using initial_pool_globals_ok by (simp add: configure_all_def initial_pool_globals_def)
next
  case (snoc c calls)
  obtain shared tiers where c: "c = (shared, tiers)" by fastforce
  have e: "configure_all (calls @ [c]) = snd (Configure shared tiers (configure_all calls))"
    by (simp add: configure_all_def c)
  have ok: "pool_globals_ok (configure_all (calls @ [c]))"
    unfolding e using snoc by (intro Configure_ok) simp
  have "Configured (configure_all (calls @ [c])) \<longleftrightarrow>
      Configured (configure_all calls) \<or> Configure_accepts shared tiers"
    unfolding e by (cases rule: Configure_cases [of shared tiers "configure_all calls"]) simp_all
  then show ?case using snoc ok by (simp add: c)
qed

text \<open>
  Remark: Whatever settings were offered before, \<open>ConfigFor\<close> succeeds iff one of them was accepted and the
  name is one of the four tiers up to case and space; the settings it returns then carry that tier
  and no negative number, and otherwise it fails with \<open>ErrInvalidConfig\<close>.
\<close>

theorem ConfigFor_after_Configure:
  "case pool_ConfigFor t (configure_all calls) of
     Inl e \<Rightarrow> errors_is e PoolConfig_ErrInvalidConfig \<and>
       \<not> (list_ex (\<lambda>(shared, tiers). Configure_accepts shared tiers) calls \<and>
          NormalizeLower t \<in> {TierShared, TierNormal, TierHot, TierSuper})
   | Inr c \<Rightarrow> list_ex (\<lambda>(shared, tiers). Configure_accepts shared tiers) calls \<and>
       NormalizeLower t \<in> {TierShared, TierNormal, TierHot, TierSuper} \<and>
       PCTier c = NormalizeLower t \<and> validateConfig c = None"
proof (cases "pool_ConfigFor t (configure_all calls)")
  case (Inl e)
  have "errors_is e PoolConfig_ErrInvalidConfig"
    using Inl by (auto simp: pool_ConfigFor_def normalizeTier_def pool_config_error_def
        split: if_splits sum.splits option.splits)
  then show ?thesis
    using Inl configure_all_inv [of calls] pool_ConfigFor_configured [of "configure_all calls" t] by auto
next
  case (Inr c)
  then show ?thesis
    using configure_all_inv [of calls] pool_ConfigFor_Inr [of "configure_all calls" t c] by simp
qed

text \<open>Two spellings of one tier: the map order decides which settings the tier gets.\<close>

lemma duplicate_tier_depends_on_map_order:
  fixes c1 c2 c3 shared :: pool_config
  defines "rest \<equiv> [(''normal'', c3), (''super'', c3)]"
  assumes "validateConfig shared = None" "validateConfig c1 = None" "validateConfig c2 = None" "validateConfig c3 = None"
  shows "pool_ConfigFor ''hot'' (configure_all [(shared, (''hot'', c1) # ('' HOT'', c2) # rest)]) = Inr (c2\<lparr>PCTier := ''hot''\<rparr>)"
    and "pool_ConfigFor ''hot'' (configure_all [(shared, ('' HOT'', c2) # (''hot'', c1) # rest)]) = Inr (c1\<lparr>PCTier := ''hot''\<rparr>)"
proof -
  have n: "normalizeTier ''hot'' = Inr ''hot''" "normalizeTier '' HOT'' = Inr ''hot''"
    "normalizeTier ''normal'' = Inr ''normal''" "normalizeTier ''super'' = Inr ''super''"
    "NormalizeTrimmed ''hot'' \<noteq> []" "NormalizeTrimmed '' HOT'' \<noteq> []" "NormalizeTrimmed ''normal'' \<noteq> []"
    "NormalizeTrimmed ''super'' \<noteq> []"
    by code_simp+
  show "pool_ConfigFor ''hot'' (configure_all [(shared, (''hot'', c1) # ('' HOT'', c2) # rest)]) = Inr (c2\<lparr>PCTier := ''hot''\<rparr>)"
    "pool_ConfigFor ''hot'' (configure_all [(shared, ('' HOT'', c2) # (''hot'', c1) # rest)]) = Inr (c1\<lparr>PCTier := ''hot''\<rparr>)"
    using assms n unfolding rest_def
    by (simp_all add: configure_all_def Configure_def pool_ConfigFor_def require_tier_def tier_defs Let_def)
qed

end
