(* ===== verification/Traffic.thy ===== *)
theory Traffic
  imports Utils GoTime "HOL-Library.Word"
begin

text \<open>
  Package \<open>internal/pool/traffic\<close> (\<open>record.go\<close>): per service counters of started, finished and
  running requests, and the requests of the last window kept in a ring of one-second buckets.

  The clock is an argument \<open>now\<close> of the operations. A record is created once and never replaced, so
  the pointer a \<open>DoneFunc\<close> closes over is represented by the key of the record.
\<close>

section \<open>State\<close>

record bucket =
  BSecond :: int
  BRequests :: "64 word"

record config_record =
  RInFlight :: int
  RStarted :: "64 word"
  RFinished :: "64 word"
  RTotalLatencyNano :: int
  RLastSeenNano :: int
  RBuckets :: "bucket list"

record recorder =
  Window :: duration
  Records :: "(string, config_record) gomap"

record traffic_status =
  StConfigKey :: string
  StInFlight :: int
  StStartedRequests :: "64 word"
  StFinishedRequests :: "64 word"
  StRequestsInWindow :: "64 word"
  StRPS :: float64
  StAverageLatency :: duration
  StWindow :: duration
  StLastSeenAt :: time

definition defaultWindow :: duration where
  "defaultWindow = minute"

text \<open>A completion function: \<open>DoneKey = None\<close> is \<open>noopDone\<close>, \<open>DoneFired\<close> the state of its \<open>sync.Once\<close>.\<close>

record done_func =
  DoneKey :: "string option"
  DoneStartedAt :: time
  DoneFired :: bool

definition noopDone :: done_func where
  "noopDone = \<lparr>DoneKey = None, DoneStartedAt = 0, DoneFired = False\<rparr>"

section \<open>Buckets\<close>

definition bucketCount :: "duration \<Rightarrow> nat" where
  "bucketCount window = (let count = go_div window second in if count < 1 then 1 else nat count)"

definition bucketIndex :: "int \<Rightarrow> nat \<Rightarrow> nat" where
  "bucketIndex unixSecond count =
     (let index = go_mod unixSecond (int count) in
      nat (if index < 0 then index + int count else index))"

definition bucketAdd :: "time \<Rightarrow> config_record \<Rightarrow> config_record" where
  "bucketAdd startedAt r =
     (let s = time_unix startedAt;
          index = bucketIndex s (length (RBuckets r));
          b = RBuckets r ! index
      in if BSecond b = s
         then r\<lparr>RBuckets := (RBuckets r)[index := b\<lparr>BRequests := BRequests b + 1\<rparr>]\<rparr>
         else r\<lparr>RBuckets := (RBuckets r)[index := \<lparr>BSecond = s, BRequests = 0 + 1\<rparr>]\<rparr>)"

definition requestsInWindow :: "time \<Rightarrow> config_record \<Rightarrow> 64 word" where
  "requestsInWindow now r =
     foldl (\<lambda>total b.
       let delta = time_unix now - BSecond b in
       if delta \<ge> 0 \<and> delta < int (length (RBuckets r)) then total + BRequests b else total)
     0 (RBuckets r)"

section \<open>The recorder\<close>

definition newRecorder :: "duration \<Rightarrow> recorder" where
  "newRecorder window =
     (let window = (if window \<le> 0 then defaultWindow else window);
          window = (if window < second then second else window)
      in \<lparr>Window = window - go_mod window second, Records = []\<rparr>)"

definition NewRecorder :: recorder where
  "NewRecorder = newRecorder defaultWindow"

definition findRecord :: "string \<Rightarrow> recorder \<Rightarrow> config_record option" where
  "findRecord configKey r = gomap_get (Records r) configKey"

definition new_record :: "duration \<Rightarrow> config_record" where
  "new_record window = \<lparr>RInFlight = 0, RStarted = 0, RFinished = 0, RTotalLatencyNano = 0,
     RLastSeenNano = 0,
     RBuckets = replicate (bucketCount window) \<lparr>BSecond = 0, BRequests = 0\<rparr>\<rparr>"

text \<open>The record under the key, created when it is missing.\<close>

definition traffic_recordFor :: "string \<Rightarrow> recorder \<Rightarrow> config_record \<times> recorder" where
  "traffic_recordFor configKey r = (case findRecord configKey r of
     Some rec \<Rightarrow> (rec, r)
   | None \<Rightarrow> (let rec = new_record (Window r) in
       (rec, r\<lparr>Records := gomap_put configKey rec (Records r)\<rparr>)))"

definition Start :: "time \<Rightarrow> string \<Rightarrow> recorder option \<Rightarrow> done_func \<times> recorder option" where
  "Start now configKey rp = (case rp of None \<Rightarrow> (noopDone, None)
   | Some r \<Rightarrow>
     (let normalizedConfigKey = NormalizeServiceName configKey in
      if normalizedConfigKey = [] then (noopDone, rp)
      else (let startedAt = now;
                (rec, r') = traffic_recordFor normalizedConfigKey r;
                rec' = bucketAdd startedAt
                  (rec\<lparr>RInFlight := wrap_i64 (RInFlight rec + 1), RStarted := RStarted rec + 1,
                       RLastSeenNano := time_unix_nano startedAt\<rparr>)
            in (\<lparr>DoneKey = Some normalizedConfigKey, DoneStartedAt = startedAt, DoneFired = False\<rparr>,
                Some (r'\<lparr>Records := gomap_put normalizedConfigKey rec' (Records r')\<rparr>)))))"

definition finish :: "time \<Rightarrow> time \<Rightarrow> config_record \<Rightarrow> config_record" where
  "finish now startedAt rec =
     (let finishedAt = now;
          latency = time_sub finishedAt startedAt;
          latency = (if latency < 0 then 0 else latency)
      in rec\<lparr>RInFlight := wrap_i64 (RInFlight rec - 1), RFinished := RFinished rec + 1,
             RTotalLatencyNano := wrap_i64 (RTotalLatencyNano rec + latency),
             RLastSeenNano := time_unix_nano finishedAt\<rparr>)"

text \<open>A call of the completion function.\<close>

definition call_done :: "time \<Rightarrow> done_func \<Rightarrow> recorder \<Rightarrow> done_func \<times> recorder" where
  "call_done now d r = (case DoneKey d of None \<Rightarrow> (d, r)
   | Some key \<Rightarrow>
     if DoneFired d then (d, r)
     else (d\<lparr>DoneFired := True\<rparr>,
       (case gomap_get (Records r) key of
          None \<Rightarrow> r
        | Some rec \<Rightarrow> r\<lparr>Records := gomap_put key (finish now (DoneStartedAt d) rec) (Records r)\<rparr>)))"

definition unixNanoToTime :: "int \<Rightarrow> time" where
  "unixNanoToTime unixNano = (if unixNano = 0 then zero_time else unixNano)"

text \<open>\<open>time.Duration.Seconds\<close>: whole seconds plus the fraction, in binary64.\<close>

definition duration_seconds :: "duration \<Rightarrow> float64" where
  "duration_seconds d = round64 (round64 (of_int (go_div d second)) +
     round64 (round64 (of_int (go_mod d second)) / 1000000000))"

definition StatusFor :: "time \<Rightarrow> string \<Rightarrow> recorder option \<Rightarrow> traffic_status result" where
  "StatusFor now configKey rp = (case rp of
     None \<Rightarrow> Inl (errorf [Traffic_ErrStatusNotFound] ''recorder is nil'')
   | Some r \<Rightarrow>
     (let normalizedConfigKey = NormalizeServiceName configKey in
      if normalizedConfigKey = [] then
        Inl (errorf [Traffic_ErrInvalidConfigKey] ''config key is required'')
      else (case findRecord normalizedConfigKey r of
        None \<Rightarrow> Inl (errorf [Traffic_ErrStatusNotFound] normalizedConfigKey)
      | Some rec \<Rightarrow>
        (let requests = requestsInWindow now rec;
             finishedRequests = RFinished rec;
             totalLatencyNano = RTotalLatencyNano rec
         in Inr \<lparr>StConfigKey = normalizedConfigKey, StInFlight = RInFlight rec,
              StStartedRequests = RStarted rec, StFinishedRequests = finishedRequests,
              StRequestsInWindow = requests,
              StRPS = round64 (round64 (of_nat (unat requests)) / duration_seconds (Window r)),
              StAverageLatency = (if finishedRequests > 0
                then wrap_i64 (go_div totalLatencyNano (sint finishedRequests)) else 0),
              StWindow = Window r, StLastSeenAt = unixNanoToTime (RLastSeenNano rec)\<rparr>))))"

section \<open>The ring of buckets counts the requests of the window\<close>

definition ring_add :: "int \<Rightarrow> bucket list \<Rightarrow> bucket list" where
  "ring_add s bs =
     (let i = bucketIndex s (length bs) in
      bs[i := (if BSecond (bs ! i) = s then (bs ! i)\<lparr>BRequests := BRequests (bs ! i) + 1\<rparr>
               else \<lparr>BSecond = s, BRequests = 1\<rparr>)])"

lemma bucketAdd_ring: "RBuckets (bucketAdd t r) = ring_add (time_unix t) (RBuckets r)"
  by (simp add: bucketAdd_def ring_add_def Let_def)

lemma bucketAdd_other [simp]:
  "RInFlight (bucketAdd t r) = RInFlight r" "RStarted (bucketAdd t r) = RStarted r"
  "RFinished (bucketAdd t r) = RFinished r" "RTotalLatencyNano (bucketAdd t r) = RTotalLatencyNano r"
  "RLastSeenNano (bucketAdd t r) = RLastSeenNano r"
  by (simp_all add: bucketAdd_def Let_def)

lemma bucketIndex_nonneg: "bucketIndex s n = nat (s mod int n)" if "0 \<le> s" "0 < n"
proof -
  have "\<not> s mod int n < 0" using that by (simp add: not_less)
  moreover have "go_mod s (int n) = s mod int n" using that by (intro go_mod_nonneg) simp_all
  ultimately show ?thesis unfolding bucketIndex_def Let_def by (simp only: if_False)
qed

lemma sorted_le_last: "sorted xs \<Longrightarrow> x \<in> set xs \<Longrightarrow> x \<le> last (xs :: int list)"
proof -
  assume s: "sorted xs" and x: "x \<in> set xs"
  then have "xs \<noteq> []" by auto
  then obtain ys where ys: "xs = ys @ [last xs]" using append_butlast_last_id [of xs] by metis
  have "sorted (ys @ [last xs])" using s ys by simp
  moreover have "x \<in> set (ys @ [last xs])" using x ys by simp
  ultimately show "x \<le> last xs" by (auto simp: sorted_append)
qed

text \<open>What bucket \<open>j\<close> holds after the seconds \<open>es\<close>: the last second of its class and its count.\<close>

definition bucket_for :: "nat \<Rightarrow> int list \<Rightarrow> nat \<Rightarrow> bucket" where
  "bucket_for n es j =
     (let xs = filter (\<lambda>s. s mod int n = int j) es in
      if xs = [] then \<lparr>BSecond = 0, BRequests = 0\<rparr>
      else \<lparr>BSecond = last xs, BRequests = of_nat (count_list es (last xs))\<rparr>)"

definition ring_ok :: "nat \<Rightarrow> int list \<Rightarrow> bucket list \<Rightarrow> bool" where
  "ring_ok n es bs \<longleftrightarrow> bs = map (bucket_for n es) [0 ..< n]"

lemma ring_ok_initial: "ring_ok n [] (replicate n \<lparr>BSecond = 0, BRequests = 0\<rparr>)"
  unfolding ring_ok_def by (rule nth_equalityI) (simp_all add: bucket_for_def)

lemma bucket_for_other:
  assumes "int j \<noteq> s mod int n"
  shows "bucket_for n (es @ [s]) j = bucket_for n es j"
proof -
  let ?xs = "filter (\<lambda>x. x mod int n = int j) es"
  have "?xs \<noteq> [] \<Longrightarrow> last ?xs \<noteq> s" using assms last_in_set [of ?xs] by auto
  then show ?thesis using assms by (auto simp: bucket_for_def Let_def)
qed

text \<open>What \<open>bucketAdd\<close> makes of the bucket of the second \<open>s\<close>.\<close>

lemma bucket_for_added:
  assumes i: "int i = s mod int n" and sorted: "sorted (es @ [s])"
  shows "(if BSecond (bucket_for n es i) = s
      then (bucket_for n es i)\<lparr>BRequests := BRequests (bucket_for n es i) + 1\<rparr>
      else \<lparr>BSecond = s, BRequests = 1\<rparr>) = bucket_for n (es @ [s]) i"
proof -
  let ?xs = "filter (\<lambda>x. x mod int n = int i) es"
  have le: "\<And>x. x \<in> set es \<Longrightarrow> x \<le> s" and se: "sorted es" using sorted by (auto simp: sorted_append)
  have mem: "s \<in> set es \<Longrightarrow> s \<in> set ?xs" using i by simp
  have new: "bucket_for n (es @ [s]) i = \<lparr>BSecond = s, BRequests = of_nat (count_list es s + 1)\<rparr>"
    using i by (simp add: bucket_for_def)
  consider "?xs = []" | "?xs \<noteq> []" "last ?xs = s" | "?xs \<noteq> []" "last ?xs \<noteq> s" by blast
  then show ?thesis
  proof cases
    case 1
    then have "s \<notin> set es" using mem by (metis empty_iff empty_set)
    then have c: "count_list es s = 0" by (simp add: count_list_0_iff)
    have e: "bucket_for n es i = \<lparr>BSecond = 0, BRequests = 0\<rparr>"
      unfolding bucket_for_def Let_def 1 by simp
    show ?thesis unfolding new e c by simp
  next
    case 2
    then show ?thesis unfolding new by (simp add: bucket_for_def)
  next
    case 3
    then have "last ?xs \<in> set es" using last_in_set [of ?xs] by auto
    then have "last ?xs < s" using le 3(2) by force
    moreover have "x \<le> last ?xs" if "x \<in> set ?xs" for x
      using sorted_wrt_filter [OF se] that by (rule sorted_le_last)
    ultimately have "s \<notin> set es" using mem by fastforce
    then have "count_list es s = 0" by (simp add: count_list_0_iff)
    then show ?thesis unfolding new using 3 by (simp add: bucket_for_def Let_def)
  qed
qed

lemma ring_add_ok:
  assumes ok: "ring_ok n es bs" and n: "0 < n" and sorted: "sorted (es @ [s])" and pos: "0 \<le> s"
  shows "ring_ok n (es @ [s]) (ring_add s bs)"
proof -
  let ?i = "nat (s mod int n)"
  have i: "?i < n" "int ?i = s mod int n" using n by (simp_all add: nat_less_iff)
  have len: "length bs = n" using ok by (simp add: ring_ok_def)
  have bsj: "bs ! j = bucket_for n es j" if "j < n" for j using ok that by (simp add: ring_ok_def)
  have bix: "bucketIndex s (length bs) = ?i" using bucketIndex_nonneg [OF pos n] len by simp
  note upd = bucket_for_added [OF i(2) sorted, folded bsj [OF i(1)]]
  have "bs[?i := bucket_for n (es @ [s]) ?i] = map (bucket_for n (es @ [s])) [0..<n]"
  proof (rule nth_equalityI)
    fix j assume "j < length (bs[?i := bucket_for n (es @ [s]) ?i])"
    then have "j < n" using len by simp
    then show "bs[?i := bucket_for n (es @ [s]) ?i] ! j = map (bucket_for n (es @ [s])) [0..<n] ! j"
      using bucket_for_other [of j s n es] bsj [of j] len i by (cases "j = ?i") auto
  qed (simp add: len)
  then show ?thesis unfolding ring_ok_def ring_add_def Let_def bix upd .
qed

text \<open>The one second of class \<open>j\<close> in the window that ends at \<open>now\<close>.\<close>

definition window_second :: "int \<Rightarrow> nat \<Rightarrow> nat \<Rightarrow> int" where
  "window_second now n j = now - (now - int j) mod int n"

lemma window_second_iff:
  assumes "j < n"
  shows "window_second now n j = s \<longleftrightarrow> now - int n < s \<and> s \<le> now \<and> s mod int n = int j"
proof
  assume s: "window_second now n j = s"
  have b: "0 \<le> (now - int j) mod int n" "(now - int j) mod int n < int n" using assms by simp_all
  have "s mod int n = (now - (now - int j)) mod int n"
    unfolding s [symmetric] window_second_def by (rule mod_diff_right_eq)
  moreover have "now - int n < s" "s \<le> now" using s b unfolding window_second_def by linarith+
  ultimately show "now - int n < s \<and> s \<le> now \<and> s mod int n = int j"
    using assms by simp
next
  assume a: "now - int n < s \<and> s \<le> now \<and> s mod int n = int j"
  have "(now - int j) mod int n = (now - s) mod int n" using a by (metis mod_diff_right_eq)
  also have "\<dots> = now - s" using a by (intro mod_pos_pos_trivial) auto
  finally show "window_second now n j = s" by (simp add: window_second_def)
qed

lemma sum_window_counts:
  "(\<Sum>j \<leftarrow> [0 ..< n]. count_list es (window_second now n j)) =
     length (filter (\<lambda>s. now - int n < s \<and> s \<le> now) es)" if "0 < n"
proof (induction es)
  case (Cons s es)
  have "(\<Sum>j \<leftarrow> [0 ..< n]. if s = window_second now n j then 1 else 0 :: nat) =
      (if now - int n < s \<and> s \<le> now then 1 else 0)"
  proof -
    have "(\<Sum>j \<leftarrow> [0 ..< n]. if s = window_second now n j then 1 else 0 :: nat) =
        (\<Sum>j \<in> {0 ..< n}. if s = window_second now n j then 1 else 0)"
      by (simp add: interv_sum_list_conv_sum_set_nat)
    also have "\<dots> = (\<Sum>j \<in> {0 ..< n}. if j = nat (s mod int n) then (if now - int n < s \<and> s \<le> now then 1 else 0) else 0)"
    proof (rule sum.cong [OF refl])
      fix j assume "j \<in> {0 ..< n}"
      then have j: "j < n" by simp
      have "j = nat (s mod int n) \<longleftrightarrow> s mod int n = int j" using that by auto
      then show "(if s = window_second now n j then 1 else 0 :: nat) =
          (if j = nat (s mod int n) then (if now - int n < s \<and> s \<le> now then 1 else 0) else 0)"
        using window_second_iff [OF j, of now s] by auto
    qed
    also have "\<dots> = (if now - int n < s \<and> s \<le> now then 1 else 0)"
      using that by (simp add: sum.delta nat_less_iff)
    finally show ?thesis .
  qed
  moreover have "(\<Sum>j \<leftarrow> [0 ..< n]. count_list (s # es) (window_second now n j)) =
      (\<Sum>j \<leftarrow> [0 ..< n]. if s = window_second now n j then 1 else 0) +
      (\<Sum>j \<leftarrow> [0 ..< n]. count_list es (window_second now n j))"
    by (simp add: sum_list_addf [symmetric]) (intro arg_cong [of _ _ sum_list] map_cong refl, auto)
  ultimately show ?case using Cons by simp
qed simp

lemma of_nat_sum_list: "of_nat (sum_list xs) = (sum_list (map of_nat xs) :: 64 word)"
  by (induction xs) simp_all

lemma foldl_if_sum:
  "foldl (\<lambda>t b. if P b then t + g b else t) (a :: 64 word) bs = a + (\<Sum>b \<leftarrow> bs. if P b then g b else 0)"
  by (induction bs arbitrary: a) (auto simp: add.assoc)

text \<open>The requests of the window that one bucket holds.\<close>

lemma bucket_in_window:
  assumes j: "j < n" and sorted: "sorted es" and now: "\<forall>s \<in> set es. s \<le> t"
  shows "(if t - BSecond (bucket_for n es j) \<ge> 0 \<and> t - BSecond (bucket_for n es j) < int n
      then BRequests (bucket_for n es j) else 0) = of_nat (count_list es (window_second t n j))"
proof -
  let ?xs = "filter (\<lambda>x. x mod int n = int j) es" and ?w = "window_second t n j"
  have w: "t - int n < ?w" "?w \<le> t" "?w mod int n = int j" using window_second_iff [OF j] by blast+
  have mem: "?w \<in> set es \<Longrightarrow> ?w \<in> set ?xs" using w by simp
  show ?thesis
  proof (cases "?xs = []")
    case True
    then have "?w \<notin> set es" using mem by (metis empty_iff empty_set)
    then show ?thesis using True by (simp add: bucket_for_def count_list_0_iff)
  next
    case False
    let ?l = "last ?xs"
    have l: "?l \<in> set es" "?l mod int n = int j" "?l \<le> t" using False last_in_set [of ?xs] now by auto
    have max: "x \<le> ?l" if "x \<in> set ?xs" for x
      using sorted_wrt_filter [OF sorted] that by (rule sorted_le_last)
    have b: "bucket_for n es j = \<lparr>BSecond = ?l, BRequests = of_nat (count_list es ?l)\<rparr>"
      using False by (simp add: bucket_for_def Let_def)
    show ?thesis
    proof (cases "t - ?l < int n")
      case True
      then have "?w = ?l" using l window_second_iff [OF j, of t ?l] by simp
      then show ?thesis unfolding b using True l by simp
    next
      case old: False
      then have "?l < ?w" using w by simp
      then have "?w \<notin> set es" using mem max by fastforce
      then show ?thesis unfolding b using old by (simp add: count_list_0_iff)
    qed
  qed
qed

lemma ring_window:
  assumes ok: "ring_ok n es (RBuckets r)" and n: "0 < n" and sorted: "sorted es"
    and now: "\<forall>s \<in> set es. s \<le> time_unix now"
  shows "requestsInWindow now r =
    of_nat (length (filter (\<lambda>s. time_unix now - int n < s \<and> s \<le> time_unix now) es))"
proof -
  let ?N = "time_unix now"
  let ?f = "\<lambda>b. if ?N - BSecond b \<ge> 0 \<and> ?N - BSecond b < int n then BRequests b else 0"
  have len: "length (RBuckets r) = n" using ok by (simp add: ring_ok_def)
  have tm: "?f (bucket_for n es j) = of_nat (count_list es (window_second ?N n j))" if "j < n" for j
    using bucket_in_window [OF that sorted now] .
  have "requestsInWindow now r = (\<Sum>b \<leftarrow> RBuckets r. ?f b)"
    by (simp add: requestsInWindow_def Let_def foldl_if_sum len)
  also have "\<dots> = (\<Sum>j \<leftarrow> [0 ..< n]. ?f (bucket_for n es j))"
    using ok unfolding ring_ok_def by (simp only: map_map comp_def)
  also have "\<dots> = (\<Sum>j \<leftarrow> [0 ..< n]. of_nat (count_list es (window_second ?N n j)))"
    by (intro arg_cong [of _ _ sum_list] map_cong refl tm) simp
  also have "\<dots> = of_nat (\<Sum>j \<leftarrow> [0 ..< n]. count_list es (window_second ?N n j))"
    by (simp add: of_nat_sum_list comp_def)
  finally show ?thesis unfolding sum_window_counts [OF n] .
qed

section \<open>Runs of the recorder\<close>

text \<open>
  A run starts with a new recorder. \<open>Begin t k\<close> calls \<open>Start\<close> for key \<open>k\<close> at time \<open>t\<close>; the completion
  functions handed out are kept in a list, and \<open>Complete i t\<close> calls the \<open>i\<close>-th of them, any number of
  times and in any order.
\<close>

datatype traffic_event = Begin time string | Complete nat time

definition traffic_step :: "recorder \<times> done_func list \<Rightarrow> traffic_event \<Rightarrow> recorder \<times> done_func list" where
  "traffic_step st ev = (case ev of
     Begin t k \<Rightarrow> (case Start t k (Some (fst st)) of
         (d, Some r) \<Rightarrow> (r, snd st @ [d])
       | (d, None) \<Rightarrow> st)
   | Complete i t \<Rightarrow>
       if i < length (snd st)
       then (case call_done t (snd st ! i) (fst st) of (d, r) \<Rightarrow> (r, (snd st)[i := d]))
       else st)"

definition traffic_run :: "duration \<Rightarrow> traffic_event list \<Rightarrow> recorder \<times> done_func list" where
  "traffic_run window evs = foldl traffic_step (newRecorder window, []) evs"

text \<open>The requests started for a key, in order, and those of them that were completed.\<close>

definition started_for :: "string \<Rightarrow> done_func list \<Rightarrow> done_func list" where
  "started_for key ds = filter (\<lambda>d. DoneKey d = Some key) ds"

definition finished_for :: "string \<Rightarrow> done_func list \<Rightarrow> done_func list" where
  "finished_for key ds = filter DoneFired (started_for key ds)"

definition start_seconds :: "string \<Rightarrow> done_func list \<Rightarrow> int list" where
  "start_seconds key ds = map (\<lambda>d. time_unix (DoneStartedAt d)) (started_for key ds)"

text \<open>The seconds at which a run starts requests for a key.\<close>

fun begin_seconds :: "string \<Rightarrow> traffic_event list \<Rightarrow> int list" where
  "begin_seconds key [] = []"
| "begin_seconds key (Begin t k # evs) =
     (if NormalizeServiceName k = key then [time_unix t] else []) @ begin_seconds key evs"
| "begin_seconds key (Complete i t # evs) = begin_seconds key evs"

lemma begin_seconds_append [simp]:
  "begin_seconds key (xs @ ys) = begin_seconds key xs @ begin_seconds key ys"
  by (induction key xs rule: begin_seconds.induct) simp_all

text \<open>The readings of the clock at the starts of a run.\<close>

fun start_times :: "traffic_event list \<Rightarrow> time list" where
  "start_times [] = []"
| "start_times (Begin t k # evs) = t # start_times evs"
| "start_times (Complete i t # evs) = start_times evs"

lemma begin_seconds_mem: "s \<in> set (begin_seconds key evs) \<Longrightarrow> \<exists>t \<in> set (start_times evs). s = time_unix t"
  by (induction key evs rule: begin_seconds.induct) (auto split: if_splits)

lemma begin_seconds_sorted: "sorted (start_times evs) \<Longrightarrow> sorted (begin_seconds key evs)"
  by (induction key evs rule: begin_seconds.induct)
    (auto dest!: begin_seconds_mem simp: time_unix_def zdiv_mono1)

lemma begin_seconds_clock:
  assumes "sorted (0 # start_times evs @ [now])"
  shows "sorted (begin_seconds key evs) \<and>
    (\<forall>s \<in> set (begin_seconds key evs). 0 \<le> s \<and> s \<le> time_unix now)"
proof
  show "sorted (begin_seconds key evs)" using assms by (intro begin_seconds_sorted) (simp add: sorted_append)
  show "\<forall>s \<in> set (begin_seconds key evs). 0 \<le> s \<and> s \<le> time_unix now"
    using assms by (auto dest!: begin_seconds_mem simp: time_unix_def sorted_append zdiv_mono1 div_int_pos_iff)
qed

definition counters_ok :: "config_record \<Rightarrow> string \<Rightarrow> done_func list \<Rightarrow> bool" where
  "counters_ok rec key ds \<longleftrightarrow>
     RStarted rec = of_nat (length (started_for key ds)) \<and>
     RFinished rec = of_nat (length (finished_for key ds)) \<and>
     RInFlight rec = wrap_i64 (int (length (started_for key ds)) - int (length (finished_for key ds)))"

definition traffic_ok :: "duration \<Rightarrow> recorder \<times> done_func list \<Rightarrow> bool" where
  "traffic_ok window st \<longleftrightarrow> (case st of (r, ds) \<Rightarrow>
     Window r = window \<and>
     (\<forall>d \<in> set ds. DoneKey d \<noteq> Some []) \<and>
     (\<forall>key. gomap_get (Records r) key = None \<longrightarrow> started_for key ds = []) \<and>
     (\<forall>key rec. gomap_get (Records r) key = Some rec \<longrightarrow>
        started_for key ds \<noteq> [] \<and> counters_ok rec key ds))"

definition rings_ok :: "recorder \<times> done_func list \<Rightarrow> bool" where
  "rings_ok st \<longleftrightarrow> (case st of (r, ds) \<Rightarrow>
     (\<forall>key. gomap_get (Records r) key = None \<longrightarrow> started_for key ds = []) \<and>
     (\<forall>key rec. gomap_get (Records r) key = Some rec \<longrightarrow>
        ring_ok (bucketCount (Window r)) (start_seconds key ds) (RBuckets rec)))"

lemma wrap_i64_add: "wrap_i64 (wrap_i64 x + y) = wrap_i64 (x + y)"
proof -
  have "((x + 2 ^ 63) mod 2 ^ 64 + y) mod 2 ^ 64 = (x + 2 ^ 63 + y) mod (2 ^ 64 :: int)"
    by (rule mod_add_left_eq)
  then show ?thesis unfolding wrap_i64_def by (simp add: algebra_simps)
qed

lemma wrap_i64_sub: "wrap_i64 (wrap_i64 x - y) = wrap_i64 (x - y)"
  using wrap_i64_add [of x "- y"] by simp

text \<open>What a call of \<open>Start\<close> does to the records.\<close>

lemma Start_blank: "NormalizeServiceName k = [] \<Longrightarrow> Start t k (Some r) = (noopDone, Some r)"
  by (simp add: Start_def)

definition begin_record :: "time \<Rightarrow> recorder \<Rightarrow> string \<Rightarrow> config_record" where
  "begin_record t r key =
     (let rec = (case gomap_get (Records r) key of Some rec \<Rightarrow> rec | None \<Rightarrow> new_record (Window r)) in
      bucketAdd t (rec\<lparr>RInFlight := wrap_i64 (RInFlight rec + 1), RStarted := RStarted rec + 1,
        RLastSeenNano := time_unix_nano t\<rparr>))"

lemma Start_records:
  assumes "NormalizeServiceName k = key" "key \<noteq> []"
  shows "Start t k (Some r) = (\<lparr>DoneKey = Some key, DoneStartedAt = t, DoneFired = False\<rparr>,
    Some (r\<lparr>Records := gomap_put key (begin_record t r key) (Records r)\<rparr>))"
  using assms by (cases "gomap_get (Records r) key")
    (simp_all add: Start_def traffic_recordFor_def findRecord_def begin_record_def Let_def update_last)

lemma started_for_snoc [simp]:
  "started_for key (ds @ [d]) = started_for key ds @ (if DoneKey d = Some key then [d] else [])"
  by (simp add: started_for_def)

lemma finished_for_snoc [simp]:
  "finished_for key (ds @ [d]) =
     finished_for key ds @ (if DoneKey d = Some key \<and> DoneFired d then [d] else [])"
  by (simp add: finished_for_def)

lemma start_seconds_snoc [simp]:
  "start_seconds key (ds @ [d]) =
     start_seconds key ds @ (if DoneKey d = Some key then [time_unix (DoneStartedAt d)] else [])"
  by (simp add: start_seconds_def)

text \<open>Firing a completion function changes no start and adds one to the finished ones.\<close>

lemma fire_update:
  assumes i: "i < length ds" and nf: "\<not> DoneFired (ds ! i)"
  defines "ds' \<equiv> ds[i := (ds ! i)\<lparr>DoneFired := True\<rparr>]"
  shows "start_seconds key ds' = start_seconds key ds"
    and "length (started_for key ds') = length (started_for key ds)"
    and "length (finished_for key ds') =
      length (finished_for key ds) + (if DoneKey (ds ! i) = Some key then 1 else 0)"
proof -
  obtain xs ys where split: "ds = xs @ ds ! i # ys" and l: "length xs = i"
    using i id_take_nth_drop [OF i] that [of "take i ds" "drop (Suc i) ds"] by simp
  have upd: "ds' = xs @ (ds ! i)\<lparr>DoneFired := True\<rparr> # ys"
    unfolding ds'_def using l by (subst split) (simp add: list_update_append)
  have "start_seconds key ds' = start_seconds key (xs @ ds ! i # ys)"
    "length (started_for key ds') = length (started_for key (xs @ ds ! i # ys))"
    "length (finished_for key ds') =
      length (finished_for key (xs @ ds ! i # ys)) + (if DoneKey (ds ! i) = Some key then 1 else 0)"
    unfolding upd using nf by (simp_all add: started_for_def start_seconds_def finished_for_def)
  then show "start_seconds key ds' = start_seconds key ds"
    "length (started_for key ds') = length (started_for key ds)"
    "length (finished_for key ds') =
      length (finished_for key ds) + (if DoneKey (ds ! i) = Some key then 1 else 0)"
    using split by simp_all
qed


lemma traffic_step_Begin:
  assumes "NormalizeServiceName k = key" "key \<noteq> []"
  shows "traffic_step (r, ds) (Begin t k) =
    (r\<lparr>Records := gomap_put key (begin_record t r key) (Records r)\<rparr>,
     ds @ [\<lparr>DoneKey = Some key, DoneStartedAt = t, DoneFired = False\<rparr>])"
  using Start_records [OF assms] by (simp add: traffic_step_def)

lemma traffic_step_blank:
  "NormalizeServiceName k = [] \<Longrightarrow> traffic_step (r, ds) (Begin t k) = (r, ds @ [noopDone])"
  by (simp add: traffic_step_def Start_blank)

text \<open>A completion that does anything.\<close>

definition fires :: "done_func list \<Rightarrow> nat \<Rightarrow> string \<Rightarrow> bool" where
  "fires ds i key \<longleftrightarrow> i < length ds \<and> DoneKey (ds ! i) = Some key \<and> \<not> DoneFired (ds ! i)"

lemma traffic_step_Complete:
  assumes "fires ds i key" "gomap_get (Records r) key = Some rec"
  shows "traffic_step (r, ds) (Complete i t) =
    (r\<lparr>Records := gomap_put key (finish t (DoneStartedAt (ds ! i)) rec) (Records r)\<rparr>,
     ds[i := (ds ! i)\<lparr>DoneFired := True\<rparr>])"
  using assms by (simp add: traffic_step_def call_done_def fires_def)

lemma traffic_step_noop:
  "(\<And>key. \<not> fires ds i key) \<Longrightarrow> traffic_step (r, ds) (Complete i t) = (r, ds)"
  by (auto simp: traffic_step_def call_done_def fires_def split: option.splits)

lemma counters_begin:
  assumes "counters_ok rec key ds"
  shows "counters_ok (rec\<lparr>RInFlight := wrap_i64 (RInFlight rec + 1), RStarted := RStarted rec + 1,
      RLastSeenNano := x\<rparr>) key (ds @ [\<lparr>DoneKey = Some key, DoneStartedAt = t, DoneFired = False\<rparr>])"
  using assms by (simp add: counters_ok_def wrap_i64_add add.commute [of 1] diff_add_eq)

lemma counters_bucketAdd [simp]: "counters_ok (bucketAdd t rec) key ds = counters_ok rec key ds"
  by (simp add: counters_ok_def)

lemma DoneKey_noop [simp]: "DoneKey noopDone = None"
  by (simp add: noopDone_def)

lemma counters_other [simp]:
  "DoneKey d \<noteq> Some key \<Longrightarrow> counters_ok rec key (ds @ [d]) = counters_ok rec key ds"
  by (simp add: counters_ok_def)

lemma noop_appended [simp]:
  "started_for key (ds @ [noopDone]) = started_for key ds"
  "start_seconds key (ds @ [noopDone]) = start_seconds key ds"
  "counters_ok rec key (ds @ [noopDone]) = counters_ok rec key ds"
  by (simp_all add: counters_ok_def noopDone_def)

lemma counters_new [simp]:
  "started_for key ds = [] \<Longrightarrow> counters_ok (new_record w) key ds"
  by (simp add: counters_ok_def new_record_def finished_for_def wrap_i64_def)

lemma counters_begin_record:
  assumes "gomap_get (Records r) key = None \<Longrightarrow> started_for key ds = []"
    and "\<And>rec. gomap_get (Records r) key = Some rec \<Longrightarrow> counters_ok rec key ds"
  shows "counters_ok (begin_record t r key) key
    (ds @ [\<lparr>DoneKey = Some key, DoneStartedAt = t, DoneFired = False\<rparr>])"
  using assms unfolding begin_record_def Let_def counters_bucketAdd
  by (intro counters_begin) (use assms in \<open>auto split: option.splits\<close>)

lemma counters_finish:
  assumes "counters_ok rec key ds" "fires ds i key"
  shows "counters_ok (finish t s rec) key (ds[i := (ds ! i)\<lparr>DoneFired := True\<rparr>])"
  using assms by (simp add: counters_ok_def finish_def fires_def fire_update wrap_i64_sub
      Let_def algebra_simps)

lemma traffic_ok_step:
  assumes ok: "traffic_ok w (r, ds)"
  shows "traffic_ok w (traffic_step (r, ds) ev)"
proof (cases ev)
  case (Begin t k)
  show ?thesis
  proof (cases "NormalizeServiceName k = []")
    case True
    then show ?thesis using ok unfolding Begin traffic_step_blank [OF True]
      by (simp add: traffic_ok_def)
  next
    case False
    let ?key = "NormalizeServiceName k"
    have c: "counters_ok (begin_record t r ?key) ?key
        (ds @ [\<lparr>DoneKey = Some ?key, DoneStartedAt = t, DoneFired = False\<rparr>])"
      using ok by (intro counters_begin_record) (simp_all add: traffic_ok_def)
    show ?thesis using ok c False unfolding Begin traffic_step_Begin [OF refl False]
      by (auto simp: traffic_ok_def)
  qed
next
  case (Complete i t)
  show ?thesis
  proof (cases "\<exists>key. fires ds i key")
    case False
    then show ?thesis using ok traffic_step_noop [of ds i r t] unfolding Complete by simp
  next
    case True
    then obtain key where f: "fires ds i key" by blast
    then have "ds ! i \<in> set (started_for key ds)" by (simp add: fires_def started_for_def)
    then obtain rec where rec: "gomap_get (Records r) key = Some rec" "counters_ok rec key ds"
      using ok by (cases "gomap_get (Records r) key") (auto simp: traffic_ok_def)
    have n: "length (started_for x (ds[i := (ds ! i)\<lparr>DoneFired := True\<rparr>])) = length (started_for x ds)"
      "x \<noteq> key \<Longrightarrow> length (finished_for x (ds[i := (ds ! i)\<lparr>DoneFired := True\<rparr>])) = length (finished_for x ds)"
      for x using f fire_update(2,3) [of i ds x] by (auto simp: fires_def)
    have e: "started_for x (ds[i := (ds ! i)\<lparr>DoneFired := True\<rparr>]) = [] \<longleftrightarrow> started_for x ds = []" for x
      using n(1) [of x] by (metis length_0_conv)
    have k: "\<forall>d \<in> set (ds[i := (ds ! i)\<lparr>DoneFired := True\<rparr>]). DoneKey d \<noteq> Some []"
      using ok f by (auto simp: traffic_ok_def fires_def dest!: set_update_subset_insert [THEN subsetD])
    show ?thesis using ok k e n counters_finish [OF rec(2) f, of t "DoneStartedAt (ds ! i)"] rec f
      unfolding Complete traffic_step_Complete [OF f rec(1)]
      by (auto simp: traffic_ok_def counters_ok_def)
  qed
qed

lemma traffic_ok_run: "traffic_ok (Window (newRecorder w)) (traffic_run w evs)"
proof (induction evs rule: rev_induct)
  case Nil
  show ?case by (simp add: traffic_run_def traffic_ok_def newRecorder_def Let_def started_for_def)
next
  case (snoc ev evs)
  have "traffic_run w (evs @ [ev]) = traffic_step (traffic_run w evs) ev" by (simp add: traffic_run_def)
  then show ?case using snoc traffic_ok_step by (metis surj_pair)
qed


lemma traffic_run_snoc: "traffic_run w (evs @ [ev]) = traffic_step (traffic_run w evs) ev"
  by (simp add: traffic_run_def)

lemma fires_completed:
  "fires ds i key \<Longrightarrow> start_seconds x (ds[i := (ds ! i)\<lparr>DoneFired := True\<rparr>]) = start_seconds x ds"
  by (simp add: fires_def fire_update(1))

lemma rings_begin:
  assumes rings: "rings_ok (r, ds)" and st: "traffic_step (r, ds) (Begin t k) = (r', ds')"
    and sorted: "\<And>key. key \<noteq> [] \<Longrightarrow> sorted (start_seconds key ds')"
    and pos: "\<And>key s. s \<in> set (start_seconds key ds') \<Longrightarrow> 0 \<le> s"
  shows "rings_ok (r', ds')"
proof -
  show ?thesis
  proof (cases "NormalizeServiceName k = []")
    case True
    then show ?thesis using rings st unfolding traffic_step_blank [OF True]
      by (auto simp: rings_ok_def)
  next
    case False
    let ?key = "NormalizeServiceName k" and ?n = "bucketCount (Window r)"
    have ds': "ds' = ds @ [\<lparr>DoneKey = Some ?key, DoneStartedAt = t, DoneFired = False\<rparr>]"
      and r': "r' = r\<lparr>Records := gomap_put ?key (begin_record t r ?key) (Records r)\<rparr>"
      using st unfolding traffic_step_Begin [OF refl False] by simp_all
    have n: "0 < ?n" by (simp add: bucketCount_def Let_def)
    have old: "ring_ok ?n (start_seconds ?key ds)
        (RBuckets (case gomap_get (Records r) ?key of Some rec \<Rightarrow> rec | None \<Rightarrow> new_record (Window r)))"
      using rings [unfolded rings_ok_def] ring_ok_initial
      by (auto simp: new_record_def start_seconds_def split: option.splits)
    have "ring_ok ?n (start_seconds ?key ds @ [time_unix t])
        (ring_add (time_unix t) (RBuckets (case gomap_get (Records r) ?key of Some rec \<Rightarrow> rec | None \<Rightarrow> new_record (Window r))))"
      using sorted [OF False] pos [of "time_unix t" ?key] unfolding ds' by (intro ring_add_ok [OF old n]) simp_all
    then have "ring_ok ?n (start_seconds ?key ds') (RBuckets (begin_record t r ?key))"
      by (simp add: ds' begin_record_def bucketAdd_ring Let_def)
    then show ?thesis using rings unfolding r' ds' by (auto simp: rings_ok_def split: option.splits)
  qed
qed

lemma rings_complete:
  assumes ok: "traffic_ok w (r, ds)" and rings: "rings_ok (r, ds)"
    and st: "traffic_step (r, ds) (Complete i t) = (r', ds')"
  shows "rings_ok (r', ds')"
proof -
  show ?thesis
  proof (cases "\<exists>key. fires ds i key")
    case False
    then show ?thesis using rings st traffic_step_noop [of ds i r t] by simp
  next
    case True
    then obtain key where f: "fires ds i key" by blast
    then have "ds ! i \<in> set (started_for key ds)" by (simp add: fires_def started_for_def)
    then obtain rec where rec: "gomap_get (Records r) key = Some rec"
      using ok by (cases "gomap_get (Records r) key") (auto simp: traffic_ok_def)
    have r': "r' = r\<lparr>Records := gomap_put key (finish t (DoneStartedAt (ds ! i)) rec) (Records r)\<rparr>"
      and ds': "ds' = ds[i := (ds ! i)\<lparr>DoneFired := True\<rparr>]"
      using st unfolding traffic_step_Complete [OF f rec] by simp_all
    have e: "started_for x ds' = [] \<longleftrightarrow> started_for x ds = []" for x
      using f fire_update(2) [of i ds x] unfolding ds' fires_def by (metis length_0_conv)
    have "RBuckets (finish t (DoneStartedAt (ds ! i)) rec) = RBuckets rec" by (simp add: finish_def Let_def)
    then show ?thesis using rings rec e fires_completed [OF f] unfolding r'
      by (auto simp: rings_ok_def ds' split: option.splits)
  qed
qed

lemma rings_step:
  assumes "traffic_ok w (r, ds)" and "rings_ok (r, ds)"
    and "traffic_step (r, ds) ev = (r', ds')"
    and "\<And>key. key \<noteq> [] \<Longrightarrow> sorted (start_seconds key ds')"
    and "\<And>key s. s \<in> set (start_seconds key ds') \<Longrightarrow> 0 \<le> s"
  shows "rings_ok (r', ds')"
  using assms rings_begin rings_complete by (cases ev) metis+

lemma start_seconds_run: "key \<noteq> [] \<Longrightarrow> start_seconds key (snd (traffic_run w evs)) = begin_seconds key evs"
proof (induction evs rule: rev_induct)
  case Nil
  show ?case by (simp add: traffic_run_def start_seconds_def started_for_def)
next
  case (snoc ev evs)
  obtain r ds where rd: "traffic_run w evs = (r, ds)" by fastforce
  have ok: "traffic_ok (Window (newRecorder w)) (r, ds)" using traffic_ok_run [of w evs] rd by simp
  have ih: "start_seconds key ds = begin_seconds key evs" using snoc rd by simp
  show ?case
  proof (cases ev)
    case (Begin t k)
    show ?thesis
    proof (cases "NormalizeServiceName k = []")
      case True
      then show ?thesis using ih snoc.prems unfolding Begin traffic_run_snoc rd traffic_step_blank [OF True]
        by (simp add: noopDone_def)
    next
      case False
      then show ?thesis using ih unfolding Begin traffic_run_snoc rd traffic_step_Begin [OF refl False]
        by simp
    qed
  next
    case (Complete i t)
    show ?thesis
    proof (cases "\<exists>key. fires ds i key")
      case False
      then show ?thesis using ih traffic_step_noop [of ds i r t] unfolding Complete traffic_run_snoc rd by simp
    next
      case True
      then obtain key' where f: "fires ds i key'" by blast
      then have "ds ! i \<in> set (started_for key' ds)" by (simp add: fires_def started_for_def)
      then obtain rec where rec: "gomap_get (Records r) key' = Some rec"
        using ok by (cases "gomap_get (Records r) key'") (auto simp: traffic_ok_def)
      show ?thesis using ih fires_completed [OF f]
        unfolding Complete traffic_run_snoc rd traffic_step_Complete [OF f rec] by simp
    qed
  qed
qed


section \<open>What \<open>StatusFor\<close> reports after a run\<close>

lemma newRecorder_window:
  "Window (newRecorder w) = (if w \<le> 0 then minute else if w < second then second else w - w mod second)"
  by (auto simp: newRecorder_def Let_def go_mod_nonneg defaultWindow_def)

lemma start_seconds_length: "length (start_seconds key ds) = length (started_for key ds)"
  by (simp add: start_seconds_def)

lemma traffic_run_record:
  assumes "key \<noteq> []" "traffic_run w evs = (r, ds)"
  shows "gomap_get (Records r) key = None \<longleftrightarrow> begin_seconds key evs = []"
    and "gomap_get (Records r) key = Some rec \<Longrightarrow> counters_ok rec key ds"
    and "length (started_for key ds) = length (begin_seconds key evs)"
    and "Window r = Window (newRecorder w)"
proof -
  have ok: "traffic_ok (Window (newRecorder w)) (r, ds)" using traffic_ok_run [of w evs] assms(2) by simp
  have b: "start_seconds key ds = begin_seconds key evs" using start_seconds_run [OF assms(1), of w evs] assms(2) by simp
  show l: "length (started_for key ds) = length (begin_seconds key evs)"
    using b start_seconds_length by metis
  have e: "started_for key ds = [] \<longleftrightarrow> begin_seconds key evs = []" using l by (metis length_0_conv)
  show "gomap_get (Records r) key = None \<longleftrightarrow> begin_seconds key evs = []"
    unfolding e [symmetric] using ok by (cases "gomap_get (Records r) key") (auto simp: traffic_ok_def)
  show "gomap_get (Records r) key = Some rec \<Longrightarrow> counters_ok rec key ds"
    using ok by (simp add: traffic_ok_def)
  show "Window r = Window (newRecorder w)" using ok by (simp add: traffic_ok_def)
qed

lemma rings_run:
  assumes "\<And>key. key \<noteq> [] \<Longrightarrow> sorted (begin_seconds key evs)"
    and "\<And>key s. key \<noteq> [] \<Longrightarrow> s \<in> set (begin_seconds key evs) \<Longrightarrow> 0 \<le> s"
  shows "rings_ok (traffic_run w evs)"
  using assms
proof (induction evs rule: rev_induct)
  case Nil
  show ?case by (simp add: traffic_run_def rings_ok_def newRecorder_def Let_def started_for_def)
next
  case (snoc ev evs)
  obtain r ds where rd: "traffic_run w evs = (r, ds)" by fastforce
  obtain r' ds' where rd': "traffic_run w (evs @ [ev]) = (r', ds')" by fastforce
  have b: "start_seconds key ds' = begin_seconds key (evs @ [ev])" if "key \<noteq> []" for key
    using start_seconds_run [OF that, of w "evs @ [ev]"] rd' by simp
  have nil: "start_seconds [] ds' = []"
    using traffic_ok_run [of w "evs @ [ev]"] rd'
    by (auto simp: traffic_ok_def start_seconds_def started_for_def filter_empty_conv)
  have rings: "rings_ok (r, ds)"
    using snoc.IH snoc.prems unfolding rd begin_seconds_append by (fastforce simp: sorted_append)
  have ok: "traffic_ok (Window (newRecorder w)) (r, ds)" using traffic_ok_run [of w evs] rd by simp
  have st: "traffic_step (r, ds) ev = (r', ds')" using rd rd' traffic_run_snoc by simp
  show ?case unfolding rd'
  proof (rule rings_step [OF ok rings st])
    show "sorted (start_seconds key ds')" if "key \<noteq> []" for key
      using snoc.prems(1) [OF that] b [OF that] by simp
    show "0 \<le> s" if "s \<in> set (start_seconds key ds')" for key s
      using that snoc.prems(2) [of key s] b [of key] nil by (cases "key = []") simp_all
  qed
qed

text \<open>The keys of the requests that a run starts, and when each is first completed.\<close>

fun begin_keys :: "traffic_event list \<Rightarrow> string list" where
  "begin_keys [] = []"
| "begin_keys (Begin t k # evs) = NormalizeServiceName k # begin_keys evs"
| "begin_keys (Complete i t # evs) = begin_keys evs"

fun begins :: "traffic_event \<Rightarrow> bool" where
  "begins (Begin t k) = True"
| "begins (Complete i t) = False"

fun completes :: "traffic_event \<Rightarrow> (nat \<times> time) option" where
  "completes (Begin t k) = None"
| "completes (Complete i t) = Some (i, t)"

definition completed_at :: "traffic_event list \<Rightarrow> nat \<Rightarrow> time option" where
  "completed_at = first_finish begins completes 0"

definition completed_for :: "string \<Rightarrow> traffic_event list \<Rightarrow> nat list" where
  "completed_for key evs =
     filter (\<lambda>i. begin_keys evs ! i = key \<and> completed_at evs i \<noteq> None) [0 ..< length (begin_keys evs)]"

lemma begin_keys_append [simp]: "begin_keys (xs @ ys) = begin_keys xs @ begin_keys ys"
  by (induction xs rule: begin_keys.induct) simp_all

lemma begin_keys_length: "length (filter begins evs) = length (begin_keys evs)"
  by (induction evs rule: begin_keys.induct) simp_all

lemma begin_keys_seconds: "length (begin_seconds key evs) = count_list (begin_keys evs) key"
  by (induction key evs rule: begin_seconds.induct) simp_all

lemma completed_at_snoc:
  "completed_at (evs @ [Begin t k]) = completed_at evs"
  "completed_at (evs @ [Complete j t]) =
     (if j < length (begin_keys evs) \<and> completed_at evs j = None then (completed_at evs)(j := Some t) else completed_at evs)"
  by (auto simp: completed_at_def first_finish_snoc fun_eq_iff begin_keys_length split: option.split)

lemma completed_at_less: "completed_at evs i = Some t \<Longrightarrow> i < length (begin_keys evs)"
  using first_finish_less [of begins completes 0 evs i t] by (simp add: completed_at_def begin_keys_length)

text \<open>The completion functions are those of the started requests, and have fired when a completion reached them.\<close>

definition dones_ok :: "traffic_event list \<Rightarrow> done_func list \<Rightarrow> bool" where
  "dones_ok evs ds \<longleftrightarrow> map DoneKey ds = map (\<lambda>k. if k = [] then None else Some k) (begin_keys evs) \<and>
     (\<forall>i < length ds. DoneKey (ds ! i) \<noteq> None \<longrightarrow> (DoneFired (ds ! i) \<longleftrightarrow> completed_at evs i \<noteq> None))"

lemma dones_run: "dones_ok evs (snd (traffic_run w evs))"
proof (induction evs rule: rev_induct)
  case Nil
  show ?case by (simp add: dones_ok_def traffic_run_def)
next
  case (snoc ev evs)
  obtain r ds where rd: "traffic_run w evs = (r, ds)" by fastforce
  have ok: "dones_ok evs ds" using snoc rd by simp
  then have len: "length ds = length (begin_keys evs)" unfolding dones_ok_def by (metis length_map)
  have new: "completed_at evs (length ds) = None" using completed_at_less [of evs "length ds"] len by fastforce
  show ?case
  proof (cases ev)
    case (Begin t k)
    show ?thesis
    proof (cases "NormalizeServiceName k = []")
      case True
      then show ?thesis using ok new unfolding Begin traffic_run_snoc rd traffic_step_blank [OF True]
        by (auto simp: dones_ok_def completed_at_snoc nth_append less_Suc_eq)
    next
      case False
      then show ?thesis using ok new unfolding Begin traffic_run_snoc rd traffic_step_Begin [OF refl False]
        by (auto simp: dones_ok_def completed_at_snoc nth_append less_Suc_eq)
    qed
  next
    case (Complete i t)
    obtain r' ds' where st: "traffic_step (r, ds) (Complete i t) = (r', ds')" by fastforce
    have fired: "ds[i := (ds ! i)\<lparr>DoneFired := True\<rparr>] = ds" if "DoneFired (ds ! i)"
    proof -
      have "(ds ! i)\<lparr>DoneFired := True\<rparr> = ds ! i" using that by (cases "ds ! i") simp
      then show ?thesis by simp
    qed
    have ds': "ds' = (if i < length ds \<and> DoneKey (ds ! i) \<noteq> None then ds[i := (ds ! i)\<lparr>DoneFired := True\<rparr>] else ds)"
      using st fired by (auto simp: traffic_step_def call_done_def split: option.splits if_splits)
    have "map DoneKey ds' = map DoneKey ds" unfolding ds' by (simp add: map_update list_update_same_conv)
    moreover have "DoneFired (ds' ! j) \<longleftrightarrow> completed_at (evs @ [Complete i t]) j \<noteq> None"
      if "j < length ds'" "DoneKey (ds' ! j) \<noteq> None" for j
      using ok that unfolding ds' dones_ok_def completed_at_snoc len [symmetric]
      by (auto simp: nth_list_update split: if_splits)
    ultimately have "dones_ok (evs @ [Complete i t]) ds'" using ok by (simp add: dones_ok_def)
    then show ?thesis unfolding Complete traffic_run_snoc rd st by simp
  qed
qed

lemma finished_for_completed:
  assumes "key \<noteq> []" "traffic_run w evs = (r, ds)"
  shows "length (finished_for key ds) = length (completed_for key evs)"
proof -
  have ok: "dones_ok evs ds" using dones_run [of evs w] assms(2) by simp
  then have len: "length ds = length (begin_keys evs)" unfolding dones_ok_def by (metis length_map)
  have key: "DoneKey (ds ! i) = Some key \<longleftrightarrow> begin_keys evs ! i = key" if "i < length ds" for i
  proof -
    have "map DoneKey ds ! i = map (\<lambda>k. if k = [] then None else Some k) (begin_keys evs) ! i"
      using ok by (simp only: dones_ok_def)
    then have "DoneKey (ds ! i) = (if begin_keys evs ! i = [] then None else Some (begin_keys evs ! i))"
      using that len by simp
    then show ?thesis using assms(1) by auto
  qed
  have "finished_for key ds = filter (\<lambda>d. DoneKey d = Some key \<and> DoneFired d) (map ((!) ds) [0 ..< length ds])"
    by (simp add: finished_for_def started_for_def map_nth conj_commute)
  moreover have "filter (\<lambda>i. DoneKey (ds ! i) = Some key \<and> DoneFired (ds ! i)) [0 ..< length ds] = completed_for key evs"
    unfolding completed_for_def len [symmetric]
  proof (intro filter_cong refl)
    fix i assume "i \<in> set [0 ..< length ds]"
    then have i: "i < length ds" by simp
    show "(DoneKey (ds ! i) = Some key \<and> DoneFired (ds ! i)) = (begin_keys evs ! i = key \<and> completed_at evs i \<noteq> None)"
    proof (cases "DoneKey (ds ! i) = Some key")
      case True
      then have "DoneFired (ds ! i) \<longleftrightarrow> completed_at evs i \<noteq> None" using ok i by (simp add: dones_ok_def)
      then show ?thesis using True key [OF i] by simp
    qed (use key [OF i] in simp)
  qed
  ultimately show ?thesis by (simp add: filter_map comp_def)
qed

text \<open>
  C28: After any sequence of starts and completions of requests, out of order, repeated or for requests that were never
  started, \<open>StatusFor\<close> knows exactly the keys that some request was started for, in any
  spelling of the key, and reports what the sequence says: how many requests with the key were started, how many
  of these a later completion has reached, each counted once, and as in flight the difference of the two.
\<close>

theorem StatusFor_counts:
  assumes "NormalizeServiceName k = key" and "key \<noteq> []" and "traffic_run w evs = (r, ds)"
  shows "case StatusFor now k (Some r) of
     Inl e \<Rightarrow> key \<notin> set (begin_keys evs) \<and> errors_is e Traffic_ErrStatusNotFound
   | Inr st \<Rightarrow> key \<in> set (begin_keys evs) \<and> StConfigKey st = key \<and>
       StStartedRequests st = of_nat (count_list (begin_keys evs) key) \<and>
       StFinishedRequests st = of_nat (length (completed_for key evs)) \<and>
       StInFlight st = wrap_i64 (int (count_list (begin_keys evs) key) - int (length (completed_for key evs)))"
proof -
  have none: "begin_seconds key evs = [] \<longleftrightarrow> key \<notin> set (begin_keys evs)"
    using begin_keys_seconds [of key evs] by (metis count_list_0_iff length_0_conv)
  show ?thesis
    using traffic_run_record [OF assms(2,3)] assms(1,2) none finished_for_completed [OF assms(2,3)]
      begin_keys_seconds [of key evs]
    by (cases "gomap_get (Records r) key")
      (auto simp: StatusFor_def findRecord_def Let_def counters_ok_def)
qed

text \<open>The window of a recorder in whole seconds, as it is configured.\<close>

definition window_seconds :: "duration \<Rightarrow> nat" where
  "window_seconds window = (if window \<le> 0 then 60 else nat (max 1 (window div second)))"

lemma window_seconds_pos: "0 < window_seconds w"
  by (auto simp: window_seconds_def max_def)

lemma Window_seconds: "Window (newRecorder w) = int (window_seconds w) * second"
proof -
  have "w - w mod second = w div second * second" by (simp add: minus_mod_eq_div_mult)
  moreover have "1 \<le> w div second" if "second \<le> w" using zdiv_mono1 [OF that, of second] by simp
  moreover have "w div second \<le> 0" if "w < second" "0 < w" using that by simp
  ultimately show ?thesis by (auto simp: newRecorder_window window_seconds_def max_def)
qed

lemma bucketCount_seconds: "bucketCount (Window (newRecorder w)) = window_seconds w"
  using window_seconds_pos [of w] by (simp add: bucketCount_def Window_seconds go_div_nonneg Let_def)

lemma duration_seconds_whole: "n < 2 ^ 53 \<Longrightarrow> duration_seconds (int n * second) = of_nat n"
  using round64_of_nat [of n] round64_of_nat [of 0]
  by (simp add: duration_seconds_def go_div_nonneg go_mod_nonneg)

text \<open>
  C29: When the clock does not run backwards, the window count of a key is the number of its
  requests whose start second lies in the last \<open>n\<close> seconds, \<open>n\<close> the configured window in whole seconds: the ring
  of \<open>n\<close> reused buckets loses and double counts nothing. The RPS is the binary64 number nearest to that count
  divided by \<open>n\<close>.
\<close>

theorem StatusFor_window:
  assumes "NormalizeServiceName k = key" and "key \<noteq> []" and "traffic_run w evs = (r, ds)" and "w < 2 ^ 63"
    and clock: "sorted (0 # start_times evs @ [now])"
    and "StatusFor now k (Some r) = Inr st"
    and count: "count = length (filter (\<lambda>s. time_unix now - int (window_seconds w) < s) (begin_seconds key evs))"
  shows "StRequestsInWindow st = of_nat count \<and>
    (count < 2 ^ 53 \<longrightarrow> StRPS st = round64 (of_nat count / of_nat (window_seconds w)))"
proof -
  let ?n = "window_seconds w"
  have srt: "sorted (begin_seconds x evs)" and pos: "\<And>s. s \<in> set (begin_seconds x evs) \<Longrightarrow> 0 \<le> s \<and> s \<le> time_unix now" for x
    using begin_seconds_clock [OF clock, of x] by auto
  have rings: "rings_ok (r, ds)" using rings_run [of evs w] assms(3) srt pos by simp
  have window: "Window r = int ?n * second" "bucketCount (Window r) = ?n"
    using traffic_run_record(4) [OF assms(2,3)] Window_seconds bucketCount_seconds by simp_all
  obtain rec where rec: "gomap_get (Records r) key = Some rec" "StRequestsInWindow st = requestsInWindow now rec"
    "StRPS st = round64 (round64 (of_nat (unat (requestsInWindow now rec))) / duration_seconds (Window r))"
    using assms(1,2,6) by (auto simp: StatusFor_def findRecord_def Let_def split: option.splits)
  have "start_seconds key ds = begin_seconds key evs" using start_seconds_run [OF assms(2), of w evs] assms(3) by simp
  then have "ring_ok ?n (begin_seconds key evs) (RBuckets rec)"
    using rings rec(1) unfolding rings_ok_def prod.case window(2) by metis
  then have "requestsInWindow now rec = of_nat (length (filter
      (\<lambda>s. time_unix now - int ?n < s \<and> s \<le> time_unix now) (begin_seconds key evs)))"
    using window_seconds_pos by (rule ring_window) (use srt pos in blast)+
  also have "filter (\<lambda>s. time_unix now - int ?n < s \<and> s \<le> time_unix now) (begin_seconds key evs) =
      filter (\<lambda>s. time_unix now - int ?n < s) (begin_seconds key evs)"
    using pos by (intro filter_cong) auto
  finally have n: "requestsInWindow now rec = of_nat count" using count by simp
  have "?n < 2 ^ 53" using assms(4) zdiv_mono1 [of w "2 ^ 63" second] by (auto simp: window_seconds_def nat_less_iff max_def)
  then have rps: "duration_seconds (Window r) = of_nat ?n" unfolding window(1) by (rule duration_seconds_whole)
  have "StRPS st = round64 (of_nat count / of_nat ?n)" if "count < 2 ^ 53"
  proof -
    have "unat (of_nat count :: 64 word) = count" using that by (simp add: unsigned_of_nat take_bit_nat_eq_self)
    then show ?thesis using rec(3) n rps round64_of_nat [OF that] by simp
  qed
  then show ?thesis using n rec(2) by simp
qed

section \<open>A concrete run\<close>

text \<open>Two requests of \<open>users\<close>, one of which ends, its completion function being called twice.\<close>

definition sample_traffic :: "traffic_event list" where
  "sample_traffic = [Begin second '' Users '', Begin (63 * second) ''users'', Complete 0 (64 * second),
     Complete 0 (65 * second), Begin (66 * second) '' '']"

lemma sample_traffic_run:
  "traffic_run 0 sample_traffic =
    (fst (traffic_run 0 sample_traffic),
     [\<lparr>DoneKey = Some ''users'', DoneStartedAt = second, DoneFired = True\<rparr>,
      \<lparr>DoneKey = Some ''users'', DoneStartedAt = 63 * second, DoneFired = False\<rparr>, noopDone])"
  by code_simp

lemma sample_traffic_status:
  "(case StatusFor (66 * second) ''users'' (Some (fst (traffic_run 0 sample_traffic))) of
     Inl e \<Rightarrow> False
   | Inr st \<Rightarrow> StRequestsInWindow st = 1 \<and> StInFlight st = 1 \<and> StFinishedRequests st = 1 \<and>
       StAverageLatency st = 63 * second \<and> StWindow st = 60 * second)"
  by code_simp

section \<open>The atomic accesses of \<open>bucketAdd\<close>\<close>

text \<open>
  \<open>bucketAdd\<close> above is one call with no other call on the bucket in between. Here every atomic load and
  store of one bucket is a step of its own, so that calls of several goroutines can interleave; the
  mutex of the bucket is the number of the goroutine that holds it.
\<close>

datatype add_pc = Load_Second | Add_Fast | Lock | Recheck | Store_Second | Store_Zero | Add_Locked | Unlock | Returned

record bucket_run =
  RunBucket :: bucket
  RunMutex :: "nat option"
  RunPcs :: "add_pc list"

definition bucketAdd_step :: "int list \<Rightarrow> nat \<Rightarrow> bucket_run \<Rightarrow> bucket_run" where
  "bucketAdd_step seconds i st =
     (let s = seconds ! i; b = RunBucket st;
          goto = (\<lambda>pc st. st\<lparr>RunPcs := (RunPcs st)[i := pc]\<rparr>)
      in case RunPcs st ! i of
        Load_Second \<Rightarrow> goto (if BSecond b = s then Add_Fast else Lock) st
      | Add_Fast \<Rightarrow> goto Returned (st\<lparr>RunBucket := b\<lparr>BRequests := BRequests b + 1\<rparr>\<rparr>)
      | Lock \<Rightarrow> (if RunMutex st = None then goto Recheck (st\<lparr>RunMutex := Some i\<rparr>) else st)
      | Recheck \<Rightarrow> goto (if BSecond b \<noteq> s then Store_Second else Add_Locked) st
      | Store_Second \<Rightarrow> goto Store_Zero (st\<lparr>RunBucket := b\<lparr>BSecond := s\<rparr>\<rparr>)
      | Store_Zero \<Rightarrow> goto Add_Locked (st\<lparr>RunBucket := b\<lparr>BRequests := 0\<rparr>\<rparr>)
      | Add_Locked \<Rightarrow> goto Unlock (st\<lparr>RunBucket := b\<lparr>BRequests := BRequests b + 1\<rparr>\<rparr>)
      | Unlock \<Rightarrow> goto Returned (st\<lparr>RunMutex := None\<rparr>)
      | Returned \<Rightarrow> st)"

definition bucketAdd_schedule :: "int list \<Rightarrow> bucket \<Rightarrow> nat list \<Rightarrow> bucket_run" where
  "bucketAdd_schedule seconds b is =
     foldl (\<lambda>st i. bucketAdd_step seconds i st)
       \<lparr>RunBucket = b, RunMutex = None, RunPcs = replicate (length seconds) Load_Second\<rparr> is"

text \<open>One goroutine that is not interrupted does what \<open>bucketAdd\<close> does to the bucket.\<close>

lemma bucketAdd_step_at:
  assumes "i < length ps"
  defines "pos \<equiv> \<lambda>b m pc. \<lparr>RunBucket = b, RunMutex = m, RunPcs = ps[i := pc]\<rparr>"
  shows "bucketAdd_step ss i (pos b m Load_Second) = pos b m (if BSecond b = ss ! i then Add_Fast else Lock)"
    and "bucketAdd_step ss i (pos b m Add_Fast) = pos (b\<lparr>BRequests := BRequests b + 1\<rparr>) m Returned"
    and "bucketAdd_step ss i (pos b None Lock) = pos b (Some i) Recheck"
    and "bucketAdd_step ss i (pos b m Recheck) = pos b m (if BSecond b \<noteq> ss ! i then Store_Second else Add_Locked)"
    and "bucketAdd_step ss i (pos b m Store_Second) = pos (b\<lparr>BSecond := ss ! i\<rparr>) m Store_Zero"
    and "bucketAdd_step ss i (pos b m Store_Zero) = pos (b\<lparr>BRequests := 0\<rparr>) m Add_Locked"
    and "bucketAdd_step ss i (pos b m Add_Locked) = pos (b\<lparr>BRequests := BRequests b + 1\<rparr>) m Unlock"
    and "bucketAdd_step ss i (pos b m Unlock) = pos b None Returned"
    and "bucketAdd_step ss i (pos b m Returned) = pos b m Returned"
  using assms(1) unfolding pos_def by (simp_all add: bucketAdd_step_def Let_def)

lemma funpow_7: "(f ^^ 7) x = f (f (f (f (f (f (f x))))))"
  by (simp add: numeral_eq_Suc)

lemma uninterrupted_add:
  assumes i: "i < length seconds"
  shows "bucketAdd_schedule seconds b (replicate 7 i) =
    \<lparr>RunBucket = (if BSecond b = seconds ! i then b\<lparr>BRequests := BRequests b + 1\<rparr>
        else \<lparr>BSecond = seconds ! i, BRequests = 1\<rparr>),
     RunMutex = None, RunPcs = (replicate (length seconds) Load_Second)[i := Returned]\<rparr>"
proof -
  let ?ps = "replicate (length seconds) Load_Second"
  have len: "i < length ?ps" using i by simp
  have start: "?ps = ?ps[i := Load_Second]" using i by (metis list_update_id nth_replicate)
  have "bucketAdd_schedule seconds b (replicate 7 i) =
      (bucketAdd_step seconds i ^^ 7) \<lparr>RunBucket = b, RunMutex = None, RunPcs = ?ps[i := Load_Second]\<rparr>"
    unfolding bucketAdd_schedule_def start [symmetric]
    by (simp only: funpow_7) (simp add: numeral_eq_Suc)
  also have "\<dots> = \<lparr>RunBucket = (if BSecond b = seconds ! i then b\<lparr>BRequests := BRequests b + 1\<rparr>
        else \<lparr>BSecond = seconds ! i, BRequests = 1\<rparr>), RunMutex = None, RunPcs = ?ps[i := Returned]\<rparr>"
  proof (cases "BSecond b = seconds ! i")
    case True
    then show ?thesis unfolding funpow_7 bucketAdd_step_at [OF len] by (simp only: True if_True bucketAdd_step_at [OF len])
  next
    case False
    then show ?thesis unfolding funpow_7 bucketAdd_step_at [OF len]
      by (simp add: bucketAdd_step_at [OF len])
  qed
  finally show ?thesis .
qed

lemma StatusFor_found:
  "NormalizeServiceName k = key \<Longrightarrow> key \<noteq> [] \<Longrightarrow> gomap_get (Records r) key \<noteq> None \<Longrightarrow>
     \<exists>st. StatusFor now k (Some r) = Inr st"
  by (auto simp: StatusFor_def findRecord_def Let_def)

text \<open>
  Remark: The mutex does not protect the fast path of \<open>bucketAdd\<close>: when the goroutine that renews a bucket
  has stored the new second and not yet the zero, a request of the same second takes the fast path
  and its increment is overwritten. Two requests of one second are then counted as one.
\<close>

theorem bucketAdd_race_loses_request:
  "let st = bucketAdd_schedule [61, 61] \<lparr>BSecond = 1, BRequests = 5\<rparr> [0, 0, 0, 0, 1, 1, 0, 0, 0] in
     list_all (\<lambda>pc. pc = Returned) (RunPcs st) \<and>
     RunBucket st = \<lparr>BSecond = 61, BRequests = 1\<rparr> \<and>
     RunBucket (bucketAdd_schedule [61, 61] \<lparr>BSecond = 1, BRequests = 5\<rparr> (replicate 7 0 @ replicate 7 1)) =
       \<lparr>BSecond = 61, BRequests = 2\<rparr>"
  by code_simp

theorem StatusFor_counts_witness:
  "\<exists>r ds. traffic_run 0 sample_traffic = (r, ds) \<and>
     (case StatusFor (66 * second) ''Users'' (Some r) of
        Inl e \<Rightarrow> False | Inr st \<Rightarrow> StStartedRequests st = 2 \<and> StFinishedRequests st = 1 \<and> StInFlight st = 1)"
proof -
  let ?r = "fst (traffic_run 0 sample_traffic)" and ?ds = "snd (traffic_run 0 sample_traffic)"
  have n: "NormalizeServiceName ''Users'' = ''users''" by code_simp
  have b: "begin_keys sample_traffic = [''users'', ''users'', []]" by code_simp
  have f: "completed_for ''users'' sample_traffic = [0]" by code_simp
  have l: "count_list [''users'', ''users'', []] ''users'' = 2" "wrap_i64 (int 2 - int 1) = 1"
    by (simp_all add: wrap_i64_def)
  have len: "length [0 :: nat] = 1" by simp
  have mem: "''users'' \<in> set [''users'', ''users'', []]" by simp
  note c = StatusFor_counts [OF n _ prod.collapse [symmetric], where w = 0 and evs = sample_traffic
      and now = "66 * second", unfolded b f l len]
  have "case StatusFor (66 * second) ''Users'' (Some ?r) of
        Inl e \<Rightarrow> False | Inr st \<Rightarrow> StStartedRequests st = 2 \<and> StFinishedRequests st = 1 \<and> StInFlight st = 1"
    using c mem by (auto split: sum.splits)
  then show ?thesis by (intro exI conjI) (rule prod.collapse [symmetric])
qed

theorem StatusFor_window_witness:
  "\<exists>r ds st. traffic_run 0 sample_traffic = (r, ds) \<and>
     StatusFor (66 * second) ''Users'' (Some r) = Inr st \<and> StRequestsInWindow st = 1 \<and> StRPS st = round64 (1 / 60)"
proof -
  let ?r = "fst (traffic_run 0 sample_traffic)" and ?ds = "snd (traffic_run 0 sample_traffic)"
  have n: "NormalizeServiceName ''Users'' = ''users''" by code_simp
  have b: "begin_seconds ''users'' sample_traffic = [1, 63]" by code_simp
  have w: "window_seconds 0 = 60" by (simp add: window_seconds_def)
  have c: "sorted (0 # start_times sample_traffic @ [66 * second])" by code_simp
  have rec: "gomap_get (Records ?r) ''users'' \<noteq> None" by code_simp
  obtain st where st: "StatusFor (66 * second) ''Users'' (Some ?r) = Inr st"
    using StatusFor_found [OF n _ rec, of "66 * second"] by auto
  have count: "1 = length (filter (\<lambda>s. time_unix (66 * second) - int (window_seconds 0) < s) (begin_seconds ''users'' sample_traffic))"
    unfolding b w by (simp add: time_unix_def)
  have "StRequestsInWindow st = 1 \<and> StRPS st = round64 (1 / 60)"
    using StatusFor_window [OF n _ prod.collapse [symmetric] _ c st count] w by simp
  moreover have "traffic_run 0 sample_traffic = (?r, ?ds)" by simp
  ultimately show ?thesis using st by blast
qed

end
