(* ===== verification/Policy.thy ===== *)
theory Policy
  imports PoolConfig Manager Traffic
begin

text \<open>
  Package \<open>internal/pool/policy\<close> (\<open>store.go\<close>): which pool a request uses. The thresholds of the service
  in the snapshot the request runs on decide a tier from the traffic status; a service that leaves a
  dedicated tier because its load falls keeps the tier for 30 seconds.

  The clock is the argument \<open>now\<close>; \<open>AssignmentFor\<close> changes the store under its mutex in one place
  (\<open>delaySharedReturn\<close>), so one call is one step.
\<close>

section \<open>State\<close>

record threshold =
  ThRPS :: float64
  ThInFlight :: int

record pool_info =
  PIConfigKey :: string
  PINormal :: threshold
  PIHot :: threshold
  PISuper :: threshold

record assignment =
  AsServiceName :: string
  AsTier :: tier
  AsDedicated :: bool
  AsStatus :: traffic_status

record assignment_state =
  ASRevision :: "64 word"
  ASPolicy :: pool_info
  ASTier :: tier
  ASBelowSince :: time

record policy_store =
  States :: "(string, assignment_state) gomap"

definition sharedReturnDelay :: duration where
  "sharedReturnDelay = 30 * second"

definition Policy_NewStore :: policy_store where
  "Policy_NewStore = \<lparr>States = []\<rparr>"

definition policy_error :: "string \<Rightarrow> go_error" where
  "policy_error msg = errorf [Policy_ErrInvalidPolicy] msg"

text \<open>\<open>poolInfo{}\<close>, the zero value.\<close>

definition empty_pool_info :: pool_info where
  "empty_pool_info = \<lparr>PIConfigKey = [], PINormal = \<lparr>ThRPS = 0, ThInFlight = 0\<rparr>,
     PIHot = \<lparr>ThRPS = 0, ThInFlight = 0\<rparr>, PISuper = \<lparr>ThRPS = 0, ThInFlight = 0\<rparr>\<rparr>"

section \<open>Validation\<close>

definition threshold_of :: "threshold_point \<Rightarrow> threshold" where
  "threshold_of p = \<lparr>ThRPS = RPS p, ThInFlight = InFlight p\<rparr>"

definition pool_info_of :: "string \<Rightarrow> threshold_settings \<Rightarrow> pool_info" where
  "pool_info_of key t = \<lparr>PIConfigKey = key, PINormal = threshold_of (Normal t),
     PIHot = threshold_of (Hot t), PISuper = threshold_of (Super t)\<rparr>"

definition validateThreshold :: "threshold \<Rightarrow> string \<Rightarrow> go_error option" where
  "validateThreshold t name =
     (if ThRPS t < 0 then Some (policy_error (name @ '' rps must be greater than or equal to zero''))
      else if ThInFlight t < 0 then
        Some (policy_error (name @ '' in-flight must be greater than or equal to zero''))
      else None)"

definition validate_thresholds :: "pool_info \<Rightarrow> go_error option" where
  "validate_thresholds policy =
     (case validateThreshold (PINormal policy) ''normal'' of Some e \<Rightarrow> Some e
      | None \<Rightarrow> (case validateThreshold (PIHot policy) ''hot'' of Some e \<Rightarrow> Some e
      | None \<Rightarrow> validateThreshold (PISuper policy) ''super''))"

definition check_policy :: "string \<times> service_settings \<Rightarrow> go_error option" where
  "check_policy p = (case SvcThreshold (snd p) of
     None \<Rightarrow> None
   | Some t \<Rightarrow>
     (let policy = pool_info_of (NormalizeServiceName (SvcName (snd p))) t in
      if PIConfigKey policy = [] then Some (policy_error ''service-name is required'')
      else validate_thresholds policy))"

definition Policy_Validate :: "policy_store option \<Rightarrow> snapshot \<Rightarrow> go_error option" where
  "Policy_Validate s candidate =
     (if s = None then Some (policy_error ''store is nil'')
      else first_error check_policy (Services candidate))"

definition Policy_Apply :: "policy_store option \<Rightarrow> settings \<Rightarrow> go_error option" where
  "Policy_Apply s st =
     (if s = None then Some (policy_error ''store is nil'')
      else (let normalizedServiceName = NormalizeServiceName (ServiceName st) in
        if normalizedServiceName = [] then Some (policy_error ''service-name is required'')
        else (case Threshold st of None \<Rightarrow> None
          | Some t \<Rightarrow> validate_thresholds (pool_info_of normalizedServiceName t))))"

definition Policy_Delete :: "string \<Rightarrow> policy_store option \<Rightarrow> policy_store option" where
  "Policy_Delete serviceName sp = (case sp of None \<Rightarrow> None
   | Some s \<Rightarrow> Some (s\<lparr>States := gomap_del (NormalizeServiceName serviceName) (States s)\<rparr>))"

section \<open>Assignment\<close>

definition policyFor :: "policy_store option \<Rightarrow> snapshot option \<Rightarrow> string \<Rightarrow> pool_info \<times> bool" where
  "policyFor s snap serviceName = (case (s, snap) of
     (Some _, Some snap) \<Rightarrow>
       (let normalizedServiceName = NormalizeServiceName serviceName in
        if normalizedServiceName = [] then (empty_pool_info, False)
        else (case gomap_get (Services snap) normalizedServiceName of
          None \<Rightarrow> (empty_pool_info, False)
        | Some service \<Rightarrow> (case SvcThreshold service of
            None \<Rightarrow> (empty_pool_info, False)
          | Some t \<Rightarrow> (pool_info_of normalizedServiceName t, True))))
   | _ \<Rightarrow> (empty_pool_info, False))"

definition thresholdReached :: "traffic_status \<Rightarrow> threshold \<Rightarrow> bool" where
  "thresholdReached status t \<longleftrightarrow>
     (ThRPS t > 0 \<and> StRPS status \<ge> ThRPS t) \<or> (ThInFlight t > 0 \<and> StInFlight status \<ge> ThInFlight t)"

definition decideTier :: "traffic_status \<Rightarrow> pool_info \<Rightarrow> tier" where
  "decideTier status policy =
     (if thresholdReached status (PISuper policy) then TierSuper
      else if thresholdReached status (PIHot policy) then TierHot
      else if thresholdReached status (PINormal policy) then TierNormal
      else TierShared)"

definition delaySharedReturn ::
  "time \<Rightarrow> string \<Rightarrow> 64 word \<Rightarrow> pool_info \<Rightarrow> tier \<Rightarrow> policy_store \<Rightarrow> tier \<times> policy_store" where
  "delaySharedReturn now serviceName revision policy tier s =
     (let found = gomap_get (States s) serviceName;
          store = (\<lambda>state. (ASTier state, s\<lparr>States :=
            gomap_put serviceName (state\<lparr>ASRevision := revision\<rparr>) (States s)\<rparr>));
          fresh = \<lparr>ASRevision = 0, ASPolicy = policy, ASTier = tier, ASBelowSince = zero_time\<rparr>
      in case found of
        None \<Rightarrow> store fresh
      | Some state \<Rightarrow>
          if revision < ASRevision state then
            (if ASPolicy state = policy \<and> tier = TierShared then (ASTier state, s) else (tier, s))
          else if ASPolicy state \<noteq> policy then store fresh
          else if tier \<noteq> TierShared then store (state\<lparr>ASTier := tier, ASBelowSince := zero_time\<rparr>)
          else if ASTier state \<noteq> TierShared then
            (let since = (if time_is_zero (ASBelowSince state) then now else ASBelowSince state);
                 state = state\<lparr>ASBelowSince := since\<rparr>
             in if time_sub now since \<ge> sharedReturnDelay
                then store (state\<lparr>ASTier := TierShared, ASBelowSince := zero_time\<rparr>)
                else store state)
          else store state)"

definition AssignmentFor ::
  "time \<Rightarrow> snapshot option \<Rightarrow> traffic_status \<Rightarrow> policy_store option \<Rightarrow> assignment \<times> policy_store option" where
  "AssignmentFor now snap status sp =
     (let normalizedServiceName = NormalizeServiceName (StConfigKey status);
          decision = \<lparr>AsServiceName = normalizedServiceName, AsTier = TierShared, AsDedicated = False,
            AsStatus = status\<rparr>
      in case (sp, snap) of
        (Some s, Some sn) \<Rightarrow>
          if normalizedServiceName = [] then (decision, sp)
          else (let (policy, found) = policyFor sp snap normalizedServiceName;
                    tier = (if found then decideTier status policy else TierShared);
                    (tier, s') = delaySharedReturn now normalizedServiceName (Revision sn) policy tier s
                in (decision\<lparr>AsTier := tier, AsDedicated := (tier \<noteq> TierShared)\<rparr>, Some s'))
      | _ \<Rightarrow> (decision, sp))"

section \<open>The tier as the greatest level reached\<close>

datatype tier_level = Shared_Level | Normal_Level | Hot_Level | Super_Level

fun level_rank :: "tier_level \<Rightarrow> nat" where
  "level_rank Shared_Level = 0"
| "level_rank Normal_Level = 1"
| "level_rank Hot_Level = 2"
| "level_rank Super_Level = 3"

lemma level_rank_inj: "level_rank a = level_rank b \<Longrightarrow> a = b"
  by (cases a; cases b) simp_all

instantiation tier_level :: linorder
begin

definition less_eq_tier_level :: "tier_level \<Rightarrow> tier_level \<Rightarrow> bool" where
  "less_eq_tier_level a b \<longleftrightarrow> level_rank a \<le> level_rank b"

definition less_tier_level :: "tier_level \<Rightarrow> tier_level \<Rightarrow> bool" where
  "less_tier_level a b \<longleftrightarrow> level_rank a < level_rank b"

instance
  by standard (auto simp: less_eq_tier_level_def less_tier_level_def intro: level_rank_inj)

end

lemma UNIV_tier_level: "UNIV = {Shared_Level, Normal_Level, Hot_Level, Super_Level}"
  using tier_level.exhaust by blast

lemma finite_tier_levels [simp]: "finite (A :: tier_level set)"
  by (rule finite_subset [OF subset_UNIV]) (simp add: UNIV_tier_level)

fun level_tier :: "tier_level \<Rightarrow> tier" where
  "level_tier Shared_Level = TierShared"
| "level_tier Normal_Level = TierNormal"
| "level_tier Hot_Level = TierHot"
| "level_tier Super_Level = TierSuper"

fun level_reached :: "traffic_status \<Rightarrow> pool_info \<Rightarrow> tier_level \<Rightarrow> bool" where
  "level_reached status policy Shared_Level = True"
| "level_reached status policy Normal_Level = thresholdReached status (PINormal policy)"
| "level_reached status policy Hot_Level = thresholdReached status (PIHot policy)"
| "level_reached status policy Super_Level = thresholdReached status (PISuper policy)"

lemma Max_levelI:
  assumes "P l" "\<And>l'. P l' \<Longrightarrow> level_rank l' \<le> level_rank l"
  shows "Max {l. P l} = l"
  using assms by (intro Max_eqI) (auto simp: less_eq_tier_level_def)

text \<open>The chain of tests finds the greatest level that is reached.\<close>

lemma decideTier_level:
  "decideTier status policy = level_tier (Max {l. level_reached status policy l})"
proof -
  consider (super) "thresholdReached status (PISuper policy)"
    | (hot) "\<not> thresholdReached status (PISuper policy)" "thresholdReached status (PIHot policy)"
    | (normal) "\<not> thresholdReached status (PISuper policy)" "\<not> thresholdReached status (PIHot policy)"
        "thresholdReached status (PINormal policy)"
    | (shared) "\<not> thresholdReached status (PISuper policy)" "\<not> thresholdReached status (PIHot policy)"
        "\<not> thresholdReached status (PINormal policy)"
    by blast
  then show ?thesis
  proof cases
    case super
    then have "Max {l. level_reached status policy l} = Super_Level"
      by (intro Max_levelI) (auto elim: level_reached.elims)
    then show ?thesis using super by (simp add: decideTier_def)
  next
    case hot
    then have "Max {l. level_reached status policy l} = Hot_Level"
      by (intro Max_levelI) (auto elim: level_reached.elims)
    then show ?thesis using hot by (simp add: decideTier_def)
  next
    case normal
    then have "Max {l. level_reached status policy l} = Normal_Level"
      by (intro Max_levelI) (auto elim: level_reached.elims)
    then show ?thesis using normal by (simp add: decideTier_def)
  next
    case shared
    then have "Max {l. level_reached status policy l} = Shared_Level"
      by (intro Max_levelI) (auto elim: level_reached.elims)
    then show ?thesis using shared by (simp add: decideTier_def)
  qed
qed

text \<open>The thresholds of a level, and what it means that the load reaches them; a threshold of zero is not set.\<close>

fun level_point :: "threshold_settings \<Rightarrow> tier_level \<Rightarrow> threshold_point" where
  "level_point th Shared_Level = \<lparr>RPS = 0, InFlight = 0\<rparr>"
| "level_point th Normal_Level = Normal th"
| "level_point th Hot_Level = Hot th"
| "level_point th Super_Level = Super th"

definition load_reaches :: "traffic_status \<Rightarrow> threshold_settings \<Rightarrow> tier_level \<Rightarrow> bool" where
  "load_reaches status th l \<longleftrightarrow> l = Shared_Level \<or>
     (0 < RPS (level_point th l) \<and> RPS (level_point th l) \<le> StRPS status) \<or>
     (0 < InFlight (level_point th l) \<and> InFlight (level_point th l) \<le> StInFlight status)"

definition highest_level :: "traffic_status \<Rightarrow> threshold_settings \<Rightarrow> tier_level" where
  "highest_level status th = Max {l. load_reaches status th l}"

lemma load_reaches_level: "load_reaches status th l \<longleftrightarrow> level_reached status (pool_info_of key th) l"
  by (cases l) (auto simp: load_reaches_def thresholdReached_def pool_info_of_def threshold_of_def)

lemma decideTier_highest: "decideTier status (pool_info_of key th) = level_tier (highest_level status th)"
  using decideTier_level [of status "pool_info_of key th"] load_reaches_level [of status th _ key]
  by (simp add: highest_level_def)

lemma highest_level_mono:
  assumes "StRPS status \<le> StRPS status'" "StInFlight status \<le> StInFlight status'"
  shows "highest_level status th \<le> highest_level status' th"
proof -
  have "{l. load_reaches status th l} \<subseteq> {l. load_reaches status' th l}"
    using assms by (auto simp: load_reaches_def)
  moreover have "{l. load_reaches status th l} \<noteq> {}" by (auto simp: load_reaches_def)
  ultimately show ?thesis unfolding highest_level_def by (intro Max_mono) simp_all
qed

text \<open>
  C30: For every load and every thresholds, \<open>decideTier\<close> answers the greatest level, in the order shared, normal,
  hot, super, that is shared or has a threshold above zero which the requests per second or the requests in flight have
  come up to; a level is not skipped because a lower one is not reached. With more requests per second or in
  flight the tier never falls.
\<close>

theorem decideTier_greatest:
  "decideTier status (pool_info_of key th) = level_tier (highest_level status th) \<and>
   highest_level status th \<le>
     highest_level (status\<lparr>StRPS := max x (StRPS status), StInFlight := max n (StInFlight status)\<rparr>) th"
  using decideTier_highest highest_level_mono by simp

lemma decideTier_tier: "decideTier status policy \<in> {TierShared, TierNormal, TierHot, TierSuper}"
  by (simp add: decideTier_def)

section \<open>The store\<close>

text \<open>What a store holds for a service that has thresholds, and for one that has none.\<close>

definition assignment_state_ok :: "assignment_state \<Rightarrow> bool" where
  "assignment_state_ok st \<longleftrightarrow> ASTier st \<in> {TierShared, TierNormal, TierHot, TierSuper} \<and>
     (ASPolicy st = empty_pool_info \<longrightarrow> ASTier st = TierShared) \<and>
     (ASTier st = TierShared \<longrightarrow> ASBelowSince st = zero_time)"

definition policy_store_ok :: "policy_store \<Rightarrow> bool" where
  "policy_store_ok s \<longleftrightarrow> gomap_ok (States s) \<and>
     (\<forall>name st. gomap_get (States s) name = Some st \<longrightarrow> assignment_state_ok st)"

inductive policy_reachable :: "policy_store \<Rightarrow> bool" where
  new: "policy_reachable Policy_NewStore"
| assign: "policy_reachable s \<Longrightarrow> AssignmentFor now snap status (Some s) = (a, Some s') \<Longrightarrow> policy_reachable s'"
| delete: "policy_reachable s \<Longrightarrow> Policy_Delete name (Some s) = Some s' \<Longrightarrow> policy_reachable s'"

inductive_cases policy_reachable_assignE: "policy_reachable s"

lemma policyFor_found: "policyFor s snap name = (policy, True) \<Longrightarrow> policy \<noteq> empty_pool_info"
  by (auto simp: policyFor_def empty_pool_info_def pool_info_of_def Let_def split: option.splits if_splits)

lemma policyFor_missing: "policyFor s snap name = (policy, False) \<Longrightarrow> policy = empty_pool_info"
  by (auto simp: policyFor_def Let_def split: option.splits if_splits)

text \<open>One call for a service whose entry in the store is known.\<close>

definition next_state :: "time \<Rightarrow> pool_info \<Rightarrow> tier \<Rightarrow> assignment_state option \<Rightarrow> assignment_state" where
  "next_state now policy tier found = (case found of
     None \<Rightarrow> \<lparr>ASRevision = 0, ASPolicy = policy, ASTier = tier, ASBelowSince = zero_time\<rparr>
   | Some st \<Rightarrow>
       if ASPolicy st \<noteq> policy then \<lparr>ASRevision = 0, ASPolicy = policy, ASTier = tier, ASBelowSince = zero_time\<rparr>
       else if tier \<noteq> TierShared then st\<lparr>ASTier := tier, ASBelowSince := zero_time\<rparr>
       else if ASTier st \<noteq> TierShared then
         (let since = (if ASBelowSince st = zero_time then now else ASBelowSince st) in
          if now - since \<ge> 30 * second then st\<lparr>ASTier := TierShared, ASBelowSince := zero_time\<rparr>
          else st\<lparr>ASBelowSince := since\<rparr>)
       else st)"

lemma delaySharedReturn_fresh:
  fixes now :: time and policy :: pool_info and tier :: tier
  assumes "case gomap_get (States s) name of None \<Rightarrow> True | Some st \<Rightarrow> ASRevision st \<le> revision"
  defines "st' \<equiv> next_state now policy tier (gomap_get (States s) name)"
  shows "delaySharedReturn now name revision policy tier s =
    (ASTier st', s\<lparr>States := gomap_put name (st'\<lparr>ASRevision := revision\<rparr>) (States s)\<rparr>)"
proof -
  have d: "time_sub a b < 30000000000 \<longleftrightarrow> a - b < 30000000000" for a b
    using time_sub_ge_iff [of "30 * second" a b] by (simp add: max_duration_def not_less [symmetric])
  show ?thesis using assms(1) unfolding st'_def
    by (cases "gomap_get (States s) name")
      (auto simp: delaySharedReturn_def next_state_def time_is_zero_def sharedReturnDelay_def d Let_def not_less [symmetric])
qed

lemma delaySharedReturn_stale:
  "gomap_get (States s) name = Some st \<Longrightarrow> revision < ASRevision st \<Longrightarrow>
   delaySharedReturn now name revision policy tier s =
     (if ASPolicy st = policy \<and> tier = TierShared then ASTier st else tier, s)"
  by (simp add: delaySharedReturn_def)

lemma next_state_ok:
  assumes "case found of None \<Rightarrow> True | Some st \<Rightarrow> assignment_state_ok st"
    and "tier \<in> {TierShared, TierNormal, TierHot, TierSuper}"
    and "policy = empty_pool_info \<Longrightarrow> tier = TierShared"
  shows "assignment_state_ok (next_state now policy tier found)"
  using assms by (cases found) (auto simp: next_state_def assignment_state_ok_def Let_def)


lemma AssignmentFor_step:
  assumes ok: "policy_store_ok s"
    and step: "AssignmentFor now snap status (Some s) = (a, Some s')"
  shows "policy_store_ok s' \<and> AsTier a \<in> {TierShared, TierNormal, TierHot, TierSuper} \<and>
    (AsDedicated a \<longleftrightarrow> AsTier a \<noteq> TierShared) \<and>
    (snd (policyFor (Some s) snap (NormalizeServiceName (StConfigKey status))) \<or> AsTier a = TierShared)"
proof (cases "snap = None \<or> NormalizeServiceName (StConfigKey status) = []")
  case True
  then show ?thesis using ok step by (auto simp: AssignmentFor_def Let_def split: option.splits)
next
  case False
  let ?name = "NormalizeServiceName (StConfigKey status)"
  obtain sn where sn: "snap = Some sn" using False by (cases snap) simp_all
  obtain policy found where pf: "policyFor (Some s) snap ?name = (policy, found)" by fastforce
  define tier where "tier = (if found then decideTier status policy else TierShared)"
  obtain t s1 where d: "delaySharedReturn now ?name (Revision sn) policy tier s = (t, s1)" by fastforce
  have a: "AsTier a = t" "AsDedicated a = (t \<noteq> TierShared)" "s' = s1"
    using step False pf d unfolding tier_def by (auto simp: AssignmentFor_def sn Let_def)
  have tier: "tier \<in> {TierShared, TierNormal, TierHot, TierSuper}"
    unfolding tier_def using decideTier_tier by simp
  have blank: "policy = empty_pool_info \<longleftrightarrow> \<not> found"
    using pf policyFor_found policyFor_missing by (cases found) auto
  then have shared: "policy = empty_pool_info \<Longrightarrow> tier = TierShared" by (simp add: tier_def)
  show ?thesis
  proof (cases "\<exists>st. gomap_get (States s) ?name = Some st \<and> Revision sn < ASRevision st")
    case True
    then obtain st where st: "gomap_get (States s) ?name = Some st" "Revision sn < ASRevision st" by blast
    then have "assignment_state_ok st" using ok by (simp add: policy_store_ok_def)
    then show ?thesis using delaySharedReturn_stale [OF st, of now policy tier] d a ok tier shared blank pf
      by (auto simp: assignment_state_ok_def split: if_splits)
  next
    case False
    let ?st = "next_state now policy tier (gomap_get (States s) ?name)"
    have fresh: "case gomap_get (States s) ?name of None \<Rightarrow> True | Some st \<Rightarrow> ASRevision st \<le> Revision sn"
      using False by (auto simp: not_less split: option.splits)
    have st: "assignment_state_ok ?st"
      using ok by (intro next_state_ok tier shared) (simp_all add: policy_store_ok_def split: option.splits)
    have eq: "t = ASTier ?st" "s1 = s\<lparr>States := gomap_put ?name (?st\<lparr>ASRevision := Revision sn\<rparr>) (States s)\<rparr>"
      using delaySharedReturn_fresh [OF fresh, of now policy tier] d by simp_all
    have "policy_store_ok s1" using ok st unfolding eq policy_store_ok_def
      by (auto simp: gomap_ok_put assignment_state_ok_def)
    moreover have "policy = ASPolicy ?st" by (auto simp: next_state_def Let_def split: option.splits)
    ultimately show ?thesis using st a eq(1) blank pf by (auto simp: assignment_state_ok_def)
  qed
qed

lemma policy_reachable_ok: "policy_reachable s \<Longrightarrow> policy_store_ok s"
proof (induction rule: policy_reachable.induct)
  case new
  then show ?case by (simp add: policy_store_ok_def Policy_NewStore_def)
next
  case (assign s now snap status a s')
  then show ?case using AssignmentFor_step by blast
next
  case (delete s name s')
  then show ?case by (auto simp: Policy_Delete_def policy_store_ok_def split: if_splits)
qed

definition service_thresholds :: "snapshot \<Rightarrow> string \<Rightarrow> threshold_settings option" where
  "service_thresholds snap key = (case gomap_get (Services snap) key of None \<Rightarrow> None | Some svc \<Rightarrow> SvcThreshold svc)"

lemma policyFor_thresholds:
  "NormalizeServiceName key = key \<Longrightarrow> key \<noteq> [] \<Longrightarrow>
   policyFor (Some s) (Some snap) key = (case service_thresholds snap key of
     None \<Rightarrow> (empty_pool_info, False) | Some th \<Rightarrow> (pool_info_of key th, True))"
  by (simp add: policyFor_def service_thresholds_def Let_def split: option.split)

text \<open>The policy and the tier that the thresholds and the load ask for.\<close>

definition wanted :: "snapshot \<Rightarrow> traffic_status \<Rightarrow> string \<Rightarrow> pool_info \<times> tier" where
  "wanted snap status key = (case service_thresholds snap key of
     None \<Rightarrow> (empty_pool_info, TierShared)
   | Some th \<Rightarrow> (pool_info_of key th, level_tier (highest_level status th)))"

lemma AssignmentFor_wanted:
  assumes "NormalizeServiceName (StConfigKey status) = key" "key \<noteq> []" "wanted snap status key = (policy, tier)"
    and "delaySharedReturn now key (Revision snap) policy tier s = (t, s')"
  shows "AssignmentFor now (Some snap) status (Some s) =
    (\<lparr>AsServiceName = key, AsTier = t, AsDedicated = (t \<noteq> TierShared), AsStatus = status\<rparr>, Some s')"
proof -
  have "NormalizeServiceName key = key" using assms(1) by auto
  then show ?thesis using assms
    by (auto simp: AssignmentFor_def wanted_def policyFor_thresholds decideTier_highest split: option.splits)
qed

lemma next_state_tier:
  assumes "\<And>st. found = Some st \<Longrightarrow> assignment_state_ok st" "\<not> thresholds \<Longrightarrow> tier = TierShared \<and> policy = empty_pool_info"
  shows "ASTier (next_state now policy tier found) = tier \<or> tier = TierShared \<and> thresholds \<and>
    (\<exists>st. found = Some st \<and> ASPolicy st = policy \<and> ASTier st = ASTier (next_state now policy tier found))"
proof (cases found)
  case (Some st)
  show ?thesis
  proof (cases "ASPolicy st = policy \<and> tier = TierShared \<and> ASTier st \<noteq> TierShared")
    case True
    then have "thresholds" using assms Some by (auto simp: assignment_state_ok_def)
    then show ?thesis using Some True by (auto simp: next_state_def Let_def)
  next
    case False
    then show ?thesis using Some by (auto simp: next_state_def)
  qed
qed (simp add: next_state_def)

text \<open>
  C14: The assignment of a request for a service and what the store keeps of it, in every reachable state. The assignment
  names the service, carries the status and is dedicated iff its tier is not the shared one. A service
  without thresholds in the snapshot of the request is on the shared tier. One whose load reaches a threshold gets at once the
  highest level reached; below all thresholds it gets the shared tier or keeps the tier the store holds for
  the same thresholds. Entries of other services stay as they are. A request on an older snapshot than
  the entry of its service changes nothing; otherwise the entry becomes the tier assigned, under the thresholds and
  the revision of the snapshot.
\<close>

theorem assignment_sound:
  assumes "policy_reachable s" and "AssignmentFor now (Some snap) status (Some s) = (a, s')"
    and "NormalizeServiceName (StConfigKey status) = key" and "key \<noteq> []"
    and "wanted snap status key = (policy, tier)"
  shows "AsServiceName a = key \<and> AsStatus a = status \<and> (AsDedicated a \<longleftrightarrow> AsTier a \<noteq> TierShared) \<and>
    (AsTier a = tier \<or> tier = TierShared \<and> service_thresholds snap key \<noteq> None \<and>
       (\<exists>st. gomap_get (States s) key = Some st \<and> ASPolicy st = policy \<and> ASTier st = AsTier a)) \<and>
    (\<exists>s1. s' = Some s1 \<and> (\<forall>k. k = key \<or> gomap_get (States s1) k = gomap_get (States s) k) \<and>
       (if \<exists>st. gomap_get (States s) key = Some st \<and> Revision snap < ASRevision st then s1 = s
        else \<exists>st. gomap_get (States s1) key = Some st \<and> ASPolicy st = policy \<and> ASTier st = AsTier a \<and>
          ASRevision st = Revision snap))"
proof -
  obtain t s1 where d: "delaySharedReturn now key (Revision snap) policy tier s = (t, s1)" by fastforce
  have a: "a = \<lparr>AsServiceName = key, AsTier = t, AsDedicated = (t \<noteq> TierShared), AsStatus = status\<rparr>" "s' = Some s1"
    using AssignmentFor_wanted [OF assms(3-5) d] assms(2) by simp_all
  have ok: "assignment_state_ok st" if "gomap_get (States s) key = Some st" for st
    using policy_reachable_ok [OF assms(1)] that by (simp add: policy_store_ok_def)
  have blank: "tier = TierShared" "policy = empty_pool_info" if "service_thresholds snap key = None"
    using assms(5) that by (simp_all add: wanted_def)
  show ?thesis
  proof (cases "\<exists>st. gomap_get (States s) key = Some st \<and> Revision snap < ASRevision st")
    case True
    then obtain st where st: "gomap_get (States s) key = Some st" "Revision snap < ASRevision st" by blast
    have stale: "t = (if ASPolicy st = policy \<and> tier = TierShared then ASTier st else tier)" "s1 = s"
      using delaySharedReturn_stale [OF st, of now policy tier] d by simp_all
    have "t = tier \<or> tier = TierShared \<and> service_thresholds snap key \<noteq> None \<and>
        (\<exists>st. gomap_get (States s) key = Some st \<and> ASPolicy st = policy \<and> ASTier st = t)"
      using stale(1) ok [OF st(1)] blank st(1) by (auto simp: assignment_state_ok_def)
    then show ?thesis using True by (simp add: a stale(2))
  next
    case False
    let ?st = "next_state now policy tier (gomap_get (States s) key)"
    have fresh: "case gomap_get (States s) key of None \<Rightarrow> True | Some st \<Rightarrow> ASRevision st \<le> Revision snap"
      using False by (auto simp: not_less split: option.splits)
    have eq: "t = ASTier ?st" "s1 = s\<lparr>States := gomap_put key (?st\<lparr>ASRevision := Revision snap\<rparr>) (States s)\<rparr>"
      using delaySharedReturn_fresh [OF fresh, of now policy tier] d by simp_all
    have "ASPolicy ?st = policy" by (auto simp: next_state_def Let_def split: option.splits)
    moreover have "t = tier \<or> tier = TierShared \<and> service_thresholds snap key \<noteq> None \<and>
        (\<exists>st. gomap_get (States s) key = Some st \<and> ASPolicy st = policy \<and> ASTier st = t)"
      unfolding eq(1) by (rule next_state_tier) (use ok blank in auto)
    ultimately show ?thesis unfolding a if_not_P [OF False] by (simp add: eq)
  qed
qed

section \<open>The delayed return to the shared pool\<close>

text \<open>The store after the requests \<open>obs\<close>, all of them on the snapshot \<open>snap\<close>.\<close>

definition serve :: "snapshot \<Rightarrow> (time \<times> traffic_status) list \<Rightarrow> policy_store \<Rightarrow> policy_store" where
  "serve snap obs s = foldl (\<lambda>s (now, status).
     case snd (AssignmentFor now (Some snap) status (Some s)) of Some s' \<Rightarrow> s' | None \<Rightarrow> s) s obs"

lemma policyFor_store: "policyFor (Some s) snap name = policyFor (Some s') snap name"
  by (simp add: policyFor_def)

lemma AssignmentFor_fresh:
  fixes now :: time
  assumes "NormalizeServiceName (StConfigKey status) = key" "key \<noteq> []"
    and "policyFor (Some s) (Some snap) key = (policy, True)"
    and "case gomap_get (States s) key of None \<Rightarrow> True | Some st \<Rightarrow> ASRevision st \<le> Revision snap"
  defines "st' \<equiv> next_state now policy (decideTier status policy) (gomap_get (States s) key)"
  shows "AsTier (fst (AssignmentFor now (Some snap) status (Some s))) = ASTier st'"
    and "snd (AssignmentFor now (Some snap) status (Some s)) =
      Some (s\<lparr>States := gomap_put key (st'\<lparr>ASRevision := Revision snap\<rparr>) (States s)\<rparr>)"
  using assms(1-3) delaySharedReturn_fresh [OF assms(4), of now policy "decideTier status policy"]
  unfolding st'_def by (simp_all add: AssignmentFor_def)

text \<open>The entry of the service while its load stays low, \<open>ts\<close> being the times of the requests.\<close>

definition falling_state :: "64 word \<Rightarrow> pool_info \<Rightarrow> tier \<Rightarrow> time list \<Rightarrow> assignment_state" where
  "falling_state revision policy tier ts =
     (if ts \<noteq> [] \<and> last ts - hd ts \<ge> 30 * second
      then \<lparr>ASRevision = revision, ASPolicy = policy, ASTier = TierShared, ASBelowSince = zero_time\<rparr>
      else \<lparr>ASRevision = revision, ASPolicy = policy, ASTier = tier,
        ASBelowSince = (if ts = [] then zero_time else hd ts)\<rparr>)"

lemma falling_step:
  assumes "tier \<noteq> TierShared" "sorted ((zero_time + 1) # ts @ [now])"
  shows "(next_state now policy TierShared (Some (falling_state revision policy tier ts)))\<lparr>ASRevision := revision\<rparr> =
    falling_state revision policy tier (ts @ [now])"
proof (cases "ts = []")
  case True
  then show ?thesis using assms(1) by (simp add: next_state_def falling_state_def)
next
  case False
  have "zero_time + 1 \<le> hd ts" using assms(2) hd_in_set [OF False] by (simp add: sorted_append)
  then have "hd ts \<noteq> zero_time" by linarith
  moreover have "last ts \<le> now" using assms(2) last_in_set [OF False] by (simp add: sorted_append)
  ultimately show ?thesis using assms(1) False by (auto simp: next_state_def falling_state_def Let_def)
qed

lemma serve_snoc:
  "serve snap (obs @ [(now, status)]) s =
     (case snd (AssignmentFor now (Some snap) status (Some (serve snap obs s))) of
        Some s' \<Rightarrow> s' | None \<Rightarrow> serve snap obs s)"
  by (simp add: serve_def split: option.split)

lemma serve_falling:
  assumes key: "key \<noteq> []" and pol: "policyFor (Some s) (Some snap) key = (policy, True)"
    and fresh: "case gomap_get (States s) key of None \<Rightarrow> True | Some st \<Rightarrow> ASRevision st \<le> Revision snap"
    and first: "NormalizeServiceName (StConfigKey status0) = key" "decideTier status0 policy = tier" "tier \<noteq> TierShared"
  shows "list_all (\<lambda>(t, st). NormalizeServiceName (StConfigKey st) = key \<and> decideTier st policy = TierShared) obs \<Longrightarrow>
    sorted ((zero_time + 1) # map fst obs) \<Longrightarrow>
    gomap_get (States (serve snap ((t0, status0) # obs) s)) key =
      Some (falling_state (Revision snap) policy tier (map fst obs))"
proof (induction obs rule: rev_induct)
  case Nil
  have "serve snap [(t0, status0)] s =
      (case snd (AssignmentFor t0 (Some snap) status0 (Some s)) of Some s' \<Rightarrow> s' | None \<Rightarrow> s)"
    by (simp add: serve_def)
  also have "\<dots> = s\<lparr>States := gomap_put key ((next_state t0 policy tier (gomap_get (States s) key))
      \<lparr>ASRevision := Revision snap\<rparr>) (States s)\<rparr>"
    using AssignmentFor_fresh(2) [OF first(1) key pol fresh, of t0] first(2) by simp
  finally show ?case using first(3)
    by (cases "gomap_get (States s) key") (auto simp: next_state_def falling_state_def)
next
  case (snoc o1 obs)
  obtain now status where o1: "o1 = (now, status)" by fastforce
  let ?s = "serve snap ((t0, status0) # obs) s"
  have ih: "gomap_get (States ?s) key = Some (falling_state (Revision snap) policy tier (map fst obs))"
    using snoc by (simp add: sorted_append)
  have rev: "ASRevision (falling_state (Revision snap) policy tier (map fst obs)) = Revision snap"
    by (simp add: falling_state_def)
  have st: "NormalizeServiceName (StConfigKey status) = key" "decideTier status policy = TierShared"
    using snoc.prems(1) o1 by simp_all
  have pol': "policyFor (Some ?s) (Some snap) key = (policy, True)" using pol policyFor_store by metis
  have "snd (AssignmentFor now (Some snap) status (Some ?s)) = Some (?s\<lparr>States :=
      gomap_put key ((next_state now policy TierShared (gomap_get (States ?s) key))\<lparr>ASRevision := Revision snap\<rparr>) (States ?s)\<rparr>)"
    using AssignmentFor_fresh(2) [OF st(1) key pol', of now] ih rev st(2) by simp
  moreover have "sorted ((zero_time + 1) # map fst obs @ [now])" using snoc.prems(2) o1 by simp
  ultimately show ?case using falling_step [OF first(3), of "map fst obs" now "Revision snap" policy] ih
    unfolding o1 append_Cons [symmetric] serve_snoc by simp
qed

text \<open>
  C13: When a service on a dedicated tier falls below all its thresholds, every later request still
  gets the old tier until 30 seconds have passed since the first request below them, and the shared
  pool from then on (on one snapshot, with a clock that does not go back).
\<close>

theorem dedicated_tier_kept_30_seconds:
  assumes "key \<noteq> []" and "policyFor (Some s) (Some snap) key = (policy, True)"
    and "case gomap_get (States s) key of None \<Rightarrow> True | Some st \<Rightarrow> ASRevision st \<le> Revision snap"
    and "NormalizeServiceName (StConfigKey status0) = key" and "decideTier status0 policy = tier" and "tier \<noteq> TierShared"
    and "list_all (\<lambda>(t, st). NormalizeServiceName (StConfigKey st) = key \<and> decideTier st policy = TierShared)
      (obs @ [(now, status)])"
    and "sorted ((zero_time + 1) # map fst obs @ [now])"
  shows "AsTier (fst (AssignmentFor now (Some snap) status (Some (serve snap ((t0, status0) # obs) s)))) =
    (if now - fst (hd (obs @ [(now, status)])) < 30 * second then tier else TierShared)"
proof -
  let ?s = "serve snap ((t0, status0) # obs) s" and ?f = "falling_state (Revision snap) policy tier"
  have below: "list_all (\<lambda>(t, st). NormalizeServiceName (StConfigKey st) = key \<and> decideTier st policy = TierShared) obs"
    and st: "NormalizeServiceName (StConfigKey status) = key" "decideTier status policy = TierShared"
    using assms(7) by simp_all
  have "sorted ((zero_time + 1) # map fst obs)" using assms(8) by (simp add: sorted_append)
  then have get: "gomap_get (States ?s) key = Some (?f (map fst obs))"
    using serve_falling [OF assms(1-6) below] by blast
  have pol: "policyFor (Some ?s) (Some snap) key = (policy, True)" using assms(2) policyFor_store by metis
  have "AsTier (fst (AssignmentFor now (Some snap) status (Some ?s))) =
      ASTier (next_state now policy TierShared (Some (?f (map fst obs))))"
    using AssignmentFor_fresh(1) [OF st(1) assms(1) pol, of now] get st(2) by (simp add: falling_state_def)
  also have "\<dots> = ASTier (?f (map fst obs @ [now]))"
    using arg_cong [OF falling_step [OF assms(6,8), of "Revision snap" policy], of ASTier] by simp
  finally show ?thesis by (cases obs) (auto simp: falling_state_def)
qed

text \<open>
  Remark: A request that still runs on an older snapshot than the store has seen for its service leaves
  the store as it is: it cannot start, stop or reset the return timer of newer requests.
\<close>

theorem stale_request_keeps_store:
  assumes "gomap_get (States s) (NormalizeServiceName (StConfigKey status)) = Some st" and "Revision snap < ASRevision st"
  shows "snd (AssignmentFor now (Some snap) status (Some s)) = Some s"
  using delaySharedReturn_stale [OF assms(1,2)] by (simp add: AssignmentFor_def Let_def split: prod.splits)

section \<open>The validator\<close>

definition thresholds_valid :: "snapshot \<Rightarrow> bool" where
  "thresholds_valid c \<longleftrightarrow> list_all (\<lambda>(name, svc). case SvcThreshold svc of None \<Rightarrow> True
     | Some t \<Rightarrow> list_all (\<lambda>p. 0 \<le> RPS p \<and> 0 \<le> InFlight p) [Normal t, Hot t, Super t]) (Services c)"

lemma validateThreshold_None_iff:
  "validateThreshold (threshold_of p) name = None \<longleftrightarrow> 0 \<le> RPS p \<and> 0 \<le> InFlight p"
  by (simp add: validateThreshold_def threshold_of_def not_less)

lemma validate_thresholds_None_iff:
  "validate_thresholds (pool_info_of key t) = None \<longleftrightarrow>
     list_all (\<lambda>p. 0 \<le> RPS p \<and> 0 \<le> InFlight p) [Normal t, Hot t, Super t]"
proof -
  have "validate_thresholds (pool_info_of key t) = None \<longleftrightarrow>
      validateThreshold (threshold_of (Normal t)) ''normal'' = None \<and>
      validateThreshold (threshold_of (Hot t)) ''hot'' = None \<and>
      validateThreshold (threshold_of (Super t)) ''super'' = None"
    by (auto simp: validate_thresholds_def pool_info_of_def split: option.splits)
  then show ?thesis by (simp add: validateThreshold_None_iff)
qed

lemma check_policy_None:
  "check_policy (name, svc) = None \<Longrightarrow> (case SvcThreshold svc of None \<Rightarrow> True
     | Some t \<Rightarrow> list_all (\<lambda>p. 0 \<le> RPS p \<and> 0 \<le> InFlight p) [Normal t, Hot t, Super t])"
  by (simp add: check_policy_def Let_def validate_thresholds_None_iff split: option.splits if_splits)

lemma Policy_Validate_sound: "Policy_Validate (Some s) c = None \<Longrightarrow> thresholds_valid c"
  by (force simp: Policy_Validate_def thresholds_valid_def list_all_iff split: option.splits
      dest!: check_policy_None)

interpretation policy_validator: snapshot_validator "Policy_Validate (Some s)" thresholds_valid for s
  by unfold_locales (rule Policy_Validate_sound)

section \<open>A service with thresholds\<close>

definition sample_threshold :: threshold_settings where
  "sample_threshold = \<lparr>Normal = \<lparr>RPS = 0, InFlight = 10\<rparr>, Hot = \<lparr>RPS = 0, InFlight = 40\<rparr>,
     Super = \<lparr>RPS = 0, InFlight = 0\<rparr>\<rparr>"

definition sample_policy_snapshot :: snapshot where
  "sample_policy_snapshot = \<lparr>Revision = 2, Services = [(''users'', \<lparr>SvcName = ''users'', SvcGlobal = None,
     SvcHealth = None, SvcThreshold = Some sample_threshold, SvcEndpoints = [], SvcInstances = []\<rparr>)],
     Routes = [], WildcardRoutes = []\<rparr>"

definition load_status :: "int \<Rightarrow> traffic_status" where
  "load_status n = \<lparr>StConfigKey = '' Users'', StInFlight = n, StStartedRequests = 0, StFinishedRequests = 0,
     StRequestsInWindow = 0, StRPS = 0, StAverageLatency = 0, StWindow = minute, StLastSeenAt = 0\<rparr>"

lemma sample_key: "NormalizeServiceName (StConfigKey (load_status n)) = ''users''"
proof -
  have "NormalizeServiceName '' Users'' = ''users''" by code_simp
  then show ?thesis by (simp add: load_status_def)
qed

definition sample_policy :: pool_info where
  "sample_policy = pool_info_of ''users'' sample_threshold"

lemma sample_policyFor: "policyFor (Some s) (Some sample_policy_snapshot) ''users'' = (sample_policy, True)"
proof -
  have "NormalizeServiceName ''users'' = ''users''" by code_simp
  then show ?thesis by (simp add: policyFor_def sample_policy_snapshot_def sample_policy_def)
qed

lemma sample_tiers:
  "decideTier (load_status 50) sample_policy = TierHot" "decideTier (load_status 3) sample_policy = TierShared"
  by (simp_all add: decideTier_def thresholdReached_def load_status_def sample_policy_def pool_info_of_def
      threshold_of_def sample_threshold_def)

lemma sample_fresh:
  "case gomap_get (States Policy_NewStore) ''users'' of None \<Rightarrow> True | Some st \<Rightarrow> ASRevision st \<le> Revision sample_policy_snapshot"
  by (simp add: Policy_NewStore_def)

theorem dedicated_tier_kept_30_seconds_witness:
  "AsTier (fst (AssignmentFor (39 * second) (Some sample_policy_snapshot) (load_status 3)
     (Some (serve sample_policy_snapshot [(0, load_status 50), (10 * second, load_status 3)] Policy_NewStore)))) = TierHot \<and>
   AsTier (fst (AssignmentFor (40 * second) (Some sample_policy_snapshot) (load_status 3)
     (Some (serve sample_policy_snapshot [(0, load_status 50), (10 * second, load_status 3)] Policy_NewStore)))) = TierShared"
proof -
  have s: "sorted ((zero_time + 1) # map fst [(10 * second, load_status 3)] @ [t])" if "10 * second \<le> t" for t
    using that by (simp add: zero_time_def)
  have l: "list_all (\<lambda>(t, st). NormalizeServiceName (StConfigKey st) = ''users'' \<and> decideTier st sample_policy = TierShared)
      ([(10 * second, load_status 3)] @ [(t, load_status 3)])" for t
    using sample_key sample_tiers by simp
  note kept = dedicated_tier_kept_30_seconds [OF _ sample_policyFor sample_fresh sample_key sample_tiers(1) _ l s, where ?t0.0 = 0]
  show ?thesis using kept [of "39 * second"] kept [of "40 * second"] by simp
qed

definition served_store :: policy_store where
  "served_store = serve sample_policy_snapshot [(0, load_status 50)] Policy_NewStore"

lemma served_store_entry:
  "gomap_get (States served_store) ''users'' =
     Some \<lparr>ASRevision = 2, ASPolicy = sample_policy, ASTier = TierHot, ASBelowSince = zero_time\<rparr>"
  unfolding served_store_def
  using serve_falling [OF _ sample_policyFor sample_fresh sample_key sample_tiers(1), of "[]" 0]
  by (simp add: falling_state_def sample_policy_snapshot_def)

theorem stale_request_keeps_store_witness:
  "snd (AssignmentFor (39 * second) (Some (sample_policy_snapshot\<lparr>Revision := 1\<rparr>)) (load_status 3) (Some served_store)) =
     Some served_store"
  using stale_request_keeps_store [of served_store "load_status 3"
      "\<lparr>ASRevision = 2, ASPolicy = sample_policy, ASTier = TierHot, ASBelowSince = zero_time\<rparr>"
      "sample_policy_snapshot\<lparr>Revision := 1\<rparr>" "39 * second"]
  by (simp add: sample_key served_store_entry)

theorem assignment_sound_witness:
  "\<exists>a s1 st. AssignmentFor 0 (Some sample_policy_snapshot) (load_status 50) (Some Policy_NewStore) = (a, Some s1) \<and>
     AsTier a = TierHot \<and> AsDedicated a \<and> gomap_get (States s1) ''users'' = Some st \<and> ASTier st = TierHot \<and> ASRevision st = 2"
proof -
  obtain a s' where e: "AssignmentFor 0 (Some sample_policy_snapshot) (load_status 50) (Some Policy_NewStore) = (a, s')" by fastforce
  have th: "service_thresholds sample_policy_snapshot ''users'' = Some sample_threshold"
    by (simp add: service_thresholds_def sample_policy_snapshot_def)
  have "level_tier (highest_level (load_status 50) sample_threshold) = TierHot"
    using decideTier_highest [of "load_status 50" "''users''" sample_threshold] sample_tiers(1) sample_policyFor
      policyFor_thresholds [of "''users''" undefined sample_policy_snapshot] th
    by (simp add: sample_policy_def)
  then have w: "wanted sample_policy_snapshot (load_status 50) ''users'' = (pool_info_of ''users'' sample_threshold, TierHot)"
    by (simp add: wanted_def th)
  have "TierHot \<noteq> TierShared" "Revision sample_policy_snapshot = 2" by (simp_all add: sample_policy_snapshot_def)
  then show ?thesis
    using assignment_sound [OF policy_reachable.new e sample_key _ w] e by (auto simp: Policy_NewStore_def)
qed

end
