(* ===== verification/Coordinator.thy ===== *)
theory Coordinator
  imports Policy
begin

text \<open>
  Package \<open>internal/pool\<close> (\<open>coordinate.go\<close>, \<open>client.go\<close> and the transports of \<open>transfer.go\<close>): the shared
  client, the dedicated clients of the services, their replacement and their retirement.

  A \<open>*managedClient\<close> is a number, its index in the list \<open>Clients\<close> of all clients ever made, so that a
  request can hold a client the coordinator has already replaced. \<open>MCWaiting\<close> is the counter of the
  wait group, \<open>MCIdleCloses\<close> how often \<open>closeIdleConnections\<close> was called, and \<open>Drainers\<close> the goroutines
  started by \<open>retire\<close> that wait for the counter to reach zero. \<open>Acquire\<close> takes the lock once for
  reading and, when that does not settle the request, once for writing; each locked section is one
  step, and other requests may run between the two. The pool settings \<open>g\<close> are loaded once at start;
  \<open>http.DefaultTransport\<close> is the argument \<open>default_transport\<close>, \<open>None\<close> when it is no \<open>*http.Transport\<close>.
\<close>

section \<open>Transports\<close>

record transport =
  TrMaxIdleConns :: int
  TrMaxIdleConnsPerHost :: int
  TrMaxConnsPerHost :: int
  TrIdleConnTimeout :: duration
  TrResponseHeaderTimeout :: duration
  TrTLSHandshakeTimeout :: duration
  TrExpectContinueTimeout :: duration

definition makePool :: "transport option \<Rightarrow> pool_config \<Rightarrow> transport result" where
  "makePool default_transport config = (case default_transport of
     None \<Rightarrow> Inl (errorf [Pool_ErrInvalidConfig] ''default transport is not *http.Transport'')
   | Some t \<Rightarrow>
     (let t = t\<lparr>TrMaxIdleConns := MaxIdleConns config, TrMaxIdleConnsPerHost := MaxIdleConnsPerHost config,
                TrMaxConnsPerHost := MaxConnsPerHost config, TrIdleConnTimeout := IdleConnTimeout config\<rparr>;
          t = (if ResponseHeaderTimeout config \<noteq> 0
               then t\<lparr>TrResponseHeaderTimeout := ResponseHeaderTimeout config\<rparr> else t);
          t = (if TLSHandshakeTimeout config \<noteq> 0
               then t\<lparr>TrTLSHandshakeTimeout := TLSHandshakeTimeout config\<rparr> else t);
          t = (if ExpectContinueTimeout config \<noteq> 0
               then t\<lparr>TrExpectContinueTimeout := ExpectContinueTimeout config\<rparr> else t)
      in Inr t))"

definition NewTransport :: "transport option \<Rightarrow> pool_globals \<Rightarrow> tier \<Rightarrow> transport result" where
  "NewTransport default_transport g tier = res_bind (pool_ConfigFor tier g) (makePool default_transport)"

section \<open>Clients (\<open>client.go\<close>)\<close>

record managed_client =
  MCTier :: tier
  MCTransport :: transport
  MCWaiting :: int
  MCIdleCloses :: nat

definition newManagedClient :: "transport option \<Rightarrow> pool_globals \<Rightarrow> tier \<Rightarrow> managed_client result" where
  "newManagedClient default_transport g tier =
     res_bind (NewTransport default_transport g tier) (\<lambda>transport.
     res_bind (pool_ConfigFor tier g) (\<lambda>config.
       Inr \<lparr>MCTier = PCTier config, MCTransport = transport, MCWaiting = 0, MCIdleCloses = 0\<rparr>))"

definition newSharedClient :: "transport option \<Rightarrow> pool_globals \<Rightarrow> managed_client result" where
  "newSharedClient default_transport g =
     res_bind (SharedConfig g) (\<lambda>config.
     res_bind (makePool default_transport config) (\<lambda>transport.
       Inr \<lparr>MCTier = PCTier config, MCTransport = transport, MCWaiting = 0, MCIdleCloses = 0\<rparr>))"

record coordinator =
  CoShared :: "nat option"
  CoDedicated :: "(string, nat) gomap"
  Clients :: "managed_client list"
  Drainers :: "nat list"

definition on_client :: "nat \<Rightarrow> (managed_client \<Rightarrow> managed_client) \<Rightarrow> coordinator \<Rightarrow> coordinator" where
  "on_client c f p = p\<lparr>Clients := (Clients p)[c := f (Clients p ! c)]\<rparr>"

definition closeIdleConnections :: "nat \<Rightarrow> coordinator \<Rightarrow> coordinator" where
  "closeIdleConnections c = on_client c (\<lambda>m. m\<lparr>MCIdleCloses := MCIdleCloses m + 1\<rparr>)"

definition client_acquire :: "nat \<Rightarrow> coordinator \<Rightarrow> coordinator" where
  "client_acquire c = on_client c (\<lambda>m. m\<lparr>MCWaiting := MCWaiting m + 1\<rparr>)"

definition client_release :: "nat \<Rightarrow> coordinator \<Rightarrow> coordinator" where
  "client_release c = on_client c (\<lambda>m. m\<lparr>MCWaiting := MCWaiting m - 1\<rparr>)"

definition retire :: "nat \<Rightarrow> coordinator \<Rightarrow> coordinator" where
  "retire c p = (let p = closeIdleConnections c p in p\<lparr>Drainers := Drainers p @ [c]\<rparr>)"

text \<open>The goroutine of \<open>retire\<close> after \<open>wg.Wait\<close>: number \<open>j\<close> of the waiting ones.\<close>

definition retire_drained :: "nat \<Rightarrow> coordinator \<Rightarrow> coordinator" where
  "retire_drained j p =
     (let c = Drainers p ! j in
      (closeIdleConnections c p)\<lparr>Drainers := take j (Drainers p) @ drop (Suc j) (Drainers p)\<rparr>)"

definition add_client :: "managed_client \<Rightarrow> coordinator \<Rightarrow> coordinator" where
  "add_client m p = p\<lparr>Clients := Clients p @ [m]\<rparr>"

section \<open>The coordinator (\<open>coordinate.go\<close>)\<close>

text \<open>A panic of \<open>NewCoordinator\<close> is the error it panics with.\<close>

definition NewCoordinator :: "transport option \<Rightarrow> pool_globals \<Rightarrow> coordinator result" where
  "NewCoordinator default_transport g = (case newSharedClient default_transport g of
     Inl e \<Rightarrow> Inl e
   | Inr m \<Rightarrow> Inr \<lparr>CoShared = Some 0, CoDedicated = [], Clients = [m], Drainers = []\<rparr>)"

definition sharedClient_read :: "assignment \<Rightarrow> coordinator \<Rightarrow> (nat \<times> coordinator) option" where
  "sharedClient_read a p =
     (let configKey = NormalizeServiceName (AsServiceName a) in
      case CoShared p of
        None \<Rightarrow> None
      | Some cached \<Rightarrow>
          if gomap_get (CoDedicated p) configKey = None \<or> configKey = []
          then Some (cached, client_acquire cached p) else None)"

definition sharedClient_write ::
  "transport option \<Rightarrow> pool_globals \<Rightarrow> assignment \<Rightarrow> coordinator \<Rightarrow> nat result \<times> coordinator" where
  "sharedClient_write default_transport g a p =
     (let configKey = NormalizeServiceName (AsServiceName a);
          p = (if configKey \<noteq> [] then
                 (case gomap_get (CoDedicated p) configKey of
                    Some oldClient \<Rightarrow>
                      (retire oldClient p)\<lparr>CoDedicated := gomap_del configKey (CoDedicated p)\<rparr>
                  | None \<Rightarrow> p)
               else p)
      in case CoShared p of
        Some cached \<Rightarrow> (Inr cached, client_acquire cached p)
      | None \<Rightarrow> (case newSharedClient default_transport g of
          Inl e \<Rightarrow> (Inl e, p)
        | Inr m \<Rightarrow>
            (let cached = length (Clients p);
                 p = (add_client m p)\<lparr>CoShared := Some cached\<rparr>
             in (Inr cached, client_acquire cached p))))"

definition dedicatedClient_read :: "assignment \<Rightarrow> coordinator \<Rightarrow> (nat \<times> coordinator) option" where
  "dedicatedClient_read a p =
     (case gomap_get (CoDedicated p) (NormalizeServiceName (AsServiceName a)) of
        None \<Rightarrow> None
      | Some cached \<Rightarrow> if MCTier (Clients p ! cached) = AsTier a
          then Some (cached, client_acquire cached p) else None)"

definition dedicatedClient_write ::
  "transport option \<Rightarrow> pool_globals \<Rightarrow> assignment \<Rightarrow> coordinator \<Rightarrow> nat result \<times> coordinator" where
  "dedicatedClient_write default_transport g a p =
     (case dedicatedClient_read a p of
        Some (cached, p) \<Rightarrow> (Inr cached, p)
      | None \<Rightarrow> (case newManagedClient default_transport g (AsTier a) of
          Inl e \<Rightarrow> (Inl e, p)
        | Inr m \<Rightarrow>
            (let configKey = NormalizeServiceName (AsServiceName a);
                 nextClient = length (Clients p);
                 p = add_client m p;
                 p = (case gomap_get (CoDedicated p) configKey of
                        Some cached \<Rightarrow> retire cached p | None \<Rightarrow> p);
                 p = p\<lparr>CoDedicated := gomap_put configKey nextClient (CoDedicated p)\<rparr>
             in (Inr nextClient, client_acquire nextClient p))))"

text \<open>
  A request: \<open>Choosing\<close> has not entered \<open>Acquire\<close> yet, \<open>Upgrading\<close> has released the read lock without a
  client and waits for the write lock, \<open>Leased\<close> uses client \<open>c\<close>, \<open>Finished\<close> has called \<open>Finish\<close>.
\<close>

datatype request_state =
    Choosing assignment
  | Upgrading assignment
  | Leased assignment nat
  | Finished
  | Refused go_error

text \<open>\<open>clientFor\<close> up to the end of the section under the read lock.\<close>

definition clientFor_read :: "pool_globals \<Rightarrow> assignment \<Rightarrow> coordinator \<Rightarrow> request_state \<times> coordinator" where
  "clientFor_read g a p =
     (if \<not> AsDedicated a then
        (case sharedClient_read a p of
           Some (c, p) \<Rightarrow> (Leased a c, p) | None \<Rightarrow> (Upgrading a, p))
      else (case pool_ConfigFor (AsTier a) g of
        Inl e \<Rightarrow> (Refused e, p)
      | Inr config \<Rightarrow>
          (let a = a\<lparr>AsTier := PCTier config\<rparr> in
           if NormalizeServiceName (AsServiceName a) = [] then
             (Refused (errorf [Pool_ErrInvalidConfigKey] ''config key is required for dedicated pool''), p)
           else (case dedicatedClient_read a p of
             Some (c, p) \<Rightarrow> (Leased a c, p) | None \<Rightarrow> (Upgrading a, p)))))"

text \<open>The section under the write lock.\<close>

definition clientFor_write ::
  "transport option \<Rightarrow> pool_globals \<Rightarrow> assignment \<Rightarrow> coordinator \<Rightarrow> request_state \<times> coordinator" where
  "clientFor_write default_transport g a p =
     (case (if AsDedicated a then dedicatedClient_write default_transport g a p
            else sharedClient_write default_transport g a p) of
        (Inl e, p) \<Rightarrow> (Refused e, p)
      | (Inr c, p) \<Rightarrow> (Leased a c, p))"

text \<open>\<open>Acquire\<close> when no other request runs between the two sections.\<close>

definition Acquire ::
  "transport option \<Rightarrow> pool_globals \<Rightarrow> assignment \<Rightarrow> coordinator \<Rightarrow> nat result \<times> coordinator" where
  "Acquire default_transport g a p =
     (let (st, p) = clientFor_read g a p;
          (st, p) = (case st of Upgrading a \<Rightarrow> clientFor_write default_transport g a p | _ \<Rightarrow> (st, p))
      in case st of Leased _ c \<Rightarrow> (Inr c, p) | Refused e \<Rightarrow> (Inl e, p)
         | _ \<Rightarrow> (Inl (errorf [] []), p))"

definition pool_count :: "coordinator \<Rightarrow> nat \<times> nat" where
  "pool_count p = ((if CoShared p = None then 0 else 1), length (CoDedicated p))"

definition dedicatedTier :: "string \<Rightarrow> coordinator \<Rightarrow> tier \<times> bool" where
  "dedicatedTier configKey p = (case gomap_get (CoDedicated p) (NormalizeServiceName configKey) of
     None \<Rightarrow> (TierShared, False) | Some c \<Rightarrow> (MCTier (Clients p ! c), True))"

section \<open>Interleavings\<close>

text \<open>One step of request \<open>i\<close>.\<close>

definition request_step ::
  "transport option \<Rightarrow> pool_globals \<Rightarrow> nat \<Rightarrow> coordinator \<times> request_state list \<Rightarrow>
   coordinator \<times> request_state list" where
  "request_step default_transport g i sys = (case sys of (p, rs) \<Rightarrow>
     (case rs ! i of
        Choosing a \<Rightarrow> (case clientFor_read g a p of (st, p) \<Rightarrow> (p, rs[i := st]))
      | Upgrading a \<Rightarrow> (case clientFor_write default_transport g a p of (st, p) \<Rightarrow> (p, rs[i := st]))
      | Leased a c \<Rightarrow> (client_release c p, rs[i := Finished])
      | _ \<Rightarrow> (p, rs)))"

inductive pool_system ::
  "transport option \<Rightarrow> pool_globals \<Rightarrow> coordinator \<times> request_state list \<Rightarrow> bool"
  for default_transport g where
  start: "NewCoordinator default_transport g = Inr p \<Longrightarrow> pool_system default_transport g (p, [])"
| arrive: "pool_system default_transport g (p, rs) \<Longrightarrow> pool_system default_transport g (p, rs @ [Choosing a])"
| run: "pool_system default_transport g (p, rs) \<Longrightarrow> i < length rs \<Longrightarrow>
    pool_system default_transport g (request_step default_transport g i (p, rs))"
| drain: "pool_system default_transport g (p, rs) \<Longrightarrow> j < length (Drainers p) \<Longrightarrow>
    MCWaiting (Clients p ! (Drainers p ! j)) = 0 \<Longrightarrow>
    pool_system default_transport g (retire_drained j p, rs)"

section \<open>The invariant of the clients\<close>

named_theorems client_simps "primitive operations on the clients"

lemma on_client_simps [simp, client_simps]:
  "CoShared (on_client c f p) = CoShared p" "CoDedicated (on_client c f p) = CoDedicated p"
  "Drainers (on_client c f p) = Drainers p" "length (Clients (on_client c f p)) = length (Clients p)"
  "i < length (Clients p) \<Longrightarrow> Clients (on_client c f p) ! i = (if i = c then f (Clients p ! c) else Clients p ! i)"
  by (auto simp: on_client_def nth_list_update)

text \<open>A client new requests can still get.\<close>

definition cached_client :: "coordinator \<Rightarrow> nat \<Rightarrow> bool" where
  "cached_client p c \<longleftrightarrow> c = 0 \<or> (\<exists>k. gomap_get (CoDedicated p) k = Some c)"

definition idle_closes :: "coordinator \<Rightarrow> nat \<Rightarrow> nat" where
  "idle_closes p c = (if cached_client p c then 0 else if c \<in> set (Drainers p) then 1 else 2)"

text \<open>
  \<open>h c\<close> is the number of leases of client \<open>c\<close>; \<open>owner c\<close> the service a dedicated client was made for.
\<close>

definition clients_inv :: "(nat \<Rightarrow> nat) \<Rightarrow> (nat \<Rightarrow> string) \<Rightarrow> coordinator \<Rightarrow> bool" where
  "clients_inv h owner p \<longleftrightarrow>
     CoShared p = Some 0 \<and> 0 < length (Clients p) \<and> gomap_ok (CoDedicated p) \<and>
     (\<forall>k c. gomap_get (CoDedicated p) k = Some c \<longrightarrow>
        k \<noteq> [] \<and> 0 < c \<and> c < length (Clients p) \<and> c \<notin> set (Drainers p) \<and> owner c = k) \<and>
     distinct (Drainers p) \<and> (\<forall>c \<in> set (Drainers p). 0 < c \<and> c < length (Clients p)) \<and>
     (\<forall>c < length (Clients p). MCWaiting (Clients p ! c) = int (h c) \<and>
        MCIdleCloses (Clients p ! c) = idle_closes p c \<and> (idle_closes p c = 2 \<longrightarrow> h c = 0))"

lemma clients_invD:
  assumes "clients_inv h owner p"
  shows "CoShared p = Some 0" "0 < length (Clients p)" "gomap_ok (CoDedicated p)"
    "\<And>k c. gomap_get (CoDedicated p) k = Some c \<Longrightarrow>
       k \<noteq> [] \<and> 0 < c \<and> c < length (Clients p) \<and> c \<notin> set (Drainers p) \<and> owner c = k"
    "distinct (Drainers p)" "\<And>c. c \<in> set (Drainers p) \<Longrightarrow> 0 < c \<and> c < length (Clients p)"
    "\<And>c. c < length (Clients p) \<Longrightarrow> MCWaiting (Clients p ! c) = int (h c)"
    "\<And>c. c < length (Clients p) \<Longrightarrow> MCIdleCloses (Clients p ! c) = idle_closes p c"
    "\<And>c. c < length (Clients p) \<Longrightarrow> idle_closes p c = 2 \<Longrightarrow> h c = 0"
  using assms unfolding clients_inv_def by blast+

lemma cached_on_client [simp]: "cached_client (on_client c f p) = cached_client p"
  by (simp add: cached_client_def fun_eq_iff)

lemma idle_closes_on_client [simp]: "idle_closes (on_client c f p) = idle_closes p"
  by (simp add: idle_closes_def fun_eq_iff)

lemma acquire_inv:
  assumes "clients_inv h owner p" "c < length (Clients p)" "idle_closes p c \<noteq> 2"
  shows "clients_inv (h(c := h c + 1)) owner (client_acquire c p)"
  using assms(2,3) clients_invD [OF assms(1)] unfolding clients_inv_def client_acquire_def by auto

lemma release_inv:
  assumes "clients_inv h owner p" "c < length (Clients p)" "h c = Suc n"
  shows "clients_inv (h(c := n)) owner (client_release c p)"
  using assms(2,3) clients_invD [OF assms(1)] unfolding clients_inv_def client_release_def by auto

lemma retire_simps [simp, client_simps]:
  "CoShared (retire c p) = CoShared p" "CoDedicated (retire c p) = CoDedicated p"
  "Drainers (retire c p) = Drainers p @ [c]" "length (Clients (retire c p)) = length (Clients p)"
  "i < length (Clients p) \<Longrightarrow> Clients (retire c p) ! i =
     (if i = c then (Clients p ! c)\<lparr>MCIdleCloses := MCIdleCloses (Clients p ! c) + 1\<rparr> else Clients p ! i)"
  by (simp_all add: retire_def closeIdleConnections_def Let_def)

lemma ex_without: "(\<exists>k'. (if k' = k then None else f k') = Some x) \<longleftrightarrow> (\<exists>k'. k' \<noteq> k \<and> f k' = Some x)"
  by auto

lemma ex_with: "(\<exists>k'. (if k' = k then Some v else f k') = Some x) \<longleftrightarrow> x = v \<or> (\<exists>k'. k' \<noteq> k \<and> f k' = Some x)"
  by auto

text \<open>Taking the dedicated client of a service out of the cache.\<close>

lemma uncache_inv:
  assumes inv: "clients_inv h owner p" and k: "gomap_get (CoDedicated p) k = Some c"
  shows "clients_inv h owner ((retire c p)\<lparr>CoDedicated := gomap_del k (CoDedicated p)\<rparr>)" (is "clients_inv h owner ?q")
proof -
  note D = clients_invD [OF inv]
  have only: "gomap_get (CoDedicated p) k' = Some c \<Longrightarrow> k' = k" for k' using D(4) [of k' c] D(4) [OF k] by simp
  have c: "c \<noteq> 0" "c \<notin> set (Drainers p)" "c < length (Clients p)" using D(4) [OF k] by simp_all
  have cached: "cached_client ?q x \<longleftrightarrow> cached_client p x \<and> x \<noteq> c" for x
  proof -
    have get: "gomap_get (CoDedicated ?q) k' = (if k' = k then None else gomap_get (CoDedicated p) k')" for k'
      by simp
    show ?thesis unfolding cached_client_def get ex_without using only c(1) k by (metis option.inject)
  qed
  have closes: "idle_closes ?q x = (if x = c then 1 else idle_closes p x)" for x
    unfolding idle_closes_def cached by (auto simp: idle_closes_def)
  have zero: "idle_closes p c = 0" using k by (auto simp: idle_closes_def cached_client_def)
  show ?thesis unfolding clients_inv_def closes
    using D c zero only by (auto simp: gomap_ok_del)
qed

text \<open>Putting a new client into the cache, in the place of the one of the service if there is one.\<close>

lemma add_client_simps [simp, client_simps]:
  "CoShared (add_client m p) = CoShared p" "CoDedicated (add_client m p) = CoDedicated p"
  "Drainers (add_client m p) = Drainers p" "Clients (add_client m p) = Clients p @ [m]"
  by (simp_all add: add_client_def)

lemma cache_new_inv:
  assumes inv: "clients_inv h owner p" and k: "gomap_get (CoDedicated p) k = None" "k \<noteq> []"
    and m: "MCWaiting m = 0" "MCIdleCloses m = 0" and h: "h (length (Clients p)) = 0"
  shows "clients_inv h (owner(length (Clients p) := k))
    ((add_client m p)\<lparr>CoDedicated := gomap_put k (length (Clients p)) (CoDedicated p)\<rparr>)" (is "clients_inv h ?o ?q")
proof -
  note D = clients_invD [OF inv]
  have old: "gomap_get (CoDedicated p) k' = Some c \<Longrightarrow> c \<noteq> length (Clients p)" for k' c using D(4) by blast
  have cached: "cached_client ?q x \<longleftrightarrow> cached_client p x \<or> x = length (Clients p)" for x
  proof -
    have get: "gomap_get (CoDedicated ?q) k' = (if k' = k then Some (length (Clients p)) else gomap_get (CoDedicated p) k')" for k'
      by simp
    show ?thesis unfolding cached_client_def get ex_with using k(1) by (metis option.distinct(1))
  qed
  have closes: "idle_closes ?q x = (if x = length (Clients p) then 0 else idle_closes p x)" for x
    unfolding idle_closes_def cached by (auto simp: idle_closes_def)
  have ded: "k' \<noteq> [] \<and> 0 < c \<and> c < length (Clients ?q) \<and> c \<notin> set (Drainers ?q) \<and> ?o c = k'"
    if "gomap_get (CoDedicated ?q) k' = Some c" for k' c
  proof (cases "k' = k")
    case True
    then show ?thesis using that k(2) D(2) D(6) by (auto simp del: map_of_eq_Some_iff)
  next
    case False
    then have "gomap_get (CoDedicated p) k' = Some c" using that by (simp del: map_of_eq_Some_iff)
    then show ?thesis using D(4) by fastforce
  qed
  have cl: "MCWaiting (Clients ?q ! c) = int (h c) \<and> MCIdleCloses (Clients ?q ! c) = idle_closes ?q c \<and>
      (idle_closes ?q c = 2 \<longrightarrow> h c = 0)" if "c < length (Clients ?q)" for c
    using that m h D(7-9) [of c] unfolding closes by (auto simp: nth_append less_Suc_eq)
  show ?thesis unfolding clients_inv_def
    using D(1,2,3,5) ded cl less_SucI [OF conjunct2 [OF D(6)]] D(6)
    by (auto simp: gomap_ok_put simp del: map_of_eq_Some_iff)
qed


text \<open>The first and the last step of a retired client.\<close>

lemma retire_drained_inv:
  assumes inv: "clients_inv h owner p" and j: "j < length (Drainers p)"
    and idle: "MCWaiting (Clients p ! (Drainers p ! j)) = 0"
  shows "clients_inv h owner (retire_drained j p)"
proof -
  note D = clients_invD [OF inv]
  let ?c = "Drainers p ! j" and ?q = "retire_drained j p"
  have c: "?c \<in> set (Drainers p)" using j by simp
  have ds: "Drainers p = take j (Drainers p) @ ?c # drop (Suc j) (Drainers p)"
    using id_take_nth_drop [OF j] .
  have q: "CoShared ?q = CoShared p" "CoDedicated ?q = CoDedicated p"
    "Drainers ?q = take j (Drainers p) @ drop (Suc j) (Drainers p)" "length (Clients ?q) = length (Clients p)"
    "\<And>i. i < length (Clients p) \<Longrightarrow> Clients ?q ! i = (if i = ?c
       then (Clients p ! ?c)\<lparr>MCIdleCloses := MCIdleCloses (Clients p ! ?c) + 1\<rparr> else Clients p ! i)"
    by (simp_all add: retire_drained_def closeIdleConnections_def Let_def)
  have mem: "x \<in> set (Drainers ?q) \<longleftrightarrow> x \<in> set (Drainers p) \<and> x \<noteq> ?c" and dist: "distinct (Drainers ?q)" for x
  proof -
    have "distinct (take j (Drainers p) @ ?c # drop (Suc j) (Drainers p))" using D(5) ds by simp
    moreover have "set (Drainers p) = set (take j (Drainers p) @ ?c # drop (Suc j) (Drainers p))" using ds by simp
    ultimately show "x \<in> set (Drainers ?q) \<longleftrightarrow> x \<in> set (Drainers p) \<and> x \<noteq> ?c" "distinct (Drainers ?q)"
      unfolding q by auto
  qed
  have nc: "\<not> cached_client p ?c" using D(4) D(6) c by (fastforce simp: cached_client_def)
  have cached: "cached_client ?q = cached_client p" by (simp add: cached_client_def fun_eq_iff q)
  have closes: "idle_closes ?q x = (if x = ?c then 2 else idle_closes p x)" for x
    unfolding idle_closes_def cached mem using nc by auto
  have one: "idle_closes p ?c = 1" using nc c by (simp add: idle_closes_def)
  have cl: "MCWaiting (Clients ?q ! x) = int (h x) \<and> MCIdleCloses (Clients ?q ! x) = idle_closes ?q x \<and>
      (idle_closes ?q x = 2 \<longrightarrow> h x = 0)" if "x < length (Clients p)" for x
    using that D(7-9) [of x] idle one unfolding closes by (auto simp: q(5))
  show ?thesis unfolding clients_inv_def q(1,2,4)
    using D(1-4,6) dist cl mem by blast
qed

lemma clients_inv_start:
  assumes "NewCoordinator default_transport g = Inr p"
  shows "clients_inv (\<lambda>c. 0) (\<lambda>c. []) p"
  using assms by (auto simp: NewCoordinator_def newSharedClient_def clients_inv_def idle_closes_def
      cached_client_def split: sum.splits)

section \<open>The invariant of the running system\<close>

fun leases_client :: "nat \<Rightarrow> request_state \<Rightarrow> bool" where
  "leases_client c (Leased a c') \<longleftrightarrow> c' = c"
| "leases_client c r \<longleftrightarrow> False"

definition leases :: "request_state list \<Rightarrow> nat \<Rightarrow> nat" where
  "leases rs c = length (filter (leases_client c) rs)"

definition tier_settled :: "pool_globals \<Rightarrow> tier \<Rightarrow> bool" where
  "tier_settled g t \<longleftrightarrow> (\<exists>config. pool_ConfigFor t g = Inr config \<and> PCTier config = t)"

fun request_ok :: "pool_globals \<Rightarrow> (nat \<Rightarrow> string) \<Rightarrow> coordinator \<Rightarrow> request_state \<Rightarrow> bool" where
  "request_ok g owner p (Upgrading a) \<longleftrightarrow>
     (AsDedicated a \<longrightarrow> NormalizeServiceName (AsServiceName a) \<noteq> [] \<and> tier_settled g (AsTier a))"
| "request_ok g owner p (Leased a c) \<longleftrightarrow> c < length (Clients p) \<and>
     (if AsDedicated a then c \<noteq> 0 \<and> owner c = NormalizeServiceName (AsServiceName a) \<and>
        MCTier (Clients p ! c) = AsTier a else c = 0)"
| "request_ok g owner p r \<longleftrightarrow> True"

definition system_inv :: "pool_globals \<Rightarrow> coordinator \<times> request_state list \<Rightarrow> bool" where
  "system_inv g sys \<longleftrightarrow> (case sys of (p, rs) \<Rightarrow>
     (\<exists>owner. clients_inv (leases rs) owner p \<and> (\<forall>r \<in> set rs. request_ok g owner p r)))"

text \<open>Later states keep the clients that exist, with their tiers and owners.\<close>

definition extends :: "(nat \<Rightarrow> string) \<Rightarrow> coordinator \<Rightarrow> (nat \<Rightarrow> string) \<Rightarrow> coordinator \<Rightarrow> bool" where
  "extends owner p owner' p' \<longleftrightarrow> length (Clients p) \<le> length (Clients p') \<and>
     (\<forall>c < length (Clients p). MCTier (Clients p' ! c) = MCTier (Clients p ! c) \<and> owner' c = owner c)"

lemma request_ok_extends: "request_ok g owner p r \<Longrightarrow> extends owner p owner' p' \<Longrightarrow> request_ok g owner' p' r"
  by (cases r) (auto simp: extends_def)

lemma extends_acquire [simp]: "extends owner p owner (client_acquire c p)"
  by (auto simp: extends_def client_acquire_def)

lemma extends_release [simp]: "extends owner p owner (client_release c p)"
  by (auto simp: extends_def client_release_def)

lemma extends_drained [simp]: "extends owner p owner (retire_drained j p)"
  by (auto simp: extends_def retire_drained_def closeIdleConnections_def Let_def)

definition add_lease :: "request_state \<Rightarrow> (nat \<Rightarrow> nat) \<Rightarrow> nat \<Rightarrow> nat" where
  "add_lease r h = (case r of Leased a c \<Rightarrow> h(c := h c + 1) | _ \<Rightarrow> h)"

lemma leases_split:
  assumes "i < length rs"
  shows "leases rs c = length (filter (leases_client c) (take i rs @ drop (Suc i) rs)) + (if leases_client c (rs ! i) then 1 else 0)"
    and "leases (rs[i := r]) c = length (filter (leases_client c) (take i rs @ drop (Suc i) rs)) + (if leases_client c r then 1 else 0)"
proof -
  show "leases (rs[i := r]) c = length (filter (leases_client c) (take i rs @ drop (Suc i) rs)) + (if leases_client c r then 1 else 0)" for r
    unfolding leases_def upd_conv_take_nth_drop [OF assms] by simp
  from this [of "rs ! i"]
  show "leases rs c = length (filter (leases_client c) (take i rs @ drop (Suc i) rs)) + (if leases_client c (rs ! i) then 1 else 0)"
    by (simp only: list_update_id)
qed

lemma leases_upd:
  assumes "i < length rs" "\<And>c. \<not> leases_client c (rs ! i)"
  shows "leases (rs[i := r]) = add_lease r (leases rs)"
  using leases_split [OF assms(1)] assms(2) by (cases r) (auto simp: add_lease_def fun_eq_iff)

lemma leases_end:
  assumes "i < length rs" "rs ! i = Leased a c"
  shows "leases rs c = Suc (leases (rs[i := Finished]) c)"
    and "leases (rs[i := Finished]) = (leases rs)(c := leases (rs[i := Finished]) c)"
  using leases_split [OF assms(1)] assms(2) by (auto simp: fun_eq_iff)

lemma leases_none: "\<forall>r \<in> set rs. request_ok g owner p r \<Longrightarrow> length (Clients p) \<le> c \<Longrightarrow> leases rs c = 0"
  unfolding leases_def
proof -
  assume ok: "\<forall>r \<in> set rs. request_ok g owner p r" and c: "length (Clients p) \<le> c"
  have "\<not> leases_client c r" if "r \<in> set rs" for r
    using ok that c by (cases r) force+
  then show "length (filter (leases_client c) rs) = 0" by (simp add: filter_empty_conv)
qed

section \<open>Every section of \<open>Acquire\<close> keeps the invariant\<close>

lemma cached_closes: "cached_client p c \<Longrightarrow> idle_closes p c \<noteq> 2"
  by (simp add: idle_closes_def)

text \<open>A lease of the client that is cached for the service.\<close>

lemma lease_cached_inv:
  assumes inv: "clients_inv h owner p" and c: "gomap_get (CoDedicated p) (NormalizeServiceName (AsServiceName a)) = Some c"
    and tier: "MCTier (Clients p ! c) = AsTier a" and dedicated: "AsDedicated a"
  shows "clients_inv (add_lease (Leased a c) h) owner (client_acquire c p) \<and>
    extends owner p owner (client_acquire c p) \<and> request_ok g owner (client_acquire c p) (Leased a c)"
proof -
  have "cached_client p c" using c by (auto simp: cached_client_def)
  then show ?thesis using acquire_inv [OF inv, of c] clients_invD(4) [OF inv c] tier dedicated
    by (auto simp: add_lease_def cached_closes client_acquire_def extends_def)
qed

lemma clientFor_read_inv:
  assumes g: "pool_globals_ok g" and inv: "clients_inv h owner p" and st: "clientFor_read g a p = (r, p')"
  shows "clients_inv (add_lease r h) owner p' \<and> extends owner p owner p' \<and> request_ok g owner p' r"
proof -
  note D = clients_invD [OF inv]
  have same: ?thesis if "add_lease r h = h" "p' = p" "request_ok g owner p r"
    using that inv by (auto simp: extends_def)
  show ?thesis
  proof (cases "AsDedicated a")
    case False
    show ?thesis
    proof (cases "sharedClient_read a p")
      case None
      then show ?thesis using st False by (intro same) (auto simp: clientFor_read_def add_lease_def)
    next
      case (Some cp)
      then have "r = Leased a 0" "p' = client_acquire 0 p"
        using st False D(1) by (auto simp: clientFor_read_def sharedClient_read_def Let_def split: if_splits)
      then show ?thesis using acquire_inv [OF inv D(2)] D(2) False
        by (simp add: add_lease_def cached_closes cached_client_def client_acquire_def extends_def)
    qed
  next
    case True
    show ?thesis
    proof (cases "pool_ConfigFor (AsTier a) g")
      case (Inl e)
      then show ?thesis using st True by (intro same) (auto simp: clientFor_read_def add_lease_def)
    next
      case (Inr config)
      let ?a = "a\<lparr>AsTier := PCTier config\<rparr>" and ?key = "NormalizeServiceName (AsServiceName a)"
      have t: "tier_settled g (PCTier config)" using g Inr
        using pool_ConfigFor_Inr [OF g Inr] pool_ConfigFor_configured [OF g, of "PCTier config"]
        by (auto simp: tier_settled_def)
      show ?thesis
      proof (cases "?key = [] \<or> dedicatedClient_read ?a p = None")
        case none: True
        then show ?thesis using st True Inr t
          by (intro same) (auto simp: clientFor_read_def add_lease_def Let_def split: if_splits)
      next
        case some: False
        then obtain c where c: "gomap_get (CoDedicated p) ?key = Some c" "MCTier (Clients p ! c) = PCTier config"
          by (auto simp: dedicatedClient_read_def split: option.splits if_splits)
        then have r: "r = Leased ?a c" "p' = client_acquire c p"
          using st True Inr some by (auto simp: clientFor_read_def dedicatedClient_read_def Let_def)
        then show ?thesis using lease_cached_inv [OF inv, of ?a c g] c True by simp
      qed
    qed
  qed
qed

text \<open>The invariant sees the map of dedicated clients only through its lookups.\<close>

lemma clients_inv_cong:
  assumes "clients_inv h owner p" "CoShared q = CoShared p" "Clients q = Clients p" "Drainers q = Drainers p"
    and "gomap_ok (CoDedicated q)" "map_of (CoDedicated q) = map_of (CoDedicated p)"
  shows "clients_inv h owner q"
proof -
  have "idle_closes q = idle_closes p" by (simp add: idle_closes_def cached_client_def fun_eq_iff assms(4,6))
  then show ?thesis using assms(1,5) unfolding clients_inv_def assms(2-4,6) by simp
qed

lemma retire_add_client:
  "c < length (Clients p) \<Longrightarrow> Clients (retire c (add_client m p)) = Clients (retire c p) @ [m]"
  by (simp add: retire_def closeIdleConnections_def on_client_def add_client_def Let_def nth_append list_update_append)

text \<open>A new dedicated client, in the place of an old one if the service has one.\<close>

definition install_client :: "string \<Rightarrow> managed_client \<Rightarrow> coordinator \<Rightarrow> coordinator" where
  "install_client k m p =
     (let p1 = add_client m p;
          p2 = (case gomap_get (CoDedicated p1) k of Some cached \<Rightarrow> retire cached p1 | None \<Rightarrow> p1)
      in p2\<lparr>CoDedicated := gomap_put k (length (Clients p)) (CoDedicated p2)\<rparr>)"

lemma install_client_inv:
  assumes inv: "clients_inv h owner p" and k: "k \<noteq> []"
    and m: "MCWaiting m = 0" "MCIdleCloses m = 0" and h: "h (length (Clients p)) = 0"
  shows "clients_inv h (owner(length (Clients p) := k)) (install_client k m p)"
    and "extends owner p (owner(length (Clients p) := k)) (install_client k m p)"
    and "length (Clients (install_client k m p)) = Suc (length (Clients p))"
    and "Clients (install_client k m p) ! length (Clients p) = m"
    and "cached_client (install_client k m p) (length (Clients p))"
proof -
  note D = clients_invD [OF inv]
  let ?q = "install_client k m p" and ?n = "length (Clients p)"
  have "clients_inv h (owner(?n := k)) ?q \<and> extends owner p (owner(?n := k)) ?q \<and>
      length (Clients ?q) = Suc ?n \<and> Clients ?q ! ?n = m"
  proof (cases "gomap_get (CoDedicated p) k")
    case None
    then show ?thesis using cache_new_inv [OF inv None k m h]
      by (simp add: install_client_def Let_def extends_def nth_append)
  next
    case (Some c)
    let ?p1 = "(retire c p)\<lparr>CoDedicated := gomap_del k (CoDedicated p)\<rparr>"
    have c: "c < ?n" using D(4) [OF Some] by simp
    have n: "length (Clients ?p1) = ?n" by simp
    have q: "?q = (retire c (add_client m p))\<lparr>CoDedicated := gomap_put k ?n (CoDedicated p)\<rparr>"
      using Some by (simp add: install_client_def Let_def)
    have "clients_inv h (owner(?n := k)) ((add_client m ?p1)\<lparr>CoDedicated := gomap_put k ?n (CoDedicated ?p1)\<rparr>)"
      using cache_new_inv [OF uncache_inv [OF inv Some], of k m] k m h n by simp
    then have "clients_inv h (owner(?n := k)) ?q"
      by (rule clients_inv_cong) (simp_all add: q retire_add_client [OF c] D(3) gomap_ok_put fun_eq_iff)
    moreover have cl: "Clients ?q = Clients (retire c p) @ [m]" by (simp add: q retire_add_client [OF c])
    moreover have "extends owner p (owner(?n := k)) ?q"
      unfolding extends_def cl using c by (auto simp: nth_append)
    ultimately show ?thesis by (simp add: nth_append)
  qed
  then show "clients_inv h (owner(?n := k)) ?q" "extends owner p (owner(?n := k)) ?q"
    "length (Clients ?q) = Suc ?n" "Clients ?q ! ?n = m" by blast+
  have "gomap_get (CoDedicated ?q) k = Some ?n"
    by (simp add: install_client_def Let_def split: option.split)
  then show "cached_client ?q ?n" unfolding cached_client_def by blast
qed

lemma dedicatedClient_write_eq:
  "dedicatedClient_write default_transport g a p =
     (case dedicatedClient_read a p of
        Some (c, p') \<Rightarrow> (Inr c, p')
      | None \<Rightarrow> (case newManagedClient default_transport g (AsTier a) of
          Inl e \<Rightarrow> (Inl e, p)
        | Inr m \<Rightarrow> (Inr (length (Clients p)), client_acquire (length (Clients p))
            (install_client (NormalizeServiceName (AsServiceName a)) m p))))"
  by (simp add: dedicatedClient_write_def install_client_def Let_def split: option.split sum.split)

lemma newManagedClient_tier:
  assumes "tier_settled g t" "newManagedClient default_transport g t = Inr m"
  shows "MCTier m = t \<and> MCWaiting m = 0 \<and> MCIdleCloses m = 0"
  using assms by (auto simp: tier_settled_def newManagedClient_def)

lemma sharedClient_write_eq:
  assumes "CoShared p = Some 0"
  shows "sharedClient_write default_transport g a p = (Inr 0, client_acquire 0
    (let k = NormalizeServiceName (AsServiceName a) in
     case gomap_get (CoDedicated p) k of
       Some c \<Rightarrow> if k \<noteq> [] then (retire c p)\<lparr>CoDedicated := gomap_del k (CoDedicated p)\<rparr> else p
     | None \<Rightarrow> p))"
  using assms by (simp add: sharedClient_write_def Let_def split: option.split)

lemma clientFor_write_shared_inv:
  assumes inv: "clients_inv h owner p" and shared: "\<not> AsDedicated a"
    and st: "clientFor_write default_transport g a p = (r, p')"
  shows "\<exists>owner'. clients_inv (add_lease r h) owner' p' \<and> extends owner p owner' p' \<and> request_ok g owner' p' r"
proof -
  note D = clients_invD [OF inv]
  let ?k = "NormalizeServiceName (AsServiceName a)"
  define p1 where "p1 = (case gomap_get (CoDedicated p) ?k of
      Some c \<Rightarrow> if ?k \<noteq> [] then (retire c p)\<lparr>CoDedicated := gomap_del ?k (CoDedicated p)\<rparr> else p | None \<Rightarrow> p)"
  have r: "r = Leased a 0" "p' = client_acquire 0 p1"
    using st shared sharedClient_write_eq [OF D(1), of default_transport g a]
    by (simp_all add: clientFor_write_def p1_def Let_def)
  have inv1: "clients_inv h owner p1" and ext: "extends owner p owner p1"
    using inv uncache_inv [OF inv] by (auto simp: p1_def extends_def split: option.split)
  have "0 < length (Clients p1)" using clients_invD(2) [OF inv1] .
  then have "clients_inv (add_lease r h) owner p'" "request_ok g owner p' r" "extends owner p owner p'"
    using acquire_inv [OF inv1, of 0] ext shared
    by (auto simp: r add_lease_def cached_closes cached_client_def client_acquire_def extends_def)
  then show ?thesis by blast
qed

lemma clientFor_write_dedicated_inv:
  assumes inv: "clients_inv h owner p" and ok: "request_ok g owner p (Upgrading a)"
    and h: "h (length (Clients p)) = 0" and st: "clientFor_write default_transport g a p = (r, p')"
    and dedicated: "AsDedicated a"
  shows "\<exists>owner'. clients_inv (add_lease r h) owner' p' \<and> extends owner p owner' p' \<and> request_ok g owner' p' r"
proof -
  note D = clients_invD [OF inv]
  let ?k = "NormalizeServiceName (AsServiceName a)"
  have k: "?k \<noteq> []" and t: "tier_settled g (AsTier a)" using ok dedicated by simp_all
  show ?thesis
  proof (cases "dedicatedClient_read a p")
    case (Some cp)
    then obtain c where c: "gomap_get (CoDedicated p) ?k = Some c" "MCTier (Clients p ! c) = AsTier a"
      and r: "r = Leased a c" "p' = client_acquire c p"
      using st dedicated by (auto simp: clientFor_write_def dedicatedClient_write_eq dedicatedClient_read_def
          split: option.splits if_splits)
    then have "clients_inv (add_lease r h) owner p'" "request_ok g owner p' r" "extends owner p owner p'"
      using lease_cached_inv [OF inv c dedicated] by simp_all
    then show ?thesis by blast
  next
    case None
    show ?thesis
    proof (cases "newManagedClient default_transport g (AsTier a)")
      case (Inl e)
      then have "r = Refused e" "p' = p" using st dedicated None by (simp_all add: clientFor_write_def dedicatedClient_write_eq)
      then show ?thesis using inv by (auto simp: add_lease_def extends_def intro!: exI [of _ owner])
    next
      case (Inr m)
      let ?n = "length (Clients p)" and ?q = "install_client ?k m p"
      have r: "r = Leased a ?n" "p' = client_acquire ?n ?q"
        using st dedicated None Inr by (simp_all add: clientFor_write_def dedicatedClient_write_eq)
      have m: "MCTier m = AsTier a" "MCWaiting m = 0" "MCIdleCloses m = 0"
        using newManagedClient_tier [OF t Inr] by simp_all
      note q = install_client_inv [OF inv k m(2,3) h]
      have "clients_inv (add_lease r h) (owner(?n := ?k)) p'"
        using acquire_inv [OF q(1), of ?n] q(3,5) by (simp add: r add_lease_def cached_closes)
      moreover have "request_ok g (owner(?n := ?k)) p' r"
        using dedicated q(3,4) m(1) D(2) by (simp add: r client_acquire_def)
      moreover have "extends owner p (owner(?n := ?k)) p'"
        using q(2,3) by (auto simp: r client_acquire_def extends_def)
      ultimately show ?thesis by blast
    qed
  qed
qed

lemma clientFor_write_inv:
  assumes inv: "clients_inv h owner p" and ok: "request_ok g owner p (Upgrading a)"
    and h: "h (length (Clients p)) = 0" and st: "clientFor_write default_transport g a p = (r, p')"
  shows "\<exists>owner'. clients_inv (add_lease r h) owner' p' \<and> extends owner p owner' p' \<and> request_ok g owner' p' r"
  using clientFor_write_shared_inv [OF inv _ st] clientFor_write_dedicated_inv [OF assms]
  by blast

section \<open>Every reachable system\<close>

lemma request_step_inv:
  assumes g: "pool_globals_ok g" and inv: "system_inv g (p, rs)" and i: "i < length rs"
  shows "system_inv g (request_step default_transport g i (p, rs))"
proof -
  obtain owner where cl: "clients_inv (leases rs) owner p" and rq: "\<forall>r \<in> set rs. request_ok g owner p r"
    using inv by (auto simp: system_inv_def)
  have put: "system_inv g (p', rs[i := r])"
    if "\<And>c. \<not> leases_client c (rs ! i)" "clients_inv (add_lease r (leases rs)) owner' p'"
      "extends owner p owner' p'" "request_ok g owner' p' r" for r p' owner'
  proof -
    have "\<forall>x \<in> set (rs[i := r]). request_ok g owner' p' x"
      using rq that(3,4) request_ok_extends set_update_subset_insert by (metis insertE subsetD)
    then show ?thesis using leases_upd [OF i that(1), of r] that(2) unfolding system_inv_def prod.case by metis
  qed
  show ?thesis
  proof (cases "rs ! i")
    case (Choosing a)
    obtain r p' where st: "clientFor_read g a p = (r, p')" by fastforce
    then show ?thesis using clientFor_read_inv [OF g cl st] Choosing
put [of r owner p'] by (simp add: request_step_def)
  next
    case (Upgrading a)
    obtain r p' where st: "clientFor_write default_transport g a p = (r, p')" by fastforce
    have ok: "request_ok g owner p (Upgrading a)" using rq i Upgrading by (metis nth_mem)
    have "leases rs (length (Clients p)) = 0" using leases_none [OF rq] by simp
    then obtain owner' where "clients_inv (add_lease r (leases rs)) owner' p'" "extends owner p owner' p'"
        "request_ok g owner' p' r"
      using clientFor_write_inv [OF cl ok _ st] by blast
    then show ?thesis using Upgrading st put [of r owner' p'] by (simp add: request_step_def)
  next
    case (Leased a c)
    have ok: "request_ok g owner p (Leased a c)" using rq i Leased by (metis nth_mem)
    then have "clients_inv (leases (rs[i := Finished])) owner (client_release c p)"
      using release_inv [OF cl _ leases_end(1) [OF i Leased]] leases_end(2) [OF i Leased] by simp
    moreover have "\<forall>x \<in> set (rs[i := Finished]). request_ok g owner (client_release c p) x"
      using rq request_ok_extends extends_release set_update_subset_insert
      by (metis insertE subsetD request_ok.simps(4))
    ultimately show ?thesis using Leased by (auto simp: request_step_def system_inv_def)
  next
    case Finished
    then show ?thesis using inv by (simp add: request_step_def)
  next
    case (Refused e)
    then show ?thesis using inv by (simp add: request_step_def)
  qed
qed

lemma pool_system_inv:
  assumes "pool_system default_transport g sys" "pool_globals_ok g"
  shows "system_inv g sys"
  using assms(1)
proof (induction rule: pool_system.induct)
  case (start p)
  have "leases [] = (\<lambda>c. 0)" by (simp add: leases_def fun_eq_iff)
  then show ?case using clients_inv_start [OF start] by (auto simp: system_inv_def)
next
  case (arrive p rs a)
  have "leases (rs @ [Choosing a]) = leases rs" by (simp add: leases_def fun_eq_iff)
  then show ?case using arrive by (auto simp: system_inv_def)
next
  case (run p rs i)
  then show ?case using request_step_inv [OF assms(2)] by blast
next
  case (drain p rs j)
  then obtain owner where "clients_inv (leases rs) owner p" "\<forall>r \<in> set rs. request_ok g owner p r"
    by (auto simp: system_inv_def)
  then show ?case using retire_drained_inv drain(2,3) request_ok_extends extends_drained
    unfolding system_inv_def prod.case by metis
qed

lemmas configured_system_inv = pool_system_inv [OF _ conjunct1 [OF configure_all_inv]]

section \<open>The transport of a client\<close>

text \<open>
  The limits of a pool on a transport that is a copy of \<open>base\<close>; a timeout that is not set stays as in \<open>base\<close>.
\<close>

definition transport_follows :: "transport \<Rightarrow> pool_config \<Rightarrow> transport \<Rightarrow> bool" where
  "transport_follows base config t \<longleftrightarrow>
     TrMaxIdleConns t = MaxIdleConns config \<and> TrMaxIdleConnsPerHost t = MaxIdleConnsPerHost config \<and>
     TrMaxConnsPerHost t = MaxConnsPerHost config \<and> TrIdleConnTimeout t = IdleConnTimeout config \<and>
     TrResponseHeaderTimeout t =
       (if ResponseHeaderTimeout config = 0 then TrResponseHeaderTimeout base else ResponseHeaderTimeout config) \<and>
     TrTLSHandshakeTimeout t =
       (if TLSHandshakeTimeout config = 0 then TrTLSHandshakeTimeout base else TLSHandshakeTimeout config) \<and>
     TrExpectContinueTimeout t =
       (if ExpectContinueTimeout config = 0 then TrExpectContinueTimeout base else ExpectContinueTimeout config)"

definition client_fits :: "transport option \<Rightarrow> pool_globals \<Rightarrow> managed_client \<Rightarrow> bool" where
  "client_fits default_transport g m \<longleftrightarrow> (\<exists>base config. default_transport = Some base \<and>
     pool_ConfigFor (MCTier m) g = Inr config \<and> transport_follows base config (MCTransport m))"

lemma client_fits_counters [simp]:
  "client_fits dt g (m\<lparr>MCWaiting := n\<rparr>) = client_fits dt g m"
  "client_fits dt g (m\<lparr>MCIdleCloses := k\<rparr>) = client_fits dt g m"
  by (simp_all add: client_fits_def)

lemma makePool_follows: "makePool dt config = Inr t \<Longrightarrow> \<exists>base. dt = Some base \<and> transport_follows base config t"
  by (auto simp: makePool_def transport_follows_def Let_def split: option.splits)

lemma pool_ConfigFor_PCTier:
  assumes "pool_globals_ok g" "pool_ConfigFor t g = Inr config"
  shows "pool_ConfigFor (PCTier config) g = Inr config"
proof -
  have "PCTier config = NormalizeLower t" "NormalizeLower t \<in> {TierShared, TierNormal, TierHot, TierSuper}"
    using pool_ConfigFor_Inr [OF assms] by simp_all
  moreover from this(2) have "normalizeTier (NormalizeLower t) = normalizeTier t"
    using normalizeTier_Inr_iff [of "NormalizeLower t" "NormalizeLower t"] normalizeTier_Inr_iff [of t "NormalizeLower t"] by simp
  ultimately show ?thesis using assms(2) by (cases "Configured g") (simp_all add: pool_ConfigFor_def)
qed

lemma newManagedClient_fits:
  assumes "pool_globals_ok g" "newManagedClient dt g t = Inr m"
  shows "client_fits dt g m"
proof -
  obtain config tr where c: "pool_ConfigFor t g = Inr config" "makePool dt config = Inr tr"
    "m = \<lparr>MCTier = PCTier config, MCTransport = tr, MCWaiting = 0, MCIdleCloses = 0\<rparr>"
    using assms(2) by (cases "pool_ConfigFor t g") (auto simp: newManagedClient_def NewTransport_def split: sum.splits)
  then show ?thesis using pool_ConfigFor_PCTier [OF assms(1) c(1)] makePool_follows [OF c(2)]
    by (simp add: client_fits_def)
qed

lemma newSharedClient_fits:
  assumes "pool_globals_ok g" "newSharedClient dt g = Inr m"
  shows "client_fits dt g m"
proof -
  obtain tr where c: "Configured g" "makePool dt (GlobalShared g) = Inr tr"
    "m = \<lparr>MCTier = PCTier (GlobalShared g), MCTransport = tr, MCWaiting = 0, MCIdleCloses = 0\<rparr>"
    using assms(2) by (cases "makePool dt (GlobalShared g)")
      (auto simp: newSharedClient_def SharedConfig_def split: if_splits)
  moreover have "PCTier (GlobalShared g) = TierShared" using assms(1) c(1) by (simp add: pool_globals_ok_def)
  ultimately show ?thesis using makePool_follows [OF c(2)]
    by (simp add: client_fits_def pool_ConfigFor_def)
qed

definition clients_fit :: "transport option \<Rightarrow> pool_globals \<Rightarrow> coordinator \<Rightarrow> bool" where
  "clients_fit dt g p \<longleftrightarrow> list_all (client_fits dt g) (Clients p) \<and> Clients p \<noteq> [] \<and> MCTier (hd (Clients p)) = TierShared"

lemma clients_fit_on_client:
  assumes "clients_fit dt g p" "\<And>m. client_fits dt g (f m) = client_fits dt g m" "\<And>m. MCTier (f m) = MCTier m"
  shows "clients_fit dt g (on_client c f p)"
proof (cases "c < length (Clients p)")
  case True
  then show ?thesis using assms
    by (cases "Clients p"; cases c) (auto simp: clients_fit_def on_client_def list_all_length nth_list_update nth_Cons')
qed (use assms in \<open>simp add: clients_fit_def on_client_def list_update_beyond\<close>)

lemma clients_fit_steps [simp]:
  assumes "clients_fit dt g p"
  shows "clients_fit dt g (client_acquire c p)" "clients_fit dt g (client_release c p)"
    "clients_fit dt g (closeIdleConnections c p)"
  unfolding client_acquire_def client_release_def closeIdleConnections_def
  by (rule clients_fit_on_client [OF assms]; simp)+

lemma clients_fit_more [simp]:
  "clients_fit dt g (p\<lparr>CoDedicated := x\<rparr>) = clients_fit dt g p" "clients_fit dt g (p\<lparr>Drainers := d\<rparr>) = clients_fit dt g p"
  "clients_fit dt g (p\<lparr>CoShared := y\<rparr>) = clients_fit dt g p"
  "clients_fit dt g p \<Longrightarrow> client_fits dt g m \<Longrightarrow> clients_fit dt g (add_client m p)"
  by (simp_all add: clients_fit_def add_client_def)

lemma clients_fit_retire [simp]:
  "clients_fit dt g p \<Longrightarrow> clients_fit dt g (retire c p)" "clients_fit dt g p \<Longrightarrow> clients_fit dt g (retire_drained j p)"
  by (simp_all add: retire_def retire_drained_def Let_def)

lemma clientFor_read_fit:
  "clients_fit dt g p \<Longrightarrow> clientFor_read g a p = (r, p') \<Longrightarrow> clients_fit dt g p'"
  by (auto simp: clientFor_read_def sharedClient_read_def dedicatedClient_read_def Let_def
      split: if_splits option.splits sum.splits prod.splits)

lemma sharedClient_write_fit:
  assumes g: "pool_globals_ok g" and p: "clients_fit dt g p" and st: "sharedClient_write dt g a p = (r, p')"
  shows "clients_fit dt g p'"
proof -
  let ?key = "NormalizeServiceName (AsServiceName a)"
  define q where "q = (if ?key \<noteq> [] then (case gomap_get (CoDedicated p) ?key of
      Some oldClient \<Rightarrow> (retire oldClient p)\<lparr>CoDedicated := gomap_del ?key (CoDedicated p)\<rparr> | None \<Rightarrow> p) else p)"
  have q: "clients_fit dt g q" using p by (simp add: q_def split: option.split)
  have "sharedClient_write dt g a p = (case CoShared q of
        Some cached \<Rightarrow> (Inr cached, client_acquire cached q)
      | None \<Rightarrow> (case newSharedClient dt g of Inl e \<Rightarrow> (Inl e, q)
        | Inr m \<Rightarrow> (Inr (length (Clients q)), client_acquire (length (Clients q)) ((add_client m q)\<lparr>CoShared := Some (length (Clients q))\<rparr>))))"
    unfolding sharedClient_write_def Let_def q_def ..
  then show ?thesis using st q newSharedClient_fits [OF g, of dt] by (auto split: option.splits sum.splits)
qed

lemma dedicatedClient_write_fit:
  assumes g: "pool_globals_ok g" and p: "clients_fit dt g p" and st: "dedicatedClient_write dt g a p = (r, p')"
  shows "clients_fit dt g p'"
proof (cases "dedicatedClient_read a p")
  case (Some x)
  then have "p' = snd x" using st by (cases x) (simp add: dedicatedClient_write_def)
  moreover have "\<exists>c. snd x = client_acquire c p" using Some by (auto simp: dedicatedClient_read_def split: option.splits if_splits)
  ultimately show ?thesis using p by auto
next
  case None
  show ?thesis
  proof (cases "newManagedClient dt g (AsTier a)")
    case (Inr m)
    then show ?thesis using p st None newManagedClient_fits [OF g Inr]
      by (auto simp: dedicatedClient_write_def Let_def split: option.splits)
  qed (use p st None in \<open>simp add: dedicatedClient_write_def\<close>)
qed

lemma clientFor_write_fit:
  assumes "pool_globals_ok g" "clients_fit dt g p" "clientFor_write dt g a p = (r, p')"
  shows "clients_fit dt g p'"
  using assms(3) sharedClient_write_fit [OF assms(1,2), of a] dedicatedClient_write_fit [OF assms(1,2), of a]
  by (auto simp: clientFor_write_def split: if_splits sum.splits prod.splits)

lemma NewCoordinator_fit:
  assumes "pool_globals_ok g" "NewCoordinator dt g = Inr p"
  shows "clients_fit dt g p"
proof -
  obtain m where m: "newSharedClient dt g = Inr m" "Clients p = [m]"
    using assms(2) by (auto simp: NewCoordinator_def split: sum.splits)
  have "MCTier m = TierShared" using m(1) assms(1)
    by (auto simp: newSharedClient_def SharedConfig_def pool_globals_ok_def res_bind_def split: if_splits sum.splits)
  then show ?thesis using m newSharedClient_fits [OF assms(1) m(1)] by (simp add: clients_fit_def)
qed

lemma pool_system_fit:
  assumes "pool_globals_ok g"
  shows "pool_system dt g sys \<Longrightarrow> clients_fit dt g (fst sys)"
proof (induction rule: pool_system.induct)
  case (start p)
  then show ?case using NewCoordinator_fit [OF assms] by simp
next
  case (run p rs i)
  obtain p' rs' where st: "request_step dt g i (p, rs) = (p', rs')" by fastforce
  then consider "p' = p" | a r where "clientFor_read g a p = (r, p')" | a r where "clientFor_write dt g a p = (r, p')"
    | c where "p' = client_release c p"
    by (auto simp: request_step_def split: request_state.splits prod.splits)
  then have "clients_fit dt g p'"
    using run.IH clientFor_read_fit [of dt g p _ _ p'] clientFor_write_fit [OF assms, of dt p _ _ p'] by cases auto
  then show ?case by (simp add: st)
qed simp_all


text \<open>
  C11: In every interleaving of requests and retirements, a request holds the client its assignment asks
  for: the one shared client, or a client of the assigned tier that only requests of the same
  service hold. The transport of that client is the default transport with the limits and timeouts that are
  configured for the tier. As long as the request holds the client, the final close of its idle connections has not
  happened.
\<close>

theorem leased_client_matches:
  assumes "pool_system default_transport (configure_all calls) (p, rs)" and "i < length rs" and "rs ! i = Leased a c"
  shows "c < length (Clients p) \<and> MCIdleCloses (Clients p ! c) < 2 \<and> 0 < MCWaiting (Clients p ! c) \<and>
    (\<exists>base config. default_transport = Some base \<and>
       pool_ConfigFor (if AsDedicated a then AsTier a else TierShared) (configure_all calls) = Inr config \<and>
       transport_follows base config (MCTransport (Clients p ! c))) \<and>
    (if AsDedicated a
     then CoShared p \<noteq> Some c \<and> MCTier (Clients p ! c) = AsTier a \<and>
       list_all (\<lambda>r. case r of Leased b c' \<Rightarrow> c' = c \<longrightarrow>
         NormalizeServiceName (AsServiceName b) = NormalizeServiceName (AsServiceName a) | _ \<Rightarrow> True) rs
     else CoShared p = Some c)"
proof -
  let ?g = "configure_all calls"
  obtain owner where cl: "clients_inv (leases rs) owner p"
    and rq: "\<forall>r \<in> set rs. request_ok ?g owner p r"
    using configured_system_inv [OF assms(1)] by (auto simp: system_inv_def)
  note D = clients_invD [OF cl]
  have ok: "request_ok ?g owner p (Leased a c)" using rq assms(2,3) by (metis nth_mem)
  then have c: "c < length (Clients p)" by simp
  have pos: "0 < leases rs c" using leases_end(1) [OF assms(2,3)] by simp
  then have "idle_closes p c \<noteq> 2" using D(9) [OF c] by auto
  then have "MCIdleCloses (Clients p ! c) < 2" using D(8) [OF c] by (simp add: idle_closes_def split: if_splits)
  moreover have "list_all (\<lambda>r. case r of Leased b c' \<Rightarrow> c' = c \<longrightarrow>
      NormalizeServiceName (AsServiceName b) = NormalizeServiceName (AsServiceName a) | _ \<Rightarrow> True) rs"
    if "AsDedicated a" unfolding list_all_iff
  proof
    fix r assume "r \<in> set rs"
    then have "request_ok ?g owner p r" using rq by blast
    then show "case r of Leased b c' \<Rightarrow> c' = c \<longrightarrow>
        NormalizeServiceName (AsServiceName b) = NormalizeServiceName (AsServiceName a) | _ \<Rightarrow> True"
      using ok that by (cases r) (auto split: if_splits)
  qed
  moreover have "\<exists>base config. default_transport = Some base \<and>
      pool_ConfigFor (if AsDedicated a then AsTier a else TierShared) ?g = Inr config \<and>
      transport_follows base config (MCTransport (Clients p ! c))"
  proof -
    have fit: "clients_fit default_transport ?g p" using pool_system_fit [OF _ assms(1)] configure_all_inv by simp
    then have "client_fits default_transport ?g (Clients p ! c)" using c by (simp add: clients_fit_def list_all_length)
    moreover have "MCTier (Clients p ! c) = (if AsDedicated a then AsTier a else TierShared)"
      using ok fit by (cases "AsDedicated a") (auto simp: clients_fit_def hd_conv_nth)
    ultimately show ?thesis by (simp add: client_fits_def)
  qed
  ultimately show ?thesis using ok c pos D(1,7) by auto
qed

lemma wait_group_counts_leases_raw:
  assumes "pool_system default_transport (configure_all calls) (p, rs)" and "c < length (Clients p)"
  shows "MCWaiting (Clients p ! c) = int (leases rs c) \<and>
    MCIdleCloses (Clients p ! c) =
      (if CoShared p = Some c \<or> c \<in> snd ` set (CoDedicated p) then 0 else if c \<in> set (Drainers p) then 1 else 2) \<and>
    (MCIdleCloses (Clients p ! c) < 2 \<or> leases rs c = 0)"
proof -
  obtain owner where cl: "clients_inv (leases rs) owner p"
    using configured_system_inv [OF assms(1)] by (auto simp: system_inv_def)
  note D = clients_invD [OF cl]
  have "(\<exists>k. gomap_get (CoDedicated p) k = Some c) \<longleftrightarrow> c \<in> snd ` set (CoDedicated p)"
    using D(3) by (force simp: image_iff)
  then have "idle_closes p c = (if CoShared p = Some c \<or> c \<in> snd ` set (CoDedicated p) then 0
      else if c \<in> set (Drainers p) then 1 else 2)"
    by (auto simp: idle_closes_def cached_client_def D(1))
  then show ?thesis using D(7-9) [OF assms(2)] by (auto split: if_splits)
qed


text \<open>
  C10: The wait group of every client counts exactly the requests that hold it, so it never becomes
  negative and the goroutine of \<open>retire\<close> goes on only when the last of them has finished; the idle
  connections of a client have been closed once when it was replaced and twice when it was drained,
  and never while new requests can still get it.
\<close>

theorem wait_group_counts_leases:
  assumes "pool_system default_transport (configure_all calls) (p, rs)" and "c < length (Clients p)"
  shows "MCWaiting (Clients p ! c) = int (leases rs c) \<and>
    MCIdleCloses (Clients p ! c) =
      (if CoShared p = Some c \<or> c \<in> snd ` set (CoDedicated p) then 0 else if c \<in> set (Drainers p) then 1 else 2) \<and>
    (MCIdleCloses (Clients p ! c) < 2 \<or> leases rs c = 0)"
  using wait_group_counts_leases_raw [OF assms] .

text \<open>The waiting goroutines of the clients that no request holds can all finish.\<close>

lemma drain_idle:
  assumes "pool_system default_transport (configure_all calls) (p, rs)"
  shows "\<exists>p'. pool_system default_transport (configure_all calls) (p', rs) \<and>
    Drainers p' = filter (\<lambda>c. 0 < leases rs c) (Drainers p) \<and>
    CoDedicated p' = CoDedicated p \<and> CoShared p' = CoShared p \<and> length (Clients p') = length (Clients p)"
  using assms
proof (induction "length (Drainers p)" arbitrary: p rule: less_induct)
  case less
  obtain owner where cl: "clients_inv (leases rs) owner p"
    using configured_system_inv [OF less.prems] by (auto simp: system_inv_def)
  show ?case
  proof (cases "\<exists>j < length (Drainers p). leases rs (Drainers p ! j) = 0")
    case False
    then have "filter (\<lambda>c. 0 < leases rs c) (Drainers p) = Drainers p" by (auto simp: filter_id_conv in_set_conv_nth)
    then show ?thesis using less.prems by (intro exI [of _ p]) simp
  next
    case True
    then obtain j where j: "j < length (Drainers p)" "leases rs (Drainers p ! j) = 0" by blast
    then have "MCWaiting (Clients p ! (Drainers p ! j)) = 0" using clients_invD(6,7) [OF cl] nth_mem by fastforce
    then have step: "pool_system default_transport (configure_all calls) (retire_drained j p, rs)"
      using pool_system.drain [OF less.prems j(1)] by simp
    let ?q = "retire_drained j p"
    have q: "CoDedicated ?q = CoDedicated p" "CoShared ?q = CoShared p" "length (Clients ?q) = length (Clients p)"
      "Drainers ?q = take j (Drainers p) @ drop (Suc j) (Drainers p)"
      by (simp_all add: retire_drained_def closeIdleConnections_def Let_def)
    have "filter (\<lambda>c. 0 < leases rs c) (Drainers p) =
        filter (\<lambda>c. 0 < leases rs c) (take j (Drainers p) @ Drainers p ! j # drop (Suc j) (Drainers p))"
      using id_take_nth_drop [OF j(1)] by simp
    then have "filter (\<lambda>c. 0 < leases rs c) (Drainers ?q) = filter (\<lambda>c. 0 < leases rs c) (Drainers p)"
      using j(2) by (simp add: q(4))
    moreover have "length (Drainers ?q) < length (Drainers p)" using j(1) by (simp add: q(4))
    ultimately show ?thesis using less.hyps [OF _ step] q by simp
  qed
qed

text \<open>
  C12: No client leaks, however busy the others are: from every reachable state the goroutines of \<open>retire\<close> whose
  client has no request left can all run to their end, and then only the clients that some request still holds
  are waiting to be drained. Every other client ever made is the shared one, the current client of a service, or has
  had its idle connections closed a second time, after its last request.
\<close>

theorem replaced_clients_are_drained:
  assumes "pool_system default_transport (configure_all calls) (p, rs)"
  shows "\<exists>p'. pool_system default_transport (configure_all calls) (p', rs) \<and>
    Drainers p' = filter (\<lambda>c. 0 < leases rs c) (Drainers p) \<and>
    CoShared p' = CoShared p \<and> CoDedicated p' = CoDedicated p \<and> length (Clients p') = length (Clients p) \<and>
    list_all (\<lambda>c. CoShared p' = Some c \<or> c \<in> snd ` set (CoDedicated p') \<or> 0 < leases rs c \<or>
      MCIdleCloses (Clients p' ! c) = 2) [0 ..< length (Clients p')]"
proof -
  obtain p' where p': "pool_system default_transport (configure_all calls) (p', rs)"
    "Drainers p' = filter (\<lambda>c. 0 < leases rs c) (Drainers p)" "CoDedicated p' = CoDedicated p" "CoShared p' = CoShared p"
    "length (Clients p') = length (Clients p)" using drain_idle [OF assms] by blast
  have "CoShared p' = Some c \<or> c \<in> snd ` set (CoDedicated p') \<or> 0 < leases rs c \<or> MCIdleCloses (Clients p' ! c) = 2"
    if "c < length (Clients p')" for c
    using wait_group_counts_leases_raw [OF p'(1) that] unfolding p'(2) by (auto split: if_splits)
  then have "list_all (\<lambda>c. CoShared p' = Some c \<or> c \<in> snd ` set (CoDedicated p') \<or> 0 < leases rs c \<or>
      MCIdleCloses (Clients p' ! c) = 2) [0 ..< length (Clients p')]" by (simp add: list_all_iff)
  then show ?thesis using p' by blast
qed

section \<open>\<open>Acquire\<close> without interruption\<close>

definition acquire_refused :: "pool_globals \<Rightarrow> assignment \<Rightarrow> bool" where
  "acquire_refused g a \<longleftrightarrow> AsDedicated a \<and>
     (NormalizeLower (AsTier a) \<notin> {TierShared, TierNormal, TierHot, TierSuper} \<or>
      NormalizeServiceName (AsServiceName a) = [])"

lemma newManagedClient_Inr:
  "pool_globals_ok g \<Longrightarrow> Configured g \<Longrightarrow> default_transport \<noteq> None \<Longrightarrow> tier_settled g t \<Longrightarrow>
     \<exists>m. newManagedClient default_transport g t = Inr m"
  by (auto simp: newManagedClient_def NewTransport_def makePool_def tier_settled_def Let_def)

lemma pool_system_start:
  "pool_system default_transport g sys \<Longrightarrow> Configured g \<and> default_transport \<noteq> None"
  by (induction rule: pool_system.induct)
    (auto simp: NewCoordinator_def newSharedClient_def SharedConfig_def makePool_def split: sum.splits if_splits option.splits)

lemma clientFor_write_leases:
  assumes g: "pool_globals_ok g" "Configured g" "default_transport \<noteq> None"
    and cl: "clients_inv h owner p" and ok: "request_ok g owner p (Upgrading a)"
    and st: "clientFor_write default_transport g a p = (r, p')"
  shows "\<exists>c. r = Leased a c"
proof -
  have "\<nexists>e. r = Refused e"
  proof (cases "AsDedicated a")
    case True
    then obtain m where "newManagedClient default_transport g (AsTier a) = Inr m"
      using newManagedClient_Inr [OF g] ok by auto
    then show ?thesis using st True by (auto simp: clientFor_write_def dedicatedClient_write_eq split: option.splits prod.splits)
  next
    case False
    then show ?thesis using st sharedClient_write_eq [OF clients_invD(1) [OF cl]]
      by (auto simp: clientFor_write_def)
  qed
  then show ?thesis using st by (auto simp: clientFor_write_def split: sum.splits prod.splits)
qed

lemma Acquire_cases:
  assumes g: "pool_globals_ok g" "Configured g" "default_transport \<noteq> None"
    and cl: "clients_inv h owner p" and none: "h (length (Clients p)) = 0"
    and acq: "Acquire default_transport g a p = (res, p')"
  shows "case res of
     Inl e \<Rightarrow> acquire_refused g a \<and> p' = p
   | Inr c \<Rightarrow> \<not> acquire_refused g a \<and> length (Clients p) \<le> length (Clients p') \<and>
       (\<exists>owner' t. clients_inv (h(c := h c + 1)) owner' p' \<and> t = (if AsDedicated a then NormalizeLower (AsTier a) else TierShared) \<and>
         request_ok g owner' p' (Leased (a\<lparr>AsTier := (if AsDedicated a then t else AsTier a)\<rparr>) c))"
proof -
  obtain r1 p1 where r1: "clientFor_read g a p = (r1, p1)" by fastforce
  note inv1 = clientFor_read_inv [OF g(1) cl r1]
  have norm: "pool_ConfigFor (AsTier a) g = Inr config \<Longrightarrow> PCTier config = NormalizeLower (AsTier a) \<and>
      NormalizeLower (AsTier a) \<in> {TierShared, TierNormal, TierHot, TierSuper}" for config
    using pool_ConfigFor_Inr [OF g(1)] by blast
  consider (leased) a' c where "r1 = Leased a' c" | (refused) e where "r1 = Refused e" | (upgrading) a' where "r1 = Upgrading a'"
    using r1 by (auto simp: clientFor_read_def Let_def split: if_splits option.splits sum.splits prod.splits)
  then show ?thesis
  proof cases
    case leased
    then have res: "res = Inr c" "p' = p1" using acq r1 by (simp_all add: Acquire_def)
    have a': "a' = a\<lparr>AsTier := (if AsDedicated a then NormalizeLower (AsTier a) else AsTier a)\<rparr>" "\<not> acquire_refused g a"
      using r1 leased norm by (auto simp: clientFor_read_def acquire_refused_def Let_def split: if_splits option.splits sum.splits prod.splits)
    then show ?thesis using inv1 unfolding res leased by (auto simp: add_lease_def extends_def)
  next
    case refused
    then have "acquire_refused g a" "p1 = p"
      using r1 norm pool_ConfigFor_configured [OF g(1,2), of "AsTier a"]
      by (auto simp: clientFor_read_def acquire_refused_def Let_def split: if_splits option.splits sum.splits prod.splits)
    then show ?thesis using acq r1 refused by (auto simp: Acquire_def)
  next
    case upgrading
    have a': "a' = a\<lparr>AsTier := (if AsDedicated a then NormalizeLower (AsTier a) else AsTier a)\<rparr>" "\<not> acquire_refused g a" "p1 = p"
      using r1 upgrading norm by (auto simp: clientFor_read_def acquire_refused_def Let_def split: if_splits option.splits sum.splits prod.splits)
    obtain r2 p2 where r2: "clientFor_write default_transport g a' p = (r2, p2)" by fastforce
    have ok: "request_ok g owner p (Upgrading a')" using inv1 upgrading a'(3) by simp
    obtain c where c: "r2 = Leased a' c" using clientFor_write_leases [OF g cl ok r2] by blast
    have res: "res = Inr c" "p' = p2" using acq r1 upgrading r2 c a'(3) by (simp_all add: Acquire_def)
    obtain owner' where "clients_inv (add_lease r2 h) owner' p2" "request_ok g owner' p2 r2"
        "extends owner p owner' p2"
      using clientFor_write_inv [OF cl ok none r2] by blast
    then show ?thesis using a'(2) unfolding res c a'(1) by (auto simp: add_lease_def extends_def)
  qed
qed

lemma Acquire_entry:
  assumes cl: "clients_inv h owner p" and acq: "Acquire default_transport g a p = (Inr c, p')"
  shows "gomap_get (CoDedicated p') (NormalizeServiceName (AsServiceName a)) = (if AsDedicated a then Some c else None)"
proof -
  note D = clients_invD [OF cl]
  let ?k = "NormalizeServiceName (AsServiceName a)"
  have blank: "gomap_get (CoDedicated p) [] = None" using D(4) by (cases "gomap_get (CoDedicated p) []") blast+
  have inst: "gomap_get (CoDedicated (install_client k m p)) k = Some (length (Clients p))" for k m
    by (simp add: install_client_def Let_def split: option.split)
  show ?thesis
  proof (cases "AsDedicated a")
    case True
    then obtain config where config: "pool_ConfigFor (AsTier a) g = Inr config" "?k \<noteq> []"
      using acq by (auto simp: Acquire_def clientFor_read_def Let_def split: sum.splits if_splits)
    let ?a = "a\<lparr>AsTier := PCTier config\<rparr>"
    show ?thesis
    proof (cases "dedicatedClient_read ?a p")
      case None
      then show ?thesis using acq True config inst
        by (auto simp: Acquire_def clientFor_read_def clientFor_write_def dedicatedClient_write_eq client_acquire_def
            Let_def split: sum.splits)
    next
      case (Some cp)
      then have "gomap_get (CoDedicated p) ?k = Some c" "p' = client_acquire c p"
        using acq True config by (auto simp: Acquire_def clientFor_read_def dedicatedClient_read_def Let_def
            split: option.splits if_splits)
      then show ?thesis using True by (simp add: client_acquire_def)
    qed
  next
    case False
    show ?thesis
    proof (cases "sharedClient_read a p")
      case None
      then show ?thesis using acq False D(1) blank sharedClient_write_eq [OF D(1), of default_transport g a]
        by (auto simp: Acquire_def clientFor_read_def clientFor_write_def sharedClient_read_def client_acquire_def Let_def
            split: option.splits if_splits)
    next
      case (Some cp)
      then have "p' = client_acquire c p" "gomap_get (CoDedicated p) ?k = None"
        using acq False D(1) blank
        by (auto simp: Acquire_def clientFor_read_def sharedClient_read_def Let_def split: if_splits)
      then show ?thesis using False by (simp add: client_acquire_def)
    qed
  qed
qed

text \<open>
  Remark: \<open>Acquire\<close>, uninterrupted, in any reachable state: it refuses exactly the dedicated assignments
  with an unknown tier or a blank service name and then changes nothing; otherwise it adds one to the
  wait group of the client it returns and to no other, and from then on the service has exactly the
  dedicated client it was given, or none when the assignment was shared.
\<close>

theorem Acquire_effect:
  assumes "pool_system default_transport (configure_all calls) (p, rs)"
    and "Acquire default_transport (configure_all calls) a p = (res, p')"
  shows "case res of
     Inl e \<Rightarrow> acquire_refused (configure_all calls) a \<and> p' = p
   | Inr c \<Rightarrow> \<not> acquire_refused (configure_all calls) a \<and>
       (if AsDedicated a then CoShared p' \<noteq> Some c \<and> dedicatedTier (AsServiceName a) p' = (NormalizeLower (AsTier a), True)
        else CoShared p' = Some c \<and> dedicatedTier (AsServiceName a) p' = (TierShared, False)) \<and>
       map MCWaiting (Clients p') = map (\<lambda>c'. int (leases rs c') + (if c' = c then 1 else 0)) [0 ..< length (Clients p')]"
proof -
  let ?g = "configure_all calls"
  obtain owner where cl: "clients_inv (leases rs) owner p" and rq: "\<forall>r \<in> set rs. request_ok ?g owner p r"
    using configured_system_inv [OF assms(1)] by (auto simp: system_inv_def)
  have g: "pool_globals_ok ?g" "Configured ?g" "default_transport \<noteq> None"
    using configure_all_inv pool_system_start [OF assms(1)] by blast+
  have none: "leases rs (length (Clients p)) = 0" using leases_none [OF rq] by simp
  note cases = Acquire_cases [OF g cl none assms(2)]
  show ?thesis
  proof (cases res)
    case (Inl e)
    then show ?thesis using cases by simp
  next
    case (Inr c)
    let ?t = "if AsDedicated a then NormalizeLower (AsTier a) else TierShared"
    obtain owner' where cl': "clients_inv ((leases rs)(c := leases rs c + 1)) owner' p'"
      and rq': "request_ok ?g owner' p' (Leased (a\<lparr>AsTier := (if AsDedicated a then ?t else AsTier a)\<rparr>) c)"
      and nr: "\<not> acquire_refused ?g a" using cases Inr by auto
    note D = clients_invD [OF cl']
    have "gomap_get (CoDedicated p') (NormalizeServiceName (AsServiceName a)) = (if AsDedicated a then Some c else None)"
      using Acquire_entry [OF cl] assms(2) Inr by simp
    then have "dedicatedTier (AsServiceName a) p' = (if AsDedicated a then (NormalizeLower (AsTier a), True) else (TierShared, False))"
      using rq' by (simp add: dedicatedTier_def)
    moreover have "map MCWaiting (Clients p') = map (\<lambda>c'. int (leases rs c') + (if c' = c then 1 else 0)) [0 ..< length (Clients p')]"
      by (rule nth_equalityI) (simp_all add: D(7))
    ultimately show ?thesis using Inr nr rq' D(1) by simp
  qed
qed

section \<open>The interface \<open>ClientProvider\<close>\<close>

text \<open>
  What the forwarder relies on: \<open>Acquire\<close> adds one lease to the client it returns or changes nothing,
  and the lease's \<open>Finish\<close> takes it back. \<open>pending s c\<close> is the number of leases of client \<open>c\<close>.
\<close>

locale client_provider =
  fixes acquire :: "assignment \<Rightarrow> 's \<Rightarrow> nat result \<times> 's"
    and finish :: "nat \<Rightarrow> 's \<Rightarrow> 's"
    and pending :: "'s \<Rightarrow> nat \<Rightarrow> int"
    and ok :: "'s \<Rightarrow> bool"
  assumes acquire_lease: "ok s \<Longrightarrow> acquire a s = (Inr c, s') \<Longrightarrow>
      ok s' \<and> pending s' = (pending s)(c := pending s c + 1)"
    and acquire_refuse: "ok s \<Longrightarrow> acquire a s = (Inl e, s') \<Longrightarrow> s' = s"
    and finish_lease: "ok s \<Longrightarrow> 0 < pending s c \<Longrightarrow>
      ok (finish c s) \<and> pending (finish c s) = (pending s)(c := pending s c - 1)"
    and pending_nonneg: "ok s \<Longrightarrow> 0 \<le> pending s c"
begin

lemma lease_and_finish:
  assumes "ok s" "acquire a s = (Inr c, s')"
  shows "ok (finish c s') \<and> pending (finish c s') = pending s"
proof -
  have s': "ok s'" "pending s' = (pending s)(c := pending s c + 1)" using acquire_lease [OF assms] by simp_all
  moreover have "0 < pending s' c" using s'(2) pending_nonneg [OF assms(1), of c] by simp
  ultimately show ?thesis using finish_lease by (metis (no_types, lifting) add_diff_cancel_right' fun_upd_idem_iff fun_upd_same fun_upd_upd)
qed

end

definition coordinator_ok :: "coordinator \<Rightarrow> bool" where
  "coordinator_ok p \<longleftrightarrow> (\<exists>h owner. clients_inv h owner p \<and> (\<forall>c \<ge> length (Clients p). h c = 0))"

definition pending_leases :: "coordinator \<Rightarrow> nat \<Rightarrow> int" where
  "pending_leases p c = (if c < length (Clients p) then MCWaiting (Clients p ! c) else 0)"

lemma pending_inv:
  assumes "clients_inv h owner p" "\<forall>c \<ge> length (Clients p). h c = 0"
  shows "pending_leases p = (\<lambda>c. int (h c))"
  using clients_invD(7) [OF assms(1)] assms(2) by (auto simp: pending_leases_def fun_eq_iff)

lemma pending_extends:
  assumes "clients_inv h owner p" "\<forall>c \<ge> length (Clients p). h c = 0"
    and "clients_inv h' owner' p'" "h' = h(c := h c + 1)" "c < length (Clients p')" "length (Clients p) \<le> length (Clients p')"
  shows "coordinator_ok p' \<and> pending_leases p' = (pending_leases p)(c := pending_leases p c + 1)"
proof -
  have z: "\<forall>c \<ge> length (Clients p'). h' c = 0" using assms by auto
  show ?thesis using pending_inv [OF assms(1,2)] pending_inv [OF assms(3) z] assms(3,4) z
    unfolding coordinator_ok_def by (auto simp: fun_eq_iff)
qed


lemma coordinator_acquire:
  assumes g: "pool_globals_ok g" "Configured g" "default_transport \<noteq> None"
    and ok: "coordinator_ok p" and acq: "Acquire default_transport g a p = (Inr c, p')"
  shows "coordinator_ok p' \<and> pending_leases p' = (pending_leases p)(c := pending_leases p c + 1)"
proof -
  obtain h owner where cl: "clients_inv h owner p" and z: "\<forall>c \<ge> length (Clients p). h c = 0"
    using ok by (auto simp: coordinator_ok_def)
  obtain owner' t where "clients_inv (h(c := h c + 1)) owner' p'" "c < length (Clients p')" "length (Clients p) \<le> length (Clients p')"
    using Acquire_cases [OF g cl _ acq] z by auto
  then show ?thesis by (intro pending_extends [OF cl z]) simp_all
qed

lemma coordinator_finish:
  assumes ok: "coordinator_ok p" and pos: "0 < pending_leases p c"
  shows "coordinator_ok (client_release c p) \<and>
    pending_leases (client_release c p) = (pending_leases p)(c := pending_leases p c - 1)"
proof -
  obtain h owner where cl: "clients_inv h owner p" and z: "\<forall>c \<ge> length (Clients p). h c = 0"
    using ok by (auto simp: coordinator_ok_def)
  have c: "c < length (Clients p)" using pos by (simp add: pending_leases_def split: if_splits)
  obtain n where n: "h c = Suc n" using pos pending_inv [OF cl z] by (cases "h c") auto
  have cl': "clients_inv (h(c := n)) owner (client_release c p)" by (rule release_inv [OF cl c n])
  have z': "\<forall>x \<ge> length (Clients (client_release c p)). (h(c := n)) x = 0"
    using z c by (auto simp: client_release_def)
  show ?thesis using pending_inv [OF cl z] pending_inv [OF cl' z'] cl' z' n
    unfolding coordinator_ok_def by (auto simp: fun_eq_iff)
qed

text \<open>The coordinator, on loaded settings, provides what the interface promises.\<close>

definition loaded_globals :: "(pool_config \<times> (tier, pool_config) gomap) list \<Rightarrow> bool" where
  "loaded_globals calls \<longleftrightarrow> list_ex (\<lambda>(shared, tiers). Configure_accepts shared tiers) calls"

definition acquire_loaded ::
  "transport \<Rightarrow> (pool_config \<times> (tier, pool_config) gomap) list \<Rightarrow> assignment \<Rightarrow> coordinator \<Rightarrow> nat result \<times> coordinator" where
  "acquire_loaded t calls a p =
     (if loaded_globals calls then Acquire (Some t) (configure_all calls) a p
      else (Inl (errorf [PoolConfig_ErrInvalidConfig] ''pool config is not loaded''), p))"

interpretation coordinator_leases: client_provider "acquire_loaded t calls" client_release pending_leases coordinator_ok
  for t calls
proof unfold_locales
  fix s a c s' assume ok: "coordinator_ok s" and acq: "acquire_loaded t calls a s = (Inr c, s')"
  then have l: "loaded_globals calls" "Acquire (Some t) (configure_all calls) a s = (Inr c, s')"
    by (auto simp: acquire_loaded_def split: if_splits)
  then show "coordinator_ok s' \<and> pending_leases s' = (pending_leases s)(c := pending_leases s c + 1)"
    using coordinator_acquire [OF _ _ _ ok l(2)] configure_all_inv [of calls] by (simp add: loaded_globals_def)
next
  fix s a e s' assume ok: "coordinator_ok s" and acq: "acquire_loaded t calls a s = (Inl e, s')"
  obtain h owner where cl: "clients_inv h owner s" and z: "\<forall>c \<ge> length (Clients s). h c = 0"
    using ok by (auto simp: coordinator_ok_def)
  show "s' = s"
  proof (cases "loaded_globals calls")
    case True
    then show ?thesis using Acquire_cases [OF _ _ _ cl, of "configure_all calls" "Some t" a "Inl e" s'] z acq
        configure_all_inv [of calls] by (auto simp: acquire_loaded_def loaded_globals_def)
  next
    case False
    then show ?thesis using acq by (simp add: acquire_loaded_def)
  qed
next
  fix s c assume "coordinator_ok s" "0 < pending_leases s c"
  then show "coordinator_ok (client_release c s) \<and>
      pending_leases (client_release c s) = (pending_leases s)(c := pending_leases s c - 1)"
    by (rule coordinator_finish)
next
  fix s c assume ok: "coordinator_ok s"
  obtain h owner where cl: "clients_inv h owner s" and z: "\<forall>c \<ge> length (Clients s). h c = 0"
    using ok by (auto simp: coordinator_ok_def)
  show "0 \<le> pending_leases s c" using pending_inv [OF cl z] by simp
qed

section \<open>A concrete system\<close>

definition sample_pool_config :: pool_config where
  "sample_pool_config = \<lparr>PCTier = [], MaxIdleConns = 100, MaxIdleConnsPerHost = 10, MaxConnsPerHost = 0,
     IdleConnTimeout = 90 * second, ResponseHeaderTimeout = 0, TLSHandshakeTimeout = 0, ExpectContinueTimeout = 0\<rparr>"

definition sample_calls :: "(pool_config \<times> (tier, pool_config) gomap) list" where
  "sample_calls = [(sample_pool_config,
     [(''normal'', sample_pool_config), (''Hot'', sample_pool_config), (''super'', sample_pool_config)])]"

definition sample_transport :: transport where
  "sample_transport = \<lparr>TrMaxIdleConns = 100, TrMaxIdleConnsPerHost = 0, TrMaxConnsPerHost = 0,
     TrIdleConnTimeout = 90 * second, TrResponseHeaderTimeout = 0, TrTLSHandshakeTimeout = 10 * second,
     TrExpectContinueTimeout = second\<rparr>"

definition sample_globals :: pool_globals where
  "sample_globals = \<lparr>GlobalShared = sample_pool_config\<lparr>PCTier := ''shared''\<rparr>,
     GlobalTiers = [(''normal'', sample_pool_config\<lparr>PCTier := ''normal''\<rparr>),
       (''hot'', sample_pool_config\<lparr>PCTier := ''hot''\<rparr>), (''super'', sample_pool_config\<lparr>PCTier := ''super''\<rparr>)],
     Configured = True\<rparr>"

lemma sample_globals_eq: "configure_all sample_calls = sample_globals"
  by code_simp

definition sample_assignment :: "tier \<Rightarrow> bool \<Rightarrow> assignment" where
  "sample_assignment t d = \<lparr>AsServiceName = ''users'', AsTier = t, AsDedicated = d, AsStatus = load_status 50\<rparr>"

text \<open>
  Request 0 gets a new client of tier \<open>hot\<close>; request 1, on tier \<open>super\<close>, replaces it while request 0
  still holds it.
\<close>

definition sample_start :: coordinator where
  "sample_start = (case NewCoordinator (Some sample_transport) sample_globals of Inr p \<Rightarrow> p
     | Inl e \<Rightarrow> \<lparr>CoShared = None, CoDedicated = [], Clients = [], Drainers = []\<rparr>)"

definition sample_run :: "coordinator \<times> request_state list" where
  "sample_run = foldl (\<lambda>s i. request_step (Some sample_transport) sample_globals i s)
     (sample_start, [Choosing (sample_assignment '' HOT'' True), Choosing (sample_assignment ''super'' True)])
     [0, 1, 0, 1]"

lemma sample_run_eq:
  "snd sample_run = [Leased (sample_assignment ''hot'' True) 1, Leased (sample_assignment ''super'' True) 2]"
  "CoDedicated (fst sample_run) = [(''users'', 2)]" "Drainers (fst sample_run) = [1]"
  "length (Clients (fst sample_run)) = 3" "CoShared (fst sample_run) = Some 0"
  by code_simp+

lemma request_step_length [simp]: "length (snd (request_step t g i s)) = length (snd s)"
  by (simp add: request_step_def split: prod.splits request_state.splits)

lemma pool_system_steps:
  "pool_system t g (p, rs) \<Longrightarrow> list_all (\<lambda>i. i < length rs) is \<Longrightarrow>
     pool_system t g (foldl (\<lambda>s i. request_step t g i s) (p, rs) is)"
proof (induction "is" rule: rev_induct)
  case (snoc i "is")
  let ?s = "foldl (\<lambda>s i. request_step t g i s) (p, rs) is"
  have len: "length (snd (foldl (\<lambda>s i. request_step t g i s) (p, rs) is)) = length rs" for "is"
    by (induction "is" rule: rev_induct) simp_all
  have "pool_system t g (fst ?s, snd ?s)" using snoc by simp
  then have "pool_system t g (request_step t g i (fst ?s, snd ?s))"
    using snoc.prems(2) len by (intro pool_system.run) simp_all
  then show ?case by simp
qed simp

lemma sample_run_reachable: "pool_system (Some sample_transport) (configure_all sample_calls) (fst sample_run, snd sample_run)"
proof -
  have "NewCoordinator (Some sample_transport) sample_globals = Inr sample_start" by code_simp
  then have "pool_system (Some sample_transport) sample_globals (sample_start, [])" by (rule pool_system.start)
  then have "pool_system (Some sample_transport) sample_globals
      (sample_start, [] @ [Choosing (sample_assignment '' HOT'' True)])" by (rule pool_system.arrive)
  from pool_system.arrive [OF this, of "sample_assignment ''super'' True"] show ?thesis
    unfolding sample_globals_eq sample_run_def prod.collapse
    by (intro pool_system_steps) simp_all
qed

theorem leased_client_matches_witness:
  "MCTier (Clients (fst sample_run) ! 1) = ''hot'' \<and> 0 < MCWaiting (Clients (fst sample_run) ! 1) \<and>
   MCIdleCloses (Clients (fst sample_run) ! 1) < 2 \<and>
   (\<exists>config. pool_ConfigFor ''hot'' (configure_all sample_calls) = Inr config \<and>
      transport_follows sample_transport config (MCTransport (Clients (fst sample_run) ! 1)))"
  using leased_client_matches [OF sample_run_reachable, of 0 "sample_assignment ''hot'' True" 1]
  by (simp add: sample_run_eq) (simp add: sample_assignment_def)

theorem wait_group_counts_leases_witness:
  "MCWaiting (Clients (fst sample_run) ! 1) = 1 \<and> MCIdleCloses (Clients (fst sample_run) ! 1) = 1 \<and>
   MCIdleCloses (Clients (fst sample_run) ! 2) = 0"
proof -
  have "leases (snd sample_run) 1 = 1" unfolding sample_run_eq leases_def by simp
  then show ?thesis
    using wait_group_counts_leases [OF sample_run_reachable, of 1]
      wait_group_counts_leases [OF sample_run_reachable, of 2]
    by (simp add: sample_run_eq)
qed

theorem replaced_clients_are_drained_witness:
  "\<exists>p'. pool_system (Some sample_transport) (configure_all sample_calls) (p', [Finished, Leased (sample_assignment ''super'' True) 2]) \<and>
    Drainers p' = [] \<and> CoDedicated p' = [(''users'', 2)]"
proof -
  let ?s = "request_step (Some sample_transport) (configure_all sample_calls) 0 sample_run"
  have e: "snd ?s = [Finished, Leased (sample_assignment ''super'' True) 2]" "CoDedicated (fst ?s) = [(''users'', 2)]"
    "Drainers (fst ?s) = [1]" by code_simp+
  have "pool_system (Some sample_transport) (configure_all sample_calls)
      (request_step (Some sample_transport) (configure_all sample_calls) 0 (fst sample_run, snd sample_run))"
    by (rule pool_system.run [OF sample_run_reachable]) (simp add: sample_run_eq(1))
  then have "pool_system (Some sample_transport) (configure_all sample_calls) (fst ?s, snd ?s)" by (simp only: prod.collapse)
  then have r: "pool_system (Some sample_transport) (configure_all sample_calls)
      (fst ?s, [Finished, Leased (sample_assignment ''super'' True) 2])" unfolding e(1) .
  have "leases [Finished, Leased (sample_assignment ''super'' True) 2] 1 = 0" by (simp add: leases_def)
  then show ?thesis using replaced_clients_are_drained [OF r] unfolding e(2,3) by auto
qed

theorem Acquire_effect_witness:
  "\<exists>c p'. Acquire (Some sample_transport) (configure_all sample_calls) (sample_assignment ''x'' False) (fst sample_run) = (Inr c, p') \<and>
     CoShared p' = Some c \<and> dedicatedTier ''users'' p' = (TierShared, False)"
proof -
  let ?a = "sample_assignment ''x'' False"
  obtain res p' where acq: "Acquire (Some sample_transport) (configure_all sample_calls) ?a (fst sample_run) = (res, p')" by fastforce
  have "\<not> acquire_refused (configure_all sample_calls) ?a" by (simp add: acquire_refused_def sample_assignment_def)
  then show ?thesis using Acquire_effect [OF sample_run_reachable acq] acq
    by (cases res) (simp_all add: sample_assignment_def)
qed

end
