(* ===== verification/Metrics.thy ===== *)
theory Metrics
  imports Traffic
begin

text \<open>
  Package \<open>internal/metric/record\<close> and the constants of \<open>internal/metric\<close>: the metrics of the HTTP
  requests, of the connection pools and of the upstream connections. The observer of \<open>internal/metric\<close> wraps
  the other handlers and is in \<open>Server\<close>.

  The Prometheus client is third-party code. The model keeps what the program passes to it: the
  description of every metric, and the calls \<open>WithLabelValues(...).Inc\<close>, \<open>Dec\<close> and
  \<open>Observe\<close> in their order. \<open>metric_value\<close> is the documented meaning of the calls for a counter or a
  gauge. A completion function holds the labels and the start time it closes over and whether its
  \<open>sync.Once\<close> has fired.
\<close>

section \<open>Names (\<open>consts.go\<close>, \<open>buckets.go\<close>)\<close>

definition namespace :: string where "namespace = ''wintergate''"
definition labelEvent :: string where "labelEvent = ''event''"
definition labelService :: string where "labelService = ''service''"
definition labelTier :: string where "labelTier = ''tier''"
definition labelPool :: string where "labelPool = ''pool''"
definition labelUpstream :: string where "labelUpstream = ''upstream_instance''"
definition labelRoute :: string where "labelRoute = ''route''"
definition labelMethod :: string where "labelMethod = ''method''"
definition labelStatusCode :: string where "labelStatusCode = ''status_code''"
definition labelResult :: string where "labelResult = ''result''"
definition resultSuccess :: string where "resultSuccess = ''success''"
definition resultError :: string where "resultError = ''error''"
definition poolShared :: string where "poolShared = ''shared''"
definition poolDedicated :: string where "poolDedicated = ''dedicated''"
definition unknown :: string where "unknown = ''unknown''"
definition connectionEventNew :: string where "connectionEventNew = ''new''"
definition connectionEventReused :: string where "connectionEventReused = ''reused''"
definition connectionEventIdleReused :: string where "connectionEventIdleReused = ''idle_reused''"
definition routeGateway :: string where "routeGateway = ''gateway''"
definition metric_Route :: string where "metric_Route = ''/metric''"

definition requestDurationBuckets :: "float64 list" where
  "requestDurationBuckets = [0.00025, 0.0005, 0.001, 0.0015, 0.002, 0.0025, 0.003, 0.004, 0.005, 0.0075,
     0.01, 0.025, 0.05, 0.1, 0.25, 0.5, 1, 2.5, 5, 10]"

definition connectionWaitDurationBuckets :: "float64 list" where
  "connectionWaitDurationBuckets = [0.0001, 0.00025, 0.0005, 0.00075, 0.001, 0.0015, 0.002, 0.0025, 0.003,
     0.004, 0.005, 0.0075, 0.01, 0.025, 0.05, 0.1, 0.25, 0.5, 1]"

definition connectionDialDurationBuckets :: "float64 list" where
  "connectionDialDurationBuckets = connectionWaitDurationBuckets"

section \<open>Descriptions (\<open>newPoolRecorder\<close>, \<open>newRequestRecorder\<close>)\<close>

datatype metric =
    PoolSelections | UpstreamRequests | UpstreamDuration | PoolInFlight
  | ConnectionEvents | ConnectionWait | ConnectionDial
  | HTTPRequests | HTTPDuration | HTTPInFlight | HTTPFailures

datatype metric_kind = CounterKind | GaugeKind | HistogramKind "float64 list"

record metric_desc =
  MetricSubsystem :: string
  MetricName :: string
  MetricKind :: metric_kind
  MetricLabels :: "string list"

definition newPoolRecorder :: "(metric \<times> metric_desc) list" where
  "newPoolRecorder =
    [(PoolSelections, \<lparr>MetricSubsystem = ''pool'', MetricName = ''selections_total'',
        MetricKind = CounterKind, MetricLabels = [labelService, labelTier, labelPool, labelUpstream]\<rparr>),
     (UpstreamRequests, \<lparr>MetricSubsystem = ''upstream'', MetricName = ''requests_total'',
        MetricKind = CounterKind,
        MetricLabels = [labelService, labelTier, labelPool, labelUpstream, labelStatusCode, labelResult]\<rparr>),
     (UpstreamDuration, \<lparr>MetricSubsystem = ''upstream'', MetricName = ''request_duration_seconds'',
        MetricKind = HistogramKind requestDurationBuckets,
        MetricLabels = [labelService, labelTier, labelPool, labelUpstream, labelStatusCode, labelResult]\<rparr>),
     (PoolInFlight, \<lparr>MetricSubsystem = ''pool'', MetricName = ''requests_in_flight'',
        MetricKind = GaugeKind, MetricLabels = [labelService, labelTier, labelPool, labelUpstream]\<rparr>),
     (ConnectionEvents, \<lparr>MetricSubsystem = ''upstream_connection'', MetricName = ''events_total'',
        MetricKind = CounterKind,
        MetricLabels = [labelService, labelTier, labelPool, labelUpstream, labelEvent]\<rparr>),
     (ConnectionWait, \<lparr>MetricSubsystem = ''upstream_connection'', MetricName = ''wait_duration_seconds'',
        MetricKind = HistogramKind connectionWaitDurationBuckets,
        MetricLabels = [labelService, labelTier, labelPool, labelUpstream]\<rparr>),
     (ConnectionDial, \<lparr>MetricSubsystem = ''upstream_connection'', MetricName = ''dial_duration_seconds'',
        MetricKind = HistogramKind connectionDialDurationBuckets,
        MetricLabels = [labelService, labelTier, labelPool, labelUpstream]\<rparr>)]"

definition newRequestRecorder :: "(metric \<times> metric_desc) list" where
  "newRequestRecorder =
    [(HTTPRequests, \<lparr>MetricSubsystem = ''http'', MetricName = ''requests_total'',
        MetricKind = CounterKind, MetricLabels = [labelRoute, labelMethod, labelStatusCode, labelResult]\<rparr>),
     (HTTPDuration, \<lparr>MetricSubsystem = ''http'', MetricName = ''request_duration_seconds'',
        MetricKind = HistogramKind requestDurationBuckets,
        MetricLabels = [labelRoute, labelMethod, labelStatusCode, labelResult]\<rparr>),
     (HTTPInFlight, \<lparr>MetricSubsystem = ''http'', MetricName = ''requests_in_flight'',
        MetricKind = GaugeKind, MetricLabels = []\<rparr>),
     (HTTPFailures, \<lparr>MetricSubsystem = ''http'', MetricName = ''request_failures_total'',
        MetricKind = CounterKind, MetricLabels = [labelRoute, labelMethod, labelStatusCode]\<rparr>)]"

text \<open>The metrics that \<open>NewRecorder\<close> registers.\<close>

definition Metrics_NewRecorder :: "(metric \<times> metric_desc) list" where
  "Metrics_NewRecorder = newRequestRecorder @ newPoolRecorder"

section \<open>Calls\<close>

datatype metric_call =
    Inc metric "string list"
  | Dec metric "string list"
  | Observe metric "string list" float64

type_synonym metric_log = "metric_call list"

fun call_metric :: "metric_call \<Rightarrow> metric" where
  "call_metric (Inc m _) = m"
| "call_metric (Dec m _) = m"
| "call_metric (Observe m _ _) = m"

fun call_labels :: "metric_call \<Rightarrow> string list" where
  "call_labels (Inc _ ls) = ls"
| "call_labels (Dec _ ls) = ls"
| "call_labels (Observe _ ls _) = ls"

definition metric_value :: "metric_log \<Rightarrow> metric \<Rightarrow> string list \<Rightarrow> int" where
  "metric_value calls m ls = int (count_list calls (Inc m ls)) - int (count_list calls (Dec m ls))"

definition resultFor :: "int \<Rightarrow> string" where
  "resultFor statusCode = (if statusCode \<ge> 400 then resultError else resultSuccess)"

section \<open>HTTP requests (\<open>request.go\<close>)\<close>

record request_observation =
  ObsMethod :: string
  ObsPath :: string
  ObsStatusCode :: int

record request_done =
  RDStartedAt :: time
  RDFired :: bool

definition recordRequest :: "time \<Rightarrow> metric_log \<Rightarrow> request_done \<times> metric_log" where
  "recordRequest now calls = (\<lparr>RDStartedAt = now, RDFired = False\<rparr>, calls @ [Inc HTTPInFlight []])"

definition request_done_call ::
  "time \<Rightarrow> request_observation \<Rightarrow> request_done \<Rightarrow> metric_log \<Rightarrow> request_done \<times> metric_log" where
  "request_done_call now observation d calls =
     (if RDFired d then (d, calls)
      else (let path = NormalizeMetricPath (ObsPath observation) routeGateway;
                verb = NormalizeMetricMethod (ObsMethod observation);
                statusCode = NormalizeStatusCode (ObsStatusCode observation) 200;
                status = itoa statusCode;
                result = resultFor statusCode;
                seconds = duration_seconds (time_sub now (RDStartedAt d))
            in (d\<lparr>RDFired := True\<rparr>,
                calls @ [Dec HTTPInFlight [], Inc HTTPRequests [path, verb, status, result],
                  Observe HTTPDuration [path, verb, status, result] seconds] @
                (if result = resultError then [Inc HTTPFailures [path, verb, status]] else []))))"

section \<open>Pools and connections (\<open>pool.go\<close>)\<close>

record pool_observation =
  PoServiceName :: string
  PoTier :: string
  PoDedicated :: bool
  PoInstance :: string

record connection_observation =
  CnReused :: bool
  CnWasIdle :: bool
  CnWaitDuration :: duration
  CnDialed :: bool
  CnDialDuration :: duration

definition poolFor :: "bool \<Rightarrow> string" where
  "poolFor dedicated = (if dedicated then poolDedicated else poolShared)"

definition connectionEventFor :: "connection_observation \<Rightarrow> string" where
  "connectionEventFor connection =
     (if CnReused connection \<and> CnWasIdle connection then connectionEventIdleReused
      else if CnReused connection then connectionEventReused
      else connectionEventNew)"

definition pool_labels :: "pool_observation \<Rightarrow> string list" where
  "pool_labels observation =
     [NormalizeMetricValue (PoServiceName observation) unknown, NormalizeMetricValue (PoTier observation) unknown,
      poolFor (PoDedicated observation), NormalizeMetricValue (PoInstance observation) unknown]"

record pool_done =
  PDLabels :: "string list"
  PDStartedAt :: time
  PDFired :: bool

definition recordPool :: "time \<Rightarrow> pool_observation \<Rightarrow> metric_log \<Rightarrow> pool_done \<times> metric_log" where
  "recordPool now observation calls =
     (let ls = pool_labels observation in
      (\<lparr>PDLabels = ls, PDStartedAt = now, PDFired = False\<rparr>,
       calls @ [Inc PoolSelections ls, Inc PoolInFlight ls]))"

definition pool_done_call :: "time \<Rightarrow> int \<Rightarrow> pool_done \<Rightarrow> metric_log \<Rightarrow> pool_done \<times> metric_log" where
  "pool_done_call now resultStatusCode d calls =
     (if PDFired d then (d, calls)
      else (let ls = PDLabels d;
                statusCode = NormalizeStatusCode resultStatusCode 200;
                status = itoa statusCode;
                metricResult = resultFor statusCode
            in (d\<lparr>PDFired := True\<rparr>,
                calls @ [Dec PoolInFlight ls, Inc UpstreamRequests (ls @ [status, metricResult]),
                  Observe UpstreamDuration (ls @ [status, metricResult])
                    (duration_seconds (time_sub now (PDStartedAt d)))])))"

definition recordConnection :: "pool_observation \<Rightarrow> connection_observation \<Rightarrow> metric_log \<Rightarrow> metric_log" where
  "recordConnection observation connection calls =
     (let ls = pool_labels observation;
          event = connectionEventFor connection;
          waitDuration = CnWaitDuration connection;
          waitDuration = (if waitDuration < 0 then 0 else waitDuration);
          dialDuration = CnDialDuration connection;
          dialDuration = (if dialDuration < 0 then 0 else dialDuration)
      in calls @ [Inc ConnectionEvents (ls @ [event]), Observe ConnectionWait ls (duration_seconds waitDuration)] @
         (if CnDialed connection then [Observe ConnectionDial ls (duration_seconds dialDuration)] else []))"

section \<open>Calls match the descriptions\<close>

text \<open>\<open>WithLabelValues\<close> panics unless the number of values is the number of labels.\<close>

definition call_ok :: "metric_call \<Rightarrow> bool" where
  "call_ok c = (case map_of Metrics_NewRecorder (call_metric c) of
     None \<Rightarrow> False
   | Some d \<Rightarrow> length (call_labels c) = length (MetricLabels d) \<and>
      (case c of Inc _ _ \<Rightarrow> MetricKind d = CounterKind \<or> MetricKind d = GaugeKind
       | Dec _ _ \<Rightarrow> MetricKind d = GaugeKind
       | Observe _ _ _ \<Rightarrow> (case MetricKind d of HistogramKind _ \<Rightarrow> True | _ \<Rightarrow> False)))"

section \<open>Runs\<close>

text \<open>Everything that can happen to the recorder; the completion functions are numbered as they are made.\<close>

datatype metric_event =
    StartHTTP time
  | FinishHTTP nat time request_observation
  | StartPool time pool_observation
  | FinishPool nat time int
  | Connection pool_observation connection_observation

record metric_state =
  MLog :: metric_log
  MRequests :: "request_done list"
  MPools :: "pool_done list"

definition metric_step :: "metric_state \<Rightarrow> metric_event \<Rightarrow> metric_state" where
  "metric_step s e = (case e of
     StartHTTP now \<Rightarrow> (let (d, calls) = recordRequest now (MLog s) in s\<lparr>MLog := calls, MRequests := MRequests s @ [d]\<rparr>)
   | FinishHTTP i now ob \<Rightarrow>
       if i < length (MRequests s) then
         (let (d, calls) = request_done_call now ob (MRequests s ! i) (MLog s)
          in s\<lparr>MLog := calls, MRequests := (MRequests s)[i := d]\<rparr>)
       else s
   | StartPool now ob \<Rightarrow> (let (d, calls) = recordPool now ob (MLog s) in s\<lparr>MLog := calls, MPools := MPools s @ [d]\<rparr>)
   | FinishPool i now status \<Rightarrow>
       if i < length (MPools s) then
         (let (d, calls) = pool_done_call now status (MPools s ! i) (MLog s)
          in s\<lparr>MLog := calls, MPools := (MPools s)[i := d]\<rparr>)
       else s
   | Connection ob cn \<Rightarrow> s\<lparr>MLog := recordConnection ob cn (MLog s)\<rparr>)"

definition metric_run :: "metric_event list \<Rightarrow> metric_state" where
  "metric_run es = foldl metric_step \<lparr>MLog = [], MRequests = [], MPools = []\<rparr> es"

section \<open>The meaning of the calls\<close>

lemma metric_value_append [simp]: "metric_value (xs @ ys) m ls = metric_value xs m ls + metric_value ys m ls"
  by (simp add: metric_value_def)

lemma metric_value_Nil [simp]: "metric_value [] m ls = 0"
  by (simp add: metric_value_def)

lemma metric_value_Cons [simp]:
  "metric_value (c # cs) m ls = metric_value cs m ls + (if c = Inc m ls then 1 else 0) - (if c = Dec m ls then 1 else 0)"
  by (simp add: metric_value_def)

definition tally :: "('a \<Rightarrow> bool) \<Rightarrow> 'a list \<Rightarrow> int" where
  "tally P xs = int (length (filter P xs))"

lemma tally_simps [simp]:
  "tally P [] = 0" "tally P (x # xs) = (if P x then 1 else 0) + tally P xs" "tally P (xs @ ys) = tally P xs + tally P ys"
  by (simp_all add: tally_def)

lemma tally_update:
  "i < length xs \<Longrightarrow> tally P (xs[i := x]) = tally P xs - (if P (xs ! i) then 1 else 0) + (if P x then 1 else 0)"
proof (induction xs arbitrary: i)
  case (Cons y ys)
  then show ?case by (cases i) auto
qed simp

definition upstream_result_for :: "string list \<Rightarrow> metric_call \<Rightarrow> bool" where
  "upstream_result_for ls c = (case c of Inc m xs \<Rightarrow> m = UpstreamRequests \<and> take 4 xs = ls | _ \<Rightarrow> False)"

definition metrics_inv :: "metric_state \<Rightarrow> bool" where
  "metrics_inv s \<longleftrightarrow>
     list_all (\<lambda>d. length (PDLabels d) = 4) (MPools s) \<and> list_all call_ok (MLog s) \<and>
     (\<forall>ls. metric_value (MLog s) PoolInFlight ls = tally (\<lambda>d. PDLabels d = ls \<and> \<not> PDFired d) (MPools s)) \<and>
     (\<forall>ls. metric_value (MLog s) PoolSelections ls = tally (\<lambda>d. PDLabels d = ls) (MPools s)) \<and>
     (\<forall>ls. tally (upstream_result_for ls) (MLog s) = tally (\<lambda>d. PDLabels d = ls \<and> PDFired d) (MPools s)) \<and>
     metric_value (MLog s) HTTPInFlight [] = tally (\<lambda>d. \<not> RDFired d) (MRequests s) \<and>
     (\<forall>p v st. metric_value (MLog s) HTTPFailures [p, v, st] = metric_value (MLog s) HTTPRequests [p, v, st, ''error''])"

lemma call_ok_simps [simp]:
  "call_ok (Inc PoolSelections ls) \<longleftrightarrow> length ls = 4" "call_ok (Inc PoolInFlight ls) \<longleftrightarrow> length ls = 4"
  "call_ok (Dec PoolInFlight ls) \<longleftrightarrow> length ls = 4" "call_ok (Inc UpstreamRequests ls) \<longleftrightarrow> length ls = 6"
  "call_ok (Observe UpstreamDuration ls x) \<longleftrightarrow> length ls = 6" "call_ok (Inc ConnectionEvents ls) \<longleftrightarrow> length ls = 5"
  "call_ok (Observe ConnectionWait ls x) \<longleftrightarrow> length ls = 4" "call_ok (Observe ConnectionDial ls x) \<longleftrightarrow> length ls = 4"
  "call_ok (Inc HTTPInFlight ls) \<longleftrightarrow> ls = []" "call_ok (Dec HTTPInFlight ls) \<longleftrightarrow> ls = []"
  "call_ok (Inc HTTPRequests ls) \<longleftrightarrow> length ls = 4" "call_ok (Observe HTTPDuration ls x) \<longleftrightarrow> length ls = 4"
  "call_ok (Inc HTTPFailures ls) \<longleftrightarrow> length ls = 3"
  by (auto simp: call_ok_def Metrics_NewRecorder_def newRequestRecorder_def newPoolRecorder_def)

lemma result_error: "(resultFor c = resultError) = (400 \<le> c)" "(resultFor c = ''error'') = (400 \<le> c)"
  by (simp_all add: resultFor_def resultError_def resultSuccess_def)

lemma metrics_inv_step: "metrics_inv s \<Longrightarrow> metrics_inv (metric_step s e)"
proof (cases e)
  case (StartHTTP now)
  assume "metrics_inv s"
  then show ?thesis by (simp add: StartHTTP metric_step_def recordRequest_def metrics_inv_def upstream_result_for_def)
next
  case (FinishHTTP i now ob)
  assume "metrics_inv s"
  then show ?thesis
    by (simp add: FinishHTTP metric_step_def request_done_call_def metrics_inv_def Let_def tally_update
        upstream_result_for_def result_error)
next
  case (StartPool now ob)
  assume "metrics_inv s"
  then show ?thesis
    by (auto simp: StartPool metric_step_def recordPool_def metrics_inv_def Let_def upstream_result_for_def pool_labels_def)
next
  case (FinishPool i now st)
  assume inv: "metrics_inv s"
  show ?thesis
  proof (cases "i < length (MPools s) \<and> \<not> PDFired (MPools s ! i)")
    case True
    then have len: "length (PDLabels (MPools s ! i)) = 4" using inv by (auto simp: metrics_inv_def list_all_length)
    have all: "list_all P xs \<Longrightarrow> P x \<Longrightarrow> list_all P (xs[i := x])" for P x and xs :: "pool_done list"
      by (auto simp: list_all_iff dest: set_update_subset_insert [THEN subsetD])
    show ?thesis using inv True len
      by (auto simp: FinishPool metric_step_def pool_done_call_def metrics_inv_def Let_def tally_update
          upstream_result_for_def intro!: all)
  next
    case False
    then show ?thesis using inv by (auto simp: FinishPool metric_step_def pool_done_call_def)
  qed
next
  case (Connection ob cn)
  assume "metrics_inv s"
  then show ?thesis
    by (simp add: Connection metric_step_def recordConnection_def metrics_inv_def Let_def upstream_result_for_def pool_labels_def)
qed

lemma metrics_inv_run: "metrics_inv (metric_run es)"
proof (induction es rule: rev_induct)
  case Nil
  then show ?case by (simp add: metric_run_def metrics_inv_def)
next
  case (snoc e es)
  then show ?case using metrics_inv_step by (simp add: metric_run_def)
qed


section \<open>What the events of a run say\<close>

text \<open>The pool uses a run starts, by their labels, and the status each is first finished with; the same for requests.\<close>

fun pool_starts :: "metric_event list \<Rightarrow> string list list" where
  "pool_starts [] = []"
| "pool_starts (StartPool now ob # es) = pool_labels ob # pool_starts es"
| "pool_starts (e # es) = pool_starts es"

fun starts_pool :: "metric_event \<Rightarrow> bool" where
  "starts_pool (StartPool now ob) = True"
| "starts_pool e = False"

fun finishes_pool :: "metric_event \<Rightarrow> (nat \<times> int) option" where
  "finishes_pool (FinishPool i now status) = Some (i, status)"
| "finishes_pool e = None"

fun starts_request :: "metric_event \<Rightarrow> bool" where
  "starts_request (StartHTTP now) = True"
| "starts_request e = False"

fun finishes_request :: "metric_event \<Rightarrow> (nat \<times> request_observation) option" where
  "finishes_request (FinishHTTP i now ob) = Some (i, ob)"
| "finishes_request e = None"

definition pool_finish :: "metric_event list \<Rightarrow> nat \<Rightarrow> int option" where
  "pool_finish = first_finish starts_pool finishes_pool 0"

definition request_finish :: "metric_event list \<Rightarrow> nat \<Rightarrow> request_observation option" where
  "request_finish = first_finish starts_request finishes_request 0"

definition requests_started :: "metric_event list \<Rightarrow> nat" where
  "requests_started es = length (filter starts_request es)"

definition status_labels :: "int \<Rightarrow> string list" where
  "status_labels status = (let code = (if status = 0 then 200 else status)
     in [itoa code, if 400 \<le> code then ''error'' else ''success''])"

definition request_labels :: "request_observation \<Rightarrow> string list" where
  "request_labels ob = [NormalizeMetricPath (ObsPath ob) ''gateway'', NormalizeMetricMethod (ObsMethod ob)] @
     status_labels (ObsStatusCode ob)"

lemma status_labels_eq:
  "[itoa (NormalizeStatusCode status 200), resultFor (NormalizeStatusCode status 200)] = status_labels status"
  by (simp add: status_labels_def NormalizeStatusCode_def resultFor_def resultError_def resultSuccess_def)

lemma request_labels_eq:
  "request_labels ob = [NormalizeMetricPath (ObsPath ob) routeGateway, NormalizeMetricMethod (ObsMethod ob),
     itoa (NormalizeStatusCode (ObsStatusCode ob) 200), resultFor (NormalizeStatusCode (ObsStatusCode ob) 200)]"
  by (simp add: request_labels_def status_labels_eq [symmetric] routeGateway_def)

lemma pool_starts_append [simp]: "pool_starts (xs @ ys) = pool_starts xs @ pool_starts ys"
  by (induction xs rule: pool_starts.induct) simp_all

lemma pool_starts_length: "length (filter starts_pool es) = length (pool_starts es)"
  by (induction es rule: pool_starts.induct) simp_all

lemma starts_event [simp]:
  "\<not> starts_pool e \<Longrightarrow> pool_starts (es @ [e]) = pool_starts es"
  "\<not> starts_request e \<Longrightarrow> requests_started (es @ [e]) = requests_started es"
  "requests_started (es @ [StartHTTP now]) = Suc (requests_started es)"
  by (cases e) (simp_all add: requests_started_def)

lemma finish_other:
  "finishes_pool e = None \<Longrightarrow> pool_finish (es @ [e]) = pool_finish es"
  "finishes_request e = None \<Longrightarrow> request_finish (es @ [e]) = request_finish es"
  by (auto simp: pool_finish_def request_finish_def first_finish_snoc fun_eq_iff split: option.split)

lemma pool_finish_snoc:
  "pool_finish (es @ [FinishPool j now status]) =
     (if j < length (pool_starts es) \<and> pool_finish es j = None then (pool_finish es)(j := Some status) else pool_finish es)"
  by (auto simp: pool_finish_def first_finish_snoc fun_eq_iff pool_starts_length split: option.split)

lemma request_finish_snoc:
  "request_finish (es @ [FinishHTTP j now ob]) =
     (if j < requests_started es \<and> request_finish es j = None then (request_finish es)(j := Some ob) else request_finish es)"
  by (auto simp: request_finish_def requests_started_def first_finish_snoc fun_eq_iff split: option.split)

lemma unstarted:
  "\<not> i < length (pool_starts es) \<Longrightarrow> pool_finish es i = None"
  "\<not> i < requests_started es \<Longrightarrow> request_finish es i = None"
  using first_finish_less [of starts_pool finishes_pool 0 es i] first_finish_less [of starts_request finishes_request 0 es i]
  by (fastforce simp: pool_finish_def request_finish_def requests_started_def pool_starts_length)+

text \<open>How many of \<open>n\<close> started things were finished with \<open>P\<close>, and how many with \<open>P\<close> were not finished.\<close>

definition finished_with :: "(nat \<Rightarrow> 'a option) \<Rightarrow> nat \<Rightarrow> (nat \<Rightarrow> 'a \<Rightarrow> bool) \<Rightarrow> int" where
  "finished_with fin n P = int (length (filter (\<lambda>i. case fin i of None \<Rightarrow> False | Some x \<Rightarrow> P i x) [0 ..< n]))"

definition unfinished_with :: "(nat \<Rightarrow> 'a option) \<Rightarrow> nat \<Rightarrow> (nat \<Rightarrow> bool) \<Rightarrow> int" where
  "unfinished_with fin n P = int (length (filter (\<lambda>i. fin i = None \<and> P i) [0 ..< n]))"

lemma finished_with_new:
  assumes "fin' n = None" "\<And>i. i < n \<Longrightarrow> fin' i = fin i \<and> P' i = P i"
  shows "finished_with fin' (Suc n) P' = finished_with fin n P"
proof -
  have "filter (\<lambda>i. case fin' i of None \<Rightarrow> False | Some x \<Rightarrow> P' i x) [0 ..< n] =
      filter (\<lambda>i. case fin i of None \<Rightarrow> False | Some x \<Rightarrow> P i x) [0 ..< n]"
    using assms(2) by (intro filter_cong refl) (simp split: option.split)
  then show ?thesis using assms(1) by (simp add: finished_with_def)
qed

lemma unfinished_with_new:
  assumes "fin' n = None" "\<And>i. i < n \<Longrightarrow> fin' i = fin i \<and> P' i = P i"
  shows "unfinished_with fin' (Suc n) P' = unfinished_with fin n P + (if P' n then 1 else 0)"
proof -
  have "filter (\<lambda>i. fin' i = None \<and> P' i) [0 ..< n] = filter (\<lambda>i. fin i = None \<and> P i) [0 ..< n]"
    using assms(2) by (intro filter_cong) auto
  then show ?thesis using assms(1) by (simp add: unfinished_with_def)
qed

lemma finished_with_fire:
  assumes "j < n" "fin j = None"
  shows "finished_with (fin(j := Some x)) n P = finished_with fin n P + (if P j x then 1 else 0)"
    and "unfinished_with (fin(j := Some x)) n Q = unfinished_with fin n Q - (if Q j then 1 else 0)"
proof -
  let ?P = "\<lambda>f i. case f i of None \<Rightarrow> False | Some x \<Rightarrow> P i x" and ?Q = "\<lambda>f i. f i = None \<and> Q i"
  let ?f = "fin(j := Some x)"
  have "filter (?P ?f) [0 ..< n] = filter (?P fin) [0 ..< n]" if "\<not> P j x"
    using that assms(2) by (intro filter_cong) auto
  moreover have "length (filter (?P ?f) [0 ..< n]) = length (filter (?P fin) [0 ..< n]) + 1" if "P j x"
    using that assms by (intro filter_flip) auto
  ultimately show "finished_with ?f n P = finished_with fin n P + (if P j x then 1 else 0)"
    by (simp add: finished_with_def)
  have "filter (?Q ?f) [0 ..< n] = filter (?Q fin) [0 ..< n]" if "\<not> Q j"
    using that by (intro filter_cong) auto
  moreover have "length (filter (?Q fin) [0 ..< n]) = length (filter (?Q ?f) [0 ..< n]) + 1" if "Q j"
    using that assms by (intro filter_flip [of j]) auto
  ultimately show "unfinished_with ?f n Q = unfinished_with fin n Q - (if Q j then 1 else 0)"
    by (simp add: unfinished_with_def)
qed

section \<open>The log follows the run\<close>

text \<open>The completion functions are those of the started things, and have fired when a finish reached them.\<close>

definition handles_ok :: "metric_event list \<Rightarrow> metric_state \<Rightarrow> bool" where
  "handles_ok es s \<longleftrightarrow> map PDLabels (MPools s) = pool_starts es \<and> length (MRequests s) = requests_started es \<and>
     (\<forall>i < length (MPools s). PDFired (MPools s ! i) \<longleftrightarrow> pool_finish es i \<noteq> None) \<and>
     (\<forall>i < length (MRequests s). RDFired (MRequests s ! i) \<longleftrightarrow> request_finish es i \<noteq> None)"

definition log_ok :: "metric_event list \<Rightarrow> metric_log \<Rightarrow> bool" where
  "log_ok es calls \<longleftrightarrow>
     (\<forall>ls. metric_value calls PoolSelections ls = int (count_list (pool_starts es) ls)) \<and>
     (\<forall>ls. metric_value calls PoolInFlight ls =
        unfinished_with (pool_finish es) (length (pool_starts es)) (\<lambda>i. pool_starts es ! i = ls)) \<and>
     (\<forall>xs. metric_value calls UpstreamRequests xs =
        finished_with (pool_finish es) (length (pool_starts es)) (\<lambda>i status. pool_starts es ! i @ status_labels status = xs)) \<and>
     metric_value calls HTTPInFlight [] = unfinished_with (request_finish es) (requests_started es) (\<lambda>i. True) \<and>
     (\<forall>xs. metric_value calls HTTPRequests xs =
        finished_with (request_finish es) (requests_started es) (\<lambda>i ob. request_labels ob = xs)) \<and>
     (\<forall>xs. metric_value calls HTTPFailures xs = finished_with (request_finish es) (requests_started es)
        (\<lambda>i ob. last (request_labels ob) = ''error'' \<and> butlast (request_labels ob) = xs))"

lemma metric_run_snoc: "metric_run (es @ [e]) = metric_step (metric_run es) e"
  by (simp add: metric_run_def)

lemma log_run: "handles_ok es (metric_run es) \<and> log_ok es (MLog (metric_run es))"
proof (induction es rule: rev_induct)
  case Nil
  show ?case by (simp add: metric_run_def handles_ok_def log_ok_def requests_started_def finished_with_def unfinished_with_def)
next
  case (snoc e es)
  let ?s = "metric_run es" and ?n = "length (pool_starts es)"
  have h: "handles_ok es ?s" and l: "log_ok es (MLog ?s)" using snoc by simp_all
  have len: "length (MPools ?s) = ?n" using h by (metis handles_ok_def length_map)
  show ?case
  proof (cases e)
    case (StartHTTP now)
    have "request_finish (es @ [e]) (requests_started es) = None"
      by (simp add: StartHTTP finish_other unstarted)
    then show ?thesis using h l
      by (simp add: StartHTTP metric_run_snoc metric_step_def recordRequest_def handles_ok_def log_ok_def finish_other
          nth_append less_Suc_eq unstarted unfinished_with_new finished_with_new [where fin = "request_finish es"])
  next
    case (StartPool now ob)
    have "pool_finish (es @ [e]) ?n = None" by (simp add: StartPool finish_other unstarted)
    then show ?thesis using h l len
      by (simp add: StartPool metric_run_snoc metric_step_def recordPool_def Let_def handles_ok_def log_ok_def finish_other
          nth_append less_Suc_eq unstarted unfinished_with_new [where fin = "pool_finish es"]
          finished_with_new [where fin = "pool_finish es"])
  next
    case (FinishHTTP i now ob)
    show ?thesis
    proof (cases "i < requests_started es \<and> request_finish es i = None")
      case True
      then have d: "i < length (MRequests ?s)" "\<not> RDFired (MRequests ?s ! i)" using h by (simp_all add: handles_ok_def)
      note fired = finished_with_fire [of i "requests_started es" "request_finish es" ob]
      show ?thesis using h l True d
        by (auto simp: FinishHTTP metric_run_snoc metric_step_def request_done_call_def Let_def handles_ok_def log_ok_def
            finish_other request_finish_snoc fired nth_list_update result_error request_labels_eq)
    next
      case False
      then have "metric_step ?s e = ?s" using h
        by (auto simp: FinishHTTP metric_step_def request_done_call_def handles_ok_def)
      then show ?thesis using h l False
        by (auto simp: FinishHTTP metric_run_snoc handles_ok_def log_ok_def finish_other request_finish_snoc)
    qed
  next
    case (FinishPool i now status)
    show ?thesis
    proof (cases "i < ?n \<and> pool_finish es i = None")
      case True
      then have i: "i < length (MPools ?s)" using len by simp
      then have d: "\<not> PDFired (MPools ?s ! i)" "PDLabels (MPools ?s ! i) = pool_starts es ! i"
        using h True by (simp add: handles_ok_def) (use h i in \<open>metis handles_ok_def nth_map\<close>)
      note fired = finished_with_fire [of i ?n "pool_finish es" status]
      show ?thesis using h l True i d
        by (auto simp: FinishPool metric_run_snoc metric_step_def pool_done_call_def Let_def handles_ok_def log_ok_def
            finish_other pool_finish_snoc fired nth_list_update status_labels_eq map_update)
    next
      case False
      then have "metric_step ?s e = ?s" using h
        by (auto simp: FinishPool metric_step_def pool_done_call_def handles_ok_def len)
      then show ?thesis using h l False
        by (auto simp: FinishPool metric_run_snoc handles_ok_def log_ok_def finish_other pool_finish_snoc)
    qed
  next
    case (Connection ob cn)
    show ?thesis using h l
      by (simp add: Connection metric_run_snoc metric_step_def recordConnection_def Let_def handles_ok_def log_ok_def
          finish_other)
  qed
qed

text \<open>
  C34: What the metrics say after any sequence of started and finished requests, pool uses and connections, with
  finishes repeated, out of order or of things never started, is what the sequence says: for any labels the
  selection counter is the number of pool uses started with them, the in-flight gauge the number of these that were not
  finished since, and an upstream counter the number that were, counted once and under the status they were first
  finished with. The HTTP gauge is the number of unfinished requests; the request counter of a route, method,
  status and result the number first finished so, and the failure counter the number of those with a status of 400 or
  more.
\<close>

theorem metrics_balance:
  "metric_value (MLog (metric_run es)) PoolSelections ls = int (count_list (pool_starts es) ls) \<and>
   metric_value (MLog (metric_run es)) PoolInFlight ls =
     unfinished_with (pool_finish es) (length (pool_starts es)) (\<lambda>i. pool_starts es ! i = ls) \<and>
   metric_value (MLog (metric_run es)) UpstreamRequests xs =
     finished_with (pool_finish es) (length (pool_starts es)) (\<lambda>i status. pool_starts es ! i @ status_labels status = xs) \<and>
   metric_value (MLog (metric_run es)) HTTPInFlight [] =
     unfinished_with (request_finish es) (requests_started es) (\<lambda>i. True) \<and>
   metric_value (MLog (metric_run es)) HTTPRequests ys =
     finished_with (request_finish es) (requests_started es) (\<lambda>i ob. request_labels ob = ys) \<and>
   metric_value (MLog (metric_run es)) HTTPFailures [p, v, st] =
     finished_with (request_finish es) (requests_started es) (\<lambda>i ob. request_labels ob = [p, v, st, ''error''])"
proof -
  have "last xs = ''error'' \<and> butlast xs = [p, v, st] \<longleftrightarrow> xs = [p, v, st, ''error'']" if "xs = request_labels ob" for xs ob
    unfolding that request_labels_eq by auto
  then have "(\<lambda>i ob. last (request_labels ob) = ''error'' \<and> butlast (request_labels ob) = [p, v, st]) =
      (\<lambda>i :: nat. \<lambda>ob. request_labels ob = [p, v, st, ''error''])" by (simp add: fun_eq_iff)
  moreover have "log_ok es (MLog (metric_run es))" using log_run by blast
  ultimately show ?thesis by (simp add: log_ok_def)
qed

text \<open>
  Remark: No call to the Prometheus client panics: every call ever made names a registered metric, passes one
  value for each of its labels and uses the operation of its kind; the registered metrics have
  different full names, and the bounds of every histogram are strictly increasing.
\<close>

theorem metric_calls_fit_descriptions:
  "list_all call_ok (MLog (metric_run es)) \<and>
   distinct (map (\<lambda>(_, d). (MetricSubsystem d, MetricName d)) Metrics_NewRecorder) \<and>
   list_all (\<lambda>(_, d). distinct (MetricLabels d) \<and>
     (case MetricKind d of HistogramKind bs \<Rightarrow> sorted_wrt (<) bs | _ \<Rightarrow> True)) Metrics_NewRecorder"
proof -
  have "distinct (map (\<lambda>(_, d). (MetricSubsystem d, MetricName d)) Metrics_NewRecorder)" by code_simp
  moreover have "sorted_wrt (<) requestDurationBuckets" "sorted_wrt (<) connectionWaitDurationBuckets"
    by (simp_all add: requestDurationBuckets_def connectionWaitDurationBuckets_def)
  ultimately show ?thesis
    using metrics_inv_run [of es]
    by (simp add: metrics_inv_def Metrics_NewRecorder_def newRequestRecorder_def newPoolRecorder_def
        connectionDialDurationBuckets_def labelEvent_def labelService_def labelTier_def labelPool_def
        labelUpstream_def labelRoute_def labelMethod_def labelStatusCode_def labelResult_def)
qed

end
