(* ===== verification/Forward.thy ===== *)
theory Forward
  imports Coordinator Metrics
begin

text \<open>
  Package \<open>internal/pool\<close> (\<open>transfer.go\<close>, \<open>proxy.go\<close>): a request is sent to the upstream over a leased
  client, and the answer is written to the caller.

  What is not code of the repository is gathered in the record \<open>forward_env\<close>: the provider of the leases,
  \<open>url.Parse\<close>, \<open>http.Client.Do\<close> with the connection events it reports, \<open>httputil.ReverseProxy\<close> with the
  calls it makes to the hooks of \<open>buildReverseProxy\<close>, the response writer, and the clock. A header is a Go map
  from canonical keys to values. The steps of one call of \<open>Handle\<close> run without others in between; that
  leases of concurrent requests do not disturb each other is shown for the coordinator itself.
\<close>

section \<open>Headers and URLs (\<open>net/http\<close>, \<open>net/url\<close>)\<close>

type_synonym header = "(string, string list) gomap"

definition is_token_char :: "char \<Rightarrow> bool" where
  "is_token_char c \<longleftrightarrow> is_letter c \<or> is_digit c \<or> c \<in> set ''!#$%&*+-.^_`|~'' \<or> c = CHR 0x27"

text \<open>\<open>textproto.CanonicalMIMEHeaderKey\<close>: upper case after the start and after every hyphen.\<close>

fun canonical_chars :: "bool \<Rightarrow> string \<Rightarrow> string" where
  "canonical_chars upper [] = []"
| "canonical_chars upper (c # s) =
     (if upper then to_upper_char c else to_lower_char c) # canonical_chars (c = CHR ''-'') s"

definition canonical_key :: "string \<Rightarrow> string" where
  "canonical_key s = (if list_all is_token_char s then canonical_chars True s else s)"

definition header_values :: "header \<Rightarrow> string \<Rightarrow> string list" where
  "header_values h key = (case gomap_get h (canonical_key key) of None \<Rightarrow> [] | Some vs \<Rightarrow> vs)"

definition header_get :: "header \<Rightarrow> string \<Rightarrow> string" where
  "header_get h key = (case header_values h key of [] \<Rightarrow> [] | v # _ \<Rightarrow> v)"

definition header_set :: "string \<Rightarrow> string \<Rightarrow> header \<Rightarrow> header" where
  "header_set key v h = gomap_put (canonical_key key) [v] h"

definition header_add :: "string \<Rightarrow> string \<Rightarrow> header \<Rightarrow> header" where
  "header_add key v h = gomap_put (canonical_key key) (header_values h key @ [v]) h"

definition header_del :: "string \<Rightarrow> header \<Rightarrow> header" where
  "header_del key h = gomap_del (canonical_key key) h"

text \<open>The parts of a URL the code looks at, and the escaped path it passes on with the base.\<close>

record url =
  UScheme :: string
  UHost :: string
  UPath :: string
  URawPath :: string
  URawQuery :: string
  UFragment :: string

record http_request =
  HrMethod :: string
  HrURL :: "url option"
  HrHost :: string
  HrRequestURI :: string
  HrHeader :: header
  HrBody :: string
  HrRemoteAddr :: string
  HrTLS :: bool

text \<open>A body is the chunks its reads give, and whether the last read fails.\<close>

record http_response =
  RsStatusCode :: int
  RsHeader :: header
  RsChunks :: "string list"
  RsBroken :: bool

section \<open>The world outside\<close>

text \<open>The interface \<open>http.ResponseWriter\<close>, and \<open>Written\<close> of the writer of the web framework.\<close>

record 'w writer_ops =
  OpHeader :: "'w \<Rightarrow> header"
  OpSetHeader :: "header \<Rightarrow> 'w \<Rightarrow> 'w"
  OpWriteHeader :: "int \<Rightarrow> 'w \<Rightarrow> 'w"
  OpWrite :: "string \<Rightarrow> 'w \<Rightarrow> bool \<times> 'w"
  OpWritten :: "'w \<Rightarrow> bool"

record client_lease =
  LeaseClient :: "nat option"
  LeaseFinish :: "nat option"

text \<open>The events of \<open>httptrace\<close>; \<open>ConnectDone t failed\<close>, \<open>GotConn t reused wasIdle\<close>.\<close>

datatype trace_event = GetConn time | ConnectStart time | ConnectDone time bool | GotConn time bool bool

text \<open>
  What one call of \<open>ReverseProxy.ServeHTTP\<close> reports: its connection events, the status passed to
  \<open>ModifyResponse\<close>, the error passed to \<open>ErrorHandler\<close>, and a panic, where \<open>Some True\<close> is
  \<open>http.ErrAbortHandler\<close>.
\<close>

record proxy_run =
  PxTrace :: "trace_event list"
  PxStatus :: "int option"
  PxError :: "go_error option"
  PxPanic :: "bool option"

record ('s, 'w) forward_env =
  EnvAcquire :: "assignment \<Rightarrow> 's \<Rightarrow> client_lease result \<times> 's"
  EnvFinish :: "nat \<Rightarrow> 's \<Rightarrow> 's"
  EnvParse :: "string \<Rightarrow> url option"
  EnvDo :: "nat \<Rightarrow> http_request \<Rightarrow> trace_event list \<times> http_response result"
  EnvProxy :: "nat \<Rightarrow> http_request \<Rightarrow> 'w \<Rightarrow> proxy_run \<times> 'w"
  EnvOps :: "'w writer_ops"
  EnvStarted :: time
  EnvFinished :: time
  EnvRecorder :: bool

record ('s, 'w) forward_world =
  FwClients :: 's
  FwCalls :: metric_log
  FwWriter :: "'w option"

record forward_request =
  FrAddress :: string
  FrRequest :: "http_request option"
  FrAssignment :: assignment

datatype handle_result = Completed "go_error option" | Panicked

definition pool_error :: "string \<Rightarrow> go_error" where
  "pool_error msg = errorf [Pool_ErrInvalidConfig] msg"

text \<open>\<open>http.Error\<close>\<close>

definition http_error :: "'w writer_ops \<Rightarrow> string \<Rightarrow> int \<Rightarrow> 'w \<Rightarrow> 'w" where
  "http_error ops message code w =
     (let h = header_del ''Content-Length'' (OpHeader ops w);
          h = header_set ''Content-Type'' ''text/plain; charset=utf-8'' h;
          h = header_set ''X-Content-Type-Options'' ''nosniff'' h
      in snd (OpWrite ops (message @ [CHR 0x0A]) (OpWriteHeader ops code (OpSetHeader ops h w))))"

text \<open>\<open>io.Copy\<close> to the writer: empty reads write nothing.\<close>

fun copy_chunks :: "'w writer_ops \<Rightarrow> string list \<Rightarrow> bool \<Rightarrow> 'w \<Rightarrow> bool \<times> 'w" where
  "copy_chunks ops [] broken w = (\<not> broken, w)"
| "copy_chunks ops (c # cs) broken w =
     (if c = [] then copy_chunks ops cs broken w
      else (case OpWrite ops c w of (written, w) \<Rightarrow>
        if written then copy_chunks ops cs broken w else (False, w)))"

section \<open>Headers (\<open>transfer.go\<close>)\<close>

definition hopByHopHeaders :: "string list" where
  "hopByHopHeaders = [''Connection'', ''Keep-Alive'', ''Proxy-Authenticate'', ''Proxy-Authorization'',
     ''Te'', ''Trailer'', ''Transfer-Encoding'', ''Upgrade'']"

definition connection_fields :: "string list \<Rightarrow> string list" where
  "connection_fields values = filter (\<lambda>f. f \<noteq> []) (map trim_space (concat (map (split_on (CHR '','')) values)))"

definition removeHopByHopHeaders :: "header \<Rightarrow> header" where
  "removeHopByHopHeaders h =
     (let h' = foldl (\<lambda>h f. header_del f h) h (connection_fields (header_values h ''Connection''))
      in foldl (\<lambda>h key. header_del key h) h' hopByHopHeaders)"

definition copyHeader :: "header \<Rightarrow> header \<Rightarrow> header" where
  "copyHeader dst src = foldl (\<lambda>dst (key, values). foldl (\<lambda>dst v. header_add key v dst) dst values) dst src"

definition headerHasToken :: "header \<Rightarrow> string \<Rightarrow> string \<Rightarrow> bool" where
  "headerHasToken h key token \<longleftrightarrow>
     list_ex (\<lambda>v. list_ex (\<lambda>f. equal_fold (trim_space f) token) (split_on (CHR '','') v)) (header_values h key)"

definition isWebSocketRequest :: "http_request option \<Rightarrow> bool" where
  "isWebSocketRequest rq = (case rq of None \<Rightarrow> False
   | Some r \<Rightarrow> headerHasToken (HrHeader r) ''Connection'' ''upgrade'' \<and>
       equal_fold (trim_space (header_get (HrHeader r) ''Upgrade'')) ''websocket'')"

section \<open>The outgoing request\<close>

definition joinURLPath :: "string \<Rightarrow> string \<Rightarrow> string" where
  "joinURLPath basePath requestPath =
     (if basePath = [] then (if requestPath = [] then ''/'' else requestPath)
      else if requestPath = [] then basePath
      else if has_suffix basePath ''/'' \<and> has_prefix requestPath ''/'' then basePath @ drop 1 requestPath
      else if \<not> has_suffix basePath ''/'' \<and> \<not> has_prefix requestPath ''/'' then basePath @ ''/'' @ requestPath
      else basePath @ requestPath)"

definition upstreamURL :: "(string \<Rightarrow> url option) \<Rightarrow> string \<Rightarrow> url option \<Rightarrow> url result" where
  "upstreamURL parse host requestURL = (case parse (trim_space host) of
     None \<Rightarrow> Inl (errorf [Pool_ErrInvalidConfig, Ext] ''parse upstream host'')
   | Some base \<Rightarrow>
       if UScheme base = [] \<or> UHost base = [] then
         Inl (pool_error ''upstream host must include scheme and host'')
       else
         (let target = base;
              target = (case requestURL of None \<Rightarrow> target
                | Some u \<Rightarrow> target\<lparr>UPath := joinURLPath (UPath base) (UPath u), URawQuery := URawQuery u\<rparr>)
          in Inr (target\<lparr>UFragment := []\<rparr>)))"

definition upstreamRequest :: "url \<Rightarrow> http_request option \<Rightarrow> http_request result" where
  "upstreamRequest target rq = (case rq of
     None \<Rightarrow> Inl (pool_error ''request is nil'')
   | Some r \<Rightarrow> Inr (r\<lparr>HrURL := Some target, HrHost := UHost target, HrRequestURI := [],
       HrHeader := removeHopByHopHeaders (HrHeader r)\<rparr>))"

text \<open>
  \<open>Rewrite\<close> of \<open>buildReverseProxy\<close>: the new destination, and \<open>SetXForwarded\<close> on a header from which the
  proxy has removed the forwarding fields of the caller.
\<close>

definition proxy_rewrite :: "url \<Rightarrow> http_request \<Rightarrow> http_request" where
  "proxy_rewrite target r =
     (let h = foldl (\<lambda>h key. header_del key h) (HrHeader r)
            [''Forwarded'', ''X-Forwarded-For'', ''X-Forwarded-Host'', ''X-Forwarded-Proto''];
          h = (case split_host_port (HrRemoteAddr r) of Inl _ \<Rightarrow> h
             | Inr (clientIP, _) \<Rightarrow> header_set ''X-Forwarded-For'' clientIP h);
          h = header_set ''X-Forwarded-Host'' (HrHost r) h;
          h = header_set ''X-Forwarded-Proto'' (if HrTLS r then ''https'' else ''http'') h
      in r\<lparr>HrURL := Some target, HrHost := UHost target, HrRequestURI := [], HrHeader := h\<rparr>)"

section \<open>Connection events\<close>

record trace_state =
  TsGetConnAt :: time
  TsDialStartedAt :: time
  TsDialDuration :: duration
  TsDialed :: bool

definition trace_step :: "pool_observation \<Rightarrow> trace_state \<times> metric_log \<Rightarrow> trace_event \<Rightarrow> trace_state \<times> metric_log" where
  "trace_step observation st e = (case st of (t, calls) \<Rightarrow> (case e of
     GetConn now \<Rightarrow> (t\<lparr>TsGetConnAt := now\<rparr>, calls)
   | ConnectStart now \<Rightarrow> (t\<lparr>TsDialStartedAt := now\<rparr>, calls)
   | ConnectDone now failed \<Rightarrow>
       if failed \<or> time_is_zero (TsDialStartedAt t) then (t, calls)
       else (t\<lparr>TsDialDuration := time_sub now (TsDialStartedAt t), TsDialed := True\<rparr>, calls)
   | GotConn now reused wasIdle \<Rightarrow>
       (let waitDuration = (if time_is_zero (TsGetConnAt t) then 0 else time_sub now (TsGetConnAt t))
        in (t, recordConnection observation
             \<lparr>CnReused = reused, CnWasIdle = wasIdle, CnWaitDuration = waitDuration,
              CnDialed = TsDialed t, CnDialDuration = TsDialDuration t\<rparr> calls))))"

definition trace_calls :: "bool \<Rightarrow> pool_observation \<Rightarrow> trace_event list \<Rightarrow> metric_log \<Rightarrow> metric_log" where
  "trace_calls recording observation es calls =
     (if \<not> recording then calls
      else snd (foldl (trace_step observation)
        (\<lparr>TsGetConnAt = zero_time, TsDialStartedAt = zero_time, TsDialDuration = 0, TsDialed = False\<rparr>, calls) es))"

section \<open>\<open>Handle\<close>\<close>

definition finish_pool ::
  "time \<Rightarrow> int \<Rightarrow> pool_done option \<times> metric_log \<Rightarrow> pool_done option \<times> metric_log" where
  "finish_pool now statusCode p = (case p of
     (None, calls) \<Rightarrow> (None, calls)
   | (Some d, calls) \<Rightarrow> (case pool_done_call now statusCode d calls of (d, calls) \<Rightarrow> (Some d, calls)))"

definition forward_http ::
  "('s, 'w) forward_env \<Rightarrow> pool_observation \<Rightarrow> pool_done option \<Rightarrow> nat \<Rightarrow> http_request \<Rightarrow> 'w \<Rightarrow> metric_log \<Rightarrow>
   handle_result \<times> 'w \<times> metric_log" where
  "forward_http env observation donePool client outReq w calls =
     (let ops = EnvOps env;
          (events, outcome) = EnvDo env client outReq;
          calls = trace_calls (EnvRecorder env) observation events calls
      in case outcome of
        Inl e \<Rightarrow> (Completed (Some e), http_error ops ''Bad Gateway'' 502 w,
                  snd (finish_pool (EnvFinished env) 502 (donePool, calls)))
      | Inr response \<Rightarrow>
          (let calls = snd (finish_pool (EnvFinished env) (RsStatusCode response) (donePool, calls));
               h = removeHopByHopHeaders (copyHeader (OpHeader ops w) (RsHeader response));
               w = OpWriteHeader ops (RsStatusCode response) (OpSetHeader ops h w);
               (copied, w) = copy_chunks ops (RsChunks response) (RsBroken response) w
           in (Completed (if copied then None else Some (errorf [Ext] ''copy upstream response body'')), w, calls)))"

definition forward_websocket ::
  "('s, 'w) forward_env \<Rightarrow> pool_observation \<Rightarrow> pool_done option \<Rightarrow> nat \<Rightarrow> url \<Rightarrow> http_request \<Rightarrow> 'w \<Rightarrow> metric_log \<Rightarrow>
   handle_result \<times> 'w \<times> metric_log" where
  "forward_websocket env observation donePool client target r w calls =
     (let (px, w) = EnvProxy env client (proxy_rewrite target r) w;
          p = (donePool, trace_calls (EnvRecorder env) observation (PxTrace px) calls);
          p = (case PxStatus px of None \<Rightarrow> p | Some code \<Rightarrow> finish_pool (EnvFinished env) code p);
          p = (case PxError px of None \<Rightarrow> p | Some _ \<Rightarrow> finish_pool (EnvFinished env) 502 p);
          w = (case PxError px of None \<Rightarrow> w | Some _ \<Rightarrow> http_error (EnvOps env) ''Bad Gateway'' 502 w);
          result = (case PxPanic px of
              Some True \<Rightarrow> Completed (Some (errorf [Ext] ''copy upstream response body''))
            | Some False \<Rightarrow> Panicked
            | None \<Rightarrow> Completed (map_option (wrap_err [] ''proxy upstream request'') (PxError px)))
      in (result, w, snd p))"

text \<open>\<open>Handle\<close> once the lease is held.\<close>

definition handle_leased ::
  "('s, 'w) forward_env \<Rightarrow> client_lease \<Rightarrow> forward_request \<Rightarrow> 'w option \<Rightarrow> metric_log \<Rightarrow>
   handle_result \<times> 'w option \<times> metric_log" where
  "handle_leased env lease request writer calls =
     (case LeaseClient lease of
        None \<Rightarrow> (Completed (Some (pool_error ''http client is nil'')), writer, calls)
      | Some client \<Rightarrow> (case FrRequest request of
        None \<Rightarrow> (Completed (Some (pool_error ''request is nil'')), writer, calls)
      | Some r \<Rightarrow> (case writer of
        None \<Rightarrow> (Completed (Some (pool_error ''response writer is nil'')), writer, calls)
      | Some w \<Rightarrow> (case upstreamURL (EnvParse env) (FrAddress request) (HrURL r) of
        Inl e \<Rightarrow> (Completed (Some e), writer, calls)
      | Inr targetURL \<Rightarrow>
          (let a = FrAssignment request;
               observation = \<lparr>PoServiceName = AsServiceName a, PoTier = AsTier a, PoDedicated = AsDedicated a,
                 PoInstance = UHost targetURL\<rparr>;
               (donePool, calls) = (if EnvRecorder env
                 then (case recordPool (EnvStarted env) observation calls of (d, calls) \<Rightarrow> (Some d, calls))
                 else (None, calls));
               (result, w, calls) = (if isWebSocketRequest (Some r)
                 then forward_websocket env observation donePool client targetURL r w calls
                 else (case upstreamRequest targetURL (Some r) of
                   Inl e \<Rightarrow> (Completed (Some e), w, calls)
                 | Inr outReq \<Rightarrow> forward_http env observation donePool client outReq w calls))
           in (result, Some w, calls))))))"

definition Handle ::
  "('s, 'w) forward_env \<Rightarrow> forward_request \<Rightarrow> ('s, 'w) forward_world \<Rightarrow>
   handle_result \<times> ('s, 'w) forward_world" where
  "Handle env request world =
     (case EnvAcquire env (FrAssignment request) (FwClients world) of
        (Inl e, s) \<Rightarrow> (Completed (Some e), world\<lparr>FwClients := s\<rparr>)
      | (Inr lease, s) \<Rightarrow>
          (let (result, w, calls) = handle_leased env lease request (FwWriter world) (FwCalls world);
               s = (case LeaseFinish lease of None \<Rightarrow> s | Some c \<Rightarrow> EnvFinish env c s)
           in (result, \<lparr>FwClients = s, FwCalls = calls, FwWriter = w\<rparr>)))"

text \<open>The lease of the coordinator: its client and the release of the same client.\<close>

definition lease_of :: "nat result \<times> 's \<Rightarrow> client_lease result \<times> 's" where
  "lease_of p = (case p of (Inl e, s) \<Rightarrow> (Inl e, s)
   | (Inr c, s) \<Rightarrow> (Inr \<lparr>LeaseClient = Some c, LeaseFinish = Some c\<rparr>, s))"

section \<open>Hop-by-hop headers\<close>

lemma header_del_all:
  "gomap_get (foldl (\<lambda>h f. header_del f h) h fs) k = (if k \<in> canonical_key ` set fs then None else gomap_get h k)"
  by (induction fs arbitrary: h) (auto simp: header_del_def)

text \<open>A piece of a string between two separators, or between one and an end of the string.\<close>

definition piece_of :: "char \<Rightarrow> string \<Rightarrow> string \<Rightarrow> bool" where
  "piece_of c w s \<longleftrightarrow> c \<notin> set w \<and>
     (\<exists>pre post. s = pre @ w @ post \<and> (pre = [] \<or> last pre = c) \<and> (post = [] \<or> hd post = c))"

lemma piece_ofI:
  "c \<notin> set w \<Longrightarrow> pre = [] \<or> last pre = c \<Longrightarrow> post = [] \<or> hd post = c \<Longrightarrow> piece_of c w (pre @ w @ post)"
  unfolding piece_of_def by blast

lemma split_on_join: "split_on c (s @ c # t) = split_on c s @ split_on c t"
  by (induction s) (auto split: list.splits)

lemma split_on_piece: "w \<in> set (split_on c s) \<longleftrightarrow> piece_of c w s"
proof
  assume "piece_of c w s"
  then obtain pre post where w: "c \<notin> set w" and s: "s = pre @ w @ post" "pre = [] \<or> last pre = c" "post = [] \<or> hd post = c"
    by (auto simp: piece_of_def)
  have "w \<in> set (split_on c (w @ post))"
  proof (cases post)
    case Nil
    then show ?thesis using split_on_single [OF w] by simp
  next
    case (Cons x post')
    then show ?thesis using s(3) split_on_append [OF w, of post'] by simp
  qed
  then show "w \<in> set (split_on c s)"
  proof (cases "pre = []")
    case False
    then have "s = butlast pre @ c # w @ post" using s append_butlast_last_id [of pre] by (metis append.assoc append_Cons append_Nil)
    then show ?thesis using \<open>w \<in> set (split_on c (w @ post))\<close> split_on_join by simp
  qed (simp add: s)
next
  assume "w \<in> set (split_on c s)"
  then show "piece_of c w s"
  proof (induction s rule: length_induct)
    case (1 s)
    show ?case
    proof (cases "c \<in> set s")
      case False
      then show ?thesis using 1(2) split_on_single [OF False] piece_ofI [of c s "[]" "[]"] by simp
    next
      case True
      then obtain u t where s: "s = u @ c # t" "c \<notin> set u" using split_list_first by metis
      show ?thesis
      proof (cases "w = u")
        case True
        then show ?thesis using piece_ofI [of c u "[]" "c # t"] s by simp
      next
        case False
        then have "piece_of c w t" using 1 split_on_append [OF s(2), of t] by (simp add: s(1))
        then obtain pre post where "c \<notin> set w" "t = pre @ w @ post" "pre = [] \<or> last pre = c" "post = [] \<or> hd post = c"
          by (auto simp: piece_of_def)
        then show ?thesis using piece_ofI [of c w "u @ c # pre" post] by (auto simp: s(1))
      qed
    qed
  qed
qed

lemma connection_fields_pieces:
  "f \<in> set (connection_fields vs) \<longleftrightarrow> f \<noteq> [] \<and> (\<exists>v \<in> set vs. \<exists>w. piece_of (CHR '','') w v \<and> trim_space w = f)"
proof -
  have "connection_fields vs = filter (\<lambda>f. f \<noteq> []) (map trim_space (concat (map (split_on (CHR '','')) vs)))"
    by (rule connection_fields_def)
  moreover have "w \<in> set (concat (map (split_on (CHR '','')) vs)) \<longleftrightarrow> (\<exists>v \<in> set vs. piece_of (CHR '','') w v)" for w
    using split_on_piece by auto
  ultimately show ?thesis by (simp only: set_filter set_map mem_Collect_eq image_iff) blast
qed

text \<open>
  C33: \<open>removeHopByHopHeaders\<close> removes exactly the eight hop-by-hop headers and the headers that some
  \<open>Connection\<close> value names: a name is a piece of the value between two commas or the ends of the value, with
  the space around it removed, and is compared as header names are, without regard to case. Every other header
  keeps its values.
\<close>

theorem removeHopByHopHeaders_exact:
  "gomap_get (removeHopByHopHeaders h) key =
     (if key \<in> {''Connection'', ''Keep-Alive'', ''Proxy-Authenticate'', ''Proxy-Authorization'', ''Te'', ''Trailer'',
            ''Transfer-Encoding'', ''Upgrade''} \<or>
         (\<exists>v \<in> set (header_values h ''Connection''). \<exists>w. piece_of (CHR '','') w v \<and> trim_space w \<noteq> [] \<and>
            canonical_key (trim_space w) = key)
      then None else gomap_get h key)"
proof -
  have "canonical_key ` set hopByHopHeaders = {''Connection'', ''Keep-Alive'', ''Proxy-Authenticate'',
      ''Proxy-Authorization'', ''Te'', ''Trailer'', ''Transfer-Encoding'', ''Upgrade''}"
    by code_simp
  then have "gomap_get (removeHopByHopHeaders h) key =
      (if key \<in> {''Connection'', ''Keep-Alive'', ''Proxy-Authenticate'', ''Proxy-Authorization'', ''Te'', ''Trailer'',
            ''Transfer-Encoding'', ''Upgrade''} \<or> key \<in> canonical_key ` set (connection_fields (header_values h ''Connection''))
       then None else gomap_get h key)"
    by (auto simp: removeHopByHopHeaders_def header_del_all)
  moreover have "key \<in> canonical_key ` set (connection_fields (header_values h ''Connection'')) \<longleftrightarrow>
      (\<exists>v \<in> set (header_values h ''Connection''). \<exists>w. piece_of (CHR '','') w v \<and> trim_space w \<noteq> [] \<and>
        canonical_key (trim_space w) = key)"
    unfolding image_iff Bex_def connection_fields_pieces by blast
  ultimately show ?thesis by simp
qed

lemma header_values_add [simp]:
  "header_values (header_add key v h) k = header_values h k @ (if canonical_key k = canonical_key key then [v] else [])"
  by (simp add: header_values_def header_add_def split: option.split)

lemma header_values_add_all:
  "header_values (foldl (\<lambda>dst v. header_add key v dst) h vs) k =
     header_values h k @ (if canonical_key k = canonical_key key then vs else [])"
  by (induction vs arbitrary: h) auto

lemma copyHeader_values:
  "header_values (copyHeader dst src) k =
     header_values dst k @ concat (map snd (filter (\<lambda>(key, _). canonical_key key = canonical_key k) src))"
proof (induction src arbitrary: dst)
  case (Cons p src)
  obtain key vs where p: "p = (key, vs)" by fastforce
  have "copyHeader dst (p # src) = copyHeader (foldl (\<lambda>dst v. header_add key v dst) dst vs) src"
    by (simp add: copyHeader_def p)
  then show ?case using Cons by (auto simp: p header_values_add_all)
qed (simp add: copyHeader_def)

section \<open>Every pool use is finished once\<close>

definition proxy_reports :: "('s, 'w) forward_env \<Rightarrow> bool" where
  "proxy_reports env \<longleftrightarrow> (\<forall>c r w. PxStatus (fst (EnvProxy env c r w)) \<noteq> None \<or> PxError (fst (EnvProxy env c r w)) \<noteq> None)"

text \<open>The gauge, the selections without a result, and well-formed calls, seen together.\<close>

definition books :: "metric_log \<Rightarrow> string list \<Rightarrow> int \<times> int \<times> bool" where
  "books calls ls = (metric_value calls PoolInFlight ls,
     metric_value calls PoolSelections ls - tally (upstream_result_for ls) calls, list_all call_ok calls)"

lemma books_recordConnection: "books (recordConnection ob cn calls) ls = books calls ls"
  by (auto simp: books_def recordConnection_def Let_def upstream_result_for_def pool_labels_def)

lemma books_trace: "books (trace_calls recording ob es calls) ls = books calls ls"
proof -
  have "books (snd (foldl (trace_step ob) st es)) ls = books (snd st) ls" for st
  proof (induction es arbitrary: st)
    case (Cons e es)
    have "books (snd (trace_step ob st e)) ls = books (snd st) ls"
      by (auto simp: trace_step_def books_recordConnection Let_def split: prod.split trace_event.split)
    then show ?case using Cons by simp
  qed simp
  then show ?thesis by (simp add: trace_calls_def)
qed

lemma books_recordPool:
  assumes "recordPool now ob calls = (d, calls')"
  shows "PDLabels d = pool_labels ob" "\<not> PDFired d"
    "books calls' ls = (case books calls ls of (g, r, b) \<Rightarrow>
       (if pool_labels ob = ls then (g + 1, r + 1, b) else (g, r, b)))"
  using assms by (auto simp: recordPool_def Let_def books_def upstream_result_for_def pool_labels_def)

lemma books_done:
  assumes "pool_done_call now code d calls = (d', calls')" "length (PDLabels d) = 4"
  shows "PDFired d'" "PDLabels d' = PDLabels d"
    "PDFired d \<Longrightarrow> calls' = calls"
    "\<not> PDFired d \<Longrightarrow> books calls' ls = (case books calls ls of (g, r, b) \<Rightarrow>
       (if PDLabels d = ls then (g - 1, r - 1, b) else (g, r, b)))"
  using assms by (auto simp: pool_done_call_def Let_def books_def upstream_result_for_def split: if_splits)


text \<open>A pool use that was opened with some labels and is now closed.\<close>

definition close_books :: "pool_done option \<Rightarrow> string list \<Rightarrow> int \<times> int \<times> bool \<Rightarrow> int \<times> int \<times> bool" where
  "close_books dp ls b = (case dp of None \<Rightarrow> b
   | Some d \<Rightarrow> if PDFired d \<or> PDLabels d \<noteq> ls then b else (case b of (g, r, b) \<Rightarrow> (g - 1, r - 1, b)))"

definition done_fits :: "pool_done option \<Rightarrow> bool" where
  "done_fits dp \<longleftrightarrow> (case dp of None \<Rightarrow> True | Some d \<Rightarrow> length (PDLabels d) = 4)"

definition done_fired :: "pool_done option \<Rightarrow> bool" where
  "done_fired dp \<longleftrightarrow> (case dp of None \<Rightarrow> True | Some d \<Rightarrow> PDFired d)"

lemma finish_pool_books:
  assumes "finish_pool now code (dp, calls) = (dp', calls')" "done_fits dp"
  shows "books calls' ls = close_books dp ls (books calls ls)" "done_fired dp'" "done_fits dp'"
proof -
  have "books calls' ls = close_books dp ls (books calls ls) \<and> done_fired dp' \<and> done_fits dp'"
  proof (cases dp)
    case None
    then show ?thesis using assms by (simp add: finish_pool_def close_books_def done_fired_def done_fits_def)
  next
    case (Some d)
    obtain d' c' where dc: "pool_done_call now code d calls = (d', c')" by fastforce
    have len: "length (PDLabels d) = 4" using assms(2) Some by (simp add: done_fits_def)
    note facts = books_done [OF dc len]
    have "dp' = Some d'" "calls' = c'" using assms(1) Some dc by (simp_all add: finish_pool_def)
    then show ?thesis using facts Some len
      by (cases "PDFired d") (auto simp: close_books_def done_fired_def done_fits_def)
  qed
  then show "books calls' ls = close_books dp ls (books calls ls)" "done_fired dp'" "done_fits dp'" by auto
qed

lemma close_books_fired: "done_fired dp \<Longrightarrow> close_books dp ls b = b"
  by (auto simp: close_books_def done_fired_def split: option.splits)

lemma forward_http_books:
  assumes "forward_http env ob dp c out w calls = (res, w', calls')" "done_fits dp"
  shows "books calls' ls = close_books dp ls (books calls ls)"
proof -
  obtain es oc where d: "EnvDo env c out = (es, oc)" by fastforce
  let ?calls = "trace_calls (EnvRecorder env) ob es calls"
  obtain code where "calls' = snd (finish_pool (EnvFinished env) code (dp, ?calls))"
    using assms(1) d by (auto simp: forward_http_def Let_def split: sum.splits prod.splits)
  then show ?thesis
    using finish_pool_books(1) [OF prod.collapse [symmetric] assms(2), of "EnvFinished env" code ?calls ls]
    by (simp add: books_trace)
qed

lemma forward_websocket_books:
  assumes "forward_websocket env ob dp c target r w calls = (res, w', calls')" "done_fits dp" "proxy_reports env"
  shows "books calls' ls = close_books dp ls (books calls ls)"
proof -
  obtain px w1 where x: "EnvProxy env c (proxy_rewrite target r) w = (px, w1)" by fastforce
  let ?p0 = "(dp, trace_calls (EnvRecorder env) ob (PxTrace px) calls)"
  let ?p1 = "case PxStatus px of None \<Rightarrow> ?p0 | Some code \<Rightarrow> finish_pool (EnvFinished env) code ?p0"
  let ?p2 = "case PxError px of None \<Rightarrow> ?p1 | Some _ \<Rightarrow> finish_pool (EnvFinished env) 502 ?p1"
  have c: "calls' = snd ?p2" using assms(1) x by (simp add: forward_websocket_def Let_def)
  have rep: "PxStatus px \<noteq> None \<or> PxError px \<noteq> None"
    using assms(3) x by (metis proxy_reports_def fst_conv)
  have p0: "books (snd ?p0) ls = books calls ls" by (simp add: books_trace)
  show ?thesis
  proof (cases "PxStatus px")
    case None
    then obtain e where e: "PxError px = Some e" using rep by auto
    show ?thesis unfolding c
      using finish_pool_books(1) [OF prod.collapse [symmetric] assms(2), of "EnvFinished env" 502 "snd ?p0" ls] p0
      by (simp add: None e)
  next
    case (Some code)
    note one = finish_pool_books [OF prod.collapse [symmetric] assms(2), of "EnvFinished env" code "snd ?p0"]
    have two: "books (snd (finish_pool (EnvFinished env) 502 (finish_pool (EnvFinished env) code ?p0))) ls =
        books (snd (finish_pool (EnvFinished env) code ?p0)) ls"
      using finish_pool_books(1) [OF prod.collapse [symmetric] one(3), of "EnvFinished env" 502
          "snd (finish_pool (EnvFinished env) code ?p0)" ls] close_books_fired [OF one(2)]
      by simp
    show ?thesis unfolding c using one(1) [of ls] two p0 by (cases "PxError px") (simp_all add: Some)
  qed
qed

lemma handle_leased_books:
  assumes "handle_leased env lease rq wr calls = (res, wr', calls')" "proxy_reports env"
  shows "books calls' ls = books calls ls"
proof -
  consider "calls' = calls"
    | client r w target where "LeaseClient lease = Some client" "FrRequest rq = Some r" "wr = Some w"
        "upstreamURL (EnvParse env) (FrAddress rq) (HrURL r) = Inr target"
    using assms(1) by (auto simp: handle_leased_def split: option.splits sum.splits)
  then show ?thesis
  proof cases
    case 2
    define ob where "ob = \<lparr>PoServiceName = AsServiceName (FrAssignment rq), PoTier = AsTier (FrAssignment rq),
      PoDedicated = AsDedicated (FrAssignment rq), PoInstance = UHost target\<rparr>"
    obtain dp calls1 where open_pool: "(dp, calls1) = (if EnvRecorder env
                 then (case recordPool (EnvStarted env) ob calls of (d, calls) \<Rightarrow> (Some d, calls))
                 else (None, calls))" by (metis surj_pair)
    have b1: "close_books dp ls (books calls1 ls) = books calls ls" and fits: "done_fits dp"
    proof -
      have "close_books dp ls (books calls1 ls) = books calls ls \<and> done_fits dp"
      proof (cases "EnvRecorder env")
        case True
        obtain d c1 where rp: "recordPool (EnvStarted env) ob calls = (d, c1)" by fastforce
        then have "dp = Some d" "calls1 = c1" using open_pool True by simp_all
        moreover have "length (pool_labels ob) = 4" by (simp add: pool_labels_def)
        ultimately show ?thesis using books_recordPool [OF rp]
          by (cases "books calls ls") (auto simp: close_books_def done_fits_def)
      next
        case False
        then show ?thesis using open_pool by (simp add: close_books_def done_fits_def)
      qed
      then show "close_books dp ls (books calls1 ls) = books calls ls" "done_fits dp" by auto
    qed
    show ?thesis
    proof (cases "isWebSocketRequest (Some r)")
      case True
      obtain w' where "forward_websocket env ob dp client target r w calls1 = (res, w', calls')"
        using assms(1) 2 True open_pool [symmetric]
        by (auto simp: handle_leased_def ob_def [symmetric] Let_def split: prod.splits)
      from forward_websocket_books [OF this fits assms(2)] show ?thesis using b1 by simp
    next
      case False
      then obtain out where "upstreamRequest target (Some r) = Inr out" by (simp add: upstreamRequest_def)
      then obtain w' where "forward_http env ob dp client out w calls1 = (res, w', calls')"
        using assms(1) 2 False open_pool [symmetric]
        by (auto simp: handle_leased_def ob_def [symmetric] Let_def split: prod.splits)
      from forward_http_books [OF this fits] show ?thesis using b1 by simp
    qed
  qed simp
qed

context client_provider begin

lemma Handle_returns_lease:
  assumes "ok (FwClients world)" "EnvAcquire env = (\<lambda>a s. lease_of (acquire a s))" "EnvFinish env = finish"
    and "Handle env rq world = (res, world')"
  shows "ok (FwClients world') \<and> pending (FwClients world') = pending (FwClients world)"
proof (cases "acquire (FrAssignment rq) (FwClients world)")
  case (Pair r s)
  show ?thesis
  proof (cases r)
    case (Inl e)
    then have "s = FwClients world" using acquire_refuse [OF assms(1)] Pair by blast
    then show ?thesis using assms Pair Inl by (auto simp: Handle_def lease_of_def)
  next
    case (Inr c)
    then have "FwClients world' = finish c s"
      using assms Pair by (auto simp: Handle_def lease_of_def split: prod.splits)
    then show ?thesis using lease_and_finish [OF assms(1)] Pair Inr by simp
  qed
qed

end

lemma Handle_books:
  assumes "proxy_reports env"
  shows "books (FwCalls (snd (Handle env rq world))) ls = books (FwCalls world) ls"
  using handle_leased_books [OF _ assms] by (auto simp: Handle_def split: prod.splits sum.splits)

text \<open>
  Remark: \<open>Handle\<close> leaves no trace of a request behind, however it ends: refused lease, invalid request or
  address, upstream failure, broken body, WebSocket, panic. The lease is returned, so the wait group of every
  client is what it was; the in-flight gauge of every label combination is what it was; and every pool
  selection that was counted got exactly one upstream result. \<open>httputil.ReverseProxy\<close> is assumed to
  call \<open>ModifyResponse\<close> or \<open>ErrorHandler\<close> for every request.
\<close>

theorem Handle_balanced:
  assumes "coordinator_ok (FwClients world)" "proxy_reports env"
    and "EnvAcquire env = (\<lambda>a s. lease_of (acquire_loaded t settings a s))" "EnvFinish env = client_release"
    and "Handle env rq world = (res, world')"
  shows "coordinator_ok (FwClients world') \<and> pending_leases (FwClients world') = pending_leases (FwClients world) \<and>
    metric_value (FwCalls world') PoolInFlight ls = metric_value (FwCalls world) PoolInFlight ls \<and>
    metric_value (FwCalls world') PoolSelections ls - tally (upstream_result_for ls) (FwCalls world') =
      metric_value (FwCalls world) PoolSelections ls - tally (upstream_result_for ls) (FwCalls world)"
proof -
  have "books (FwCalls world') ls = books (FwCalls world) ls"
    using Handle_books [OF assms(2), of rq world ls] assms(5) by simp
  then show ?thesis using coordinator_leases.Handle_returns_lease [OF assms(1,3,4,5)] by (simp add: books_def)
qed


section \<open>The escaped path\<close>

text \<open>
  \<open>upstreamURL\<close> takes the decoded path of the request and drops its escaped form, so two requests whose
  paths differ only in an escaped slash reach the same upstream URL.
\<close>

lemma upstreamURL_drops_escaped_path:
  "upstreamURL parse host (Some (u\<lparr>URawPath := x\<rparr>)) = upstreamURL parse host (Some u)"
  by (simp add: upstreamURL_def split: option.split)

section \<open>A forwarded request\<close>

record mem_writer =
  MwHeader :: header
  MwStatus :: int
  MwBody :: string
  MwWritten :: bool

text \<open>A writer that keeps the status back until the first byte of the body, and the body in memory.\<close>

definition mem_ops :: "mem_writer writer_ops" where
  "mem_ops = \<lparr>OpHeader = MwHeader, OpSetHeader = (\<lambda>h w. w\<lparr>MwHeader := h\<rparr>),
     OpWriteHeader = (\<lambda>code w. if MwWritten w then w else w\<lparr>MwStatus := code\<rparr>),
     OpWrite = (\<lambda>s w. (True, w\<lparr>MwBody := MwBody w @ s, MwWritten := True\<rparr>)), OpWritten = MwWritten\<rparr>"

definition new_mem_writer :: mem_writer where
  "new_mem_writer = \<lparr>MwHeader = [], MwStatus = 404, MwBody = [], MwWritten = False\<rparr>"

definition sample_base :: url where
  "sample_base = \<lparr>UScheme = ''http'', UHost = ''10.0.0.1:8080'', UPath = [], URawPath = [], URawQuery = [], UFragment = []\<rparr>"

definition sample_http_request :: http_request where
  "sample_http_request = \<lparr>HrMethod = ''GET'', HrURL = Some (sample_base\<lparr>UScheme := [], UHost := [], UPath := ''/users'', URawQuery := ''q=1''\<rparr>),
     HrHost = ''gateway'', HrRequestURI = ''/users?q=1'',
     HrHeader = [(''Accept'', [''*/*'']), (''Connection'', [''close, x-hop'']), (''X-Hop'', [''1''])],
     HrBody = [], HrRemoteAddr = ''192.0.2.1:5000'', HrTLS = False\<rparr>"

definition sample_env :: "http_response result \<Rightarrow> (coordinator, mem_writer) forward_env" where
  "sample_env answer = \<lparr>
     EnvAcquire = (\<lambda>a s. lease_of (acquire_loaded sample_transport sample_calls a s)),
     EnvFinish = client_release,
     EnvParse = (\<lambda>s. if s = ''http://10.0.0.1:8080'' then Some sample_base else None),
     EnvDo = (\<lambda>c r. ([GetConn 1, GotConn 5 False False], answer)),
     EnvProxy = (\<lambda>c r w. (\<lparr>PxTrace = [], PxStatus = Some 101, PxError = None, PxPanic = None\<rparr>, w)),
     EnvOps = mem_ops, EnvStarted = 0, EnvFinished = 10, EnvRecorder = True\<rparr>"

definition sample_forward_request :: forward_request where
  "sample_forward_request = \<lparr>FrAddress = ''http://10.0.0.1:8080'', FrRequest = Some sample_http_request,
     FrAssignment = sample_assignment ''hot'' True\<rparr>"

definition sample_world :: "(coordinator, mem_writer) forward_world" where
  "sample_world = \<lparr>FwClients = sample_start, FwCalls = [], FwWriter = Some new_mem_writer\<rparr>"

definition sample_answer :: http_response where
  "sample_answer = \<lparr>RsStatusCode = 201, RsHeader = [(''Keep-Alive'', [''5'']), (''Etag'', [''a''])],
     RsChunks = [''o'', [], ''k''], RsBroken = False\<rparr>"

definition sample_handled :: "handle_result \<times> (coordinator, mem_writer) forward_world" where
  "sample_handled = Handle (sample_env (Inr sample_answer)) sample_forward_request sample_world"

lemma sample_outgoing_request:
  "upstreamRequest sample_base (Some sample_http_request) = Inr (sample_http_request\<lparr>HrURL := Some sample_base,
     HrHost := ''10.0.0.1:8080'', HrRequestURI := [], HrHeader := [(''Accept'', [''*/*''])]\<rparr>)"
  by code_simp

lemma sample_answer_written:
  "forward_http ((sample_env (Inr sample_answer))\<lparr>EnvRecorder := False\<rparr>) ob None c r new_mem_writer [] =
     (Completed None, \<lparr>MwHeader = [(''Etag'', [''a''])], MwStatus = 201, MwBody = ''ok'', MwWritten = True\<rparr>, [])"
  by code_simp

lemma NewCoordinator_ok: "NewCoordinator t g = Inr p \<Longrightarrow> coordinator_ok p"
  using clients_inv_start [of t g p] by (auto simp: coordinator_ok_def)

theorem Handle_balanced_witness:
  "coordinator_ok (FwClients (snd sample_handled)) \<and>
   pending_leases (FwClients (snd sample_handled)) = pending_leases (FwClients sample_world) \<and>
   metric_value (FwCalls (snd sample_handled)) PoolInFlight [''users'', ''hot'', ''dedicated'', ''10.0.0.1:8080''] =
     metric_value (FwCalls sample_world) PoolInFlight [''users'', ''hot'', ''dedicated'', ''10.0.0.1:8080''] \<and>
   metric_value (FwCalls (snd sample_handled)) PoolSelections [''users'', ''hot'', ''dedicated'', ''10.0.0.1:8080''] -
     tally (upstream_result_for [''users'', ''hot'', ''dedicated'', ''10.0.0.1:8080'']) (FwCalls (snd sample_handled)) =
   metric_value (FwCalls sample_world) PoolSelections [''users'', ''hot'', ''dedicated'', ''10.0.0.1:8080''] -
     tally (upstream_result_for [''users'', ''hot'', ''dedicated'', ''10.0.0.1:8080'']) (FwCalls sample_world)"
proof (rule Handle_balanced)
  have "NewCoordinator (Some sample_transport) sample_globals = Inr sample_start" by code_simp
  then show "coordinator_ok (FwClients sample_world)" using NewCoordinator_ok by (simp add: sample_world_def)
  show "proxy_reports (sample_env (Inr sample_answer))" by (simp add: proxy_reports_def sample_env_def)
  show "EnvAcquire (sample_env (Inr sample_answer)) = (\<lambda>a s. lease_of (acquire_loaded sample_transport sample_calls a s))"
    "EnvFinish (sample_env (Inr sample_answer)) = client_release" by (simp_all add: sample_env_def)
  show "Handle (sample_env (Inr sample_answer)) sample_forward_request sample_world = (fst sample_handled, snd sample_handled)"
    by (simp add: sample_handled_def)
qed

end
