(* ===== verification/Gateway.thy ===== *)
theory Gateway
  imports Decoder Health Forward
begin

text \<open>
  Packages \<open>internal/gateway\<close> and \<open>internal/trace\<close>: the tasks a request passes on its way (route, request
  id, authentication, authorisation, transfer) and the orchestrator that runs them.

  A task is a function of the request state and of the world \<open>'x\<close> (load balancer, traffic recorder, pools,
  response writer); it ends with an error or not, or with a panic. The interfaces of the tasks are function
  arguments, a nil interface is \<open>None\<close>. Log lines are left out.
\<close>

section \<open>State (\<open>model.go\<close>)\<close>

record request =
  RqID :: string
  RqServiceName :: string
  RqMethod :: string
  RqPath :: string
  RqAuthorization :: string
  RqHTTP :: "http_request option"

record gw_state =
  GsSettings :: "snapshot option"
  GsRequest :: request
  GsRoute :: "route_info option"
  GsClaims :: "claims option"

type_synonym 'x task = "gw_state \<Rightarrow> 'x \<Rightarrow> handle_result \<times> gw_state \<times> 'x"

definition gateway_error :: "string \<Rightarrow> go_error" where
  "gateway_error msg = errorf [Gateway_ErrInvalidRequest] msg"

definition fail :: "go_error \<Rightarrow> gw_state \<Rightarrow> 'x \<Rightarrow> handle_result \<times> gw_state \<times> 'x" where
  "fail e st x = (Completed (Some e), st, x)"

section \<open>The orchestrator (\<open>orchestrator.go\<close>)\<close>

fun run_tasks :: "'x task option list \<Rightarrow> 'x task" where
  "run_tasks [] st x = (Completed None, st, x)"
| "run_tasks (None # ts) st x = fail (errorf [Gateway_ErrNilTask] ''index'') st x"
| "run_tasks (Some t # ts) st x = (case t st x of (result, st, x) \<Rightarrow>
     (case result of
        Completed None \<Rightarrow> run_tasks ts st x
      | Completed (Some e) \<Rightarrow> fail (wrap_err [] ''run gateway task'' e) st x
      | Panicked \<Rightarrow> (Panicked, st, x)))"

definition initial_state :: "request \<Rightarrow> gw_state" where
  "initial_state rq = \<lparr>GsSettings = None,
     GsRequest = rq\<lparr>RqServiceName := trim_space (RqServiceName rq), RqMethod := trim_space (RqMethod rq),
       RqPath := trim_space (RqPath rq)\<rparr>,
     GsRoute = None, GsClaims = None\<rparr>"

definition Receive :: "'x task option list \<Rightarrow> request \<Rightarrow> 'x \<Rightarrow> handle_result \<times> 'x" where
  "Receive tasks rq x =
     (if trim_space (RqMethod rq) = [] then (Completed (Some (gateway_error ''method is required'')), x)
      else if trim_space (RqPath rq) = [] then (Completed (Some (gateway_error ''path is required'')), x)
      else (case run_tasks tasks (initial_state rq) x of (result, _, x) \<Rightarrow> (result, x)))"

section \<open>Routing (\<open>route.go\<close>)\<close>

definition RouteTask_Run ::
  "('x \<Rightarrow> snapshot option) option \<Rightarrow> (snapshot \<Rightarrow> string \<Rightarrow> string \<Rightarrow> route_info option) option \<Rightarrow>
   (snapshot \<Rightarrow> string \<Rightarrow> 'x \<Rightarrow> instance_settings result \<times> 'x) option \<Rightarrow> 'x task" where
  "RouteTask_Run settingsProvider route_for instanceSelector st x =
     (case settingsProvider of
        None \<Rightarrow> fail (gateway_error ''settings provider is required'') st x
      | Some settings \<Rightarrow> (case route_for of
        None \<Rightarrow> fail (gateway_error ''router is required'') st x
      | Some route_for \<Rightarrow> (case instanceSelector of
        None \<Rightarrow> fail (gateway_error ''instance selector is required'') st x
      | Some next_instance \<Rightarrow>
          (let st = st\<lparr>GsSettings := settings x\<rparr> in
           case GsSettings st of
             None \<Rightarrow> fail (errorf [Route_ErrConfigNotFound] ''settings snapshot is required'') st x
           | Some snap \<Rightarrow> (case route_for snap (RqMethod (GsRequest st)) (RqPath (GsRequest st)) of
             None \<Rightarrow> fail (errorf [Route_ErrConfigNotFound] ''route'') st x
           | Some routeInfo \<Rightarrow> (case next_instance snap (InfoService routeInfo) x of
             (Inl e, x) \<Rightarrow> fail (wrap_err [] ''select service instance'' e) st x
           | (Inr inst, x) \<Rightarrow>
               (let routeInfo = routeInfo\<lparr>InfoInstance := inst\<rparr> in
                (Completed None,
                 st\<lparr>GsRequest := (GsRequest st)\<lparr>RqServiceName := InfoService routeInfo\<rparr>,
                    GsRoute := Some routeInfo\<rparr>, x))))))))"

section \<open>Request ids (\<open>trace.go\<close>, \<open>internal/trace\<close>)\<close>

definition RequestIDHeader :: string where "RequestIDHeader = ''X-Request-ID''"
definition MaxRequestIDLength :: int where "MaxRequestIDLength = 128"

text \<open>The UUID function of a generator, \<open>None\<close> for the default \<open>uuid.NewRandom\<close>; its result is the printed id.\<close>

record generator =
  GenNewID :: "string result option"

definition Generate :: "string result \<Rightarrow> generator option \<Rightarrow> string \<Rightarrow> string result" where
  "Generate new_random gp service = (case gp of
     None \<Rightarrow> Inl (errorf [Trace_ErrNilGenerator] [])
   | Some g \<Rightarrow>
       (case (case GenNewID g of None \<Rightarrow> new_random | Some r \<Rightarrow> r) of
          Inl e \<Rightarrow> Inl (wrap_err [] ''generate uuid'' e)
        | Inr uid \<Rightarrow> (case NormalizeRequestID service MaxRequestIDLength of
            None \<Rightarrow> Inr uid
          | Some normalizedService \<Rightarrow>
              (let requestID = normalizedService @ ''-'' @ uid in
               if NormalizeRequestID requestID MaxRequestIDLength = None then Inr uid else Inr requestID))))"

definition find_request_id :: "request \<Rightarrow> string option" where
  "find_request_id rq = (case NormalizeRequestID (RqID rq) MaxRequestIDLength of
     Some requestID \<Rightarrow> Some requestID
   | None \<Rightarrow> (case RqHTTP rq of None \<Rightarrow> None
     | Some r \<Rightarrow> NormalizeRequestID (header_get (HrHeader r) RequestIDHeader) MaxRequestIDLength))"

text \<open>\<open>set_response_header\<close> sets a header of the response writer, if there is one.\<close>

definition TraceTask_Run ::
  "string result \<Rightarrow> (string \<Rightarrow> string \<Rightarrow> 'x \<Rightarrow> 'x) \<Rightarrow> generator option \<Rightarrow> 'x task" where
  "TraceTask_Run new_random set_response_header generator st x =
     (if generator = None then fail (errorf [Trace_ErrNilGenerator] ''trace generator'') st x
      else (case (case find_request_id (GsRequest st) of Some i \<Rightarrow> Inr i
                  | None \<Rightarrow> Generate new_random generator (RqServiceName (GsRequest st))) of
          Inl e \<Rightarrow> fail (wrap_err [] ''generate trace id'' e) st x
        | Inr requestID \<Rightarrow>
            (Completed None,
             st\<lparr>GsRequest := (GsRequest st)\<lparr>RqID := requestID,
                RqHTTP := map_option (\<lambda>r. r\<lparr>HrHeader := header_set RequestIDHeader requestID (HrHeader r)\<rparr>)
                  (RqHTTP (GsRequest st))\<rparr>\<rparr>,
             set_response_header RequestIDHeader requestID x)))"

section \<open>Authentication and authorisation (\<open>authenticate.go\<close>, \<open>authorize.go\<close>)\<close>

definition route_is_open :: "gw_state \<Rightarrow> bool" where
  "route_is_open st \<longleftrightarrow> (case GsRoute st of None \<Rightarrow> True | Some r \<Rightarrow> length (InfoRoles r) = 0)"

definition AuthenticateTask_Run ::
  "(snapshot option \<Rightarrow> string \<Rightarrow> string \<Rightarrow> claims result) option \<Rightarrow> 'x task" where
  "AuthenticateTask_Run decoder st x =
     (if route_is_open st then (Completed None, st, x)
      else if trim_space (RqAuthorization (GsRequest st)) = [] then
        fail (errorf [Auth_ErrInvalidAuthorizationHeader] ''authorization header is required'') st x
      else (case BearerTokenFor (RqAuthorization (GsRequest st)) of
        Inl e \<Rightarrow> fail (wrap_err [] ''extract bearer token'' e) st x
      | Inr token \<Rightarrow> (case decoder of
        None \<Rightarrow> fail (errorf [Gateway_ErrNilTokenDecoder] ''token decoder is required'') st x
      | Some decode \<Rightarrow> (case decode (GsSettings st) (RqServiceName (GsRequest st)) token of
        Inl e \<Rightarrow> fail (wrap_err [] ''decode bearer token'' e) st x
      | Inr claims \<Rightarrow> (Completed None, st\<lparr>GsClaims := Some claims\<rparr>, x)))))"

definition requestHostForLog :: "gw_state option \<Rightarrow> string" where
  "requestHostForLog sp = (case sp of None \<Rightarrow> []
   | Some st \<Rightarrow> (case RqHTTP (GsRequest st) of None \<Rightarrow> [] | Some r \<Rightarrow> trim_space (HrHost r)))"

definition upstreamHostForLog :: "gw_state option \<Rightarrow> string" where
  "upstreamHostForLog sp = (case sp of None \<Rightarrow> []
   | Some st \<Rightarrow> (case GsRoute st of None \<Rightarrow> []
     | Some r \<Rightarrow> (let inst = InfoInstance r in
         if trim_space (Port inst) = [] then trim_space (Host inst)
         else trim_space (Host inst) @ '':'' @ trim_space (Port inst))))"

definition checkRole :: "route_info \<Rightarrow> string list \<Rightarrow> bool" where
  "checkRole routeInfo roles \<longleftrightarrow>
     length (InfoRoles routeInfo) = 0 \<or>
     list_ex (\<lambda>role. list_ex (\<lambda>allowedRole. role = allowedRole) (InfoRoles routeInfo)) roles"

definition AuthorizeTask_Run :: "'x task" where
  "AuthorizeTask_Run st x =
     (case GsRoute st of
        None \<Rightarrow> (Completed None, st, x)
      | Some route \<Rightarrow>
          if length (InfoRoles route) = 0 then (Completed None, st, x)
          else (case GsClaims st of
            None \<Rightarrow> fail (errorf [Auth_ErrInvalidAuthorizationHeader] ''authorization header is required'') st x
          | Some claims \<Rightarrow>
              if \<not> checkRole route (ClaimRoles claims) then
                fail (gateway_error ''service does not allow the request'') st x
              else (Completed None, st, x)))"

section \<open>Transfer (\<open>transfer.go\<close>)\<close>

definition upstreamHost :: "string \<Rightarrow> string \<Rightarrow> string \<Rightarrow> string result" where
  "upstreamHost scheme host port =
     (let trimmedScheme = to_lower (trim_space scheme); trimmedHost = trim_space host;
          trimmedPort = trim_space port
      in if trimmedScheme = [] then Inl (gateway_error ''scheme is required'')
         else if trimmedScheme \<noteq> ''http'' \<and> trimmedScheme \<noteq> ''https'' then Inl (gateway_error ''scheme is invalid'')
         else if trimmedHost = [] then Inl (gateway_error ''host is required'')
         else if contains trimmedHost ''://'' \<or> contains_any trimmedHost ''/?#@'' then
           Inl (gateway_error ''host must not include scheme, path, query, or user info'')
         else if trimmedPort = [] then Inl (gateway_error ''port is required'')
         else (case atoi trimmedPort of
           None \<Rightarrow> Inl (errorf [Gateway_ErrInvalidRequest, Ext] ''parse port'')
         | Some parsedPort \<Rightarrow>
             if parsedPort \<le> 0 \<or> parsedPort > 65535 then Inl (gateway_error ''port is invalid'')
             else Inr (trimmedScheme @ ''://'' @ join_host_port trimmedHost (itoa parsedPort))))"

text \<open>
  The interfaces of the task: \<open>TrStart\<close>, \<open>TrDone\<close> and \<open>TrStatus\<close> of the traffic recorder, \<open>TrAssign\<close> of the
  pool provider and \<open>TrHandle\<close> of the forwarder.
\<close>

record 'x transfer_ops =
  TrRecorder :: bool
  TrStart :: "string \<Rightarrow> 'x \<Rightarrow> done_func \<times> 'x"
  TrDone :: "done_func \<Rightarrow> 'x \<Rightarrow> 'x"
  TrStatus :: "string \<Rightarrow> 'x \<Rightarrow> traffic_status result"
  TrAssign :: "snapshot option \<Rightarrow> traffic_status \<Rightarrow> 'x \<Rightarrow> assignment \<times> 'x"
  TrHandle :: "forward_request \<Rightarrow> 'x \<Rightarrow> handle_result \<times> 'x"

definition transfer_started :: "'x transfer_ops \<Rightarrow> string \<Rightarrow> gw_state \<Rightarrow> 'x \<Rightarrow> handle_result \<times> 'x" where
  "transfer_started ops host st x =
     (case TrStatus ops (RqServiceName (GsRequest st)) x of
        Inl e \<Rightarrow> (Completed (Some (wrap_err [] ''read pool status'' e)), x)
      | Inr status \<Rightarrow>
          (let (assignment, x) = TrAssign ops (GsSettings st) status x;
               (result, x) = TrHandle ops \<lparr>FrAddress = host, FrRequest = RqHTTP (GsRequest st),
                 FrAssignment = assignment\<rparr> x
           in (case result of
                 Completed (Some e) \<Rightarrow> Completed (Some (wrap_err [] ''handle upstream request'' e))
               | _ \<Rightarrow> result, x)))"

definition TransferTask_Run :: "'x transfer_ops \<Rightarrow> 'x task" where
  "TransferTask_Run ops st x =
     (if trim_space (RqServiceName (GsRequest st)) = [] then fail (gateway_error ''service-name is required'') st x
      else (case GsRoute st of
        None \<Rightarrow> fail (gateway_error ''route is required'') st x
      | Some route \<Rightarrow>
          (let inst = InfoInstance route in
           case upstreamHost (Scheme inst) (Host inst) (Port inst) of
             Inl e \<Rightarrow> fail e st x
           | Inr host \<Rightarrow>
               if \<not> TrRecorder ops then
                 fail (errorf [Gateway_ErrNilTrafficRecorder] ''traffic recorder is required'') st x
               else (let (doneFunc, x) = TrStart ops (RqServiceName (GsRequest st)) x;
                         (result, x) = transfer_started ops host st x
                     in (result, st, TrDone ops doneFunc x)))))"

section \<open>What a task does when it succeeds\<close>

lemma fail_simps [simp]: "fail e st x = (r, st', x') \<longleftrightarrow> r = Completed (Some e) \<and> st' = st \<and> x' = x"
  by (auto simp: fail_def)

lemma RouteTask_cases:
  assumes "RouteTask_Run sp rf sel st x = (r, st', x')"
  obtains (refused) e where "r = Completed (Some e)"
  | (routed) settings route_for next_instance snap info inst where
      "sp = Some settings" "rf = Some route_for" "sel = Some next_instance" "settings x = Some snap"
      "route_for snap (RqMethod (GsRequest st)) (RqPath (GsRequest st)) = Some info"
      "next_instance snap (InfoService info) x = (Inr inst, x')" "r = Completed None"
      "st' = st\<lparr>GsSettings := Some snap, GsRequest := (GsRequest st)\<lparr>RqServiceName := InfoService info\<rparr>,
         GsRoute := Some (info\<lparr>InfoInstance := inst\<rparr>)\<rparr>"
  using assms by (auto simp: RouteTask_Run_def Let_def split: option.splits sum.splits prod.splits)

lemma TraceTask_cases:
  assumes "TraceTask_Run nr srh g st x = (r, st', x')"
  obtains (refused) e where "r = Completed (Some e)"
  | (traced) i where "r = Completed None" "x' = srh RequestIDHeader i x" "GsSettings st' = GsSettings st"
      "GsRoute st' = GsRoute st" "GsClaims st' = GsClaims st"
      "GsRequest st' = (GsRequest st)\<lparr>RqID := i,
         RqHTTP := map_option (\<lambda>r. r\<lparr>HrHeader := header_set RequestIDHeader i (HrHeader r)\<rparr>) (RqHTTP (GsRequest st))\<rparr>"
  using assms by (auto simp: TraceTask_Run_def split: if_splits option.splits sum.splits)

lemma AuthenticateTask_cases:
  assumes "AuthenticateTask_Run dec st x = (r, st', x')"
  obtains (refused) e where "r = Completed (Some e)"
  | (not_needed) "r = Completed None" "st' = st" "x' = x" "route_is_open st"
  | (decoded) token decode c where "r = Completed None" "st' = st\<lparr>GsClaims := Some c\<rparr>" "x' = x"
      "BearerTokenFor (RqAuthorization (GsRequest st)) = Inr token" "dec = Some decode"
      "decode (GsSettings st) (RqServiceName (GsRequest st)) token = Inr c"
  using assms by (auto simp: AuthenticateTask_Run_def split: if_splits option.splits sum.splits)

lemma checkRole_iff: "checkRole r roles \<longleftrightarrow> InfoRoles r = [] \<or> set roles \<inter> set (InfoRoles r) \<noteq> {}"
  by (auto simp: checkRole_def list_ex_iff)

lemma AuthorizeTask_cases:
  assumes "AuthorizeTask_Run st x = (r, st', x')"
  obtains (refused) e where "r = Completed (Some e)"
  | (allowed_open) "r = Completed None" "st' = st" "x' = x" "route_is_open st"
  | (allowed) route c where "r = Completed None" "st' = st" "x' = x" "GsRoute st = Some route" "GsClaims st = Some c"
      "checkRole route (ClaimRoles c)"
  using assms by (auto simp: AuthorizeTask_Run_def route_is_open_def split: if_splits option.splits)

section \<open>Nothing is transferred without permission\<close>

text \<open>
  A request that may be transferred: it is routed on the active snapshot to an instance the load balancer
  chose, and when the route asks for roles, its bearer token was decoded for the service of the route and the
  claims have one of these roles.
\<close>

definition may_transfer ::
  "('x \<Rightarrow> snapshot option) \<Rightarrow> (snapshot \<Rightarrow> string \<Rightarrow> string \<Rightarrow> route_info option) \<Rightarrow>
   (snapshot \<Rightarrow> string \<Rightarrow> 'x \<Rightarrow> instance_settings result \<times> 'x) \<Rightarrow>
   (snapshot option \<Rightarrow> string \<Rightarrow> string \<Rightarrow> claims result) option \<Rightarrow> request \<Rightarrow> 'x \<Rightarrow> gw_state \<Rightarrow> bool" where
  "may_transfer settings route_for next_instance decoder rq x st \<longleftrightarrow>
     (\<exists>snap info inst. settings x = Some snap \<and> GsSettings st = Some snap \<and>
        route_for snap (trim_space (RqMethod rq)) (trim_space (RqPath rq)) = Some info \<and>
        fst (next_instance snap (InfoService info) x) = Inr inst \<and>
        GsRoute st = Some (info\<lparr>InfoInstance := inst\<rparr>) \<and> RqServiceName (GsRequest st) = InfoService info \<and>
        RqAuthorization (GsRequest st) = RqAuthorization rq \<and>
        (InfoRoles info = [] \<or> (\<exists>decode token c. decoder = Some decode \<and> BearerTokenFor (RqAuthorization rq) = Inr token \<and>
           decode (Some snap) (InfoService info) token = Inr c \<and> set (ClaimRoles c) \<inter> set (InfoRoles info) \<noteq> {})))"

lemma run_tasks_step:
  "t st x = (Completed None, st', x') \<Longrightarrow> run_tasks (Some t # ts) st x = run_tasks ts st' x'"
  by simp

text \<open>The tasks in the order in which \<open>main\<close> hands them to the orchestrator, the last one left open.\<close>

definition gateway_tasks where
  "gateway_tasks settings route_for next_instance new_random set_response_header generator decoder transfer =
     [Some (RouteTask_Run (Some settings) (Some route_for) (Some next_instance)),
      Some (TraceTask_Run new_random set_response_header generator),
      Some (AuthenticateTask_Run decoder),
      Some AuthorizeTask_Run,
      Some transfer]"

text \<open>From a routed request on, the two tasks of the access check let the transfer run or end with an error.\<close>

lemma access_check_tasks:
  assumes routed: "settings x = Some snap" "GsSettings st = Some snap"
      "route_for snap (trim_space (RqMethod rq)) (trim_space (RqPath rq)) = Some info"
      "fst (next_instance snap (InfoService info) x) = Inr inst" "GsRoute st = Some (info\<lparr>InfoInstance := inst\<rparr>)"
      "RqServiceName (GsRequest st) = InfoService info" "RqAuthorization (GsRequest st) = RqAuthorization rq"
  shows "(\<exists>e st' x'. \<forall>transfer. run_tasks [Some (AuthenticateTask_Run decoder), Some AuthorizeTask_Run, Some transfer] st x1 =
           (Completed (Some e), st', x')) \<or>
     (\<exists>st'. may_transfer settings route_for next_instance decoder rq x st' \<and>
        (\<forall>transfer. run_tasks [Some (AuthenticateTask_Run decoder), Some AuthorizeTask_Run, Some transfer] st x1 =
          run_tasks [Some transfer] st' x1))"
    (is "_ \<or> (\<exists>st'. ?ok st' \<and> _)")
proof -
  obtain r3 s3 x3 where t3: "AuthenticateTask_Run decoder st x1 = (r3, s3, x3)" using prod_cases3 by blast
  obtain r4 s4 x4 where t4: "AuthorizeTask_Run s3 x3 = (r4, s4, x4)" using prod_cases3 by blast
  from t3 show ?thesis
  proof (cases rule: AuthenticateTask_cases)
    case refused
    then show ?thesis using t3 by (auto simp: fail_def)
  next
    case not_needed
    then have open_route: "InfoRoles info = []" using routed(5) by (simp add: route_is_open_def)
    then have "AuthorizeTask_Run s3 x3 = (Completed None, st, x1)"
      using not_needed routed(5) by (simp add: AuthorizeTask_Run_def)
    moreover have "?ok st" using routed open_route by (auto simp: may_transfer_def)
    ultimately show ?thesis using t3 not_needed(1-3) by auto
  next
    case (decoded token decode c)
    from t4 show ?thesis
    proof (cases rule: AuthorizeTask_cases)
      case refused
      then show ?thesis using t3 t4 decoded(1) by (auto simp: fail_def)
    next
      case allowed_open
      then have "InfoRoles info = []" using decoded(2) routed(5) by (simp add: route_is_open_def)
      then have "?ok s4" using routed decoded(2) allowed_open(2) by (auto simp: may_transfer_def)
      then show ?thesis using t3 t4 decoded(1,3) allowed_open(1,3) by auto
    next
      case (allowed route c')
      then have "c' = c" "checkRole (info\<lparr>InfoInstance := inst\<rparr>) (ClaimRoles c)" using decoded(2) routed(5) by simp_all
      then have "?ok s4" using routed decoded(2,4-6) allowed(2) by (auto simp: may_transfer_def checkRole_iff)
      then show ?thesis using t3 t4 decoded(1,3) allowed(1,3) by auto
    qed
  qed
qed

lemma tasks_after_route:
  assumes routed: "settings x = Some snap" "GsSettings st = Some snap"
      "route_for snap (trim_space (RqMethod rq)) (trim_space (RqPath rq)) = Some info"
      "fst (next_instance snap (InfoService info) x) = Inr inst" "GsRoute st = Some (info\<lparr>InfoInstance := inst\<rparr>)"
      "RqServiceName (GsRequest st) = InfoService info" "RqAuthorization (GsRequest st) = RqAuthorization rq"
  shows "(\<exists>e st' x'. \<forall>transfer. run_tasks (Some (TraceTask_Run new_random set_response_header generator) #
           [Some (AuthenticateTask_Run decoder), Some AuthorizeTask_Run, Some transfer]) st x1 = (Completed (Some e), st', x')) \<or>
     (\<exists>st' x1'. may_transfer settings route_for next_instance decoder rq x st' \<and>
        (\<forall>transfer. run_tasks (Some (TraceTask_Run new_random set_response_header generator) #
           [Some (AuthenticateTask_Run decoder), Some AuthorizeTask_Run, Some transfer]) st x1 =
          run_tasks [Some transfer] st' x1'))"
proof -
  obtain r2 s2 x2 where t2: "TraceTask_Run new_random set_response_header generator st x1 = (r2, s2, x2)"
    using prod_cases3 by blast
  from t2 show ?thesis
  proof (cases rule: TraceTask_cases)
    case refused
    then show ?thesis using t2 by (auto simp: fail_def)
  next
    case (traced i)
    have "GsSettings s2 = Some snap" "GsRoute s2 = Some (info\<lparr>InfoInstance := inst\<rparr>)"
      "RqServiceName (GsRequest s2) = InfoService info" "RqAuthorization (GsRequest s2) = RqAuthorization rq"
      using routed traced(3-6) by simp_all
    from access_check_tasks [where settings = settings and route_for = route_for and next_instance = next_instance
          and x = x and rq = rq and decoder = decoder and ?x1.0 = x2, OF routed(1) this(1) routed(3,4) this(2-4)]
    show ?thesis unfolding run_tasks_step [of "TraceTask_Run new_random set_response_header generator",
      OF t2 [unfolded traced(1)]] by blast
  qed
qed

lemma tasks_before_transfer:
  "(\<exists>e st' x'. \<forall>transfer. run_tasks (gateway_tasks settings route_for next_instance
        new_random set_response_header generator decoder transfer) (initial_state rq) x = (Completed (Some e), st', x')) \<or>
   (\<exists>st x1. may_transfer settings route_for next_instance decoder rq x st \<and>
      (\<forall>transfer. run_tasks (gateway_tasks settings route_for next_instance
        new_random set_response_header generator decoder transfer) (initial_state rq) x = run_tasks [Some transfer] st x1))"
proof -
  let ?rt = "RouteTask_Run (Some settings) (Some route_for) (Some next_instance)"
  obtain r1 s1 x1 where t1: "?rt (initial_state rq) x = (r1, s1, x1)" using prod_cases3 by blast
  from t1 show ?thesis
  proof (cases rule: RouteTask_cases)
    case refused
    then show ?thesis using t1 by (auto simp: fail_def gateway_tasks_def)
  next
    case (routed settings' route_for' next_instance' snap info inst)
    then have s1: "settings x = Some snap" "GsSettings s1 = Some snap"
      "route_for snap (trim_space (RqMethod rq)) (trim_space (RqPath rq)) = Some info"
      "fst (next_instance snap (InfoService info) x) = Inr inst" "GsRoute s1 = Some (info\<lparr>InfoInstance := inst\<rparr>)"
      "RqServiceName (GsRequest s1) = InfoService info" "RqAuthorization (GsRequest s1) = RqAuthorization rq"
      by (simp_all add: initial_state_def)
    from tasks_after_route [where settings = settings and route_for = route_for and next_instance = next_instance
          and x = x and rq = rq and ?x1.0 = x1, OF s1]
    show ?thesis unfolding gateway_tasks_def run_tasks_step [of ?rt, OF t1 [unfolded routed(7)]] by blast
  qed
qed

lemma Receive_until_transfer:
  "(\<exists>e x'. \<forall>transfer. Receive (gateway_tasks settings route_for next_instance
        new_random set_response_header generator decoder transfer) rq x = (Completed (Some e), x')) \<or>
   (\<exists>st x1. may_transfer settings route_for next_instance decoder rq x st \<and>
      (\<forall>transfer. Receive (gateway_tasks settings route_for next_instance
        new_random set_response_header generator decoder transfer) rq x =
        (case run_tasks [Some transfer] st x1 of (result, _, x') \<Rightarrow> (result, x'))))"
proof (cases "trim_space (RqMethod rq) = [] \<or> trim_space (RqPath rq) = []")
  case True
  then show ?thesis
    by (intro disjI1 exI [of _ "if trim_space (RqMethod rq) = [] then gateway_error ''method is required''
          else gateway_error ''path is required''"] exI [of _ x]) (auto simp add: Receive_def)
next
  case False
  let ?tasks = "gateway_tasks settings route_for next_instance new_random set_response_header generator decoder"
  from tasks_before_transfer [of settings route_for next_instance new_random set_response_header generator decoder rq x]
  show ?thesis
  proof (elim disjE exE conjE)
    fix e st' x' assume "\<forall>transfer. run_tasks (?tasks transfer) (initial_state rq) x = (Completed (Some e), st', x')"
    then show ?thesis using False by (intro disjI1 exI [of _ e] exI [of _ x']) (simp add: Receive_def del: run_tasks.simps)
  next
    fix st x1 assume "may_transfer settings route_for next_instance decoder rq x st"
      "\<forall>transfer. run_tasks (?tasks transfer) (initial_state rq) x = run_tasks [Some transfer] st x1"
    then show ?thesis
      using False by (intro disjI2 exI [of _ st] exI [of _ x1]) (simp add: Receive_def del: run_tasks.simps)
  qed
qed

text \<open>
  What the route task relies on: the router finds an endpoint that serves the request, and the selector
  an instance that can be used, both on a good snapshot. Then these are what the transfer task gets.
\<close>

locale gateway_routing =
  fixes route_for :: "snapshot \<Rightarrow> string \<Rightarrow> string \<Rightarrow> route_info option"
    and next_instance :: "snapshot \<Rightarrow> string \<Rightarrow> 'x \<Rightarrow> instance_settings result \<times> 'x"
    and good :: "snapshot \<Rightarrow> bool"
    and serving :: "snapshot \<Rightarrow> string \<Rightarrow> string \<Rightarrow> route_info \<Rightarrow> bool"
    and usable :: "snapshot \<Rightarrow> string \<Rightarrow> 'x \<Rightarrow> instance_settings \<Rightarrow> bool"
  assumes found: "good c \<Longrightarrow> route_for c mth path = Some info \<Longrightarrow> serving c mth path info"
    and selected: "good c \<Longrightarrow> next_instance c name x = (Inr inst, x') \<Longrightarrow> usable c name x inst"
begin

lemma transfer_target:
  assumes "may_transfer settings route_for next_instance decoder rq x st" "settings x = Some c" "good c"
  shows "\<exists>info inst. GsRoute st = Some (info\<lparr>InfoInstance := inst\<rparr>) \<and>
    serving c (trim_space (RqMethod rq)) (trim_space (RqPath rq)) info \<and> usable c (InfoService info) x inst"
proof -
  obtain info inst where i: "route_for c (trim_space (RqMethod rq)) (trim_space (RqPath rq)) = Some info"
      "fst (next_instance c (InfoService info) x) = Inr inst" "GsRoute st = Some (info\<lparr>InfoInstance := inst\<rparr>)"
    using assms(1,2) by (auto simp: may_transfer_def)
  then have "next_instance c (InfoService info) x = (Inr inst, snd (next_instance c (InfoService info) x))"
    by (simp add: prod_eq_iff)
  then show ?thesis using found [OF assms(3) i(1)] selected [OF assms(3)] i(3) by blast
qed

end

text \<open>
  C2: With the tasks in the order of \<open>main\<close>, the transfer task, whatever it does, either runs on a request
  that may be transferred and decides the outcome alone, or it does not run at all and the request ends with an error.
  So no request reaches an upstream unless it is routed by the active snapshot and, for a route with
  roles, carries a token of this service with one of the roles.
\<close>

theorem transfer_only_when_allowed:
  "(\<exists>e x'. \<forall>transfer. Receive (gateway_tasks settings route_for next_instance
        new_random set_response_header generator decoder transfer) rq x = (Completed (Some e), x')) \<or>
   (\<exists>st x1. may_transfer settings route_for next_instance decoder rq x st \<and>
      (\<forall>transfer. Receive (gateway_tasks settings route_for next_instance
        new_random set_response_header generator decoder transfer) rq x =
        (case run_tasks [Some transfer] st x1 of (result, _, x') \<Rightarrow> (result, x'))))"
  by (rule Receive_until_transfer)

section \<open>A registered instance can be addressed\<close>

text \<open>
  Remark: The address the registration accepts is one the transfer task accepts, and the
  task dials exactly the registered scheme, host and port: for a host without brackets, whatever
  \<open>normalizeInstanceSettings\<close> stores makes \<open>upstreamHost\<close> succeed.
\<close>

theorem registered_address_is_reachable:
  assumes "normalizeInstanceSettings name i = Inr j" "CHR ''['' \<notin> set (Host i)" "CHR '']'' \<notin> set (Host i)"
  shows "upstreamHost (Scheme j) (Host j) (Port j) =
    Inr (Scheme j @ ''://'' @ join_host_port (to_lower (trim_space (Host i))) (Port j))"
proof -
  obtain h p where hp: "NormalizeHostPort (Host i) (Port i) = Inr (h, p)" "Host j = h" "Port j = p"
    and scheme: "Scheme j = ''http'' \<or> Scheme j = ''https''"
    using assms(1) by (auto simp: normalizeInstanceSettings_def Let_def split: if_splits sum.splits)
  obtain q where q: "host_ok (Host i)" "port_ok (Port i) q"
    using NormalizeHostPort_Inr_ok [OF hp(1)] by blast
  have h: "h = to_lower (trim_space (Host i))" "p = itoa q"
    using NormalizeHostPort_plain [OF q assms(2,3)] hp(1) by simp_all
  have "to_lower (trim_space (Scheme j)) = Scheme j" using scheme by (elim disjE) (simp_all, code_simp+)
  moreover have "host_ok h" using host_ok_to_lower [OF q(1)] h by simp
  moreover have "trim_space h = h" by (simp add: h)
  moreover have "port_ok p q" using q(2) h port_ok_itoa [of q] by (simp add: port_ok_def)
  moreover have "trim_space p = p" using h q(2) trim_space_digits nat_digits_digits
    by (auto simp: itoa_def list_all_iff port_ok_def)
  ultimately show ?thesis using scheme hp(2,3) h
    by (auto simp: upstreamHost_def host_ok_def port_ok_def Let_def)
qed

theorem registered_address_is_reachable_witness:
  "upstreamHost ''http'' ''127.0.0.1'' ''8080'' = Inr (''http'' @ ''://'' @ join_host_port (to_lower (trim_space '' 127.0.0.1'')) ''8080'')"
proof -
  have "normalizeInstanceSettings ''orders'' \<lparr>Scheme = '' HTTP'', Host = '' 127.0.0.1'', Port = ''08080'', HealthKey = []\<rparr> =
    Inr \<lparr>Scheme = ''http'', Host = ''127.0.0.1'', Port = ''8080'', HealthKey = healthKeyFor ''orders'' ''http'' ''127.0.0.1'' ''8080''\<rparr>"
    by code_simp
  from registered_address_is_reachable [OF this] show ?thesis by simp
qed

text \<open>
  The brackets matter: \<open>net.SplitHostPort\<close> strips them, so the host \<open>[]\<close> is accepted by the registration and
  stored as the empty host, which the transfer task then refuses on every request.
\<close>

lemma bracket_host_unreachable:
  "(case normalizeInstanceSettings ''orders'' \<lparr>Scheme = ''http'', Host = ''[]'', Port = ''80'', HealthKey = []\<rparr> of
      Inr j \<Rightarrow> Host j = [] \<and> upstreamHost (Scheme j) (Host j) (Port j) = Inl (gateway_error ''host is required'')
    | Inl _ \<Rightarrow> False)"
  by code_simp

section \<open>Request ids\<close>

lemma find_request_id_valid:
  "find_request_id rq = Some i \<Longrightarrow> i \<noteq> [] \<and> length i \<le> 128 \<and> \<not> contains_any i [CHR 0x0D, CHR 0x0A]"
  using NormalizeRequestID_SomeD [of _ 128 i]
  by (auto simp: find_request_id_def MaxRequestIDLength_def split: option.splits)

text \<open>
  Remark: After the trace task the request has one id: the same in the state, as the only value of the
  header of the forwarded request, and in the header of the response. It is the id the client sent, when that is
  usable (not blank, at most 128 bytes, no line break), else one of the generator.
\<close>

theorem request_id_is_propagated:
  assumes "TraceTask_Run new_random set_response_header generator st x = (Completed None, st', x')"
  shows "x' = set_response_header RequestIDHeader (RqID (GsRequest st')) x \<and>
    map_option (\<lambda>r. header_values (HrHeader r) RequestIDHeader) (RqHTTP (GsRequest st')) =
      map_option (\<lambda>_. [RqID (GsRequest st')]) (RqHTTP (GsRequest st)) \<and>
    (case find_request_id (GsRequest st) of
       None \<Rightarrow> Generate new_random generator (RqServiceName (GsRequest st)) = Inr (RqID (GsRequest st'))
     | Some i \<Rightarrow> RqID (GsRequest st') = i \<and> i \<noteq> [] \<and> length i \<le> 128 \<and> \<not> contains_any i [CHR 0x0D, CHR 0x0A])"
  using assms find_request_id_valid [of "GsRequest st"]
  by (auto simp: TraceTask_Run_def fail_def header_values_def header_set_def option.map_comp o_def
      split: if_splits option.splits sum.splits)

definition sample_request :: request where
  "sample_request = \<lparr>RqID = '' r-17 '', RqServiceName = [], RqMethod = ''GET'', RqPath = ''/orders'',
     RqAuthorization = [], RqHTTP = None\<rparr>"

theorem request_id_is_propagated_witness:
  "snd (snd (TraceTask_Run (Inl (errorf [] [])) (\<lambda>_ i _. i) (Some \<lparr>GenNewID = None\<rparr>) (initial_state sample_request) [])) = ''r-17''"
proof -
  let ?run = "TraceTask_Run (Inl (errorf [] [])) (\<lambda>_ i _. i) (Some \<lparr>GenNewID = None\<rparr>) (initial_state sample_request) []"
  have id: "find_request_id (GsRequest (initial_state sample_request)) = Some ''r-17''" by code_simp
  have "fst ?run = Completed None" by code_simp
  then have "?run = (Completed None, fst (snd ?run), snd (snd ?run))" by (simp add: prod_eq_iff)
  from request_id_is_propagated [OF this] id show ?thesis by simp
qed

end
