(* ===== verification/GatewayApi.thy ===== *)
theory GatewayApi
  imports Gateway
begin

text \<open>
  Package \<open>api/gateway\<close> with the response type of \<open>api/response\<close>: the entry point for all requests that match no
  other route of the web server, and the mapping of errors to status codes.

  The web framework is a parameter: \<open>ApWritten\<close> is \<open>ctx.Writer.Written()\<close>, and \<open>ApJSON\<close> is \<open>ctx.JSON\<close>, or
  \<open>ctx.AbortWithStatusJSON\<close> when its first argument is true.
\<close>

section \<open>Responses (\<open>api/response/model.go\<close>, \<open>model.go\<close>)\<close>

record receive_response =
  ReReceived :: bool
  ReMethod :: string
  RePath :: string

text \<open>The values the handlers put into the field \<open>Data\<close>.\<close>

datatype api_data = NoData | ReceiveData receive_response | SettingsData service_settings

record api_response =
  ArSuccess :: bool
  ArMessage :: string
  ArData :: api_data

record 'x api_ops =
  ApWritten :: "'x \<Rightarrow> bool"
  ApJSON :: "bool \<Rightarrow> int \<Rightarrow> api_response \<Rightarrow> 'x \<Rightarrow> 'x"

definition responseReceiveSuccess :: string where "responseReceiveSuccess = ''gateway traffic received''"
definition responseReceiveFailed :: string where "responseReceiveFailed = ''gateway traffic receive failed''"
definition responseUnauthorized :: string where "responseUnauthorized = ''unauthorized''"
definition responseNotFound :: string where "responseNotFound = ''not found''"
definition ConfigApplyRoute :: string where "ConfigApplyRoute = ''/api/config''"

section \<open>The handler (\<open>handler.go\<close>)\<close>

definition receiveFailure :: "go_error \<Rightarrow> int \<times> string" where
  "receiveFailure e =
     (if errors_is e Gateway_ErrInvalidRequest then (400, responseReceiveFailed)
      else if errors_is e Route_ErrInvalidConfig then (400, responseReceiveFailed)
      else if errors_is e Route_ErrConfigNotFound then (400, responseReceiveFailed)
      else if errors_is e Route_ErrNoHealthyInstance then (503, responseReceiveFailed)
      else if errors_is e Auth_ErrInvalidAuthorizationHeader then (401, responseUnauthorized)
      else if errors_is e Auth_ErrInvalidAudience then (401, responseUnauthorized)
      else if errors_is e Auth_ErrInvalidIssuer then (401, responseUnauthorized)
      else if errors_is e Auth_ErrInvalidSignature then (401, responseUnauthorized)
      else if errors_is e Auth_ErrInvalidToken then (401, responseUnauthorized)
      else if errors_is e Auth_ErrTokenExpired then (401, responseUnauthorized)
      else if errors_is e Auth_ErrTokenNotYetValid then (401, responseUnauthorized)
      else if errors_is e Auth_ErrUnsupportedAlgorithm then (401, responseUnauthorized)
      else if errors_is e AuthConfig_ErrKeyNotFound then (401, responseUnauthorized)
      else (500, responseReceiveFailed))"

text \<open>The request handed to the orchestrator.\<close>

definition gateway_request :: "http_request \<Rightarrow> string \<Rightarrow> request" where
  "gateway_request r requestPath = \<lparr>RqID = [], RqServiceName = [], RqMethod = HrMethod r, RqPath = requestPath,
     RqAuthorization = header_get (HrHeader r) ''Authorization'', RqHTTP = Some r\<rparr>"

text \<open>
  \<open>Receive\<close>, given the \<open>Receive\<close> of the orchestrator; the first component is true when it panics, as it does
  on a request without a URL.
\<close>

definition Handler_Receive ::
  "'x api_ops \<Rightarrow> (request \<Rightarrow> 'x \<Rightarrow> handle_result \<times> 'x) \<Rightarrow> http_request \<Rightarrow> 'x \<Rightarrow> bool \<times> 'x" where
  "Handler_Receive api orchestrator r x =
     (case HrURL r of
        None \<Rightarrow> (True, x)
      | Some u \<Rightarrow>
          (let requestPath = UPath u in
           if requestPath = ConfigApplyRoute then
             (False, ApJSON api True 404 \<lparr>ArSuccess = False, ArMessage = responseNotFound, ArData = NoData\<rparr> x)
           else (case orchestrator (gateway_request r requestPath) x of
             (Panicked, x) \<Rightarrow> (True, x)
           | (Completed (Some e), x) \<Rightarrow>
               if ApWritten api x then (False, x)
               else (let (statusCode, message) = receiveFailure e
                     in (False, ApJSON api True statusCode
                           \<lparr>ArSuccess = False, ArMessage = message, ArData = NoData\<rparr> x))
           | (Completed None, x) \<Rightarrow>
               if ApWritten api x then (False, x)
               else (False, ApJSON api False 200
                 \<lparr>ArSuccess = True, ArMessage = responseReceiveSuccess,
                  ArData = ReceiveData \<lparr>ReReceived = True, ReMethod = HrMethod r, RePath = requestPath\<rparr>\<rparr> x))))"

section \<open>Which errors give 401\<close>

definition unauthorized_sentinels :: "sentinel list" where
  "unauthorized_sentinels = [Auth_ErrInvalidAuthorizationHeader, Auth_ErrInvalidAudience, Auth_ErrInvalidIssuer,
     Auth_ErrInvalidSignature, Auth_ErrInvalidToken, Auth_ErrTokenExpired, Auth_ErrTokenNotYetValid,
     Auth_ErrUnsupportedAlgorithm, AuthConfig_ErrKeyNotFound]"

definition earlier_sentinels :: "sentinel list" where
  "earlier_sentinels = [Gateway_ErrInvalidRequest, Route_ErrInvalidConfig, Route_ErrConfigNotFound, Route_ErrNoHealthyInstance]"

definition unauthorized :: "go_error \<Rightarrow> bool" where
  "unauthorized e \<longleftrightarrow> list_ex (errors_is e) unauthorized_sentinels \<and> \<not> list_ex (errors_is e) earlier_sentinels"

lemma receiveFailure_unauthorized: "unauthorized e \<Longrightarrow> receiveFailure e = (401, responseUnauthorized)"
  by (auto simp: unauthorized_def unauthorized_sentinels_def earlier_sentinels_def receiveFailure_def)

lemma unauthorized_wrap [simp]: "unauthorized (wrap_err [] msg e) = unauthorized e"
  by (simp add: unauthorized_def unauthorized_sentinels_def earlier_sentinels_def)

lemma unauthorized_errorf [simp]:
  "unauthorized (errorf ws msg) \<longleftrightarrow> set ws \<inter> set unauthorized_sentinels \<noteq> {} \<and> set ws \<inter> set earlier_sentinels = {}"
  by (auto simp: unauthorized_def list_ex_iff)

lemma unauthorized_singles [simp]:
  "s \<in> set unauthorized_sentinels \<Longrightarrow> unauthorized (errorf [s] msg)"
  "s \<in> set unauthorized_sentinels \<Longrightarrow> unauthorized (errorf [s, Ext] msg)"
  by (auto simp: unauthorized_sentinels_def earlier_sentinels_def)

named_theorems refusals "the errors of the token checks are of the kinds that give 401"

lemma BearerTokenFor_refusal [refusals]: "BearerTokenFor h = Inl e \<Longrightarrow> unauthorized e"
  by (auto simp: BearerTokenFor_def Let_def unauthorized_sentinels_def earlier_sentinels_def split: if_splits)

lemma splitToken_refusal [refusals]: "splitToken t = Inl e \<Longrightarrow> unauthorized e"
  by (auto simp: splitToken_def decode_part_def token_error_def res_bind_def Let_def
      unauthorized_sentinels_def earlier_sentinels_def split: if_splits option.splits)

lemma decodeTokenHeader_refusal [refusals]: "decodeTokenHeader p = Inl e \<Longrightarrow> unauthorized e"
  by (auto simp: decodeTokenHeader_def token_error_def unauthorized_sentinels_def earlier_sentinels_def
      split: if_splits option.splits)

lemma decodeClaims_refusal [refusals]: "decodeClaims p = Inl e \<Longrightarrow> unauthorized e"
  by (auto simp: decodeClaims_def unauthorized_sentinels_def earlier_sentinels_def split: option.splits)

lemma validateClaims_refusal [refusals]: "validateClaims now cfg d = Some e \<Longrightarrow> unauthorized e"
  by (auto simp: validateClaims_def token_error_def Let_def unauthorized_sentinels_def earlier_sentinels_def
      split: if_splits)

lemma verifySignature_refusal:
  assumes "verifySignature hmac rsa_verify pkf snap name cfg header input signature = Some e"
    and "\<And>kid e. CfgAlgorithm cfg = ''RS256'' \<Longrightarrow> trim_space kid \<noteq> [] \<Longrightarrow> pkf snap name kid = Inl e \<Longrightarrow> unauthorized e"
  shows "unauthorized e"
  using assms(1) assms(2) [of "trim_space (HdrKeyID header)"]
  by (auto simp: verifySignature_def verifyRS256Signature_def token_error_def Let_def
      unauthorized_sentinels_def earlier_sentinels_def split: if_splits sum.splits)

text \<open>Every refusal of a token is of these kinds, when the provider has a configuration for the service.\<close>

context config_provider begin

lemma refused_token:
  assumes "DecodeFor hmac rsa_verify sf pkf now \<lparr>DecProvider = Some p\<rparr> snap name token = Inl e"
    and provider: "sf p = snapshot_for" "pkf p = public_key_for"
    and cfg: "snapshot_for snap name = Some cfg"
  shows "unauthorized e"
proof -
  have msg: "unauthorized (token_error m)" for m
    by (simp add: token_error_def unauthorized_sentinels_def earlier_sentinels_def)
  have key: "unauthorized e'" if "CfgAlgorithm cfg = ''RS256''" "trim_space kid \<noteq> []" "public_key_for snap name kid = Inl e'"
    for kid e'
    using key_missing [OF cfg that]
    by (simp add: unauthorized_def unauthorized_sentinels_def earlier_sentinels_def errors_is_def)
  have "unauthorized e'" if "verifySignature hmac rsa_verify public_key_for snap name cfg header input signature = Some e'"
    for header input signature e'
    by (rule verifySignature_refusal [OF that]) (rule key)
  then show ?thesis using assms(1) msg unfolding DecodeFor_def Let_def
    by (auto simp: provider cfg split: if_splits option.splits sum.splits prod.splits intro: refusals)
qed

end

text \<open>The decoder on the store: every refusal of a token of a service of an accepted snapshot.\<close>

lemma rejected_token_unauthorized:
  assumes "auth_usable c"
    and "gomap_get (Services c) (NormalizeServiceName name) = Some svc" "NormalizeServiceName name \<noteq> []"
    and "DecodeFor hmac rsa_verify (\<lambda>_. SnapshotFor prov (Some s)) (\<lambda>_. PublicKeyFor prov (Some s)) now
      \<lparr>DecProvider = Some p\<rparr> (Some c) name token = Inl e"
  shows "unauthorized e"
proof -
  obtain g info where g: "SvcGlobal svc = Some g" "buildAuthInfo (Auth g) = Inr info"
    using auth_usable_service [OF assms(1,2)] .
  then have "SnapshotFor prov (Some s) (Some c) name = Some (configFromAuthInfo info)"
    using assms(2,3) by (simp add: SnapshotFor_def authInfoFor_Some)
  then show ?thesis by (rule store_provider.refused_token [OF assms(4) refl refl])
qed

section \<open>A request without a valid token\<close>

lemma TraceTask_total:
  obtains i where "TraceTask_Run (Inr uid) srh (Some \<lparr>GenNewID = None\<rparr>) st x =
    (Completed None, st\<lparr>GsRequest := (GsRequest st)\<lparr>RqID := i,
       RqHTTP := map_option (\<lambda>r. r\<lparr>HrHeader := header_set RequestIDHeader i (HrHeader r)\<rparr>) (RqHTTP (GsRequest st))\<rparr>\<rparr>,
     srh RequestIDHeader i x)"
proof -
  obtain i where i: "(case find_request_id (GsRequest st) of Some i \<Rightarrow> Inr i
      | None \<Rightarrow> Generate (Inr uid) (Some \<lparr>GenNewID = None\<rparr>) (RqServiceName (GsRequest st))) = Inr i"
  proof (cases "find_request_id (GsRequest st)")
    case None
    have "\<exists>i. Generate (Inr uid) (Some \<lparr>GenNewID = None\<rparr>) (RqServiceName (GsRequest st)) = Inr i"
      by (auto simp: Generate_def Let_def split: option.split)
    then show thesis using None that by auto
  qed (use that in simp)
  show thesis by (rule that [of i]) (simp add: TraceTask_Run_def i)
qed

lemma AuthenticateTask_refusal:
  assumes "GsRoute st = Some route" "InfoRoles route \<noteq> []"
    and "\<And>token cl. BearerTokenFor (RqAuthorization (GsRequest st)) = Inr token \<Longrightarrow>
           decode (GsSettings st) (RqServiceName (GsRequest st)) token \<noteq> Inr cl"
    and "\<And>token e. decode (GsSettings st) (RqServiceName (GsRequest st)) token = Inl e \<Longrightarrow> unauthorized e"
  shows "\<exists>e. AuthenticateTask_Run (Some decode) st x = (Completed (Some e), st, x) \<and> unauthorized e"
proof (cases "BearerTokenFor (RqAuthorization (GsRequest st))")
  case (Inl e)
  then show ?thesis using assms(1,2) BearerTokenFor_refusal [OF Inl]
    by (auto simp: AuthenticateTask_Run_def route_is_open_def fail_def unauthorized_sentinels_def earlier_sentinels_def)
next
  case (Inr token)
  then obtain e where "decode (GsSettings st) (RqServiceName (GsRequest st)) token = Inl e"
    using assms(3) by (cases "decode (GsSettings st) (RqServiceName (GsRequest st)) token") auto
  then show ?thesis using assms(1,2,4) Inr
    by (auto simp: AuthenticateTask_Run_def route_is_open_def fail_def unauthorized_sentinels_def earlier_sentinels_def)
qed

lemma run_tasks_refused:
  "t st x = (Completed (Some e), st', x') \<Longrightarrow>
   run_tasks (Some t # ts) st x = (Completed (Some (wrap_err [] ''run gateway task'' e)), st', x')"
  by (simp add: fail_def)

text \<open>
  A request for a route with roles that brings no token the decoder accepts: it is answered with 401, by the
  authentication task. The snapshot is one that the validator of the authentication store accepts.
\<close>

lemma unauthenticated_401:
  fixes hmac rsa_verify prov s now p
  defines "decode \<equiv> DecodeFor hmac rsa_verify (\<lambda>_. SnapshotFor prov (Some s)) (\<lambda>_. PublicKeyFor prov (Some s)) now
      \<lparr>DecProvider = Some p\<rparr>"
  assumes accepted: "auth_usable c"
      "gomap_get (Services c) (NormalizeServiceName (InfoService info)) = Some svc" "NormalizeServiceName (InfoService info) \<noteq> []"
    and routed: "HrURL r = Some u" "UPath u \<noteq> ConfigApplyRoute" "trim_space (HrMethod r) \<noteq> []" "trim_space (UPath u) \<noteq> []"
      "settings x = Some c" "route_for c (trim_space (HrMethod r)) (trim_space (UPath u)) = Some info"
      "next_instance c (InfoService info) x = (Inr inst, x1)"
    and restricted: "InfoRoles info \<noteq> []"
    and no_token: "\<And>token cl. BearerTokenFor (header_get (HrHeader r) ''Authorization'') = Inr token \<Longrightarrow>
      decode (Some c) (InfoService info) token \<noteq> Inr cl"
    and unwritten: "\<And>i. \<not> ApWritten api (srh RequestIDHeader i x1)"
  shows "\<exists>i. \<forall>transfer. Handler_Receive api (Receive (gateway_tasks settings route_for next_instance (Inr uid) srh
      (Some \<lparr>GenNewID = None\<rparr>) (Some decode) transfer)) r x =
    (False, ApJSON api True 401 \<lparr>ArSuccess = False, ArMessage = ''unauthorized'', ArData = NoData\<rparr> (srh RequestIDHeader i x1))"
proof -
  let ?st = "initial_state (gateway_request r (UPath u))"
  let ?st1 = "?st\<lparr>GsSettings := Some c, GsRequest := (GsRequest ?st)\<lparr>RqServiceName := InfoService info\<rparr>,
         GsRoute := Some (info\<lparr>InfoInstance := inst\<rparr>)\<rparr>"
  have t1: "RouteTask_Run (Some settings) (Some route_for) (Some next_instance) ?st x = (Completed None, ?st1, x1)"
    using routed by (simp add: RouteTask_Run_def initial_state_def gateway_request_def)
  obtain i where t2: "TraceTask_Run (Inr uid) srh (Some \<lparr>GenNewID = None\<rparr>) ?st1 x1 =
    (Completed None, ?st1\<lparr>GsRequest := (GsRequest ?st1)\<lparr>RqID := i,
       RqHTTP := map_option (\<lambda>r. r\<lparr>HrHeader := header_set RequestIDHeader i (HrHeader r)\<rparr>) (RqHTTP (GsRequest ?st1))\<rparr>\<rparr>,
     srh RequestIDHeader i x1)" (is "_ = (_, ?st2, ?x2)") by (rule TraceTask_total)
  have "\<exists>e. AuthenticateTask_Run (Some decode) ?st2 ?x2 = (Completed (Some e), ?st2, ?x2) \<and> unauthorized e"
    using restricted no_token rejected_token_unauthorized [OF accepted, of hmac rsa_verify prov s now p]
    by (intro AuthenticateTask_refusal [of _ "info\<lparr>InfoInstance := inst\<rparr>"])
      (auto simp: initial_state_def gateway_request_def decode_def)
  then obtain e where t3: "AuthenticateTask_Run (Some decode) ?st2 ?x2 = (Completed (Some e), ?st2, ?x2)" and e: "unauthorized e"
    by blast
  have t4: "run_tasks (Some (AuthenticateTask_Run (Some decode)) # [Some AuthorizeTask_Run, Some transfer]) ?st2 ?x2 =
      (Completed (Some (wrap_err [] ''run gateway task'' e)), ?st2, ?x2)" for transfer
    by (rule run_tasks_refused [of "AuthenticateTask_Run (Some decode)"], rule t3)
  have "run_tasks (gateway_tasks settings route_for next_instance (Inr uid) srh (Some \<lparr>GenNewID = None\<rparr>) (Some decode) transfer)
      ?st x = (Completed (Some (wrap_err [] ''run gateway task'' e)), ?st2, ?x2)" for transfer
    unfolding gateway_tasks_def
    by (rule trans [OF run_tasks_step], rule t1, rule trans [OF run_tasks_step], rule t2, rule t4)
  then have "Receive (gateway_tasks settings route_for next_instance (Inr uid) srh (Some \<lparr>GenNewID = None\<rparr>) (Some decode) transfer)
      (gateway_request r (UPath u)) x = (Completed (Some (wrap_err [] ''run gateway task'' e)), ?x2)" for transfer
    using routed(3,4) by (simp add: Receive_def gateway_request_def del: run_tasks.simps)
  moreover have "receiveFailure (wrap_err [] ''run gateway task'' e) = (401, ''unauthorized'')"
    using receiveFailure_unauthorized [of "wrap_err [] ''run gateway task'' e"] e by (simp add: responseUnauthorized_def)
  ultimately have "Handler_Receive api (Receive (gateway_tasks settings route_for next_instance (Inr uid) srh
      (Some \<lparr>GenNewID = None\<rparr>) (Some decode) transfer)) r x =
    (False, ApJSON api True 401 \<lparr>ArSuccess = False, ArMessage = ''unauthorized'', ArData = NoData\<rparr> ?x2)" for transfer
    using routed(1,2) unwritten [of i] by (simp add: Handler_Receive_def)
  then show ?thesis by blast
qed

text \<open>A request for a route whose service has no instance to go to: the route task ends it, before any token is looked at.\<close>

lemma unroutable_503:
  assumes routed: "HrURL r = Some u" "UPath u \<noteq> ConfigApplyRoute" "trim_space (HrMethod r) \<noteq> []" "trim_space (UPath u) \<noteq> []"
      "settings x = Some c" "route_for c (trim_space (HrMethod r)) (trim_space (UPath u)) = Some info"
      "next_instance c (InfoService info) x = (Inl (errorf [Route_ErrNoHealthyInstance] msg), x1)"
    and unwritten: "\<not> ApWritten api x1"
  shows "Handler_Receive api (Receive (gateway_tasks settings route_for next_instance nr srh gen dec transfer)) r x =
    (False, ApJSON api True 503 \<lparr>ArSuccess = False, ArMessage = ''gateway traffic receive failed'', ArData = NoData\<rparr> x1)"
proof -
  let ?st = "initial_state (gateway_request r (UPath u))"
  let ?e = "wrap_err [] ''select service instance'' (errorf [Route_ErrNoHealthyInstance] msg)"
  have t1: "RouteTask_Run (Some settings) (Some route_for) (Some next_instance) ?st x =
      (Completed (Some ?e), ?st\<lparr>GsSettings := Some c\<rparr>, x1)"
    using routed by (simp add: RouteTask_Run_def initial_state_def gateway_request_def)
  have "run_tasks (gateway_tasks settings route_for next_instance nr srh gen dec transfer) ?st x =
      (Completed (Some (wrap_err [] ''run gateway task'' ?e)), ?st\<lparr>GsSettings := Some c\<rparr>, x1)"
    unfolding gateway_tasks_def by (rule run_tasks_refused, rule t1)
  then have "Receive (gateway_tasks settings route_for next_instance nr srh gen dec transfer) (gateway_request r (UPath u)) x =
      (Completed (Some (wrap_err [] ''run gateway task'' ?e)), x1)"
    using routed(3,4) by (simp add: Receive_def gateway_request_def del: run_tasks.simps)
  moreover have "receiveFailure (wrap_err [] ''run gateway task'' ?e) = (503, ''gateway traffic receive failed'')"
    by (simp add: receiveFailure_def responseReceiveFailed_def)
  ultimately show ?thesis using routed(1,2) unwritten by (simp add: Handler_Receive_def)
qed

section \<open>The handler on top of the forwarder\<close>

text \<open>The writer of the web framework: a status line alone does not count as written, a byte of the body does.\<close>

definition framework_writer :: "'w writer_ops \<Rightarrow> bool" where
  "framework_writer ops \<longleftrightarrow>
     (\<forall>h w. OpWritten ops (OpSetHeader ops h w) = OpWritten ops w) \<and>
     (\<forall>code w. OpWritten ops (OpWriteHeader ops code w) = OpWritten ops w) \<and>
     (\<forall>s w. s \<noteq> [] \<longrightarrow> OpWritten ops (snd (OpWrite ops s w)))"

lemma mem_ops_framework: "framework_writer mem_ops"
  by (simp add: framework_writer_def mem_ops_def)

definition world_written :: "'w writer_ops \<Rightarrow> ('s, 'w) forward_world \<Rightarrow> bool" where
  "world_written ops x \<longleftrightarrow> (case FwWriter x of None \<Rightarrow> False | Some w \<Rightarrow> OpWritten ops w)"

lemma http_error_written: "framework_writer ops \<Longrightarrow> OpWritten ops (http_error ops msg code w)"
  by (simp add: http_error_def framework_writer_def Let_def)

lemma copy_chunks_written:
  assumes "framework_writer ops"
  shows "OpWritten ops (snd (copy_chunks ops cs broken w)) \<longleftrightarrow> OpWritten ops w \<or> (\<exists>c \<in> set cs. c \<noteq> [])"
proof (induction cs arbitrary: w)
  case (Cons c cs)
  have "OpWritten ops (snd (OpWrite ops c w))" if "c \<noteq> []" using assms that by (simp add: framework_writer_def)
  then show ?case using Cons.IH by (auto split: prod.split)
qed simp

text \<open>
  After a forwarded request the writer counts as written exactly when the upstream could not be reached, where
  the forwarder answers 502 itself, or the answer has at least one byte of body.
\<close>

lemma forward_http_written:
  assumes "framework_writer (EnvOps env)" "\<not> OpWritten (EnvOps env) w"
  shows "OpWritten (EnvOps env) (fst (snd (forward_http env observation donePool client outReq w calls))) \<longleftrightarrow>
    (case snd (EnvDo env client outReq) of Inl _ \<Rightarrow> True | Inr answer \<Rightarrow> \<exists>c \<in> set (RsChunks answer). c \<noteq> [])"
proof -
  have ops: "OpWritten (EnvOps env) (OpWriteHeader (EnvOps env) code (OpSetHeader (EnvOps env) h w)) = False" for code h
    using assms by (simp add: framework_writer_def)
  show ?thesis
    using http_error_written [OF assms(1)] copy_chunks_written [OF assms(1)]
    by (simp add: forward_http_def Let_def case_prod_beta ops split: sum.split)
qed

text \<open>
  So for an answer without a body the handler believes that nobody has answered and sends its own 200: here
  the upstream says 404, and the client is told that its request was received.
\<close>

definition mem_api :: "(coordinator, mem_writer) forward_world api_ops" where
  "mem_api = \<lparr>ApWritten = world_written mem_ops,
     ApJSON = (\<lambda>_ code answer x. x\<lparr>FwWriter := map_option (\<lambda>w. snd (OpWrite mem_ops (ArMessage answer)
       (OpWriteHeader mem_ops code w))) (FwWriter x)\<rparr>)\<rparr>"

lemma empty_upstream_body_becomes_200:
  "(let answer = \<lparr>RsStatusCode = 404, RsHeader = [], RsChunks = [], RsBroken = False\<rparr>;
        env = (sample_env (Inr answer))\<lparr>EnvRecorder := False\<rparr>
    in map_option (\<lambda>w. (MwStatus w, MwBody w)) (FwWriter (snd (Handler_Receive mem_api (\<lambda>_. Handle env sample_forward_request)
         sample_http_request sample_world)))) = Some (200, ''gateway traffic received'')"
  by code_simp

end
