(* ===== verification/ConfigApi.thy ===== *)
theory ConfigApi
  imports ConfigJson Manager GatewayApi
begin

text \<open>
  Package \<open>api/config\<close>: the handlers through which services register and leave, and through which a
  registered service can be looked up. A handler takes the body of the request or the parameter of its path; its
  result is the status code and the response it sends, always exactly one, and for the handlers that
  change the configuration the new manager with the calls of its listeners. Log lines are left out; of the
  JSON text that is only logged it matters whether it can be built.
\<close>

section \<open>Constants (\<open>consts.go\<close>)\<close>

definition ConfigForRoute :: string where "ConfigForRoute = ConfigApplyRoute @ ''/:serviceName''"
definition ConfigInstanceRoute :: string where "ConfigInstanceRoute = ConfigForRoute @ ''/instances''"
definition responseRegisterSuccess :: string where "responseRegisterSuccess = ''config registered''"
definition responseDeregisterSuccess :: string where "responseDeregisterSuccess = ''config deregistered''"
definition responseBindFailed :: string where "responseBindFailed = ''invalid config payload''"
definition responseRegisterFailed :: string where "responseRegisterFailed = ''failed to register config''"
definition responseDeregisterFailed :: string where "responseDeregisterFailed = ''failed to deregister config''"
definition responseConfigFound :: string where "responseConfigFound = ''config found''"
definition responseConfigNotFound :: string where "responseConfigNotFound = ''config not found''"

section \<open>Payloads (\<open>handler.go\<close>)\<close>

text \<open>
  One JSON value with nothing after it but space. An error of the value and one of the data behind it are
  both reported as a bad request, so the reader of whole documents stands for the two calls of \<open>Decode\<close>.
\<close>

definition decodeSettings :: "string \<Rightarrow> settings result" where
  "decodeSettings body = (case decode_raw_struct settings_field empty_settings body of
     None \<Rightarrow> Inl (errorf [Ext] ''decode settings'') | Some s \<Rightarrow> Inr s)"

definition decodeInstanceSettings :: "string \<Rightarrow> instance_settings result" where
  "decodeInstanceSettings body = (case UnmarshalJSON empty_instance body of
     None \<Rightarrow> Inl (errorf [Ext] ''decode instance settings'') | Some i \<Rightarrow> Inr i)"

text \<open>
  \<open>json.Marshal\<close> for the log: of all the fields of the settings only the raw key set can make it fail, when it
  is not empty and no JSON document.
\<close>

definition encodeSettingsJson :: "settings \<Rightarrow> unit result" where
  "encodeSettingsJson s =
     (let jwks = (case Global s of None \<Rightarrow> [] | Some g \<Rightarrow> (case Auth g of None \<Rightarrow> [] | Some a \<Rightarrow> JWKS a))
      in if jwks \<noteq> [] \<and> json_parse jwks = None then Inl (errorf [Ext] ''marshal settings log payload'') else Inr ())"

definition encodeInstanceSettingsJson :: "instance_settings \<Rightarrow> unit result" where
  "encodeInstanceSettingsJson i = Inr ()"

section \<open>Handlers (\<open>handler.go\<close>)\<close>

definition failure :: "string \<Rightarrow> api_response" where
  "failure msg = \<lparr>ArSuccess = False, ArMessage = msg, ArData = NoData\<rparr>"

definition success :: "string \<Rightarrow> api_data \<Rightarrow> api_response" where
  "success msg d = \<lparr>ArSuccess = True, ArMessage = msg, ArData = d\<rparr>"

definition Config_NewHandler :: "'l manager option \<Rightarrow> 'l manager result" where
  "Config_NewHandler m = (case m of None \<Rightarrow> Inl (errorf [Ext] ''manager is required'') | Some m \<Rightarrow> Inr m)"

definition ApplyConfig ::
  "string \<Rightarrow> 'l manager \<Rightarrow> (int \<times> api_response) \<times> 'l manager \<times> ('l \<times> snapshot) list" where
  "ApplyConfig body m = (case decodeSettings body of
     Inl _ \<Rightarrow> ((400, failure responseBindFailed), m, [])
   | Inr settings \<Rightarrow> (case encodeSettingsJson settings of
     Inl _ \<Rightarrow> ((500, failure responseRegisterFailed), m, [])
   | Inr _ \<Rightarrow> (case Register settings m of
     (Some _, m, calls) \<Rightarrow> ((400, failure responseRegisterFailed), m, calls)
   | (None, m, calls) \<Rightarrow> ((200, success responseRegisterSuccess NoData), m, calls))))"

definition Handler_DeregisterInstance ::
  "string \<Rightarrow> string \<Rightarrow> 'l manager \<Rightarrow> (int \<times> api_response) \<times> 'l manager \<times> ('l \<times> snapshot) list" where
  "Handler_DeregisterInstance serviceName body m = (case decodeInstanceSettings body of
     Inl _ \<Rightarrow> ((400, failure responseBindFailed), m, [])
   | Inr inst \<Rightarrow> (case encodeInstanceSettingsJson inst of
     Inl _ \<Rightarrow> ((500, failure responseDeregisterFailed), m, [])
   | Inr _ \<Rightarrow> (case DeregisterInstance serviceName inst m of
     (Some e, m, calls) \<Rightarrow>
       (let statusCode = (if errors_is e Config_ErrServiceNotFound \<or> errors_is e Config_ErrInstanceNotFound then 404 else 400)
        in ((statusCode, failure responseDeregisterFailed), m, calls))
   | (None, m, calls) \<Rightarrow> ((200, success responseDeregisterSuccess NoData), m, calls))))"

definition Handler_ConfigFor :: "string \<Rightarrow> 'l manager option \<Rightarrow> int \<times> api_response" where
  "Handler_ConfigFor serviceName m = (case ConfigFor serviceName m of
     None \<Rightarrow> (404, failure responseConfigNotFound)
   | Some settings \<Rightarrow> (200, success responseConfigFound (SettingsData settings)))"

section \<open>What the decoders accept\<close>

lemma decodeSettings_typed: "decodeSettings body = Inr s \<Longrightarrow> settings_typed s"
  using decode_raw_struct_keeps [OF settings_field_typed empty_settings_typed]
  by (auto simp: decodeSettings_def split: option.splits)

section \<open>The key set of decoded settings\<close>

definition jwks_json :: "auth_settings \<Rightarrow> bool" where
  "jwks_json a \<longleftrightarrow> JWKS a = [] \<or> json_parse (JWKS a) \<noteq> None"

definition global_jwks_json :: "global_settings \<Rightarrow> bool" where
  "global_jwks_json g \<longleftrightarrow> pred_option jwks_json (Auth g)"

definition settings_jwks_json :: "settings \<Rightarrow> bool" where
  "settings_jwks_json s \<longleftrightarrow> pred_option global_jwks_json (Global s)"

lemma decode_raw_pointer_keeps:
  assumes "\<And>old new. P old \<Longrightarrow> dec old raw = Some new \<Longrightarrow> P new"
    and "P zero" "pred_option P old" "decode_raw_pointer dec zero old raw = Some new"
  shows "pred_option P new"
  using assms by (cases old) (auto simp: decode_raw_pointer_def split: if_splits)

lemma auth_field_jwks:
  "json_parse raw = Some j \<Longrightarrow> jwks_json a \<Longrightarrow> auth_field k raw a = Some a' \<Longrightarrow> jwks_json a'"
  by (auto simp: auth_field_def jwks_json_def Let_def split: if_splits)

lemma global_field_jwks:
  assumes "json_parse raw = Some j" "global_jwks_json g" "global_field k raw g = Some g'"
  shows "global_jwks_json g'"
proof -
  obtain v where v: "g' = g\<lparr>Auth := v\<rparr>"
    "decode_raw_pointer (decode_raw_struct auth_field) empty_auth (Auth g) raw = Some v"
    using assms(3) by (auto simp: global_field_def split: if_splits)
  have "pred_option jwks_json v"
  proof (rule decode_raw_pointer_keeps [OF _ _ _ v(2)])
    show "jwks_json new" if "jwks_json old" "decode_raw_struct auth_field old raw = Some new" for old new
      by (rule decode_raw_struct_keeps_parsed [where raw_field = auth_field and P = jwks_json, OF auth_field_jwks that])
    show "jwks_json empty_auth" by (simp add: jwks_json_def empty_auth_def)
    show "pred_option jwks_json (Auth g)" using assms(2) by (simp add: global_jwks_json_def)
  qed
  then show ?thesis using v(1) by (simp add: global_jwks_json_def)
qed

lemma settings_field_jwks:
  assumes "json_parse raw = Some j" "settings_jwks_json s" "settings_field k raw s = Some s'"
  shows "settings_jwks_json s'"
proof (cases "equal_fold k ''global''")
  case True
  obtain v where v: "s' = s\<lparr>Global := v\<rparr>"
    "decode_raw_pointer (decode_raw_struct global_field) \<lparr>Auth = None\<rparr> (Global s) raw = Some v"
    using assms(3) True by (auto simp: settings_field_def)
  have "pred_option global_jwks_json v"
  proof (rule decode_raw_pointer_keeps [OF _ _ _ v(2)])
    show "global_jwks_json new" if "global_jwks_json old" "decode_raw_struct global_field old raw = Some new" for old new
      by (rule decode_raw_struct_keeps_parsed [where raw_field = global_field and P = global_jwks_json, OF global_field_jwks that])
    show "global_jwks_json \<lparr>Auth = None\<rparr>" by (simp add: global_jwks_json_def)
    show "pred_option global_jwks_json (Global s)" using assms(2) by (simp add: settings_jwks_json_def)
  qed
  then show ?thesis using v(1) by (simp add: settings_jwks_json_def)
next
  case False
  then show ?thesis using assms(2,3) by (auto simp: settings_field_def settings_jwks_json_def split: if_splits)
qed

lemma decodeSettings_jwks: "decodeSettings body = Inr s \<Longrightarrow> settings_jwks_json s"
  using decode_raw_struct_keeps_parsed [where raw_field = settings_field and P = settings_jwks_json
      and old = empty_settings and data = body and new = s, OF settings_field_jwks]
  by (auto simp: decodeSettings_def settings_jwks_json_def empty_settings_def split: option.splits)

lemma encode_decoded: "decodeSettings body = Inr s \<Longrightarrow> encodeSettingsJson s = Inr ()"
  using decodeSettings_jwks [of body s]
  by (auto simp: encodeSettingsJson_def settings_jwks_json_def global_jwks_json_def jwks_json_def split: option.splits)

section \<open>The answers\<close>

lemma Register_refused: "fst (Register s m) = Some e \<Longrightarrow> Register s m = (Some e, m, [])"
  by (cases rule: Register_commit_cases [of s m]) (simp_all add: Register_def)

lemma Deregister_refused: "fst (DeregisterInstance n i m) = Some e \<Longrightarrow> DeregisterInstance n i m = (Some e, m, [])"
  by (cases rule: Deregister_commit_cases [of n i m]) (simp_all add: DeregisterInstance_def)

text \<open>
  C18: What a registration request does, for every body: the answer is 400 with the manager unchanged and no
  listener called when the body is no settings document or the manager refuses the settings, and 200 with the effect
  of \<open>Register\<close> otherwise. It is never 500: the settings that were decoded can always be encoded again for the log,
  because the only raw text among them, the key set, was cut out of a JSON document.
\<close>

theorem ApplyConfig_answers:
  "ApplyConfig body m = (case decodeSettings body of
     Inl _ \<Rightarrow> ((400, failure ''invalid config payload''), m, [])
   | Inr s \<Rightarrow> (case Register s m of
       (None, m', calls) \<Rightarrow> ((200, success ''config registered'' NoData), m', calls)
     | (Some _, _, _) \<Rightarrow> ((400, failure ''failed to register config''), m, [])))"
proof (cases "decodeSettings body")
  case (Inr s)
  then show ?thesis using encode_decoded [OF Inr] Register_refused [of s m]
    by (cases "Register s m"; cases "fst (Register s m)")
      (simp_all add: ApplyConfig_def responseRegisterFailed_def responseRegisterSuccess_def)
qed (simp add: ApplyConfig_def responseBindFailed_def)

definition sample_body :: string where
  "sample_body = ''{\"service-name\":\"Users\",\"global\":{\"auth\":{\"jwt_algorithm\":\"HS256\",\"jwt_audience\":\"a\",\"jwt_clock_skew\":\"1s\",\"jwt_issuer\":\"i\",\"jwt_secret\":\"s\"}},\"instance\":{\"scheme\":\"http\",\"host\":\"h\",\"port\":80},\"threshold\":{\"hot\":{\"in-flight\":7}},\"endpoints\":[{\"path\":\"/u\",\"method\":\"get\",\"roles\":[\"r\"]}]}''"

definition sample_decoded :: settings where
  "sample_decoded = \<lparr>Global = Some \<lparr>Auth = Some \<lparr>JWTAlgorithm = ''HS256'', JWTAudience = ''a'', JWTClockSkew = ''1s'',
       JWTIssuer = ''i'', JWTSecret = ''s'', JWKS = []\<rparr>\<rparr>,
     Health = None, Instance = Some \<lparr>Scheme = ''http'', Host = ''h'', Port = ''80'', HealthKey = []\<rparr>,
     ServiceName = ''Users'',
     Threshold = Some \<lparr>Normal = \<lparr>RPS = 0, InFlight = 0\<rparr>, Hot = \<lparr>RPS = 0, InFlight = 7\<rparr>, Super = \<lparr>RPS = 0, InFlight = 0\<rparr>\<rparr>,
     Endpoints = [\<lparr>EndpointPath = ''/u'', EndpointMethod = ''get'', EndpointRoles = [''r'']\<rparr>]\<rparr>"

lemma sample_body_decoded: "decodeSettings sample_body = Inr sample_decoded"
  by code_simp

text \<open>
  The two payloads do not treat unknown members alike: the decoder of the settings refuses them, but inside an
  instance the same option has no effect, because \<open>UnmarshalJSON\<close> starts a decoder of its own.
\<close>

lemma unknown_instance_field_accepted:
  "(case decodeInstanceSettings ''{\"scheme\": \"http\", \"host\": \"10.0.0.1\", \"port\": 8080, \"prot\": 9090}'' of
     Inl _ \<Rightarrow> False | Inr i \<Rightarrow> Port i = ''8080'') \<and>
   isl (decodeSettings ''{\"service-name\": \"users\", \"prot\": 9090}'')"
proof
  show "case decodeInstanceSettings ''{\"scheme\": \"http\", \"host\": \"10.0.0.1\", \"port\": 8080, \"prot\": 9090}'' of
     Inl _ \<Rightarrow> False | Inr i \<Rightarrow> Port i = ''8080''" by code_simp
  have "case decodeSettings ''{\"service-name\": \"users\", \"prot\": 9090}'' of Inl _ \<Rightarrow> True | Inr _ \<Rightarrow> False" by code_simp
  then show "isl (decodeSettings ''{\"service-name\": \"users\", \"prot\": 9090}'')" by (auto split: sum.splits)
qed

end
