(* ===== verification/Wiring.thy ===== *)
theory Wiring
  imports ConfigApi Policy
begin

text \<open>
  \<open>cmd/main.go\<close>: how the manager and the tasks are put together, and what follows for the configuration and the gateway. The server
  starts with an empty configuration; every later one was committed by a request to the configuration API. So what the
  three validators check holds at any time for the snapshot that is served.
\<close>

section \<open>The manager of the server\<close>

text \<open>The only listener is the health manager.\<close>

datatype listener = HealthManager

definition newRouter_manager :: "listener manager" where
  "newRouter_manager =
     AddSnapshotListener (Some HealthManager)
       (AddValidator (Some (Policy_Validate (Some Policy_NewStore)))
       (AddValidator (Some (Auth_Validate (Some (Auth_NewStore :: unit auth_store))))
       (AddValidator (Some (Route_Validate (Some Validator))) NewManager)))"

text \<open>The stores are shared with the gateway and change, but their validation does not look at their state.\<close>

lemma validators_stateless:
  "Auth_Validate (Some s) = Auth_Validate (Some s')" "Policy_Validate (Some p) = Policy_Validate (Some p')"
  by (simp_all add: Auth_Validate_def Policy_Validate_def fun_eq_iff)

text \<open>The managers the server can have, whatever the requests it gets.\<close>

inductive server_reachable :: "listener manager \<Rightarrow> bool" where
  start: "server_reachable newRouter_manager"
| applied: "server_reachable m \<Longrightarrow> ApplyConfig body m = (answer, m', calls) \<Longrightarrow> server_reachable m'"
| deregistered: "server_reachable m \<Longrightarrow> Handler_DeregisterInstance name body m = (answer, m', calls) \<Longrightarrow> server_reachable m'"

definition server_ok :: "listener manager \<Rightarrow> bool" where
  "server_ok m \<longleftrightarrow> manager_ok m \<and>
     guarded (Route_Validate (Some Validator)) routes_resolve m \<and>
     guarded (Auth_Validate (Some (Auth_NewStore :: unit auth_store))) auth_usable m \<and>
     guarded (Policy_Validate (Some Policy_NewStore)) thresholds_valid m \<and>
     Validators m = Validators newRouter_manager \<and> Listeners m = [Some HealthManager]"

lemma ApplyConfig_manager:
  "ApplyConfig body m = (answer, m', calls) \<Longrightarrow> m' = m \<or> (\<exists>s. m' = snd (Register_commit s m))"
  by (auto simp: ApplyConfig_def Register_def split: sum.splits prod.splits option.splits) (metis snd_conv)+

lemma Deregister_manager:
  "Handler_DeregisterInstance name body m = (answer, m', calls) \<Longrightarrow>
    m' = m \<or> (\<exists>i. m' = snd (DeregisterInstance_commit name i m))"
  by (auto simp: Handler_DeregisterInstance_def DeregisterInstance_def Let_def split: sum.splits prod.splits option.splits)
    (metis snd_conv)+

lemma commit_keeps_wiring:
  "Validators (snd (Register_commit s m)) = Validators m" "Listeners (snd (Register_commit s m)) = Listeners m"
  "Validators (snd (DeregisterInstance_commit n i m)) = Validators m"
  "Listeners (snd (DeregisterInstance_commit n i m)) = Listeners m"
  by (cases rule: Register_commit_cases [of s m]; simp; fail)+
    (cases rule: Deregister_commit_cases [of n i m]; simp; fail)+

lemma start_ok: "server_ok newRouter_manager"
  using NewManager_ok
  by (simp add: server_ok_def newRouter_manager_def guarded_def NewManager_def AddValidator_def AddSnapshotListener_def
      manager_ok_def Let_def routes_resolve_def auth_usable_def thresholds_valid_def)

lemma Register_server_ok: "server_ok m \<Longrightarrow> server_ok (snd (Register_commit s m))"
  unfolding server_ok_def
  by (simp add: Register_commit_ok route_validator.Register_commit_guarded auth_validator.Register_commit_guarded
      policy_validator.Register_commit_guarded commit_keeps_wiring)

lemma Deregister_server_ok: "server_ok m \<Longrightarrow> server_ok (snd (DeregisterInstance_commit n i m))"
  unfolding server_ok_def
  by (simp add: Deregister_commit_ok route_validator.Deregister_commit_guarded auth_validator.Deregister_commit_guarded
      policy_validator.Deregister_commit_guarded commit_keeps_wiring)

lemma server_reachable_ok: "server_reachable m \<Longrightarrow> server_ok m"
proof (induction rule: server_reachable.induct)
  case start
  then show ?case by (rule start_ok)
next
  case (applied m body answer m' calls)
  then show ?case using ApplyConfig_manager Register_server_ok by blast
next
  case (deregistered m name body answer m' calls)
  then show ?case using Deregister_manager Deregister_server_ok by blast
qed

lemma server_snapshot:
  assumes "server_ok m"
  obtains c where "Active m = Some c" "snapshot_ok c" "routes_resolve c" "auth_usable c" "thresholds_valid c"
  using assms by (auto simp: server_ok_def manager_ok_def guarded_def split: option.splits)

section \<open>What a served request can rely on\<close>

lemma RouteFor_service:
  assumes "snapshot_ok c" "RouteFor (Some Router) (Some c) mth path = Some info"
  obtains svc where "map_of (Services c) (InfoService info) = Some svc" "service_ok (InfoService info) svc"
    "NormalizeServiceName (InfoService info) = InfoService info" "InfoService info \<noteq> []"
proof -
  obtain r where r: "registered c r" "info = routeInfoFromEntry r"
    using assms(2) pick_route_sound [OF assms(1)] by (auto simp: RouteFor_eq [OF assms(1)] split: if_splits)
  obtain svc where svc: "map_of (Services c) (InfoService info) = Some svc"
    using registered_normal(5) [OF assms(1) r(1)] r(2) by (auto simp: routeInfoFromEntry_def)
  then have "service_ok (InfoService info) svc" using snapshot_okD(3) [OF assms(1)] by blast
  then show thesis using that svc by (simp add: service_ok_def normalizeServiceName_def)
qed

text \<open>
  C1: At any time, whatever requests the configuration API got, the snapshot the server uses is
  consistent and usable: every route leads to a service, and for every request that is routed the service is in the
  snapshot, has a usable token configuration, limits that are not negative, and instances whose addresses
  are normalised. So none of the errors for a missing configuration can reach a client.
\<close>

theorem served_routes_are_usable:
  assumes "server_reachable m" "Active m = Some c"
    and "RouteFor (Some Router) (Active m) mth path = Some info"
  shows "\<exists>svc cfg. map_of (Services c) (InfoService info) = Some svc \<and>
    SnapshotFor prov (Some s) (Some c) (InfoService info) = Some cfg \<and>
    list_all (instance_normal (InfoService info)) (SvcInstances svc) \<and>
    (case SvcThreshold svc of None \<Rightarrow> True
     | Some t \<Rightarrow> list_all (\<lambda>p. 0 \<le> RPS p \<and> 0 \<le> InFlight p) [Normal t, Hot t, Super t])"
proof -
  have c: "snapshot_ok c" "auth_usable c" "thresholds_valid c"
    using server_snapshot [OF server_reachable_ok [OF assms(1)]] assms(2) by auto
  obtain svc where svc: "map_of (Services c) (InfoService info) = Some svc" "service_ok (InfoService info) svc"
    "NormalizeServiceName (InfoService info) = InfoService info" "InfoService info \<noteq> []"
    by (rule RouteFor_service [OF c(1) assms(3) [unfolded assms(2)]])
  obtain g i where g: "SvcGlobal svc = Some g" "buildAuthInfo (Auth g) = Inr i"
    using auth_usable_service [OF c(2) svc(1)] .
  then have "authInfoFor prov (Some s) (Some c) (InfoService info) = Some i"
    using svc by (simp add: authInfoFor_Some)
  moreover have "case SvcThreshold svc of None \<Rightarrow> True
      | Some t \<Rightarrow> list_all (\<lambda>p. 0 \<le> RPS p \<and> 0 \<le> InFlight p) [Normal t, Hot t, Super t]"
    using c(3) map_of_SomeD [OF svc(1)] unfolding thresholds_valid_def list_all_iff by blast
  ultimately show ?thesis using svc(1,2) by (simp add: SnapshotFor_def service_ok_def)
qed

section \<open>Leaving the configuration\<close>

lemma Auth_Validate_iff: "Auth_Validate (Some s) c = None \<longleftrightarrow> auth_usable c"
proof -
  have "check_auth x = None \<longleftrightarrow> (case SvcGlobal (snd x) of None \<Rightarrow> False
     | Some g \<Rightarrow> (case buildAuthInfo (Auth g) of Inl _ \<Rightarrow> False | Inr _ \<Rightarrow> True))" for x
    by (simp add: check_auth_def split: option.split sum.split)
  then show ?thesis by (simp add: Auth_Validate_def auth_usable_def list_all_iff split_beta)
qed

lemma pool_key: "PIConfigKey (pool_info_of k t) = k"
  by (simp add: pool_info_of_def)

lemma check_policy_None_iff:
  "NormalizeServiceName (SvcName svc) \<noteq> [] \<Longrightarrow> check_policy (n, svc) = None \<longleftrightarrow> (case SvcThreshold svc of None \<Rightarrow> True
     | Some t \<Rightarrow> list_all (\<lambda>p. 0 \<le> RPS p \<and> 0 \<le> InFlight p) [Normal t, Hot t, Super t])"
  by (simp add: check_policy_def Let_def validate_thresholds_None_iff pool_key split: option.split)

lemma Policy_Validate_iff:
  assumes "snapshot_ok c"
  shows "Policy_Validate (Some p) c = None \<longleftrightarrow> thresholds_valid c"
proof -
  have "check_policy x = None \<longleftrightarrow> (case x of (n, svc) \<Rightarrow> (case SvcThreshold svc of None \<Rightarrow> True
     | Some t \<Rightarrow> list_all (\<lambda>p. 0 \<le> RPS p \<and> 0 \<le> InFlight p) [Normal t, Hot t, Super t]))" if "x \<in> set (Services c)" for x
  proof -
    have "service_ok (fst x) (snd x)" using assms that by (auto simp: snapshot_ok_def list_all_iff)
    then have "NormalizeServiceName (SvcName (snd x)) \<noteq> []" by (auto simp: service_ok_def normalizeServiceName_def)
    then show ?thesis using check_policy_None_iff [of "snd x" "fst x"] by (simp add: split_beta)
  qed
  then show ?thesis by (simp add: Policy_Validate_def thresholds_valid_def list_all_iff)
qed

text \<open>The validators of the server accept a candidate if and only if its settings are usable.\<close>

lemma server_accepted:
  assumes "server_ok m" "snapshot_ok c"
  shows "accepted m c \<longleftrightarrow> auth_usable c \<and> thresholds_valid c"
proof -
  have "Validators m = [Some (Route_Validate (Some Validator)), Some (Auth_Validate (Some (Auth_NewStore :: unit auth_store))),
      Some (Policy_Validate (Some Policy_NewStore))]"
    using assms(1) by (simp add: server_ok_def newRouter_manager_def NewManager_def AddValidator_def AddSnapshotListener_def Let_def)
  then show ?thesis
    using Route_Validate_builder [OF assms(2), of Validator] Auth_Validate_iff [of "Auth_NewStore :: unit auth_store" c] Policy_Validate_iff [OF assms(2)]
    by (auto simp: accepted_def run_validator_def split: option.splits)
qed

lemma NormalizeHostPort_sentinels:
  "NormalizeHostPort h p = Inl e \<Longrightarrow> set (err_wraps e) \<subseteq> {Ext}"
  by (auto simp: NormalizeHostPort_def ConfigKey_def split_host_port_def errorf_def wrap_err_def Let_def
      split: sum.splits if_splits option.splits prod.splits list.splits)

lemma normalizeInstanceSettings_sentinels:
  assumes "normalizeInstanceSettings n i = Inl e"
  shows "\<not> errors_is e Config_ErrServiceNotFound \<and> \<not> errors_is e Config_ErrInstanceNotFound"
  using assms NormalizeHostPort_sentinels [of "Host i" "Port i"]
  by (auto simp: normalizeInstanceSettings_def invalid_settings_def Let_def errors_is_def errorf_def wrap_err_def
      split: if_splits sum.splits)

text \<open>The services after the removal of an instance keep their settings, so the candidate is as usable as before.\<close>

lemma removed_usable:
  assumes "buildDeregisterCandidate (Some c) n i = Inr d" "snapshot_ok c" "auth_usable c" "thresholds_valid c"
  shows "auth_usable d \<and> thresholds_valid d"
proof -
  obtain c' where c': "removeServiceInstance n i c = Inr c'" "Services d = Services c'"
    using assms(1,2) by (auto simp: buildDeregisterCandidate_def copySnapshotIndex_id builder_snapshot_def)
  obtain svc xs where svc: "map_of (Services c) n = Some svc" "Services c' = AList.update n (svc\<lparr>SvcInstances := xs\<rparr>) (Services c)"
    using removeServiceInstance_Inr [OF c'(1)] by auto
  have "set (Services d) \<subseteq> insert (n, svc\<lparr>SvcInstances := xs\<rparr>) (set (Services c))"
    using c'(2) svc(2) gomap_put_set [OF snapshot_okD(1) [OF assms(2)]] by auto
  moreover have "(n, svc) \<in> set (Services c)" using svc(1) by (rule map_of_SomeD)
  ultimately show ?thesis using assms(3,4) unfolding auth_usable_def thresholds_valid_def list_all_iff by fastforce
qed

section \<open>Removing an instance\<close>

text \<open>
  C16: At any time \<open>DeregisterInstance\<close> removes exactly the instance with the normalised address: it succeeds if
  and only if the service has an instance at that address, no validator of the server objecting; then every other instance, every
  other service and the whole route index stay as they were, the revision goes up by one, and the health manager is
  told the new snapshot. A missing service and a missing instance are reported with their own sentinel errors, change nothing
  and call nobody.
\<close>

theorem DeregisterInstance_effect:
  assumes "server_reachable m" "Active m = Some c"
    and n: "name = normalizeServiceName n" "name \<noteq> []" "normalizeInstanceSettings name i = Inr i'"
  shows "case map_of (Services c) name of
      None \<Rightarrow> \<exists>e. DeregisterInstance n i m = (Some e, m, []) \<and> errors_is e Config_ErrServiceNotFound
    | Some svc \<Rightarrow>
        if instance_addr i' \<in> instance_addr ` set (SvcInstances svc) then
          \<exists>c'. DeregisterInstance n i m = (None, m\<lparr>Active := Some c'\<rparr>, [(HealthManager, c')]) \<and>
            Revision c' = Revision c + 1 \<and> Routes c' = Routes c \<and> WildcardRoutes c' = WildcardRoutes c \<and>
            (\<forall>k. map_of (Services c') k = (if k = name then
               Some (svc\<lparr>SvcInstances := filter (\<lambda>j. instance_addr j \<noteq> instance_addr i') (SvcInstances svc)\<rparr>)
               else map_of (Services c) k))
        else \<exists>e. DeregisterInstance n i m = (Some e, m, []) \<and> errors_is e Config_ErrInstanceNotFound"
proof -
  note ok = server_reachable_ok [OF assms(1)]
  have c: "snapshot_ok c" "auth_usable c" "thresholds_valid c" using server_snapshot [OF ok] assms(2) by auto
  have acc: "accepted m d" if "buildDeregisterCandidate (Some c) name i' = Inr d" for d
    using server_accepted [OF ok buildDeregisterCandidate_ok [OF c(1) that]] removed_usable [OF that c] by blast
  have calls: "notifySnapshotListeners (Listeners m) c' = [(HealthManager, c')]" for c'
    using ok by (simp add: server_ok_def notifySnapshotListeners_def)
  show ?thesis using DeregisterInstance_result [OF assms(2) c(1) acc n] unfolding calls .
qed

definition deregister_status :: "snapshot \<Rightarrow> string \<Rightarrow> string \<Rightarrow> int" where
  "deregister_status c name body = (case decodeInstanceSettings body of
     Inl _ \<Rightarrow> 400
   | Inr i \<Rightarrow> (case normalizeInstanceSettings name i of
     Inl _ \<Rightarrow> 400
   | Inr j \<Rightarrow> (case map_of (Services c) (normalizeServiceName name) of
     None \<Rightarrow> 404
   | Some svc \<Rightarrow> if instance_addr j \<in> instance_addr ` set (SvcInstances svc) then 200 else 404)))"

text \<open>
  C20: What a request to remove an instance is answered, at any time: 404 exactly when the service or the
  address is unknown, 400 when the body or the address is malformed, and 200 otherwise. In
  particular the validators never refuse a removal, and a name that is blank counts as malformed.
\<close>

theorem deregistration_status:
  assumes "server_reachable m" "Active m = Some c"
  shows "fst (fst (Handler_DeregisterInstance name body m)) = deregister_status c name body"
proof (cases "decodeInstanceSettings body")
  case (Inl e)
  then show ?thesis by (simp add: Handler_DeregisterInstance_def deregister_status_def)
next
  case (Inr i)
  note ok = server_reachable_ok [OF assms(1)]
  have c: "snapshot_ok c" "auth_usable c" "thresholds_valid c" using server_snapshot [OF ok] assms(2) by auto
  let ?name = "normalizeServiceName name"
  show ?thesis
  proof (cases "normalizeInstanceSettings name i")
    case e: (Inl e)
    have "fst (DeregisterInstance name i m) = Some (invalid_settings ''service-name is required'') \<or>
        fst (DeregisterInstance name i m) = Some e"
      using e by (simp add: DeregisterInstance_def DeregisterInstance_commit_def normalizeInstanceSettings_name Let_def)
    then have "\<exists>e'. DeregisterInstance name i m = (Some e', m, []) \<and> \<not> errors_is e' Config_ErrServiceNotFound \<and>
        \<not> errors_is e' Config_ErrInstanceNotFound"
      using normalizeInstanceSettings_sentinels [OF e] Deregister_refused [of name i m]
      by (auto simp: invalid_settings_def)
    then show ?thesis
      using Inr e by (auto simp: Handler_DeregisterInstance_def deregister_status_def encodeInstanceSettingsJson_def)
  next
    case j: (Inr j)
    then have n: "?name \<noteq> []" by (auto simp: normalizeInstanceSettings_def Let_def split: if_splits)
    have acc: "accepted m d" if "buildDeregisterCandidate (Some c) ?name j = Inr d" for d
      using server_accepted [OF ok buildDeregisterCandidate_ok [OF c(1) that]] removed_usable [OF that c] by blast
    have b: "buildDeregisterCandidate (Some c) ?name j = res_bind (removeServiceInstance ?name j c) (\<lambda>d. Inr (builder_snapshot d))"
      by (simp add: buildDeregisterCandidate_def copySnapshotIndex_id [OF c(1)])
    have "fst (DeregisterInstance name i m) = (case map_of (Services c) ?name of
        None \<Rightarrow> (case removeServiceInstance ?name j c of Inl e \<Rightarrow> Some e | Inr _ \<Rightarrow> None)
      | Some svc \<Rightarrow> (case removeServiceInstance ?name j c of Inl e \<Rightarrow> Some e | Inr _ \<Rightarrow> None))"
      using n j b acc assms(2)
      by (auto simp: DeregisterInstance_def DeregisterInstance_commit_def commitCandidate_eq normalizeInstanceSettings_name
          Let_def split: option.splits sum.splits)
    then show ?thesis
      using Inr j
      by (auto simp: Handler_DeregisterInstance_def deregister_status_def encodeInstanceSettingsJson_def
          removeServiceInstance_def remove_instance_loop_eq Let_def split: option.splits prod.splits if_splits sum.splits)
  qed
qed

section \<open>Which registrations are accepted\<close>

text \<open>
  A registration in the terms of its request: the name is not blank, the token settings, the address, the health
  settings, the thresholds and every endpoint are acceptable and no route occurs twice.
\<close>

definition thresholds_acceptable :: "threshold_settings \<Rightarrow> bool" where
  "thresholds_acceptable t \<longleftrightarrow> list_all (\<lambda>p. 0 \<le> RPS p \<and> 0 \<le> InFlight p) [Normal t, Hot t, Super t]"

definition endpoint_acceptable :: "endpoint_settings \<Rightarrow> bool" where
  "endpoint_acceptable e \<longleftrightarrow> trim_space (EndpointPath e) \<noteq> [] \<and> trim_space (EndpointMethod e) \<noteq> [] \<and>
     list_all (\<lambda>r. trim_space r \<noteq> []) (EndpointRoles e)"

definition route_of_endpoint :: "endpoint_settings \<Rightarrow> route_key" where
  "route_of_endpoint e = \<lparr>KeyMethod = to_upper (trim_space (EndpointMethod e)), KeyPath = trim_space (EndpointPath e)\<rparr>"

text \<open>A registration that can be carried out, whatever else is configured.\<close>

definition settings_acceptable :: "settings \<Rightarrow> bool" where
  "settings_acceptable s \<longleftrightarrow> trim_space (ServiceName s) \<noteq> [] \<and>
     (case Global s of None \<Rightarrow> False | Some g \<Rightarrow> (case Auth g of None \<Rightarrow> False | Some a \<Rightarrow> auth_acceptable a)) \<and>
     (case Instance s of None \<Rightarrow> False | Some i \<Rightarrow> instance_acceptable i) \<and>
     (case Health s of None \<Rightarrow> True | Some h \<Rightarrow> health_acceptable h) \<and>
     (case Threshold s of None \<Rightarrow> True | Some t \<Rightarrow> thresholds_acceptable t) \<and>
     Endpoints s \<noteq> [] \<and> list_all endpoint_acceptable (Endpoints s) \<and> distinct (map route_of_endpoint (Endpoints s))"

lemma normalizeServiceName_Nil_iff: "normalizeServiceName n = [] \<longleftrightarrow> trim_space n = []"
  by (simp add: normalizeServiceName_def NormalizeServiceName_def NormalizeLower_def)

lemma endpoint_valid_acceptable: "endpoint_valid e \<longleftrightarrow> endpoint_acceptable e"
proof -
  have "NormalizeRoles rs \<noteq> None \<longleftrightarrow> list_all (\<lambda>r. trim_space r \<noteq> []) rs" for rs
    unfolding not_None_eq NormalizeRoles_Some_iff by (simp add: list_all_iff NormalizeTrimmed_def)
  then show ?thesis
    by (simp add: endpoint_valid_def endpoint_acceptable_def NormalizeHTTPPath_def NormalizeHTTPMethod_def NormalizeUpper_def
        NormalizeTrimmed_def del: not_None_eq)
qed

lemma endpoint_key_route: "endpoint_key = route_of_endpoint"
  by (simp add: fun_eq_iff endpoint_key_def route_of_endpoint_def NormalizeHTTPPath_def NormalizeHTTPMethod_def
      NormalizeUpper_def NormalizeTrimmed_def)

lemma request_valid_split:
  "request_valid s \<longleftrightarrow> trim_space (ServiceName s) \<noteq> [] \<and> Global s \<noteq> None \<and>
     (case Instance s of None \<Rightarrow> False | Some i \<Rightarrow> instance_acceptable i) \<and>
     (case Health s of None \<Rightarrow> True | Some h \<Rightarrow> health_acceptable h) \<and>
     Endpoints s \<noteq> [] \<and> list_all endpoint_acceptable (Endpoints s) \<and> distinct (map route_of_endpoint (Endpoints s))"
proof -
  have inst: "\<not> isl (normalizeInstanceSettings n i) \<longleftrightarrow> trim_space n \<noteq> [] \<and> instance_acceptable i" for n i
    using normalizeInstanceSettings_acceptable [of n i] unfolding normalizeServiceName_Nil_iff
    by (cases "normalizeInstanceSettings n i") auto
  have health: "\<not> isl (normalizeHealthSettings h) \<longleftrightarrow> (case h of None \<Rightarrow> True | Some h \<Rightarrow> health_acceptable h)" for h
  proof (cases h)
    case (Some g)
    then show ?thesis using normalizeHealthSettings_Some_iff [of g] by (cases "normalizeHealthSettings h") auto
  qed (simp add: normalizeHealthSettings_def)
  have "list_all endpoint_valid es = list_all endpoint_acceptable es" for es
    by (simp add: list_all_iff endpoint_valid_acceptable)
  then show ?thesis unfolding request_valid_def inst health endpoint_key_route normalizeServiceName_Nil_iff
    by (auto split: option.split)
qed

text \<open>A candidate is as usable as the snapshot before and the settings that were registered.\<close>

lemma registered_usable:
  assumes c: "snapshot_ok c" "auth_usable c" "thresholds_valid c" and s: "settings_normal name s inst"
    and b: "buildCandidate (Some c) name s inst = Inr c'"
  shows "auth_usable c' \<longleftrightarrow> (case Global s of None \<Rightarrow> False | Some g \<Rightarrow> (case Auth g of None \<Rightarrow> False | Some a \<Rightarrow> auth_acceptable a))"
    and "thresholds_valid c' \<longleftrightarrow> (case Threshold s of None \<Rightarrow> True | Some t \<Rightarrow> thresholds_acceptable t)"
proof -
  obtain d where d: "replaceService name s inst c = Inr d" "c' = builder_snapshot d"
    using b c(1) by (auto simp: buildCandidate_def copySnapshotIndex_id)
  obtain svc where svc: "buildService c name s inst = Inr (svc, service_routes svc)"
    "Services d = AList.update name svc (Services c)"
    using replaceService_Inr [OF c(1) s d(1)] by blast
  have g: "SvcGlobal svc = Global s" "SvcThreshold svc = Threshold s"
    using buildService_ok [OF c(1) s svc(1)] by simp_all
  have "Services c' = AList.update name svc (Services c)" using d(2) svc(2) by (simp add: builder_snapshot_def)
  then have S: "set (Services c') = insert (name, svc) {x \<in> set (Services c). fst x \<noteq> name}"
    using gomap_put_set [OF snapshot_okD(1) [OF c(1)]] by auto
  have all: "(\<forall>x \<in> set (Services c'). P (snd x)) \<longleftrightarrow> P svc" if "\<forall>x \<in> set (Services c). P (snd x)" for P
    using that unfolding S by auto
  have auth: "(case g of None \<Rightarrow> False | Some g \<Rightarrow> (case buildAuthInfo (Auth g) of Inl _ \<Rightarrow> False | Inr _ \<Rightarrow> True)) \<longleftrightarrow>
      (case g of None \<Rightarrow> False | Some g \<Rightarrow> (case Auth g of None \<Rightarrow> False | Some a \<Rightarrow> auth_acceptable a))" for g
  proof -
    have none: "isl (buildAuthInfo None)" by (simp add: buildAuthInfo_def)
    have "\<not> isl (buildAuthInfo (Some a)) \<longleftrightarrow> auth_acceptable a" for a
      using buildAuthInfo_acceptable [of a] by (cases "buildAuthInfo (Some a)") auto
    moreover have "(case g of None \<Rightarrow> False | Some g \<Rightarrow> (case buildAuthInfo (Auth g) of Inl _ \<Rightarrow> False | Inr _ \<Rightarrow> True)) \<longleftrightarrow>
        (case g of None \<Rightarrow> False | Some g \<Rightarrow> \<not> isl (buildAuthInfo (Auth g)))"
      by (simp add: isl_def split: option.split sum.split)
    ultimately show ?thesis using none by (cases g; simp; cases "Auth (the g)"; simp)
  qed
  have defs: "auth_usable d \<longleftrightarrow> (\<forall>x \<in> set (Services d). case SvcGlobal (snd x) of None \<Rightarrow> False
        | Some g \<Rightarrow> (case Auth g of None \<Rightarrow> False | Some a \<Rightarrow> auth_acceptable a))"
      "thresholds_valid d \<longleftrightarrow> (\<forall>x \<in> set (Services d). case SvcThreshold (snd x) of None \<Rightarrow> True | Some t \<Rightarrow> thresholds_acceptable t)" for d
    unfolding auth_usable_def thresholds_valid_def auth thresholds_acceptable_def by (simp_all add: list_all_iff split_beta)
  show "auth_usable c' \<longleftrightarrow> (case Global s of None \<Rightarrow> False | Some g \<Rightarrow> (case Auth g of None \<Rightarrow> False | Some a \<Rightarrow> auth_acceptable a))"
    unfolding defs g(1) [symmetric] by (rule all) (use c(2) in \<open>simp only: defs\<close>)
  show "thresholds_valid c' \<longleftrightarrow> (case Threshold s of None \<Rightarrow> True | Some t \<Rightarrow> thresholds_acceptable t)"
    unfolding defs g(2) [symmetric] by (rule all) (use c(3) in \<open>simp only: defs\<close>)
qed

text \<open>The route of an endpoint is free, or taken by the service itself.\<close>

definition route_available :: "snapshot \<Rightarrow> string \<Rightarrow> route_key \<Rightarrow> bool" where
  "route_available c name k \<longleftrightarrow> (case map_of (Routes c) k of None \<Rightarrow> True | Some r \<Rightarrow> RouteService r = name)"

text \<open>
  C15: At any time, whatever requests the server got before, \<open>Register\<close> accepts exactly the acceptable requests whose routes
  are free or belong to the service itself. Acceptable means: a name that is not blank; an audience, an
  issuer, a positive clock skew and either HS256 with a secret or RS256 with a key set that can be read and has a usable
  key under every key id once; an instance with scheme http or https, a host without scheme, path, query or user info and
  a port from 1 to 65535; health settings whose durations parse and fit each other; thresholds that are not negative;
  and at least one endpoint, each with a path, a method and roles that are not blank, no two for the same route.
\<close>

theorem Register_succeeds_iff:
  assumes "server_reachable m" "Active m = Some c"
  shows "fst (Register s m) = None \<longleftrightarrow> settings_acceptable s \<and>
    list_all (\<lambda>e. route_available c (to_lower (trim_space (ServiceName s))) (route_of_endpoint e)) (Endpoints s)"
proof -
  note ok = server_reachable_ok [OF assms(1)]
  have c: "snapshot_ok c" "auth_usable c" "thresholds_valid c" using server_snapshot [OF ok] assms(2) by auto
  let ?auth = "case Global s of None \<Rightarrow> False | Some g \<Rightarrow> (case Auth g of None \<Rightarrow> False | Some a \<Rightarrow> auth_acceptable a)"
  let ?thr = "case Threshold s of None \<Rightarrow> True | Some t \<Rightarrow> thresholds_acceptable t"
  have split: "settings_acceptable s \<longleftrightarrow> request_valid s \<and> ?auth \<and> ?thr"
    unfolding settings_acceptable_def request_valid_split by (auto split: option.split)
  show ?thesis
  proof (cases "\<exists>x. normalizeSettings s = Inr x")
    case False
    then have "\<not> request_valid s" unfolding normalizeSettings_Inr_iff request_valid_def by blast
    then show ?thesis using False split by (auto simp: Register_None_iff [OF assms(2)])
  next
    case True
    then obtain name s' where n: "normalizeSettings s = Inr (name, s')" by auto
    then obtain inst where i: "Instance s' = Some inst" "settings_normal name s' inst"
      and e: "name = normalizeServiceName (ServiceName s)" "Endpoints s' = Endpoints s" "Global s' = Global s" "Threshold s' = Threshold s"
      using normalizeSettings_normal by blast
    have "fst (Register s m) = None \<longleftrightarrow> (\<exists>c'. buildCandidate (Some c) name s' inst = Inr c' \<and> accepted m c')"
      unfolding Register_None_iff [OF assms(2)] using n i(1) by auto
    also have "\<dots> \<longleftrightarrow> (\<exists>c'. buildCandidate (Some c) name s' inst = Inr c') \<and> ?auth \<and> ?thr"
      using server_accepted [OF ok buildCandidate_ok [OF c(1) i(2)]] registered_usable [OF c i(2)] e(3,4) by metis
    also have "(\<exists>c'. buildCandidate (Some c) name s' inst = Inr c') \<longleftrightarrow> request_valid s \<and>
        list_all (\<lambda>e. route_available c (to_lower (trim_space (ServiceName s))) (route_of_endpoint e)) (Endpoints s)"
    proof -
      have "request_valid s \<longleftrightarrow> list_all endpoint_valid (Endpoints s) \<and> distinct (map endpoint_key (Endpoints s))"
        using True unfolding normalizeSettings_Inr_iff request_valid_def by blast
      moreover have "\<not> route_taken c name k \<longleftrightarrow> route_available c (to_lower (trim_space (ServiceName s))) k" for k
        by (simp add: route_taken_def route_available_def e(1) normalizeServiceName_def NormalizeServiceName_def
            NormalizeLower_def split: option.split)
      ultimately show ?thesis unfolding buildCandidate_Inr_iff [OF c(1) i(2)] e(2) endpoint_key_route
        by (simp add: list_all_iff)
    qed
    finally show ?thesis unfolding split by blast
  qed
qed

section \<open>Looking up a registered service\<close>

text \<open>
  C19: Registering and looking up go together: after a registration was answered with 200, the lookup under the
  name in the request, in any spelling that normalises to it, answers 200 with the whole of the service: its token settings
  and thresholds are those of the request; its health settings are those of the request with the defaults for what is
  not given; its endpoints are those of the request in their order, each with its path, its method and all of its roles,
  trimmed; and the instance of the request, in normal form, is among its instances.
\<close>

theorem registered_service_is_found:
  assumes "server_reachable m" "decodeSettings body = Inr s" "ApplyConfig body m = ((200, answer), m', calls)"
    and "normalizeServiceName name = normalizeServiceName (ServiceName s)"
  shows "\<exists>svc h i j. Handler_ConfigFor name (Some m') = (200, success ''config found'' (SettingsData svc)) \<and>
    SvcName svc = normalizeServiceName (ServiceName s) \<and> SvcGlobal svc = Global s \<and> SvcThreshold svc = Threshold s \<and>
    SvcHealth svc = Some h \<and> health_taken_from (case Health s of None \<Rightarrow> no_health | Some g \<Rightarrow> g) h \<and>
    list_all2 endpoint_taken_from (Endpoints s) (SvcEndpoints svc) \<and>
    Instance s = Some i \<and> instance_taken_from (normalizeServiceName (ServiceName s)) i j \<and> j \<in> set (SvcInstances svc)"
proof -
  let ?n = "normalizeServiceName (ServiceName s)"
  obtain c where c: "Active m = Some c" "snapshot_ok c"
    using server_snapshot [OF server_reachable_ok [OF assms(1)]] by blast
  have r: "Register s m = (None, m', calls)"
    using assms(2,3) encode_decoded [OF assms(2)]
    by (auto simp: ApplyConfig_def split: prod.splits option.splits)
  from Register_success [OF c r] obtain s' inst svc c' where
    n: "normalizeSettings s = Inr (?n, s')" "Instance s' = Some inst" and c': "Active m' = Some c'" "snapshot_ok c'"
    "Services c' = AList.update ?n svc (Services c)" and svc: "SvcGlobal svc = Global s" "SvcThreshold svc = Threshold s"
    "SvcHealth svc = Health s'" "list_all2 endpoint_taken_from (Endpoints s) (SvcEndpoints svc)" "inst \<in> set (SvcInstances svc)"
    by blast
  have found: "gomap_get (Services c') ?n = Some svc" using c'(3) by simp
  then have "service_ok ?n svc" using snapshot_okD(3) [OF c'(2)] by blast
  then have name: "SvcName svc = ?n" "?n \<noteq> []" by (simp_all add: service_ok_def)
  have "Handler_ConfigFor name (Some m') = (200, success ''config found'' (SettingsData svc))"
    using found name(2) assms(4) c'(1)
    by (simp add: Handler_ConfigFor_def ConfigFor_def Settings_def Let_def responseConfigFound_def)
  moreover obtain i h where i: "Instance s = Some i" "normalizeInstanceSettings (ServiceName s) i = Inr inst"
      and h: "Health s' = Some h" "normalizeHealthSettings (Health s) = Inr h"
    using n by (auto simp: normalizeSettings_def Let_def normalizeInstanceSettings_name split: if_splits option.splits)
  moreover have "instance_taken_from ?n i inst" using i(2) by (simp add: normalizeInstanceSettings_exact)
  moreover have "health_taken_from (case Health s of None \<Rightarrow> no_health | Some g \<Rightarrow> g) h"
    by (rule normalizeHealthSettings_taken [OF h(2)])
  ultimately show ?thesis using name(1) svc i(1) h(1)
    by (intro exI [of _ svc] exI [of _ h] exI [of _ i] exI [of _ inst]) simp
qed

section \<open>The gateway of the server\<close>

text \<open>
  The tasks of the gateway with the router and the decoder on the store of the server; the selection of the
  instance, the clock, the random ids and the cryptographic functions stay arguments.
\<close>

definition newRouter_decode ::
  "(string \<Rightarrow> string \<Rightarrow> string) \<Rightarrow> (rsa_public_key \<Rightarrow> string \<Rightarrow> string \<Rightarrow> bool) \<Rightarrow> time \<Rightarrow>
   snapshot option \<Rightarrow> string \<Rightarrow> string \<Rightarrow> claims result" where
  "newRouter_decode hmac rsa_verify now = DecodeFor hmac rsa_verify (\<lambda>_. SnapshotFor no_provider (Some Auth_NewStore))
     (\<lambda>_. PublicKeyFor no_provider (Some Auth_NewStore)) now \<lparr>DecProvider = Some ()\<rparr>"

definition newRouter_tasks where
  "newRouter_tasks hmac rsa_verify now settings next_instance uid srh transfer =
     gateway_tasks settings (\<lambda>c. RouteFor (Some Router) (Some c)) next_instance uid srh (Some \<lparr>GenNewID = None\<rparr>)
       (Some (newRouter_decode hmac rsa_verify now)) transfer"

lemma RouteFor_blank: "RouteFor (Some Router) (Some c) [] path = None" "RouteFor (Some Router) (Some c) mth [] = None"
proof -
  have "NormalizeHTTPMethod [] = []" "NormalizeHTTPPath [] = []" by code_simp+
  then show "RouteFor (Some Router) (Some c) [] path = None" "RouteFor (Some Router) (Some c) mth [] = None"
    by (simp_all add: RouteFor_def Let_def)
qed

text \<open>
  The load balancer as the instance selector of the route task, in a world \<open>x\<close> that holds it: \<open>get\<close> and \<open>put\<close>
  read and write it.
\<close>

definition balancer_in ::
  "('x \<Rightarrow> load_balancer) \<Rightarrow> (load_balancer \<Rightarrow> 'x \<Rightarrow> 'x) \<Rightarrow> snapshot \<Rightarrow> string \<Rightarrow> 'x \<Rightarrow> instance_settings result \<times> 'x" where
  "balancer_in get put c name x = (case NextInstance (Some (get x)) (Some c) name of
     (result, lb') \<Rightarrow> (result, case lb' of Some lb' \<Rightarrow> put lb' x | None \<Rightarrow> x))"

lemma NextInstance_registered:
  assumes "map_of (Services c) (NormalizeServiceName name) = Some svc" "NormalizeServiceName name \<noteq> []"
  shows "\<exists>result lb'. NextInstance (Some lb) (Some c) name = (result, Some lb') \<and>
    (case result of Inr _ \<Rightarrow> True | Inl e \<Rightarrow> \<exists>msg. e = errorf [Route_ErrNoHealthyInstance] msg)"
proof (cases "SvcInstances svc = []")
  case True
  then show ?thesis using assms by (auto simp: NextInstance_def Let_def)
next
  case False
  let ?lb = "lb\<lparr>Cursors := gomap_put (NormalizeServiceName name) (cursor_for lb (NormalizeServiceName name) + 1) (Cursors lb)\<rparr>"
  show ?thesis
    by (cases "scan_instances ?lb (SvcInstances svc) (cursor_for lb (NormalizeServiceName name))
        (length (SvcInstances svc)) 0") (use assms False in \<open>auto simp: NextInstance_def Let_def\<close>)
qed

text \<open>
  C9: A request that brings no token the decoder accepts never gets through a route with roles: whatever is
  wrong with the token, whatever configuration the server has got to and whatever the transfer task is, that task does
  not run. The answer is 401 and \<open>unauthorized\<close> when the load balancer finds an instance for the service, and 503
  when it does not, because the instance is chosen before the token is looked at; these are the only two
  answers. Nothing is written before the tasks run.
\<close>

theorem unauthenticated_request_gets_401:
  assumes server: "server_reachable m" "Active m = Some c" "settings x = Active m"
    and routed: "HrURL r = Some u" "UPath u \<noteq> ConfigApplyRoute"
      "RouteFor (Some Router) (Some c) (trim_space (HrMethod r)) (trim_space (UPath u)) = Some info"
    and restricted: "InfoRoles info \<noteq> []"
    and no_token: "\<And>token cl. BearerTokenFor (header_get (HrHeader r) ''Authorization'') = Inr token \<Longrightarrow>
      newRouter_decode hmac rsa_verify now (Some c) (InfoService info) token \<noteq> Inr cl"
    and unwritten: "\<And>lb. \<not> ApWritten api (put lb x)" "\<And>i lb. \<not> ApWritten api (srh RequestIDHeader i (put lb x))"
  shows "\<exists>i lb. \<forall>transfer. Handler_Receive api
      (Receive (newRouter_tasks hmac rsa_verify now settings (balancer_in get put) (Inr uid) srh transfer)) r x =
    (False, case fst (NextInstance (Some (get x)) (Some c) (InfoService info)) of
       Inr _ \<Rightarrow> ApJSON api True 401 \<lparr>ArSuccess = False, ArMessage = ''unauthorized'', ArData = NoData\<rparr>
         (srh RequestIDHeader i (put lb x))
     | Inl _ \<Rightarrow> ApJSON api True 503 \<lparr>ArSuccess = False, ArMessage = ''gateway traffic receive failed'', ArData = NoData\<rparr>
         (put lb x))"
proof -
  have c: "snapshot_ok c" "auth_usable c" using server_snapshot [OF server_reachable_ok [OF server(1)]] server(2) by auto
  obtain svc where svc: "gomap_get (Services c) (NormalizeServiceName (InfoService info)) = Some svc"
    "NormalizeServiceName (InfoService info) \<noteq> []"
    using RouteFor_service [OF c(1) routed(3)] by metis
  have shape: "trim_space (HrMethod r) \<noteq> []" "trim_space (UPath u) \<noteq> []"
    using routed(3) RouteFor_blank [of c] by auto
  have x: "settings x = Some c" using server(2,3) by simp
  show ?thesis
  proof -
    obtain result lb where next_inst: "NextInstance (Some (get x)) (Some c) (InfoService info) = (result, Some lb)"
      "case result of Inr _ \<Rightarrow> True | Inl e \<Rightarrow> \<exists>msg. e = errorf [Route_ErrNoHealthyInstance] msg"
      using NextInstance_registered [OF svc, of "get x"] by blast
    have sel: "balancer_in get put c (InfoService info) x = (result, put lb x)" using next_inst(1) by (simp add: balancer_in_def)
    show ?thesis
    proof (cases result)
      case (Inr inst)
      from unauthenticated_401 [OF c(2) svc routed(1,2) shape, where settings = settings and x = x and hmac = hmac and
          rsa_verify = rsa_verify and prov = no_provider and s = Auth_NewStore and now = now and p = "()" and
          route_for = "\<lambda>c. RouteFor (Some Router) (Some c)" and next_instance = "balancer_in get put" and inst = inst and
          ?x1.0 = "put lb x" and api = api and srh = srh and uid = uid]
      obtain i where "\<forall>transfer. Handler_Receive api
          (Receive (newRouter_tasks hmac rsa_verify now settings (balancer_in get put) (Inr uid) srh transfer)) r x =
        (False, ApJSON api True 401 \<lparr>ArSuccess = False, ArMessage = ''unauthorized'', ArData = NoData\<rparr> (srh RequestIDHeader i (put lb x)))"
        using x routed(3) sel Inr restricted no_token unwritten(2) by (auto simp: newRouter_tasks_def newRouter_decode_def)
      then show ?thesis using next_inst(1) Inr by (intro exI [of _ i] exI [of _ lb]) simp
    next
      case (Inl e)
      then obtain msg where msg: "e = errorf [Route_ErrNoHealthyInstance] msg" using next_inst(2) by auto
      from unroutable_503 [where r = r and u = u and settings = settings and x = x and c = c and info = info and msg = msg and
          ?x1.0 = "put lb x" and api = api and route_for = "\<lambda>c. RouteFor (Some Router) (Some c)" and next_instance = "balancer_in get put",
          OF routed(1,2) shape x routed(3)] sel Inl msg unwritten(1)
      show ?thesis using next_inst(1) by (intro exI [of _ "[]"] exI [of _ lb]) (simp add: newRouter_tasks_def)
    qed
  qed
qed

section \<open>Where the server sends a request\<close>

text \<open>The load balancer as the instance selector of the route task; its cursors are the state.\<close>

definition balancer_next :: "snapshot \<Rightarrow> string \<Rightarrow> load_balancer \<Rightarrow> instance_settings result \<times> load_balancer" where
  "balancer_next c name lb = (case NextInstance (Some lb) (Some c) name of
     (result, lb') \<Rightarrow> (result, case lb' of Some lb' \<Rightarrow> lb' | None \<Rightarrow> lb))"

definition countable_instances :: "snapshot \<Rightarrow> bool" where
  "countable_instances c \<longleftrightarrow> list_all (\<lambda>(n, svc). length (SvcInstances svc) < 2 ^ 64) (Services c)"

definition serving_entry :: "snapshot \<Rightarrow> string \<Rightarrow> string \<Rightarrow> route_info \<Rightarrow> bool" where
  "serving_entry c mth path info \<longleftrightarrow> (\<exists>r. info = routeInfoFromEntry r \<and> registered c r \<and>
     serves r (NormalizeHTTPMethod mth) (NormalizeHTTPPath path))"

definition routable_member :: "snapshot \<Rightarrow> string \<Rightarrow> load_balancer \<Rightarrow> instance_settings \<Rightarrow> bool" where
  "routable_member c name lb inst \<longleftrightarrow> (\<exists>svc. map_of (Services c) (NormalizeServiceName name) = Some svc \<and>
     inst \<in> set (SvcInstances svc) \<and> routableInstance lb inst)"

lemma NextInstance_member:
  assumes "countable_instances c" "NextInstance (Some lb) (Some c) name = (Inr inst, lb')"
  shows "routable_member c name lb inst"
proof (cases rule: NextInstance_cases [of lb c name])
  case (failed e)
  then show ?thesis using assms(2) by simp
next
  case (scanned svc l)
  have "length (SvcInstances svc) < 2 ^ 64"
    using assms(1) map_of_SomeD [OF scanned(1)] by (auto simp: countable_instances_def list_all_iff)
  moreover have "scan_instances l (SvcInstances svc) (cursor_for lb (NormalizeServiceName name)) (length (SvcInstances svc)) 0 = Some inst"
    using scanned(5) assms(2) by (simp split: option.splits)
  ultimately show ?thesis
    using scan_instances_sound [OF scanned(3), of l] scanned(1,4) by (fastforce simp: routable_member_def)
qed

interpretation router_and_balancer: gateway_routing
  "\<lambda>c. RouteFor (Some Router) (Some c)" balancer_next "\<lambda>c. snapshot_ok c \<and> countable_instances c" serving_entry routable_member
proof unfold_locales
  fix c mth path info
  assume "snapshot_ok c \<and> countable_instances c" "RouteFor (Some Router) (Some c) mth path = Some info"
  then show "serving_entry c mth path info"
    using pick_route_sound [of c] by (auto simp: RouteFor_eq serving_entry_def split: if_splits)
next
  fix c name x inst x'
  assume "snapshot_ok c \<and> countable_instances c" "balancer_next c name x = (Inr inst, x')"
  then show "routable_member c name x inst"
    using NextInstance_member by (auto simp: balancer_next_def split: prod.splits)
qed

text \<open>
  C3: Where a request can go: in every state the server can reach, either the request ends with an error before
  the transfer task, or the transfer task decides the outcome alone, on a route that a service registered for the method
  and the path of the request, with an instance registered for the same service that is routable at that moment.
\<close>

theorem transfer_goes_to_registered_instance:
  assumes "server_reachable m" "Active m = Some c" "countable_instances c" "settings lb = Active m"
  shows "(\<exists>e lb'. \<forall>transfer. Receive (newRouter_tasks hmac rsa_verify now settings balancer_next uid srh transfer) rq lb =
      (Completed (Some e), lb')) \<or>
   (\<exists>st lb1 r svc inst. registered c r \<and>
      serves r (NormalizeHTTPMethod (trim_space (RqMethod rq))) (NormalizeHTTPPath (trim_space (RqPath rq))) \<and>
      map_of (Services c) (RouteService r) = Some svc \<and> inst \<in> set (SvcInstances svc) \<and> routableInstance lb inst \<and>
      GsRoute st = Some ((routeInfoFromEntry r)\<lparr>InfoInstance := inst\<rparr>) \<and>
      (\<forall>transfer. Receive (newRouter_tasks hmac rsa_verify now settings balancer_next uid srh transfer) rq lb =
        (case run_tasks [Some transfer] st lb1 of (result, _, lb') \<Rightarrow> (result, lb'))))"
proof -
  have c: "snapshot_ok c \<and> countable_instances c"
    using server_snapshot [OF server_reachable_ok [OF assms(1)]] assms(2,3) by auto
  have s: "settings lb = Some c" using assms(2,4) by simp
  from Receive_until_transfer [of settings "\<lambda>c. RouteFor (Some Router) (Some c)" balancer_next uid srh
      "Some \<lparr>GenNewID = None\<rparr>" "Some (newRouter_decode hmac rsa_verify now)" rq lb, folded newRouter_tasks_def]
  show ?thesis
  proof (elim disjE exE conjE)
    fix st lb1
    assume may: "may_transfer settings (\<lambda>c. RouteFor (Some Router) (Some c)) balancer_next
        (Some (newRouter_decode hmac rsa_verify now)) rq lb st"
      and out: "\<forall>transfer. Receive (newRouter_tasks hmac rsa_verify now settings balancer_next uid srh transfer) rq lb =
        (case run_tasks [Some transfer] st lb1 of (result, _, lb') \<Rightarrow> (result, lb'))"
    obtain info inst where i: "GsRoute st = Some (info\<lparr>InfoInstance := inst\<rparr>)"
      "serving_entry c (trim_space (RqMethod rq)) (trim_space (RqPath rq)) info"
      "routable_member c (InfoService info) lb inst"
      using router_and_balancer.transfer_target [OF may s c] by blast
    obtain r where r: "info = routeInfoFromEntry r" "registered c r"
      "serves r (NormalizeHTTPMethod (trim_space (RqMethod rq))) (NormalizeHTTPPath (trim_space (RqPath rq)))"
      using i(2) by (auto simp: serving_entry_def)
    obtain svc where svc: "map_of (Services c) (RouteService r) = Some svc"
      using registered_normal(5) [of c r] c r(2) by blast
    then have "NormalizeServiceName (RouteService r) = RouteService r"
      using snapshot_okD(3) c by (fastforce simp: service_ok_def normalizeServiceName_def)
    then have "inst \<in> set (SvcInstances svc)" "routableInstance lb inst"
      using i(3) svc r(1) by (auto simp: routable_member_def routeInfoFromEntry_def)
    then show ?thesis using r svc i(1) out by blast
  qed blast
qed

section \<open>A server with one service\<close>

definition configured_manager :: "listener manager" where
  "configured_manager = fst (snd (ApplyConfig sample_body newRouter_manager))"

definition configured_service :: service_settings where
  "configured_service = \<lparr>SvcName = ''users'', SvcGlobal = Global sample_decoded,
     SvcHealth = Some \<lparr>Enabled = Some True, HealthPath = ''/actuator/health'', Interval = ''5s'', Timeout = ''2s'',
       Jitter = ''2s'', MaxBackoff = ''5m0s'', FailureThreshold = 2, SuccessThreshold = 1\<rparr>,
     SvcThreshold = Threshold sample_decoded,
     SvcEndpoints = [\<lparr>EndpointPath = ''/u'', EndpointMethod = ''GET'', EndpointRoles = [''r'']\<rparr>],
     SvcInstances = [\<lparr>Scheme = ''http'', Host = ''h'', Port = ''80'', HealthKey = ''users|http|h|80''\<rparr>]\<rparr>"

definition configured_snapshot :: snapshot where
  "configured_snapshot = \<lparr>Revision = 1, Services = [(''users'', configured_service)],
     Routes = [(\<lparr>KeyMethod = ''GET'', KeyPath = ''/u''\<rparr>,
       \<lparr>RouteService = ''users'', RoutePath = ''/u'', RouteMethod = ''GET'', RouteRoles = [''r'']\<rparr>)],
     WildcardRoutes = []\<rparr>"

lemma sample_registered:
  "Register sample_decoded newRouter_manager =
     (None, newRouter_manager\<lparr>Active := Some configured_snapshot\<rparr>, [(HealthManager, configured_snapshot)])"
proof -
  have parts: "fst (Register sample_decoded newRouter_manager) = None"
    "Active (fst (snd (Register sample_decoded newRouter_manager))) = Some configured_snapshot"
    "snd (snd (Register sample_decoded newRouter_manager)) = [(HealthManager, configured_snapshot)]"
    by code_simp+
  show ?thesis
  proof (cases rule: Register_commit_cases [of sample_decoded newRouter_manager])
    case (failed e)
    then show ?thesis using parts(1) by (simp add: Register_def)
  next
    case (committed name s' inst c)
    then have "Register sample_decoded newRouter_manager =
        (None, commit c newRouter_manager, snd (snd (Register sample_decoded newRouter_manager)))"
      by (simp add: Register_def)
    moreover have "c = configured_snapshot" using calculation parts(2) by (metis commit_simps(1) fst_conv option.inject snd_conv)
    ultimately show ?thesis using parts(3) by (simp add: commit_def)
  qed
qed

lemma sample_applied:
  "ApplyConfig sample_body newRouter_manager =
     ((200, success ''config registered'' NoData), newRouter_manager\<lparr>Active := Some configured_snapshot\<rparr>,
      [(HealthManager, configured_snapshot)])"
  using encode_decoded [OF sample_body_decoded]
  by (simp add: ApplyConfig_def sample_body_decoded sample_registered responseRegisterSuccess_def)

lemma configured: "server_reachable configured_manager" "Active configured_manager = Some configured_snapshot"
  using server_reachable.applied [OF server_reachable.start sample_applied] sample_applied
  by (simp_all add: configured_manager_def)

definition configured_route :: route_info where
  "configured_route = \<lparr>InfoService = ''users'', InfoPath = ''/u'', InfoHttpMethod = ''GET'', InfoRoles = [''r''],
     InfoInstance = zero_instance\<rparr>"

lemma configured_RouteFor: "RouteFor (Some Router) (Some configured_snapshot) ''get '' ''/u'' = Some configured_route"
  by code_simp

theorem served_routes_are_usable_witness:
  "\<exists>svc cfg. map_of (Services configured_snapshot) ''users'' = Some svc \<and>
    SnapshotFor no_provider (Some Auth_NewStore) (Some configured_snapshot) ''users'' = Some cfg \<and>
    list_all (instance_normal ''users'') (SvcInstances svc) \<and>
    (case SvcThreshold svc of None \<Rightarrow> True
     | Some t \<Rightarrow> list_all (\<lambda>p. 0 \<le> RPS p \<and> 0 \<le> InFlight p) [Normal t, Hot t, Super t])"
proof -
  have "InfoService configured_route = ''users''" by (simp add: configured_route_def)
  then show ?thesis
    using served_routes_are_usable [OF configured, of "''get ''" "''/u''" configured_route no_provider Auth_NewStore]
      configured_RouteFor configured(2) by simp
qed

theorem registered_service_is_found_witness:
  "\<exists>svc. Handler_ConfigFor '' USERS'' (Some configured_manager) = (200, success ''config found'' (SettingsData svc)) \<and>
    map EndpointRoles (SvcEndpoints svc) = [[''r'']] \<and> map_option FailureThreshold (SvcHealth svc) = Some 2"
proof -
  have n: "normalizeServiceName '' USERS'' = normalizeServiceName (ServiceName sample_decoded)" by code_simp
  have a: "ApplyConfig sample_body newRouter_manager =
      ((200, success ''config registered'' NoData), configured_manager, [(HealthManager, configured_snapshot)])"
    using sample_applied by (simp add: configured_manager_def)
  have s: "map (map trim_space \<circ> EndpointRoles) (Endpoints sample_decoded) = [[''r'']]"
    "FailureThreshold (case Health sample_decoded of None \<Rightarrow> no_health | Some g \<Rightarrow> g) \<in> {0, 2}" by code_simp+
  have roles: "map EndpointRoles ns = map (map trim_space \<circ> EndpointRoles) es" if "list_all2 endpoint_taken_from es ns" for es ns
    using that by (induction rule: list_all2_induct) (simp_all add: endpoint_taken_from_def)
  show ?thesis
    using registered_service_is_found [OF server_reachable.start sample_body_decoded a n] roles s
    by (auto simp: health_taken_from_def)
qed

theorem Register_succeeds_iff_witness:
  "fst (Register (sample_decoded\<lparr>ServiceName := '' orders''\<rparr>) configured_manager) \<noteq> None \<and>
   fst (Register sample_decoded configured_manager) = None"
proof -
  have "settings_acceptable sample_decoded" by code_simp
  moreover have "\<not> list_all (\<lambda>e. route_available configured_snapshot (to_lower (trim_space '' orders'')) (route_of_endpoint e))
      (Endpoints sample_decoded)"
    "list_all (\<lambda>e. route_available configured_snapshot (to_lower (trim_space (ServiceName sample_decoded))) (route_of_endpoint e))
      (Endpoints sample_decoded)" by code_simp+
  ultimately show ?thesis
    using Register_succeeds_iff [OF configured] by simp
qed

theorem DeregisterInstance_effect_witness:
  "\<exists>c'. DeregisterInstance ''Users'' \<lparr>Scheme = '' HTTP'', Host = '' H'', Port = ''080'', HealthKey = []\<rparr> configured_manager =
     (None, configured_manager\<lparr>Active := Some c'\<rparr>, [(HealthManager, c')]) \<and>
     Routes c' = Routes configured_snapshot \<and> map_option SvcInstances (map_of (Services c') ''users'') = Some []"
proof -
  let ?i = "\<lparr>Scheme = ''http'', Host = ''h'', Port = ''80'', HealthKey = ''users|http|h|80''\<rparr>"
  have n: "''users'' = normalizeServiceName ''Users''"
    "normalizeInstanceSettings ''users'' \<lparr>Scheme = '' HTTP'', Host = '' H'', Port = ''080'', HealthKey = []\<rparr> = Inr ?i"
    by code_simp+
  have svc: "map_of (Services configured_snapshot) ''users'' = Some configured_service"
    by (simp add: configured_snapshot_def)
  show ?thesis
    using DeregisterInstance_effect [OF configured n(1) _ n(2)] unfolding svc
    by (auto simp: configured_service_def instance_addr_def)
qed

definition delete_body :: string where
  "delete_body = ''{\"scheme\":\"http\",\"host\":\"h\",\"port\":\"81\"}''"

theorem deregistration_status_witness:
  "fst (fst (Handler_DeregisterInstance ''users'' delete_body configured_manager)) = 404"
proof -
  have "deregister_status configured_snapshot ''users'' delete_body = 404" by code_simp
  then show ?thesis using deregistration_status [OF configured, of "''users''" delete_body] by simp
qed

definition sample_api :: "(load_balancer \<times> (int \<times> string) list) api_ops" where
  "sample_api = \<lparr>ApWritten = (\<lambda>(lb, out). out \<noteq> []), ApJSON = (\<lambda>_ code answer (lb, out). (lb, out @ [(code, ArMessage answer)]))\<rparr>"

definition sample_get :: http_request where
  "sample_get = sample_http_request\<lparr>HrURL := map_option (\<lambda>u. u\<lparr>UPath := ''/u''\<rparr>) (HrURL sample_http_request),
     HrHeader := [(''Authorization'', [''Bearer a.b''])]\<rparr>"

theorem unauthenticated_request_gets_401_witness:
  "\<exists>lb. Handler_Receive sample_api (Receive (newRouter_tasks (\<lambda>_ _. []) (\<lambda>_ _ _. False) 0 (\<lambda>_. Active configured_manager)
      (balancer_in fst (\<lambda>lb x. (lb, snd x))) (Inr ''uuid'') (\<lambda>_ _ x. x) (\<lambda>st x. (Panicked, st, x)))) sample_get
      (NewLoadBalancer None, []) =
   (False, lb, [(401, ''unauthorized'')])"
proof -
  obtain u where u: "HrURL sample_get = Some u" "UPath u = ''/u''"
    by (simp add: sample_get_def sample_http_request_def sample_base_def)
  have route: "UPath u \<noteq> ConfigApplyRoute"
    "RouteFor (Some Router) (Some configured_snapshot) (trim_space (HrMethod sample_get)) (trim_space (UPath u)) = Some configured_route"
    unfolding u(2) by code_simp+
  have token: "BearerTokenFor (header_get (HrHeader sample_get) ''Authorization'') = Inr ''a.b''"
    "case newRouter_decode (\<lambda>_ _. []) (\<lambda>_ _ _. False) 0 (Some configured_snapshot) ''users'' ''a.b'' of Inl _ \<Rightarrow> True | Inr _ \<Rightarrow> False"
    by code_simp+
  have refused: "newRouter_decode (\<lambda>_ _. []) (\<lambda>_ _ _. False) 0 (Some configured_snapshot) (InfoService configured_route) t \<noteq> Inr cl"
    if "BearerTokenFor (header_get (HrHeader sample_get) ''Authorization'') = Inr t" for t cl
    using token that by (auto simp: configured_route_def split: sum.splits)
  have "\<not> isl (fst (NextInstance (Some (NewLoadBalancer None)) (Some configured_snapshot) ''users''))" by code_simp
  then obtain inst where inst: "fst (NextInstance (Some (NewLoadBalancer None)) (Some configured_snapshot)
      (InfoService configured_route)) = Inr inst"
    by (cases "fst (NextInstance (Some (NewLoadBalancer None)) (Some configured_snapshot) ''users'')")
      (auto simp: configured_route_def)
  from unauthenticated_request_gets_401 [OF configured _ u(1) route, where settings = "\<lambda>_. Active configured_manager" and
      get = fst and put = "\<lambda>lb x. (lb, snd x)" and x = "(NewLoadBalancer None, [])" and
      srh = "\<lambda>_ _ x. x" and api = sample_api and uid = "''uuid''" and
      hmac = "\<lambda>_ _. []" and rsa_verify = "\<lambda>_ _ _. False" and now = 0]
  show ?thesis using refused inst by (simp add: configured_route_def sample_api_def) blast
qed

theorem transfer_goes_to_registered_instance_witness:
  "(\<exists>e lb'. \<forall>transfer. Receive (newRouter_tasks (\<lambda>_ _. []) (\<lambda>_ _ _. False) 0 (\<lambda>_. Active configured_manager) balancer_next
      (Inr ''uuid'') (\<lambda>_ _ lb. lb) transfer) (gateway_request sample_get ''/u'') (NewLoadBalancer None) =
      (Completed (Some e), lb')) \<or>
   (\<exists>st lb1 r svc inst. registered configured_snapshot r \<and>
      serves r (NormalizeHTTPMethod (trim_space (RqMethod (gateway_request sample_get ''/u''))))
        (NormalizeHTTPPath (trim_space (RqPath (gateway_request sample_get ''/u'')))) \<and>
      map_of (Services configured_snapshot) (RouteService r) = Some svc \<and> inst \<in> set (SvcInstances svc) \<and>
      routableInstance (NewLoadBalancer None) inst \<and> GsRoute st = Some ((routeInfoFromEntry r)\<lparr>InfoInstance := inst\<rparr>) \<and>
      (\<forall>transfer. Receive (newRouter_tasks (\<lambda>_ _. []) (\<lambda>_ _ _. False) 0 (\<lambda>_. Active configured_manager) balancer_next
          (Inr ''uuid'') (\<lambda>_ _ lb. lb) transfer) (gateway_request sample_get ''/u'') (NewLoadBalancer None) =
        (case run_tasks [Some transfer] st lb1 of (result, _, lb') \<Rightarrow> (result, lb'))))"
proof -
  have "countable_instances configured_snapshot"
    by (simp add: countable_instances_def configured_snapshot_def configured_service_def)
  from transfer_goes_to_registered_instance [OF configured this, where lb = "NewLoadBalancer None" and
      settings = "\<lambda>_. Active configured_manager", OF refl]
  show ?thesis .
qed

section \<open>The address of the server\<close>

definition defaultListenAddress :: string where "defaultListenAddress = '':1313''"

text \<open>\<open>port\<close> is the variable \<open>PORT\<close> of the environment, empty when it is not set.\<close>

definition listenAddress :: "string \<Rightarrow> string" where
  "listenAddress port = (if port \<noteq> [] then '':'' @ port else defaultListenAddress)"

end
