(* ===== verification/Probe.thy ===== *)
theory Probe
  imports Gateway
begin

text \<open>
  The address a health check calls (\<open>healthURL\<close> of \<open>internal/health/config.go\<close>), and how it relates to the
  address the transfer task dials. \<open>url.URL.String\<close> escapes the host and the path, each by a set of characters of
  its own; for a URL without user, opaque part, query and fragment, as here, it is the definition below.
\<close>

section \<open>Escaping (\<open>net/url\<close>)\<close>

definition url_unreserved :: "char \<Rightarrow> bool" where
  "url_unreserved c \<longleftrightarrow> is_letter c \<or> is_digit c \<or> c \<in> set ''-_.~''"

definition host_plain :: "char \<Rightarrow> bool" where
  "host_plain c \<longleftrightarrow> url_unreserved c \<or> c \<in> set ''!$&()*+,;=:[]<>'' \<or> c = CHR 0x27 \<or> c = CHR 0x22"

definition path_plain :: "char \<Rightarrow> bool" where
  "path_plain c \<longleftrightarrow> url_unreserved c \<or> c \<in> set ''$&+,/:;=@''"

definition hex_char :: "nat \<Rightarrow> char" where
  "hex_char n = ''0123456789ABCDEF'' ! n"

fun url_escape :: "(char \<Rightarrow> bool) \<Rightarrow> string \<Rightarrow> string" where
  "url_escape plain [] = []"
| "url_escape plain (c # s) =
     (if plain c then [c] else [CHR ''%'', hex_char (of_char c div 16), hex_char (of_char c mod 16)]) @
     url_escape plain s"

fun url_unescape :: "string \<Rightarrow> string option" where
  "url_unescape [] = Some []"
| "url_unescape (c # s) =
     (if c \<noteq> CHR ''%'' then map_option (Cons c) (url_unescape s)
      else (case s of
          a # b # t \<Rightarrow> (case (hex_val a, hex_val b) of
              (Some x, Some y) \<Rightarrow> map_option (Cons (char_of (16 * x + y))) (url_unescape t)
            | _ \<Rightarrow> None)
        | _ \<Rightarrow> None))"

text \<open>\<open>url.URL{Scheme, Host, Path}.String()\<close> for a scheme and a host that are not empty.\<close>

definition url_string :: "string \<Rightarrow> string \<Rightarrow> string \<Rightarrow> string" where
  "url_string scheme host path =
     (let escaped = (if path = ''*'' then ''*'' else url_escape path_plain path)
      in scheme @ ''://'' @ url_escape host_plain host @
         (if escaped \<noteq> [] \<and> hd escaped \<noteq> CHR ''/'' then ''/'' else []) @ escaped)"

section \<open>\<open>healthURL\<close> and the check of a target\<close>

definition healthURL :: "instance_settings \<Rightarrow> string \<Rightarrow> string" where
  "healthURL inst path =
     url_string (to_lower (trim_space (Scheme inst)))
       (join_host_port (trim_space (Host inst)) (trim_space (Port inst))) path"

text \<open>\<open>check\<close> of a target; \<open>get\<close> is what a GET request to a URL gives.\<close>

definition check_target :: "(string \<Rightarrow> check_outcome) \<Rightarrow> int option \<Rightarrow> target \<Rightarrow> bool \<times> go_error option" where
  "check_target get client t = check client (get (healthURL (TargetInstance t) (RPath (TargetSettings t))))"

section \<open>Escaping loses nothing\<close>

lemma hex_val_hex_char: "n < 16 \<Longrightarrow> hex_val (hex_char n) = Some n"
proof -
  have "\<forall>n \<in> set [0 ..< 16]. hex_val (hex_char n) = Some n" by code_simp
  then show "n < 16 \<Longrightarrow> ?thesis" by simp
qed

lemma url_unescape_escape:
  assumes "\<not> plain (CHR ''%'')"
  shows "url_unescape (url_escape plain s) = Some s"
proof (induction s)
  case (Cons c s)
  have "of_char c < (256 :: nat)" by simp
  then have "(of_char c :: nat) div 16 < 16" "(of_char c :: nat) mod 16 < 16" by (simp_all add: less_mult_imp_div_less)
  then show ?case using Cons assms by (auto simp: hex_val_hex_char)
qed simp

lemma url_escape_plain: "list_all plain s \<Longrightarrow> url_escape plain s = s"
  by (induction s) auto

lemma hex_char_plain: "n < 16 \<Longrightarrow> is_letter (hex_char n) \<or> is_digit (hex_char n)"
proof -
  have "\<forall>n \<in> set [0 ..< 16]. is_letter (hex_char n) \<or> is_digit (hex_char n)" by code_simp
  then show "n < 16 \<Longrightarrow> ?thesis" by simp
qed

lemma url_escape_chars:
  "c \<in> set (url_escape plain s) \<Longrightarrow> plain c \<or> c = CHR ''%'' \<or> is_letter c \<or> is_digit c"
proof (induction s)
  case (Cons x s)
  have "of_char x < (256 :: nat)" by simp
  then have "(of_char x :: nat) div 16 < 16" "(of_char x :: nat) mod 16 < 16" by (simp_all add: less_mult_imp_div_less)
  note hex = this [THEN hex_char_plain]
  show ?case using Cons hex by (auto split: if_splits)
qed simp

lemma escaped_path_chars: "CHR ''?'' \<notin> set (url_escape path_plain s) \<and> CHR ''#'' \<notin> set (url_escape path_plain s)"
proof -
  have "\<forall>c \<in> set ''?#''. \<not> (path_plain c \<or> c = CHR ''%'' \<or> is_letter c \<or> is_digit c)" by code_simp
  then show ?thesis using url_escape_chars [of _ path_plain s] by auto
qed

section \<open>The check probes what the gateway forwards to\<close>

lemma url_string_plain:
  "list_all host_plain host \<Longrightarrow> has_prefix path ''/'' \<Longrightarrow>
    url_string scheme host path = scheme @ ''://'' @ host @ url_escape path_plain path"
  by (cases path) (auto simp: url_string_def url_escape_plain has_prefix_def path_plain_def url_unreserved_def Let_def)

lemma digits_host_plain: "list_all is_digit s \<Longrightarrow> list_all host_plain s"
  by (auto simp: list_all_iff host_plain_def url_unreserved_def)

lemma join_host_port_plain:
  "list_all host_plain h \<Longrightarrow> list_all host_plain p \<Longrightarrow> list_all host_plain (join_host_port h p)"
  by (simp add: join_host_port_def host_plain_def)

text \<open>
  C39: For an instance as the registration stores it, the health check asks exactly the scheme, host and port that the
  transfer task dials, whatever the letter case and the spacing in the request, and a path that unescapes to
  the configured one; the request has neither query nor fragment. The host is assumed to have no brackets and no
  character a URL would escape.
\<close>

theorem health_check_probes_forwarded_address:
  assumes inst: "normalizeInstanceSettings name i = Inr j" "CHR ''['' \<notin> set (Host i)" "CHR '']'' \<notin> set (Host i)"
    and host: "list_all host_plain (Host j)" and path: "has_prefix path ''/''"
  shows "\<exists>base escaped. upstreamHost (Scheme j) (Host j) (Port j) = Inr base \<and> healthURL j path = base @ escaped \<and>
    url_unescape escaped = Some path \<and> CHR ''?'' \<notin> set escaped \<and> CHR ''#'' \<notin> set escaped"
proof -
  obtain h p where hp: "NormalizeHostPort (Host i) (Port i) = Inr (h, p)" "Host j = h" "Port j = p"
    and scheme: "Scheme j = ''http'' \<or> Scheme j = ''https''"
    using inst(1) by (auto simp: normalizeInstanceSettings_def Let_def split: if_splits sum.splits)
  obtain q where q: "host_ok (Host i)" "port_ok (Port i) q"
    using NormalizeHostPort_Inr_ok [OF hp(1)] by blast
  have h: "h = to_lower (trim_space (Host i))" "p = itoa q"
    using NormalizeHostPort_plain [OF q inst(2,3)] hp(1) by simp_all
  have digits: "list_all is_digit p" using h q(2) nat_digits_digits
    by (auto simp: itoa_def list_all_iff port_ok_def)
  have trimmed: "trim_space h = h" "trim_space p = p" using h digits trim_space_digits
    by (auto simp: list_all_iff)
  have sch: "to_lower (trim_space (Scheme j)) = Scheme j" using scheme by (elim disjE) (simp_all, code_simp+)
  have "list_all host_plain (join_host_port h p)"
    using host hp(2) digits_host_plain [OF digits] join_host_port_plain by simp
  then have "healthURL j path = Scheme j @ ''://'' @ join_host_port h p @ url_escape path_plain path"
    using url_string_plain path by (simp add: healthURL_def hp(2,3) trimmed sch)
  moreover have "upstreamHost (Scheme j) (Host j) (Port j) = Inr (Scheme j @ ''://'' @ join_host_port h p)"
    using registered_address_is_reachable [OF inst] hp(3) h by simp
  moreover have "url_unescape (url_escape path_plain path) = Some path"
    by (rule url_unescape_escape) (simp add: path_plain_def url_unreserved_def, code_simp)
  ultimately show ?thesis using escaped_path_chars by auto
qed

definition probed_instance :: instance_settings where
  "probed_instance = \<lparr>Scheme = ''http'', Host = ''10.0.0.1'', Port = ''8080'', HealthKey = healthKeyFor ''orders'' ''http'' ''10.0.0.1'' ''8080''\<rparr>"

theorem health_check_probes_forwarded_address_witness:
  "(\<exists>base escaped. upstreamHost ''http'' ''10.0.0.1'' ''8080'' = Inr base \<and> healthURL probed_instance ''/live ness'' = base @ escaped \<and>
    url_unescape escaped = Some ''/live ness'' \<and> CHR ''?'' \<notin> set escaped \<and> CHR ''#'' \<notin> set escaped) \<and>
   healthURL probed_instance ''/live ness'' = ''http://10.0.0.1:8080/live%20ness''"
proof
  have "normalizeInstanceSettings ''orders'' \<lparr>Scheme = '' HTTP'', Host = '' 10.0.0.1'', Port = ''08080'', HealthKey = []\<rparr> =
    Inr probed_instance" by code_simp
  moreover have "list_all host_plain (Host probed_instance)" "has_prefix ''/live ness'' ''/''" by code_simp+
  ultimately show "\<exists>base escaped. upstreamHost ''http'' ''10.0.0.1'' ''8080'' = Inr base \<and>
      healthURL probed_instance ''/live ness'' = base @ escaped \<and> url_unescape escaped = Some ''/live ness'' \<and>
      CHR ''?'' \<notin> set escaped \<and> CHR ''#'' \<notin> set escaped"
    using health_check_probes_forwarded_address [of "''orders''"
        "\<lparr>Scheme = '' HTTP'', Host = '' 10.0.0.1'', Port = ''08080'', HealthKey = []\<rparr>" probed_instance "''/live ness''"]
    by (simp add: probed_instance_def)
  show "healthURL probed_instance ''/live ness'' = ''http://10.0.0.1:8080/live%20ness''" by code_simp
qed

text \<open>
  The path is escaped as a path: in one with a query, which \<open>normalizeHealthSettings\<close> accepts and keeps, the
  question mark becomes \<open>%3F\<close>, so the check asks for a resource of that name and not for the path with the query.
\<close>

lemma health_path_query_is_escaped:
  "(case normalizeHealthSettings (Some \<lparr>Enabled = None, HealthPath = ''/health?ready=1'', Interval = [], Timeout = [],
      Jitter = [], MaxBackoff = [], FailureThreshold = 0, SuccessThreshold = 0\<rparr>) of
      Inr h \<Rightarrow> HealthPath h = ''/health?ready=1'' | Inl _ \<Rightarrow> False) \<and>
   healthURL probed_instance ''/health?ready=1'' = ''http://10.0.0.1:8080/health%3Fready=1''"
  by (rule conjI) code_simp+

end
