(* ===== verification/Server.thy ===== *)
theory Server
  imports Wiring Probe
begin

text \<open>
  What the server of \<open>cmd/main.go\<close> does with a request, from the first middleware to the last handler, with the
  state of all components in one record.

  Third-party code is gathered in \<open>server_env\<close>: the routing of the web framework, its recovery middleware and its
  response writer, the Prometheus handler, the cryptographic functions, the upstream, and the clock at each
  point where the code reads it. Requests are served one at a time here; how the steps of concurrent requests
  interleave is the subject of \<open>Health\<close>, \<open>Traffic\<close> and \<open>Coordinator\<close>.
\<close>

section \<open>State\<close>

record 'w server =
  SvManager :: "listener manager"
  SvHealth :: health_system
  SvCursors :: "(string, 64 word) gomap"
  SvTraffic :: recorder
  SvPolicy :: policy_store
  SvPool :: coordinator
  SvCalls :: metric_log
  SvWriter :: 'w

text \<open>
  The routes that the handlers register behind the middlewares; what no route matches goes to the gateway (\<open>NoRoute\<close>).
\<close>

datatype endpoint = MetricsEndpoint | ApplyEndpoint | ConfigForEndpoint | DeregisterEndpoint

definition metric_RegisterRoutes :: "string \<times> string" where
  "metric_RegisterRoutes = (''GET'', metric_Route)"

definition RegisterRoutes :: "endpoint \<Rightarrow> string \<times> string" where
  "RegisterRoutes e = (case e of
     MetricsEndpoint \<Rightarrow> metric_RegisterRoutes
   | ApplyEndpoint \<Rightarrow> (''POST'', ConfigApplyRoute)
   | ConfigForEndpoint \<Rightarrow> (''GET'', ConfigForRoute)
   | DeregisterEndpoint \<Rightarrow> (''DELETE'', ConfigInstanceRoute))"

text \<open>
  \<open>EvMatch\<close> gives the endpoint for a method and a path, and the value of \<open>:serviceName\<close>. \<open>EvDirect\<close> is the answer to
  the requests that reach no middleware: those to \<open>pprof\<close>, which is registered before them, and the redirects of the
  framework itself.
\<close>

record 'w server_env =
  EvDirect :: "http_request \<Rightarrow> ('w \<Rightarrow> 'w) option"
  EvMatch :: "string \<Rightarrow> string \<Rightarrow> (endpoint \<times> string) option"
  EvRecover :: "'w \<Rightarrow> 'w"
  EvScrape :: "metric_log \<Rightarrow> 'w \<Rightarrow> 'w"
  EvStatus :: "'w \<Rightarrow> int"
  EvApi :: "'w api_ops"
  EvForward :: "(coordinator, 'w) forward_env"
  EvHmac :: "string \<Rightarrow> string \<Rightarrow> string"
  EvRsa :: "rsa_public_key \<Rightarrow> string \<Rightarrow> string \<Rightarrow> bool"
  EvUid :: "string result"
  EvBegin :: time
  EvDecode :: time
  EvStart :: time
  EvRead :: time
  EvAssign :: time
  EvDone :: time
  EvEnd :: time

section \<open>The gateway on the stores of the server\<close>

definition server_balancer :: "'w server \<Rightarrow> load_balancer" where
  "server_balancer w =
     (NewLoadBalancer (Some (IsRoutableKey (Some (Store (HManager (SvHealth w))))))) \<lparr>Cursors := SvCursors w\<rparr>"

definition server_next :: "snapshot \<Rightarrow> string \<Rightarrow> 'w server \<Rightarrow> instance_settings result \<times> 'w server" where
  "server_next c name w = (case balancer_next c name (server_balancer w) of
     (result, lb) \<Rightarrow> (result, w\<lparr>SvCursors := Cursors lb\<rparr>))"

definition server_forward ::
  "transport \<Rightarrow> (pool_config \<times> (tier, pool_config) gomap) list \<Rightarrow> 'w server_env \<Rightarrow> (coordinator, 'w) forward_env" where
  "server_forward t settings env = (EvForward env)\<lparr>
     EnvAcquire := \<lambda>a s. lease_of (acquire_loaded t settings a s), EnvFinish := client_release, EnvRecorder := True\<rparr>"

definition server_handle ::
  "transport \<Rightarrow> (pool_config \<times> (tier, pool_config) gomap) list \<Rightarrow> 'w server_env \<Rightarrow>
   forward_request \<Rightarrow> 'w server \<Rightarrow> handle_result \<times> 'w server" where
  "server_handle t settings env rq w =
     (case Handle (server_forward t settings env) rq
             \<lparr>FwClients = SvPool w, FwCalls = SvCalls w, FwWriter = Some (SvWriter w)\<rparr> of
        (result, x) \<Rightarrow> (result, w\<lparr>SvPool := FwClients x, SvCalls := FwCalls x,
          SvWriter := (case FwWriter x of None \<Rightarrow> SvWriter w | Some writer \<Rightarrow> writer)\<rparr>))"

definition server_transfer ::
  "transport \<Rightarrow> (pool_config \<times> (tier, pool_config) gomap) list \<Rightarrow> 'w server_env \<Rightarrow> 'w server transfer_ops" where
  "server_transfer t settings env = \<lparr>
     TrRecorder = True,
     TrStart = (\<lambda>key w. case Start (EvStart env) key (Some (SvTraffic w)) of
       (d, r) \<Rightarrow> (d, w\<lparr>SvTraffic := (case r of None \<Rightarrow> SvTraffic w | Some r \<Rightarrow> r)\<rparr>)),
     TrDone = (\<lambda>d w. w\<lparr>SvTraffic := snd (call_done (EvDone env) d (SvTraffic w))\<rparr>),
     TrStatus = (\<lambda>key w. StatusFor (EvRead env) key (Some (SvTraffic w))),
     TrAssign = (\<lambda>snap status w. case AssignmentFor (EvAssign env) snap status (Some (SvPolicy w)) of
       (a, s) \<Rightarrow> (a, w\<lparr>SvPolicy := (case s of None \<Rightarrow> SvPolicy w | Some s \<Rightarrow> s)\<rparr>)),
     TrHandle = server_handle t settings env\<rparr>"

definition server_set_header :: "'w server_env \<Rightarrow> string \<Rightarrow> string \<Rightarrow> 'w server \<Rightarrow> 'w server" where
  "server_set_header env key v w =
     (let ops = EnvOps (EvForward env)
      in w\<lparr>SvWriter := OpSetHeader ops (header_set key v (OpHeader ops (SvWriter w))) (SvWriter w)\<rparr>)"

definition server_api :: "'w server_env \<Rightarrow> 'w server api_ops" where
  "server_api env = \<lparr>ApWritten = (\<lambda>w. ApWritten (EvApi env) (SvWriter w)),
     ApJSON = (\<lambda>abort code answer w. w\<lparr>SvWriter := ApJSON (EvApi env) abort code answer (SvWriter w)\<rparr>)\<rparr>"

definition server_gateway ::
  "transport \<Rightarrow> (pool_config \<times> (tier, pool_config) gomap) list \<Rightarrow> 'w server_env \<Rightarrow>
   http_request \<Rightarrow> 'w server \<Rightarrow> bool \<times> 'w server" where
  "server_gateway t settings env =
     Handler_Receive (server_api env)
       (Receive (newRouter_tasks (EvHmac env) (EvRsa env) (EvDecode env) (\<lambda>w. Settings (Some (SvManager w)))
          server_next (EvUid env) (server_set_header env) (TransferTask_Run (server_transfer t settings env))))"

section \<open>The configuration API of the server\<close>

definition OnSnapshotCommitted :: "snapshot option \<Rightarrow> health_system \<Rightarrow> health_system" where
  "OnSnapshotCommitted c hs = (case reconcile c (HManager hs) of (cancels, started, m') \<Rightarrow>
     \<lparr>HManager = m', Loops = Loops hs @ map start_loop started, Cancelled = Cancelled hs @ cancels\<rparr>)"

definition notify_health :: "(listener \<times> snapshot) list \<Rightarrow> health_system \<Rightarrow> health_system" where
  "notify_health calls hs = foldl (\<lambda>hs (_, c). OnSnapshotCommitted (Some c) hs) hs calls"

definition server_answer :: "'w server_env \<Rightarrow> int \<times> api_response \<Rightarrow> 'w server \<Rightarrow> 'w server" where
  "server_answer env answer w = (case answer of (code, response) \<Rightarrow>
     ApJSON (server_api env) (code \<noteq> 200) code response w)"

definition metric_Serve :: "'w server_env \<Rightarrow> 'w server \<Rightarrow> 'w server" where
  "metric_Serve env w = w\<lparr>SvWriter := EvScrape env (SvCalls w) (SvWriter w)\<rparr>"

definition serve_endpoint :: "'w server_env \<Rightarrow> endpoint \<Rightarrow> string \<Rightarrow> http_request \<Rightarrow> 'w server \<Rightarrow> 'w server" where
  "serve_endpoint env e serviceName r w = (case e of
     MetricsEndpoint \<Rightarrow> metric_Serve env w
   | ApplyEndpoint \<Rightarrow> (case ApplyConfig (HrBody r) (SvManager w) of (answer, m, calls) \<Rightarrow>
       server_answer env answer (w\<lparr>SvManager := m, SvHealth := notify_health calls (SvHealth w)\<rparr>))
   | ConfigForEndpoint \<Rightarrow> server_answer env (Handler_ConfigFor serviceName (Some (SvManager w))) w
   | DeregisterEndpoint \<Rightarrow> (case Handler_DeregisterInstance serviceName (HrBody r) (SvManager w) of
       (answer, m, calls) \<Rightarrow>
         server_answer env answer (w\<lparr>SvManager := m, SvHealth := notify_health calls (SvHealth w)\<rparr>)))"

section \<open>The chain of handlers\<close>

definition request_path :: "http_request \<Rightarrow> string" where
  "request_path r = (case HrURL r of None \<Rightarrow> [] | Some u \<Rightarrow> UPath u)"

text \<open>The last handler of the chain; the first component of the result is true when it panics.\<close>

definition server_dispatch ::
  "transport \<Rightarrow> (pool_config \<times> (tier, pool_config) gomap) list \<Rightarrow> 'w server_env \<Rightarrow>
   http_request \<Rightarrow> 'w server \<Rightarrow> bool \<times> 'w server" where
  "server_dispatch t settings env r w = (case EvMatch env (HrMethod r) (request_path r) of
     None \<Rightarrow> server_gateway t settings env r w
   | Some (e, serviceName) \<Rightarrow> (False, serve_endpoint env e serviceName r w))"

text \<open>\<open>gin.Recovery()\<close>: a panic of the handlers behind it ends here, with an answer of its own.\<close>

definition recovery :: "('w \<Rightarrow> 'w) \<Rightarrow> ('w server \<Rightarrow> bool \<times> 'w server) \<Rightarrow> 'w server \<Rightarrow> bool \<times> 'w server" where
  "recovery recover rest w = (case rest w of
     (True, w) \<Rightarrow> (False, w\<lparr>SvWriter := recover (SvWriter w)\<rparr>)
   | (False, w) \<Rightarrow> (False, w))"

definition full_path :: "'w server_env \<Rightarrow> http_request \<Rightarrow> string" where
  "full_path env r = (case EvMatch env (HrMethod r) (request_path r) of
     None \<Rightarrow> [] | Some (e, _) \<Rightarrow> snd (RegisterRoutes e))"

text \<open>\<open>BuildRequestObserver\<close>: when the handlers behind it panic, the completion is not recorded.\<close>

definition request_observer ::
  "'w server_env \<Rightarrow> http_request \<Rightarrow> ('w server \<Rightarrow> bool \<times> 'w server) \<Rightarrow> 'w server \<Rightarrow> bool \<times> 'w server" where
  "request_observer env r rest w =
     (if request_path r = metric_Route then rest w
      else (let (d, calls) = recordRequest (EvBegin env) (SvCalls w);
                (panicked, w) = rest (w\<lparr>SvCalls := calls\<rparr>)
            in if panicked then (True, w)
               else (let path = full_path env r;
                         path = (if path = [] then routeGateway else path);
                         observation = \<lparr>ObsMethod = HrMethod r, ObsPath = path, ObsStatusCode = EvStatus env (SvWriter w)\<rparr>
                     in (False, w\<lparr>SvCalls := snd (request_done_call (EvEnd env) observation d (SvCalls w))\<rparr>))))"

definition server_serve ::
  "transport \<Rightarrow> (pool_config \<times> (tier, pool_config) gomap) list \<Rightarrow> 'w server_env \<Rightarrow>
   http_request \<Rightarrow> 'w server \<Rightarrow> bool \<times> 'w server" where
  "server_serve t settings env r w = (case EvDirect env r of
     Some answer \<Rightarrow> (False, w\<lparr>SvWriter := answer (SvWriter w)\<rparr>)
   | None \<Rightarrow> request_observer env r (recovery (EvRecover env) (server_dispatch t settings env r)) w)"

section \<open>What a request leaves as it was\<close>

definition http_calls :: "metric_log \<Rightarrow> metric_log" where
  "http_calls calls = filter (\<lambda>c. call_metric c \<in> {HTTPRequests, HTTPDuration, HTTPInFlight, HTTPFailures}) calls"

definition in_flight :: "recorder \<Rightarrow> string \<Rightarrow> int" where
  "in_flight r key = (case gomap_get (Records r) key of None \<Rightarrow> 0 | Some rec \<Rightarrow> RInFlight rec)"

text \<open>The counters are 64-bit integers.\<close>

definition traffic_fits :: "recorder \<Rightarrow> bool" where
  "traffic_fits r \<longleftrightarrow> (\<forall>key. wrap_i64 (in_flight r key) = in_flight r key)"

definition undisturbed :: "'w server \<Rightarrow> 'w server \<Rightarrow> bool" where
  "undisturbed w w' \<longleftrightarrow>
     (coordinator_ok (SvPool w) \<longrightarrow> coordinator_ok (SvPool w') \<and> pending_leases (SvPool w') = pending_leases (SvPool w)) \<and>
     (\<forall>ls. books (SvCalls w') ls = books (SvCalls w) ls) \<and> http_calls (SvCalls w') = http_calls (SvCalls w) \<and>
     (traffic_fits (SvTraffic w) \<longrightarrow> traffic_fits (SvTraffic w') \<and> in_flight (SvTraffic w') = in_flight (SvTraffic w)) \<and>
     (policy_store_ok (SvPolicy w) \<longrightarrow> policy_store_ok (SvPolicy w')) \<and>
     SvManager w' = SvManager w \<and> SvHealth w' = SvHealth w"

lemma undisturbed_refl [simp]: "undisturbed w w"
  by (simp add: undisturbed_def)

lemma undisturbed_trans: "undisturbed w w' \<Longrightarrow> undisturbed w' w'' \<Longrightarrow> undisturbed w w''"
  by (auto simp: undisturbed_def)

lemma undisturbed_writer [simp]: "undisturbed w (w'\<lparr>SvWriter := x\<rparr>) = undisturbed w w'"
  "undisturbed (w\<lparr>SvWriter := x\<rparr>) w' = undisturbed w w'"
  by (simp_all add: undisturbed_def)

lemma undisturbed_cursors [simp]: "undisturbed w (w'\<lparr>SvCursors := m\<rparr>) = undisturbed w w'"
  by (simp add: undisturbed_def)

subsection \<open>Traffic\<close>

lemma in_flight_put: "in_flight (r\<lparr>Records := gomap_put k rec m\<rparr>) x =
    (if x = k then RInFlight rec else in_flight (r\<lparr>Records := m\<rparr>) x)"
  by (simp add: in_flight_def)

lemma in_flight_same [simp]: "in_flight (r\<lparr>Records := Records r\<rparr>) = in_flight r"
  by (simp add: fun_eq_iff in_flight_def)

lemma begin_record_in_flight: "RInFlight (begin_record t r key) = wrap_i64 (in_flight r key + 1)"
  by (simp add: begin_record_def in_flight_def new_record_def Let_def split: option.split)

lemma start_then_done:
  assumes fits: "traffic_fits r" and st: "Start t k (Some r) = (d, Some r1)"
  shows "traffic_fits (snd (call_done t' d r1)) \<and> in_flight (snd (call_done t' d r1)) = in_flight r"
proof (cases "NormalizeServiceName k = []")
  case True
  then show ?thesis using assms Start_blank [OF True, of t r] by (simp add: call_done_def)
next
  case False
  let ?key = "NormalizeServiceName k"
  have d: "d = \<lparr>DoneKey = Some ?key, DoneStartedAt = t, DoneFired = False\<rparr>"
    and r1: "r1 = r\<lparr>Records := gomap_put ?key (begin_record t r ?key) (Records r)\<rparr>"
    using st Start_records [OF refl False, of t r] by simp_all
  have inverse: "wrap_i64 (wrap_i64 (in_flight r ?key + 1) - 1) = in_flight r ?key"
    using fits wrap_i64_sub [of "in_flight r ?key + 1" 1] by (simp add: traffic_fits_def)
  have "in_flight (snd (call_done t' d r1)) x = in_flight r x" for x
    by (simp add: d r1 call_done_def in_flight_put finish_def Let_def begin_record_in_flight inverse)
  then have "in_flight (snd (call_done t' d r1)) = in_flight r" by (simp add: fun_eq_iff)
  then show ?thesis using fits by (simp add: traffic_fits_def)
qed

lemma Start_Some: "\<exists>d r1. Start t k (Some r) = (d, Some r1)"
  by (auto simp: Start_def Let_def split: prod.split)

subsection \<open>Forwarding\<close>

lemma http_calls_append [simp]: "http_calls (xs @ ys) = http_calls xs @ http_calls ys"
  by (simp add: http_calls_def)

lemma http_calls_recordPool: "recordPool now ob calls = (d, calls') \<Longrightarrow> http_calls calls' = http_calls calls"
  by (auto simp: recordPool_def Let_def http_calls_def)

lemma http_calls_finish: "http_calls (snd (finish_pool now code (dp, calls))) = http_calls calls"
  by (simp add: finish_pool_def pool_done_call_def Let_def http_calls_def split: option.split)

lemma http_calls_finish' [simp]: "http_calls (snd (finish_pool now code p)) = http_calls (snd p)"
  using http_calls_finish by (cases p) simp

lemma http_calls_recordConnection [simp]: "http_calls (recordConnection ob cn calls) = http_calls calls"
  by (simp add: recordConnection_def Let_def http_calls_def)

lemma http_calls_trace [simp]: "http_calls (trace_calls recording ob es calls) = http_calls calls"
proof -
  have "http_calls (snd (foldl (trace_step ob) st es)) = http_calls (snd st)" for st
  proof (induction es arbitrary: st)
    case (Cons e es)
    have "http_calls (snd (trace_step ob st e)) = http_calls (snd st)"
      by (simp add: trace_step_def Let_def split: prod.split trace_event.split)
    then show ?case using Cons by simp
  qed simp
  then show ?thesis by (simp add: trace_calls_def)
qed

lemma http_calls_forward_http:
  "forward_http env ob dp c out w calls = (res, w', calls') \<Longrightarrow> http_calls calls' = http_calls calls"
  by (auto simp: forward_http_def Let_def split: prod.splits sum.splits)

lemma http_calls_forward_websocket:
  assumes "forward_websocket env ob dp c target r w calls = (res, w', calls')"
  shows "http_calls calls' = http_calls calls"
proof -
  have "http_calls (snd (snd (forward_websocket env ob dp c target r w calls))) = http_calls calls"
    by (simp add: forward_websocket_def Let_def split: prod.split option.split)
  then show ?thesis using assms by simp
qed

lemma http_calls_handle_leased:
  "handle_leased env lease rq writer calls = (res, w', calls') \<Longrightarrow> http_calls calls' = http_calls calls"
  by (auto simp: handle_leased_def Let_def split: option.splits sum.splits prod.splits if_splits
      dest!: http_calls_forward_http http_calls_forward_websocket http_calls_recordPool)

lemma http_calls_Handle: "http_calls (FwCalls (snd (Handle env rq world))) = http_calls (FwCalls world)"
  by (auto simp: Handle_def dest: http_calls_handle_leased split: prod.split sum.split)

definition reporting :: "'w server_env \<Rightarrow> bool" where
  "reporting env \<longleftrightarrow> proxy_reports (EvForward env)"

lemma server_forward_simps [simp]:
  "reporting env \<Longrightarrow> proxy_reports (server_forward t settings env)"
  "EnvAcquire (server_forward t settings env) = (\<lambda>a s. lease_of (acquire_loaded t settings a s))"
  "EnvFinish (server_forward t settings env) = client_release"
  by (simp_all add: reporting_def proxy_reports_def server_forward_def)

lemma server_handle_undisturbed:
  assumes "reporting env"
  shows "undisturbed w (snd (server_handle t settings env rq w))"
proof -
  let ?env = "server_forward t settings env"
  let ?x = "\<lparr>FwClients = SvPool w, FwCalls = SvCalls w, FwWriter = Some (SvWriter w)\<rparr>"
  obtain res x where x: "Handle ?env rq ?x = (res, x)" by fastforce
  have "coordinator_ok (FwClients x) \<and> pending_leases (FwClients x) = pending_leases (SvPool w)" if "coordinator_ok (SvPool w)"
    using coordinator_leases.Handle_returns_lease [of ?x ?env t settings rq res x] that x by simp
  moreover have "books (FwCalls x) ls = books (SvCalls w) ls" for ls
    using Handle_books [of ?env rq ?x ls] assms x by simp
  moreover have "http_calls (FwCalls x) = http_calls (SvCalls w)" using http_calls_Handle [of ?env rq ?x] x by simp
  ultimately show ?thesis by (simp add: server_handle_def x undisturbed_def)
qed

subsection \<open>The tasks\<close>

lemma AssignmentFor_Some: "\<exists>a s'. AssignmentFor now snap status (Some s) = (a, Some s')"
  by (auto simp: AssignmentFor_def Let_def split: option.split prod.split)

lemma transfer_started_undisturbed:
  assumes "reporting env"
  shows "undisturbed w (snd (transfer_started (server_transfer t settings env) host st w)) \<and>
    SvTraffic (snd (transfer_started (server_transfer t settings env) host st w)) = SvTraffic w"
proof (cases "StatusFor (EvRead env) (RqServiceName (GsRequest st)) (Some (SvTraffic w))")
  case (Inl e)
  then show ?thesis by (simp add: transfer_started_def server_transfer_def)
next
  case (Inr status)
  obtain a s' where a: "AssignmentFor (EvAssign env) (GsSettings st) status (Some (SvPolicy w)) = (a, Some s')"
    using AssignmentFor_Some by blast
  have "undisturbed w (w\<lparr>SvPolicy := s'\<rparr>)"
    using AssignmentFor_step [OF _ a] by (simp add: undisturbed_def)
  moreover have "SvTraffic (snd (server_handle t settings env rq w)) = SvTraffic w" for rq and w :: "'a server"
    by (simp add: server_handle_def split: prod.split)
  moreover have "undisturbed w (snd (server_handle t settings env rq (w\<lparr>SvPolicy := s'\<rparr>)))" for rq
    using calculation(1) by (rule undisturbed_trans) (rule server_handle_undisturbed [OF assms])
  ultimately show ?thesis
    using Inr a by (simp add: transfer_started_def server_transfer_def Let_def split_beta)
qed

lemma transfer_undisturbed:
  assumes "reporting env"
  shows "undisturbed w (snd (snd (TransferTask_Run (server_transfer t settings env) st w)))"
proof -
  let ?ops = "server_transfer t settings env" and ?k = "RqServiceName (GsRequest st)"
  have "undisturbed w (TrDone ?ops d (snd (transfer_started ?ops host st w1)))" if st: "TrStart ?ops ?k w = (d, w1)" for d w1 host
  proof -
    obtain r1 where r1: "Start (EvStart env) ?k (Some (SvTraffic w)) = (d, Some r1)" "w1 = w\<lparr>SvTraffic := r1\<rparr>"
      using st Start_Some [of "EvStart env" ?k "SvTraffic w"] by (auto simp: server_transfer_def)
    let ?w2 = "snd (transfer_started ?ops host st w1)"
    have "undisturbed w1 ?w2" "SvTraffic ?w2 = r1"
      using transfer_started_undisturbed [OF assms, of w1 t settings host st] r1(2) by simp_all
    then show ?thesis using start_then_done [OF _ r1(1), of "EvDone env"] r1(2)
      by (simp add: server_transfer_def undisturbed_def)
  qed
  then have "undisturbed w (TrDone ?ops (fst (TrStart ?ops ?k w))
      (snd (transfer_started ?ops host st (snd (TrStart ?ops ?k w)))))" for host
    by simp
  then show ?thesis by (simp add: TransferTask_Run_def fail_def Let_def split_beta split: option.split sum.split)
qed

lemma run_tasks_relation:
  fixes R :: "'x \<Rightarrow> 'x \<Rightarrow> bool" and ts :: "'x task option list"
  assumes "\<And>x. R x x" "\<And>x y z. R x y \<Longrightarrow> R y z \<Longrightarrow> R x z"
    and "\<And>t st x. Some t \<in> set ts \<Longrightarrow> R x (snd (snd (t st x)))"
  shows "R x (snd (snd (run_tasks ts st x)))"
  using assms(3)
proof (induction ts arbitrary: st x)
  case (Cons task ts)
  show ?case
  proof (cases task)
    case (Some t)
    obtain r st' x' where t: "t st x = (r, st', x')" using prod_cases3 by blast
    have "R x x'" using Cons.prems [of t x st] t Some by simp
    moreover have "R x' (snd (snd (run_tasks ts st' x')))" using Cons by simp
    ultimately show ?thesis using Some t assms(2) by (auto simp: fail_def split: handle_result.split option.split)
  qed (simp add: assms(1) fail_def)
qed (simp add: assms(1))

lemma server_tasks_undisturbed:
  assumes "reporting env"
    and "Some task \<in> set (newRouter_tasks hmac rsa now settings server_next uid (server_set_header env)
      (TransferTask_Run (server_transfer t pools env)))"
  shows "undisturbed w (snd (snd (task st w)))"
proof -
  consider "task = RouteTask_Run (Some settings) (Some (\<lambda>c. RouteFor (Some Router) (Some c))) (Some server_next)"
    | "task = TraceTask_Run uid (server_set_header env) (Some \<lparr>GenNewID = None\<rparr>)"
    | decode where "task = AuthenticateTask_Run decode" | "task = AuthorizeTask_Run"
    | "task = TransferTask_Run (server_transfer t pools env)"
    using assms(2) by (auto simp: newRouter_tasks_def gateway_tasks_def)
  then show ?thesis
  proof cases
    case 1
    then show ?thesis
      by (auto simp: RouteTask_Run_def fail_def Let_def server_next_def split: option.split sum.split prod.split)
  next
    case 2
    then show ?thesis
      by (auto simp: TraceTask_Run_def fail_def Let_def server_set_header_def split: option.split sum.split)
  next
    case 3
    then show ?thesis by (auto simp: AuthenticateTask_Run_def fail_def split: option.split sum.split)
  next
    case 4
    then show ?thesis by (auto simp: AuthorizeTask_Run_def fail_def split: option.split)
  next
    case 5
    then show ?thesis using transfer_undisturbed [OF assms(1)] by simp
  qed
qed

lemma server_gateway_undisturbed:
  assumes "reporting env"
  shows "undisturbed w (snd (server_gateway t settings env r w))"
proof -
  let ?tasks = "newRouter_tasks (EvHmac env) (EvRsa env) (EvDecode env) (\<lambda>w. Settings (Some (SvManager w)))
          server_next (EvUid env) (server_set_header env) (TransferTask_Run (server_transfer t settings env))"
  have "undisturbed w (snd (snd (run_tasks ?tasks st w)))" for st w
    by (rule run_tasks_relation [of undisturbed]) (auto intro: undisturbed_trans server_tasks_undisturbed [OF assms])
  then have "undisturbed w (snd (Receive ?tasks rq w))" for rq w
    by (simp add: Receive_def split_beta)
  then have rec: "undisturbed w w'" if "Receive ?tasks rq w = (res, w')" for rq w res w'
    using that by (metis snd_conv)
  show ?thesis unfolding server_gateway_def
    by (auto simp: Handler_Receive_def server_api_def Let_def receiveFailure_def dest: rec
        split: option.split prod.split handle_result.split)
qed

subsection \<open>A whole request\<close>

lemma serve_endpoint_kept:
  "SvPool (serve_endpoint env e n r w) = SvPool w \<and> SvTraffic (serve_endpoint env e n r w) = SvTraffic w \<and>
   SvPolicy (serve_endpoint env e n r w) = SvPolicy w \<and> SvCalls (serve_endpoint env e n r w) = SvCalls w"
  by (simp add: serve_endpoint_def server_answer_def server_api_def metric_Serve_def split: endpoint.split prod.split)

text \<open>The part of \<open>undisturbed\<close> that holds for every request.\<close>

definition resources_kept :: "'w server \<Rightarrow> 'w server \<Rightarrow> bool" where
  "resources_kept w w' \<longleftrightarrow>
     (coordinator_ok (SvPool w) \<longrightarrow> coordinator_ok (SvPool w') \<and> pending_leases (SvPool w') = pending_leases (SvPool w)) \<and>
     (\<forall>ls. books (SvCalls w') ls = books (SvCalls w) ls) \<and>
     (traffic_fits (SvTraffic w) \<longrightarrow> traffic_fits (SvTraffic w') \<and> in_flight (SvTraffic w') = in_flight (SvTraffic w)) \<and>
     (policy_store_ok (SvPolicy w) \<longrightarrow> policy_store_ok (SvPolicy w'))"

lemma dispatch_kept:
  assumes "reporting env" "server_dispatch t settings env r w = (panicked, w')"
  shows "resources_kept w w' \<and> http_calls (SvCalls w') = http_calls (SvCalls w)"
proof (cases "EvMatch env (HrMethod r) (request_path r)")
  case None
  then have "undisturbed w w'" using assms server_gateway_undisturbed [OF assms(1), of w t settings r]
    by (simp add: server_dispatch_def)
  then show ?thesis by (simp add: undisturbed_def resources_kept_def)
next
  case (Some m)
  then have "w' = serve_endpoint env (fst m) (snd m) r w" using assms(2) by (simp add: server_dispatch_def split_beta)
  then show ?thesis using serve_endpoint_kept [of env "fst m" "snd m" r w] by (simp add: resources_kept_def)
qed

lemma recovered_kept:
  assumes "reporting env" "recovery recover (server_dispatch t settings env r) w = (panicked, w')"
  shows "\<not> panicked \<and> resources_kept w w' \<and> http_calls (SvCalls w') = http_calls (SvCalls w)"
proof -
  obtain p w1 where d: "server_dispatch t settings env r w = (p, w1)" by fastforce
  then show ?thesis using dispatch_kept [OF assms(1) d] assms(2)
    by (cases p) (auto simp: recovery_def resources_kept_def)
qed

lemma books_recordRequest: "recordRequest now calls = (d, calls') \<Longrightarrow> books calls' ls = books calls ls"
  by (auto simp: recordRequest_def books_def upstream_result_for_def)

lemma books_request_done: "books (snd (request_done_call now ob d calls)) ls = books calls ls"
  by (simp add: request_done_call_def Let_def books_def upstream_result_for_def)

definition finished_request :: "time \<Rightarrow> request_observation \<Rightarrow> time \<Rightarrow> metric_log" where
  "finished_request now observation started =
     snd (request_done_call now observation \<lparr>RDStartedAt = started, RDFired = False\<rparr> [])"

lemma request_done_appends:
  "snd (request_done_call now ob \<lparr>RDStartedAt = s, RDFired = False\<rparr> calls) = calls @ finished_request now ob s"
  by (simp add: finished_request_def request_done_call_def Let_def)

lemma http_calls_finished [simp]: "http_calls (finished_request now ob s) = finished_request now ob s"
  by (simp add: finished_request_def request_done_call_def Let_def http_calls_def)

definition request_observed :: "'w server_env \<Rightarrow> http_request \<Rightarrow> 'w \<Rightarrow> request_observation" where
  "request_observed env r writer = \<lparr>ObsMethod = HrMethod r,
     ObsPath = (if full_path env r = [] then routeGateway else full_path env r), ObsStatusCode = EvStatus env writer\<rparr>"

lemma observed_effect:
  assumes "reporting env"
    and "request_observer env r (recovery (EvRecover env) (server_dispatch t settings env r)) w = (panicked, w')"
  shows "\<not> panicked \<and> resources_kept w w' \<and>
    http_calls (SvCalls w') = http_calls (SvCalls w) @ (if request_path r = metric_Route then []
      else Inc HTTPInFlight [] # finished_request (EvEnd env) (request_observed env r (SvWriter w')) (EvBegin env))"
proof (cases "request_path r = metric_Route")
  case True
  then show ?thesis using assms recovered_kept [OF assms(1), of "EvRecover env" t settings r w]
    by (auto simp: request_observer_def)
next
  case False
  let ?w = "w\<lparr>SvCalls := SvCalls w @ [Inc HTTPInFlight []]\<rparr>"
  obtain p w1 where d: "recovery (EvRecover env) (server_dispatch t settings env r) ?w = (p, w1)" by fastforce
  note kept = recovered_kept [OF assms(1) d]
  have w': "panicked = False" "w' = w1\<lparr>SvCalls := SvCalls w1 @
      finished_request (EvEnd env) (request_observed env r (SvWriter w1)) (EvBegin env)\<rparr>"
    using assms(2) False d kept
    by (auto simp: request_observer_def recordRequest_def request_done_appends request_observed_def Let_def)
  have "books (SvCalls w') ls = books (SvCalls w) ls" for ls
    using kept books_recordRequest [of "EvBegin env" "SvCalls w" _ _ ls] books_request_done [of "EvEnd env" _ _ "SvCalls w1" ls]
    by (simp add: w'(2) resources_kept_def recordRequest_def request_done_appends [symmetric])
  then show ?thesis using kept False w' by (simp add: resources_kept_def) (simp add: http_calls_def)
qed

text \<open>The requests that pass the observer and are not for the metrics themselves.\<close>

definition observed :: "'w server_env \<Rightarrow> http_request \<Rightarrow> bool" where
  "observed env r \<longleftrightarrow> EvDirect env r = None \<and> request_path r \<noteq> ''/metric''"

lemma server_serve_effect:
  assumes "reporting env" "server_serve t settings env r w = (panicked, w')"
  shows "\<not> panicked \<and> resources_kept w w' \<and>
    http_calls (SvCalls w') = http_calls (SvCalls w) @ (if \<not> observed env r then []
      else Inc HTTPInFlight [] # finished_request (EvEnd env) (request_observed env r (SvWriter w')) (EvBegin env))"
proof (cases "EvDirect env r")
  case None
  then show ?thesis using observed_effect [OF assms(1), of r t settings w panicked w'] assms(2)
    by (simp add: server_serve_def observed_def metric_Route_def)
next
  case (Some answer)
  then show ?thesis using assms(2) by (auto simp: server_serve_def observed_def resources_kept_def)
qed

text \<open>The patterns of the routes, and the name of the gateway, which has none.\<close>

definition route_labels :: "string list" where
  "route_labels = [''gateway'', ''/metric'', ''/api/config'', ''/api/config/:serviceName'', ''/api/config/:serviceName/instances'']"

lemma full_path_label:
  "NormalizeMetricPath (if full_path env r = [] then routeGateway else full_path env r) routeGateway \<in> set route_labels"
proof -
  have "NormalizeMetricPath routeGateway routeGateway \<in> set route_labels" by code_simp
  moreover have "\<forall>e \<in> set [MetricsEndpoint, ApplyEndpoint, ConfigForEndpoint, DeregisterEndpoint].
      snd (RegisterRoutes e) \<noteq> [] \<and> NormalizeMetricPath (snd (RegisterRoutes e)) routeGateway \<in> set route_labels"
    by code_simp
  then have "snd (RegisterRoutes e) \<noteq> [] \<and> NormalizeMetricPath (snd (RegisterRoutes e)) routeGateway \<in> set route_labels" for e
    by (cases e) simp_all
  ultimately show ?thesis by (simp add: full_path_def split: option.split)
qed

text \<open>
  C35: The HTTP metrics see every request that reaches the middlewares exactly once, whatever becomes of it, also when a
  handler panics: the gauge goes up and down again, one request is counted with the status that was sent, and one
  failure if that is an error. The route label is one of five fixed names, so no client can make up new ones. Requests
  to \<open>/metric\<close> and those the framework answers itself are not counted at all. No request ends the server with a panic.
\<close>

theorem requests_are_observed_once:
  assumes "reporting env" "server_serve t settings env r w = (panicked, w')"
  shows "\<not> panicked \<and> (if \<not> observed env r then http_calls (SvCalls w') = http_calls (SvCalls w)
    else \<exists>route \<in> set route_labels. \<exists>seconds.
      let verb = NormalizeMetricMethod (HrMethod r); code = NormalizeStatusCode (EvStatus env (SvWriter w')) 200 in
      http_calls (SvCalls w') = http_calls (SvCalls w) @
        [Inc HTTPInFlight [], Dec HTTPInFlight [], Inc HTTPRequests [route, verb, itoa code, resultFor code],
         Observe HTTPDuration [route, verb, itoa code, resultFor code] seconds] @
        (if 400 \<le> code then [Inc HTTPFailures [route, verb, itoa code]] else []))"
proof (cases "observed env r")
  case False
  then show ?thesis using server_serve_effect [OF assms] by simp
next
  case True
  let ?route = "NormalizeMetricPath (if full_path env r = [] then routeGateway else full_path env r) routeGateway"
  let ?verb = "NormalizeMetricMethod (HrMethod r)" and ?code = "NormalizeStatusCode (EvStatus env (SvWriter w')) 200"
  have "http_calls (SvCalls w') = http_calls (SvCalls w) @ Inc HTTPInFlight [] #
      finished_request (EvEnd env) (request_observed env r (SvWriter w')) (EvBegin env)"
    using server_serve_effect [OF assms] True by simp
  also have "finished_request (EvEnd env) (request_observed env r (SvWriter w')) (EvBegin env) =
      [Dec HTTPInFlight [], Inc HTTPRequests [?route, ?verb, itoa ?code, resultFor ?code],
       Observe HTTPDuration [?route, ?verb, itoa ?code, resultFor ?code] (duration_seconds (time_sub (EvEnd env) (EvBegin env)))] @
      (if 400 \<le> ?code then [Inc HTTPFailures [?route, ?verb, itoa ?code]] else [])"
    by (simp add: finished_request_def request_done_call_def request_observed_def Let_def result_error)
  finally show ?thesis using server_serve_effect [OF assms] True full_path_label [of env r]
    unfolding Let_def by (simp only: not_True_eq_False if_False append.simps) blast
qed

text \<open>
  The method label, in contrast, is what the client sends, in upper case: there are as many label values, and as many
  series in the registry, as methods a client makes up.
\<close>

lemma method_label_unbounded:
  "NormalizeMetricMethod (replicate (Suc n) (CHR ''M'')) = replicate (Suc n) (CHR ''M'')"
proof -
  let ?s = "replicate (Suc n) (CHR ''M'')"
  have letter: "is_letter (CHR ''M'')" "to_upper_char (CHR ''M'') = CHR ''M''" by code_simp+
  have "trim_space ?s = ?s"
  proof (rule trim_space_fixed)
    fix rune assume r: "rune \<in> set space_runes"
    then obtain c t where ct: "rune = c # t" using space_runes_nonempty [OF r] by (auto simp: neq_Nil_conv)
    then have "c \<notin> set ?s" using space_runes_no_letter [OF r, of c] letter(1) by auto
    then show "\<not> prefix rune ?s" "\<not> suffix rune ?s" using ct by (auto dest: set_mono_prefix set_mono_suffix)
  qed
  moreover have "to_upper ?s = ?s" by (simp add: to_upper_def letter(2) map_replicate_const [symmetric] del: replicate_Suc)
  ultimately show ?thesis by (simp add: NormalizeMetricMethod_def NormalizeHTTPMethod_def NormalizeUpper_def Let_def)
qed

lemma metric_value_http: "metric_value calls HTTPInFlight [] = metric_value (http_calls calls) HTTPInFlight []"
proof (induction calls)
  case (Cons c calls)
  then show ?case by (cases c) (auto simp: http_calls_def)
qed (simp add: http_calls_def)

lemma finished_gauge: "metric_value (finished_request now ob s) HTTPInFlight [] = - 1"
  by (simp add: finished_request_def request_done_call_def Let_def)

lemma server_serve_balanced:
  assumes "reporting env" "coordinator_ok (SvPool w)" "traffic_fits (SvTraffic w)"
    and "server_serve t settings env r w = (panicked, w')"
  shows "coordinator_ok (SvPool w')" "pending_leases (SvPool w') = pending_leases (SvPool w)"
    "in_flight (SvTraffic w') = in_flight (SvTraffic w)"
    "metric_value (SvCalls w') HTTPInFlight [] = metric_value (SvCalls w) HTTPInFlight []"
    "metric_value (SvCalls w') PoolInFlight ls = metric_value (SvCalls w) PoolInFlight ls"
    "metric_value (SvCalls w') PoolSelections ls - tally (upstream_result_for ls) (SvCalls w') =
      metric_value (SvCalls w) PoolSelections ls - tally (upstream_result_for ls) (SvCalls w)"
proof -
  note effect = server_serve_effect [OF assms(1,4)]
  show "coordinator_ok (SvPool w')" "pending_leases (SvPool w') = pending_leases (SvPool w)"
    "in_flight (SvTraffic w') = in_flight (SvTraffic w)"
    using effect assms(2,3) by (simp_all add: resources_kept_def)
  have "metric_value (http_calls (SvCalls w')) HTTPInFlight [] = metric_value (http_calls (SvCalls w)) HTTPInFlight []"
    using effect by (simp add: finished_gauge)
  then show "metric_value (SvCalls w') HTTPInFlight [] = metric_value (SvCalls w) HTTPInFlight []"
    by (simp add: metric_value_http [of "SvCalls w'"] metric_value_http [of "SvCalls w"])
  have "books (SvCalls w') ls = books (SvCalls w) ls" using effect by (simp add: resources_kept_def)
  then show "metric_value (SvCalls w') PoolInFlight ls = metric_value (SvCalls w) PoolInFlight ls"
    "metric_value (SvCalls w') PoolSelections ls - tally (upstream_result_for ls) (SvCalls w') =
      metric_value (SvCalls w) PoolSelections ls - tally (upstream_result_for ls) (SvCalls w)"
    by (simp_all add: books_def)
qed

text \<open>
  C32: A request leaves nothing behind in any component, on every path through the server: errors before the
  transfer, upstream failures, broken bodies, WebSockets, panics. Each client has as many leases as before, every
  service as many requests in flight, the in-flight gauges have their old values, and each pool selection that was counted
  got its upstream result. The requests in progress before are arbitrary. \<open>ReverseProxy\<close> is assumed to call one of its
  hooks for every request (\<open>reporting\<close>).
\<close>

theorem request_leaves_no_trace:
  assumes "reporting env" "coordinator_ok (SvPool w)" "traffic_fits (SvTraffic w)"
    and "server_serve t settings env r w = (panicked, w')"
  shows "coordinator_ok (SvPool w') \<and> pending_leases (SvPool w') = pending_leases (SvPool w) \<and>
    in_flight (SvTraffic w') = in_flight (SvTraffic w) \<and>
    metric_value (SvCalls w') HTTPInFlight [] = metric_value (SvCalls w) HTTPInFlight [] \<and>
    metric_value (SvCalls w') PoolInFlight ls = metric_value (SvCalls w) PoolInFlight ls \<and>
    metric_value (SvCalls w') PoolSelections ls - tally (upstream_result_for ls) (SvCalls w') =
      metric_value (SvCalls w) PoolSelections ls - tally (upstream_result_for ls) (SvCalls w)"
  by (intro conjI server_serve_balanced [OF assms])

section \<open>A concrete request\<close>

definition sample_server_env :: "mem_writer server_env" where
  "sample_server_env = \<lparr>EvDirect = (\<lambda>_. None), EvMatch = (\<lambda>_ _. None), EvRecover = (\<lambda>w. w\<lparr>MwStatus := 500\<rparr>),
     EvScrape = (\<lambda>_ w. w), EvStatus = MwStatus,
     EvApi = \<lparr>ApWritten = MwWritten,
       ApJSON = (\<lambda>_ code answer w. w\<lparr>MwStatus := code, MwBody := ArMessage answer, MwWritten := True\<rparr>)\<rparr>,
     EvForward = sample_env (Inr sample_answer), EvHmac = (\<lambda>_ _. []), EvRsa = (\<lambda>_ _ _. False), EvUid = Inr ''uuid'',
     EvBegin = 0, EvDecode = 0, EvStart = 0, EvRead = 0, EvAssign = 0, EvDone = 0, EvEnd = 0\<rparr>"

definition sample_server :: "mem_writer server" where
  "sample_server = \<lparr>SvManager = configured_manager, SvHealth = health_init, SvCursors = [], SvTraffic = NewRecorder,
     SvPolicy = Policy_NewStore, SvPool = sample_start, SvCalls = [], SvWriter = new_mem_writer\<rparr>"

definition sample_served :: "bool \<times> mem_writer server" where
  "sample_served = server_serve sample_transport sample_calls sample_server_env sample_get sample_server"

lemma sample_server_ready:
  "reporting sample_server_env" "coordinator_ok (SvPool sample_server)" "traffic_fits (SvTraffic sample_server)"
proof -
  show "reporting sample_server_env" by (simp add: reporting_def sample_server_env_def proxy_reports_def sample_env_def)
  have "NewCoordinator (Some sample_transport) sample_globals = Inr sample_start" by code_simp
  then show "coordinator_ok (SvPool sample_server)" using NewCoordinator_ok by (simp add: sample_server_def)
  show "traffic_fits (SvTraffic sample_server)"
    by (simp add: sample_server_def traffic_fits_def in_flight_def NewRecorder_def newRecorder_def Let_def wrap_i64_def)
qed

theorem requests_are_observed_once_witness:
  "\<not> fst sample_served \<and> (if \<not> observed sample_server_env sample_get
    then http_calls (SvCalls (snd sample_served)) = http_calls (SvCalls sample_server)
    else \<exists>route \<in> set route_labels. \<exists>seconds.
      let verb = NormalizeMetricMethod (HrMethod sample_get);
          code = NormalizeStatusCode (EvStatus sample_server_env (SvWriter (snd sample_served))) 200 in
      http_calls (SvCalls (snd sample_served)) = http_calls (SvCalls sample_server) @
        [Inc HTTPInFlight [], Dec HTTPInFlight [], Inc HTTPRequests [route, verb, itoa code, resultFor code],
         Observe HTTPDuration [route, verb, itoa code, resultFor code] seconds] @
        (if 400 \<le> code then [Inc HTTPFailures [route, verb, itoa code]] else []))"
  by (rule requests_are_observed_once [OF sample_server_ready(1), of sample_transport sample_calls sample_get sample_server])
    (simp add: sample_served_def)

theorem request_leaves_no_trace_witness:
  "let w' = snd sample_served; ls = [''users'', ''shared'', ''shared'', ''h:80''] in
   coordinator_ok (SvPool w') \<and> pending_leases (SvPool w') = pending_leases (SvPool sample_server) \<and>
    in_flight (SvTraffic w') = in_flight (SvTraffic sample_server) \<and>
    metric_value (SvCalls w') HTTPInFlight [] = metric_value (SvCalls sample_server) HTTPInFlight [] \<and>
    metric_value (SvCalls w') PoolInFlight ls = metric_value (SvCalls sample_server) PoolInFlight ls \<and>
    metric_value (SvCalls w') PoolSelections ls - tally (upstream_result_for ls) (SvCalls w') =
      metric_value (SvCalls sample_server) PoolSelections ls - tally (upstream_result_for ls) (SvCalls sample_server)"
  unfolding Let_def
  by (rule request_leaves_no_trace [OF sample_server_ready, of sample_transport sample_calls sample_get "fst sample_served"])
    (simp add: sample_served_def)

end
