(* ===== verification/ServerRun.thy ===== *)
theory ServerRun
  imports Server
begin

text \<open>
  The life of the server (\<open>newRouter\<close>, \<open>run\<close> and \<open>listenAddress\<close> of \<open>cmd/main.go\<close>): how it starts, and \<open>server_run\<close>, the states
  between two requests when requests of any kind are served one after the other while the check loops
  and the draining of replaced clients go on.
\<close>

section \<open>Starting\<close>

definition defaultPoolConfigPath :: string where "defaultPoolConfigPath = ''config/config.yml''"

text \<open>
  The components as \<open>newRouter\<close> makes them, or its error. The result is \<open>None\<close> when it panics, which \<open>NewCoordinator\<close> does
  without settings. \<open>BuildRequestObserver\<close> is given the recorder just made, so it cannot fail.
\<close>

definition newRouter :: "transport option \<Rightarrow> pool_globals \<Rightarrow> 'w \<Rightarrow> 'w server result option" where
  "newRouter default_transport g writer = (case Config_NewHandler (Some newRouter_manager) of
     Inl e \<Rightarrow> Some (Inl (wrap_err [] ''create config handler'' e))
   | Inr manager \<Rightarrow> (case NewCoordinator default_transport g of
     Inl e \<Rightarrow> None
   | Inr pool \<Rightarrow> Some (Inr \<lparr>SvManager = manager,
       SvHealth = \<lparr>HManager = Health_NewManager (Some NewStore), Loops = [], Cancelled = []\<rparr>,
       SvCursors = [], SvTraffic = NewRecorder, SvPolicy = Policy_NewStore, SvPool = pool, SvCalls = [],
       SvWriter = writer\<rparr>)))"

text \<open>How \<open>run\<close> ends, or that it serves at an address.\<close>

datatype 'w startup = RunFails go_error | RunPanics | RunServes string "'w server"

text \<open>\<open>listen\<close> is the error of \<open>router.Run\<close>, if it cannot listen at an address.\<close>

definition run ::
  "(string \<Rightarrow> stat_result) \<Rightarrow> string option \<Rightarrow> (string \<Rightarrow> 'b option) \<Rightarrow> ('b \<Rightarrow> file_config option) \<Rightarrow>
   transport option \<Rightarrow> string \<Rightarrow> (string \<Rightarrow> go_error option) \<Rightarrow> 'w \<Rightarrow> 'w startup" where
  "run stat getwd read_file decode default_transport port listen writer =
     (case LoadConfig stat getwd read_file decode defaultPoolConfigPath initial_pool_globals of
        (Some e, g) \<Rightarrow> RunFails (wrap_err [] ''load pool config'' e)
      | (None, g) \<Rightarrow> (case newRouter default_transport g writer of
          None \<Rightarrow> RunPanics
        | Some (Inl e) \<Rightarrow> RunFails (wrap_err [] ''build router'' e)
        | Some (Inr w) \<Rightarrow> (case listen (listenAddress port) of
            Some e \<Rightarrow> RunFails (wrap_err [] ''run gin server'' e)
          | None \<Rightarrow> RunServes (listenAddress port) w)))"

lemma LoadConfig_configured:
  assumes "LoadConfig stat getwd read_file decode path initial_pool_globals = (None, g)"
  shows "\<exists>shared tiers. g = configure_all [(shared, tiers)] \<and> Configure_accepts shared tiers"
proof -
  obtain shared tiers where c: "Configure shared tiers initial_pool_globals = (None, g)"
    using assms by (auto simp: LoadConfig_def split: sum.splits option.splits prod.splits)
  then have "Configure_accepts shared tiers" using Configure_succeeds_iff [of shared tiers initial_pool_globals] by simp
  moreover have "g = configure_all [(shared, tiers)]" using c by (simp add: configure_all_def)
  ultimately show ?thesis by blast
qed

lemma newRouter_serves:
  assumes "Configured g"
  shows "\<exists>w. newRouter (Some t) g writer = Some (Inr w)"
  using assms
  by (simp add: newRouter_def Config_NewHandler_def NewCoordinator_def newSharedClient_def SharedConfig_def makePool_def Let_def)

text \<open>
  Remark: With a default transport, \<open>run\<close> never panics: it fails iff the settings file cannot be used or the address
  cannot be listened at, and otherwise serves, with settings that passed all checks.
\<close>

theorem run_outcome:
  "case run stat getwd read_file decode (Some t) port listen writer of
     RunPanics \<Rightarrow> False
   | RunFails e \<Rightarrow> listen (listenAddress port) \<noteq> None \<or>
       fst (LoadConfig stat getwd read_file decode defaultPoolConfigPath initial_pool_globals) \<noteq> None
   | RunServes address w \<Rightarrow> address = listenAddress port \<and> listen address = None \<and>
       (\<exists>shared tiers. Configure_accepts shared tiers \<and>
         newRouter (Some t) (configure_all [(shared, tiers)]) writer = Some (Inr w))"
proof (cases "LoadConfig stat getwd read_file decode defaultPoolConfigPath initial_pool_globals")
  case (Pair res g)
  show ?thesis
  proof (cases res)
    case None
    then obtain shared tiers where g: "g = configure_all [(shared, tiers)]" "Configure_accepts shared tiers"
      using LoadConfig_configured Pair by blast
    then have "Configured g" using configure_all_inv [of "[(shared, tiers)]"] by simp
    from newRouter_serves [OF this, of t writer] obtain w where "newRouter (Some t) g writer = Some (Inr w)" by blast
    then show ?thesis using Pair None g by (auto simp: run_def split: option.split)
  qed (simp add: run_def Pair)
qed

section \<open>Serving\<close>

text \<open>
  The states between two requests: requests of any kind are served, each with a response writer of its own, the
  check loops run and end, and replaced clients are drained.
\<close>

inductive server_run ::
  "transport \<Rightarrow> (pool_config \<times> (tier, pool_config) gomap) list \<Rightarrow> 'w server \<Rightarrow> bool" for t settings where
  start: "newRouter (Some t) (configure_all settings) writer = Some (Inr w) \<Longrightarrow> server_run t settings w"
| request: "server_run t settings w \<Longrightarrow> reporting env \<Longrightarrow>
    server_serve t settings env r (w\<lparr>SvWriter := writer\<rparr>) = (panicked, w') \<Longrightarrow> server_run t settings w'"
| tick: "server_run t settings w \<Longrightarrow> i < length (Loops (SvHealth w)) \<Longrightarrow>
    run_tick now outcome (Loops (SvHealth w) ! i) (HManager (SvHealth w)) = (delay, l', m') \<Longrightarrow>
    server_run t settings (w\<lparr>SvHealth := (SvHealth w)\<lparr>HManager := m', Loops := (Loops (SvHealth w))[i := l']\<rparr>\<rparr>)"
| exit: "server_run t settings w \<Longrightarrow> i < length (Loops (SvHealth w)) \<Longrightarrow>
    LoopTarget (Loops (SvHealth w) ! i) \<in> set (Cancelled (SvHealth w)) \<Longrightarrow>
    server_run t settings (w\<lparr>SvHealth := (SvHealth w)\<lparr>Loops :=
      take i (Loops (SvHealth w)) @ drop (Suc i) (Loops (SvHealth w))\<rparr>\<rparr>)"
| drain: "server_run t settings w \<Longrightarrow> j < length (Drainers (SvPool w)) \<Longrightarrow>
    MCWaiting (Clients (SvPool w) ! (Drainers (SvPool w) ! j)) = 0 \<Longrightarrow>
    server_run t settings (w\<lparr>SvPool := retire_drained j (SvPool w)\<rparr>)"

lemma OnSnapshotCommitted_run:
  "\<exists>n. health_run n hs \<Longrightarrow> \<exists>n. health_run n (OnSnapshotCommitted c hs)"
  by (auto simp: OnSnapshotCommitted_def split: prod.split intro: health_run.commit)

lemma notify_health_run: "\<exists>n. health_run n hs \<Longrightarrow> \<exists>n. health_run n (notify_health calls hs)"
  unfolding notify_health_def
  by (induction calls arbitrary: hs) (auto intro: OnSnapshotCommitted_run)

lemma serve_endpoint_manager:
  assumes "server_reachable (SvManager w)" "\<exists>n. health_run n (SvHealth w)"
  shows "server_reachable (SvManager (serve_endpoint env e n r w)) \<and>
    (\<exists>n'. health_run n' (SvHealth (serve_endpoint env e n r w)))"
  using assms notify_health_run [OF assms(2)]
  by (auto simp: serve_endpoint_def server_answer_def server_api_def metric_Serve_def split: endpoint.split prod.split
      intro: server_reachable.applied server_reachable.deregistered)

lemma server_serve_manager:
  assumes "reporting env" "server_reachable (SvManager w)" "\<exists>n. health_run n (SvHealth w)"
  shows "server_reachable (SvManager (snd (server_serve t settings env r w))) \<and>
    (\<exists>n. health_run n (SvHealth (snd (server_serve t settings env r w))))"
proof -
  have d: "server_reachable (SvManager w2) \<and> (\<exists>n. health_run n (SvHealth w2))"
    if "server_dispatch t settings env r w1 = (p, w2)" "SvManager w1 = SvManager w" "SvHealth w1 = SvHealth w" for w1 p w2
  proof (cases "EvMatch env (HrMethod r) (request_path r)")
    case None
    then have "undisturbed w1 w2" using that(1) server_gateway_undisturbed [OF assms(1), of w1 t settings r]
      by (simp add: server_dispatch_def)
    then show ?thesis using that(2,3) assms(2,3) by (simp add: undisturbed_def)
  next
    case (Some m)
    then have "w2 = serve_endpoint env (fst m) (snd m) r w1" using that(1) by (simp add: server_dispatch_def split_beta)
    then show ?thesis using serve_endpoint_manager [of w1] that(2,3) assms(2,3) by simp
  qed
  have "server_reachable (SvManager (snd (recovery f (server_dispatch t settings env r) w1))) \<and>
      (\<exists>n. health_run n (SvHealth (snd (recovery f (server_dispatch t settings env r) w1))))"
    if "SvManager w1 = SvManager w" "SvHealth w1 = SvHealth w" for f w1
    using d [of w1] that by (auto simp: recovery_def split: prod.split bool.split)
  then show ?thesis using assms(2,3)
    by (simp add: server_serve_def request_observer_def Let_def split_beta split: option.split)
qed

lemma retire_drained_pending:
  assumes "coordinator_ok p" "j < length (Drainers p)" "MCWaiting (Clients p ! (Drainers p ! j)) = 0"
  shows "coordinator_ok (retire_drained j p) \<and> pending_leases (retire_drained j p) = pending_leases p"
proof -
  obtain h owner where cl: "clients_inv h owner p" and z: "\<forall>c \<ge> length (Clients p). h c = 0"
    using assms(1) by (auto simp: coordinator_ok_def)
  have len: "length (Clients (retire_drained j p)) = length (Clients p)"
    by (simp add: retire_drained_def closeIdleConnections_def Let_def)
  have cl': "clients_inv h owner (retire_drained j p)" by (rule retire_drained_inv [OF cl assms(2,3)])
  then show ?thesis using pending_inv [OF cl z] pending_inv [OF cl'] z len by (auto simp: coordinator_ok_def)
qed

text \<open>A server with no request in progress.\<close>

definition at_rest :: "'w server \<Rightarrow> bool" where
  "at_rest w \<longleftrightarrow> coordinator_ok (SvPool w) \<and> (\<forall>c. pending_leases (SvPool w) c = 0) \<and>
     (\<forall>key. in_flight (SvTraffic w) key = 0) \<and> metric_value (SvCalls w) HTTPInFlight [] = 0 \<and>
     (\<forall>ls. metric_value (SvCalls w) PoolInFlight ls = 0 \<and>
        metric_value (SvCalls w) PoolSelections ls = tally (upstream_result_for ls) (SvCalls w))"

lemma at_rest_fits: "at_rest w \<Longrightarrow> traffic_fits (SvTraffic w)"
  by (simp add: at_rest_def traffic_fits_def wrap_i64_def)

lemma newRouter_at_rest:
  assumes "newRouter default_transport g writer = Some (Inr w)"
  shows "at_rest w"
proof -
  obtain pool where pool: "NewCoordinator default_transport g = Inr pool" "SvPool w = pool" "SvTraffic w = NewRecorder" "SvCalls w = []"
    using assms by (auto simp: newRouter_def split: sum.splits)
  have cl: "clients_inv (\<lambda>_. 0) (\<lambda>_. []) pool" using clients_inv_start [OF pool(1)] .
  then have "coordinator_ok pool" "pending_leases pool c = 0" for c
    using pending_inv [OF cl] by (auto simp: coordinator_ok_def)
  then show ?thesis
    by (simp add: at_rest_def pool in_flight_def NewRecorder_def newRecorder_def Let_def)
qed

lemma server_run_inv:
  "server_run t settings w \<Longrightarrow> at_rest w \<and> server_reachable (SvManager w) \<and> (\<exists>n. health_run n (SvHealth w)) \<and> policy_store_ok (SvPolicy w)"
proof (induction rule: server_run.induct)
  case (start writer w)
  have "SvManager w = newRouter_manager" "SvHealth w = health_init" "SvPolicy w = Policy_NewStore"
    using start by (auto simp: newRouter_def Config_NewHandler_def health_init_def Health_NewManager_def split: sum.splits)
  then show ?case using newRouter_at_rest [OF start] server_reachable.start health_run.init policy_reachable_ok [OF policy_reachable.new]
    by auto
next
  case (request w env r writer panicked w')
  let ?w = "w\<lparr>SvWriter := writer\<rparr>"
  have rest: "at_rest ?w" using request.IH by (simp add: at_rest_def)
  then have "coordinator_ok (SvPool ?w)" by (simp add: at_rest_def)
  note balanced = server_serve_balanced [OF request.hyps(2) this at_rest_fits [OF rest] request.hyps(3)]
  have "at_rest w'" using rest balanced unfolding at_rest_def by simp
  moreover have "policy_store_ok (SvPolicy w')"
    using server_serve_effect [OF request.hyps(2,3)] request.IH by (simp add: resources_kept_def)
  moreover have "server_reachable (SvManager w') \<and> (\<exists>n. health_run n (SvHealth w'))"
    using server_serve_manager [OF request.hyps(2), of ?w t settings r] request by simp
  ultimately show ?case by simp
next
  case (tick w i now outcome delay l' m')
  then show ?case by (auto simp: at_rest_def intro: health_run.tick)
next
  case (exit w i)
  then show ?case by (auto simp: at_rest_def intro: health_run.exit)
next
  case (drain w j)
  then show ?case using retire_drained_pending [OF _ drain.hyps(2,3)] by (auto simp: at_rest_def)
qed

text \<open>
  C31: However long the server runs and whatever it is asked, between two requests no client is leased, no service has a
  request in flight, the in-flight gauges are zero and the selections of every pool equal its upstream
  results. The stores keep their invariants: the snapshot is one a registration can lead to, every loop and status of
  the health checks belongs to a commit, and the assignments are those of a reachable policy store.
\<close>

theorem server_between_requests:
  assumes "server_run t settings w"
  shows "(\<forall>c. pending_leases (SvPool w) c = 0) \<and> (\<forall>key. in_flight (SvTraffic w) key = 0) \<and>
    metric_value (SvCalls w) HTTPInFlight [] = 0 \<and>
    (\<forall>ls. metric_value (SvCalls w) PoolInFlight ls = 0 \<and>
      metric_value (SvCalls w) PoolSelections ls = tally (upstream_result_for ls) (SvCalls w)) \<and>
    coordinator_ok (SvPool w) \<and> server_reachable (SvManager w) \<and> (\<exists>n. health_run n (SvHealth w)) \<and>
    policy_store_ok (SvPolicy w)"
  using server_run_inv [OF assms] by (simp add: at_rest_def)

definition started_server :: "mem_writer server" where
  "started_server = sample_server\<lparr>SvManager := newRouter_manager\<rparr>"

definition served_server :: "mem_writer server" where
  "served_server = snd (server_serve sample_transport sample_calls sample_server_env sample_get
     (started_server\<lparr>SvWriter := new_mem_writer\<rparr>))"

lemma served_server_run: "server_run sample_transport sample_calls served_server"
proof -
  have "NewCoordinator (Some sample_transport) sample_globals = Inr sample_start" by code_simp
  then have "newRouter (Some sample_transport) (configure_all sample_calls) new_mem_writer = Some (Inr started_server)"
    unfolding newRouter_def Config_NewHandler_def sample_globals_eq
    by (simp add: started_server_def sample_server_def health_init_def Health_NewManager_def)
  then have "server_run sample_transport sample_calls started_server" by (rule server_run.start)
  then show ?thesis unfolding served_server_def
    by (rule server_run.request [OF _ sample_server_ready(1) prod.collapse [symmetric]])
qed

theorem server_between_requests_witness:
  "(\<forall>c. pending_leases (SvPool served_server) c = 0) \<and> (\<forall>key. in_flight (SvTraffic served_server) key = 0) \<and>
    metric_value (SvCalls served_server) HTTPInFlight [] = 0 \<and>
    (\<forall>ls. metric_value (SvCalls served_server) PoolInFlight ls = 0 \<and>
      metric_value (SvCalls served_server) PoolSelections ls = tally (upstream_result_for ls) (SvCalls served_server)) \<and>
    coordinator_ok (SvPool served_server) \<and> server_reachable (SvManager served_server) \<and>
    (\<exists>n. health_run n (SvHealth served_server)) \<and> policy_store_ok (SvPolicy served_server)"
  by (rule server_between_requests [OF served_server_run])

end
