(* ===== verification/Buffers.thy ===== *)
theory Buffers
  imports GoPrelude "HOL-Library.Multiset"
begin

text \<open>
  The buffers the reverse proxy copies bodies with (\<open>internal/pool/buffer.go\<close>, \<open>consts.go\<close>).

  A slice is its backing array, its length and its capacity. \<open>sync.Pool\<close> gives no promise about which of its items
  \<open>Get\<close> returns, or whether it returns one at all: the choice is an argument, and the items may vanish at any
  time. When it has none to give, it calls \<open>New\<close>, if there is one.
\<close>

definition reverseProxyBufferSize :: int where
  "reverseProxyBufferSize = 32 * 1024"

record buffer =
  BufArray :: nat
  BufLen :: int
  BufCap :: int

text \<open>The items of the pool, whether \<open>New\<close> is set, and the number of arrays allocated so far.\<close>

record byteBufferPool =
  PoolItems :: "buffer list"
  PoolNew :: bool
  Allocated :: nat

definition reverseProxyBufferPool :: byteBufferPool where
  "reverseProxyBufferPool = \<lparr>PoolItems = [], PoolNew = True, Allocated = 0\<rparr>"

text \<open>\<open>make([]byte, reverseProxyBufferSize)\<close>\<close>

definition make_buffer :: "byteBufferPool \<Rightarrow> buffer \<times> byteBufferPool" where
  "make_buffer p =
     (\<lparr>BufArray = Allocated p, BufLen = reverseProxyBufferSize, BufCap = reverseProxyBufferSize\<rparr>,
      p\<lparr>Allocated := Allocated p + 1\<rparr>)"

text \<open>\<open>sync.Pool.Get\<close>\<close>

definition sync_Get :: "nat option \<Rightarrow> byteBufferPool \<Rightarrow> buffer option \<times> byteBufferPool" where
  "sync_Get choice p = (case choice of
     Some i \<Rightarrow> if i < length (PoolItems p)
       then (Some (PoolItems p ! i), p\<lparr>PoolItems := take i (PoolItems p) @ drop (Suc i) (PoolItems p)\<rparr>)
       else if PoolNew p then map_prod Some id (make_buffer p) else (None, p)
   | None \<Rightarrow> if PoolNew p then map_prod Some id (make_buffer p) else (None, p))"

definition Buffer_Get :: "nat option \<Rightarrow> byteBufferPool \<Rightarrow> buffer \<times> byteBufferPool" where
  "Buffer_Get choice p = (case sync_Get choice p of
     (None, p) \<Rightarrow> make_buffer p
   | (Some buf, p) \<Rightarrow>
       if BufCap buf < reverseProxyBufferSize then make_buffer p
       else (buf\<lparr>BufLen := reverseProxyBufferSize\<rparr>, p))"

definition Buffer_Put :: "buffer \<Rightarrow> byteBufferPool \<Rightarrow> byteBufferPool" where
  "Buffer_Put buf p =
     (if BufCap buf < reverseProxyBufferSize then p
      else p\<lparr>PoolItems := PoolItems p @ [buf\<lparr>BufLen := reverseProxyBufferSize\<rparr>]\<rparr>)"

section \<open>Who holds which buffer\<close>

text \<open>
  The pool and the buffers handed out and not yet returned. A holder may reslice its buffer before it returns it,
  and may return a slice of its own with any capacity; an item of the pool may vanish.
\<close>

inductive buffer_run :: "byteBufferPool \<times> buffer list \<Rightarrow> bool" where
  start: "buffer_run (reverseProxyBufferPool, [])"
| get: "buffer_run (p, held) \<Longrightarrow> Buffer_Get choice p = (buf, p') \<Longrightarrow> buffer_run (p', held @ [buf])"
| put: "buffer_run (p, held) \<Longrightarrow> i < length held \<Longrightarrow>
    buffer_run (Buffer_Put ((held ! i)\<lparr>BufLen := n\<rparr>) p, take i held @ drop (Suc i) held)"
| put_own: "buffer_run (p, held) \<Longrightarrow>
    buffer_run (Buffer_Put \<lparr>BufArray = Allocated p, BufLen = n, BufCap = cap\<rparr> (p\<lparr>Allocated := Allocated p + 1\<rparr>), held)"
| vanish: "buffer_run (p, held) \<Longrightarrow> i < length (PoolItems p) \<Longrightarrow>
    buffer_run (p\<lparr>PoolItems := take i (PoolItems p) @ drop (Suc i) (PoolItems p)\<rparr>, held)"

definition full_buffer :: "buffer \<Rightarrow> bool" where
  "full_buffer buf \<longleftrightarrow> BufLen buf = reverseProxyBufferSize \<and> reverseProxyBufferSize \<le> BufCap buf"

text \<open>All buffers, in the pool or held: full, on arrays of their own, all of them allocated.\<close>

definition buffers_ok :: "nat \<Rightarrow> buffer multiset \<Rightarrow> bool" where
  "buffers_ok n M \<longleftrightarrow> (\<forall>buf \<in># M. full_buffer buf \<and> BufArray buf < n) \<and> (\<forall>a. count (image_mset BufArray M) a \<le> 1)"

definition buffers_inv :: "byteBufferPool \<Rightarrow> buffer list \<Rightarrow> bool" where
  "buffers_inv p held \<longleftrightarrow> buffers_ok (Allocated p) (mset (PoolItems p @ held))"

lemma buffers_ok_fresh:
  assumes "buffers_ok n M" "full_buffer buf" "BufArray buf = n"
  shows "buffers_ok (n + 1) (add_mset buf M)"
proof -
  have "n \<notin># image_mset BufArray M" using assms(1) by (auto simp: buffers_ok_def)
  then have "count (image_mset BufArray M) n = 0" unfolding not_in_iff .
  then show ?thesis using assms by (auto simp: buffers_ok_def less_Suc_eq)
qed

lemma buffers_ok_less:
  assumes "buffers_ok n M" "N \<subseteq># M" "n \<le> k"
  shows "buffers_ok k N"
proof -
  have "count (image_mset BufArray N) a \<le> count (image_mset BufArray M) a" for a
    using assms(2) by (intro mset_subset_eq_count image_mset_subseteq_mono)
  then show ?thesis using assms by (fastforce simp: buffers_ok_def dest: mset_subset_eqD intro: le_trans)
qed

lemma take_out: "i < length xs \<Longrightarrow> mset xs = add_mset (xs ! i) (mset (take i xs @ drop (Suc i) xs))"
proof -
  assume "i < length xs"
  then have "mset xs = mset (take i xs @ xs ! i # drop (Suc i) xs)" using id_take_nth_drop [of i xs] by simp
  then show ?thesis by simp
qed

lemma full_same [simp]: "full_buffer buf \<Longrightarrow> buf\<lparr>BufLen := reverseProxyBufferSize\<rparr> = buf"
  by (simp add: full_buffer_def)

lemma made_buffer:
  assumes "make_buffer p = (buf, p')"
  shows "full_buffer buf" "BufArray buf = Allocated p" "PoolItems p' = PoolItems p" "Allocated p' = Allocated p + 1"
  using assms by (auto simp: make_buffer_def full_buffer_def)

lemma Buffer_Get_cases:
  assumes "Buffer_Get choice p = (buf, p')" "list_all full_buffer (PoolItems p)"
  obtains (made) "make_buffer p = (buf, p')"
  | (reused) i where "i < length (PoolItems p)" "buf = PoolItems p ! i" "full_buffer buf" "Allocated p' = Allocated p"
      "PoolItems p' = take i (PoolItems p) @ drop (Suc i) (PoolItems p)"
proof (cases "\<exists>i. choice = Some i \<and> i < length (PoolItems p)")
  case True
  then obtain i where i: "choice = Some i" "i < length (PoolItems p)" by blast
  then have full: "full_buffer (PoolItems p ! i)" using assms(2) by (simp add: list_all_length)
  then have "\<not> BufCap (PoolItems p ! i) < reverseProxyBufferSize" by (simp add: full_buffer_def)
  then show thesis using assms(1) i full reused [of i] by (auto simp: Buffer_Get_def sync_Get_def)
next
  case False
  have "\<not> reverseProxyBufferSize < reverseProxyBufferSize" by simp
  then have "make_buffer p = (buf, p')"
    using assms(1) False by (auto simp: Buffer_Get_def sync_Get_def make_buffer_def split: option.splits if_splits)
  then show thesis by (rule made)
qed

lemma Buffer_Put_inv:
  assumes "buffers_ok n (add_mset buf (mset (PoolItems p @ held)))" "Allocated p = n"
  shows "buffers_inv (Buffer_Put buf p) held"
proof -
  have "full_buffer buf" using assms(1) by (simp add: buffers_ok_def)
  then have "Buffer_Put buf p = p\<lparr>PoolItems := PoolItems p @ [buf]\<rparr>"
    unfolding Buffer_Put_def by (simp add: full_buffer_def)
  then show ?thesis using assms by (simp add: buffers_inv_def)
qed

lemma buffer_run_inv: "buffer_run s \<Longrightarrow> buffers_inv (fst s) (snd s)"
proof (induction rule: buffer_run.induct)
  case start
  then show ?case by (simp add: buffers_inv_def buffers_ok_def reverseProxyBufferPool_def)
next
  case (get p held choice buf p')
  then have inv: "buffers_ok (Allocated p) (mset (PoolItems p @ held))" by (simp add: buffers_inv_def)
  then have "list_all full_buffer (PoolItems p)" by (simp add: buffers_ok_def list_all_iff)
  with get.hyps(2) show ?case
  proof (cases rule: Buffer_Get_cases)
    case made
    then show ?thesis using buffers_ok_fresh [OF inv] made_buffer [OF made] by (simp add: buffers_inv_def)
  next
    case (reused i)
    then have "mset (PoolItems p' @ held @ [buf]) = mset (PoolItems p @ held)"
      using take_out [OF reused(1)] by simp
    then show ?thesis using inv reused(4) by (simp only: buffers_inv_def fst_conv snd_conv)
  qed
next
  case (put p held i n)
  then have inv: "buffers_ok (Allocated p) (mset (PoolItems p @ held))" by (simp add: buffers_inv_def)
  then have full: "full_buffer (held ! i)" using put.hyps(2) nth_mem [of i held] by (auto simp: buffers_ok_def)
  have "mset (PoolItems p @ held) = add_mset (held ! i) (mset (PoolItems p @ take i held @ drop (Suc i) held))"
    using take_out [OF put.hyps(2)] by simp
  then have "buffers_inv (Buffer_Put (held ! i) p) (take i held @ drop (Suc i) held)"
    using inv Buffer_Put_inv [of "Allocated p" "held ! i" p] by metis
  moreover have "Buffer_Put ((held ! i)\<lparr>BufLen := n\<rparr>) p = Buffer_Put (held ! i) p" by (simp add: Buffer_Put_def)
  ultimately show ?case by simp
next
  case (put_own p held n cap)
  then have inv: "buffers_ok (Allocated p) (mset (PoolItems p @ held))" by (simp add: buffers_inv_def)
  show ?case
  proof (cases "cap < reverseProxyBufferSize")
    case True
    then show ?thesis using buffers_ok_less [OF inv subset_mset.order_refl] by (simp add: Buffer_Put_def buffers_inv_def)
  next
    case False
    then show ?thesis
      using buffers_ok_fresh [OF inv, of "\<lparr>BufArray = Allocated p, BufLen = reverseProxyBufferSize, BufCap = cap\<rparr>"]
      by (simp add: Buffer_Put_def buffers_inv_def full_buffer_def)
  qed
next
  case (vanish p held i)
  then have inv: "buffers_ok (Allocated p) (mset (PoolItems p @ held))" by (simp add: buffers_inv_def)
  have "mset (take i (PoolItems p) @ drop (Suc i) (PoolItems p)) \<subseteq># mset (PoolItems p)"
    using take_out [OF vanish.hyps(2)] by (metis mset_subset_eq_add_mset_cancel subset_mset.dual_order.refl mset_subset_eq_insertD subset_mset.less_imp_le)
  then show ?case using buffers_ok_less [OF inv] by (simp add: buffers_inv_def)
qed

text \<open>
  C17: Whatever the pool chooses to return and whatever the holders give back, every buffer in the hands of a response
  has exactly 32 KiB, and no two of them, nor one of them and an item of the pool, share an array: the
  bodies of concurrent responses never mix.
\<close>

theorem held_buffers_disjoint:
  assumes "buffer_run (p, held)"
  shows "(\<forall>buf \<in> set held. BufLen buf = 32768) \<and> distinct (map BufArray (held @ PoolItems p))"
proof -
  have inv: "buffers_ok (Allocated p) (mset (PoolItems p @ held))"
    using buffer_run_inv [OF assms] by (simp add: buffers_inv_def)
  have "distinct (map BufArray (held @ PoolItems p))"
    unfolding distinct_count_atmost_1
  proof
    fix a
    have "count (mset (map BufArray (held @ PoolItems p))) a \<le> 1"
      using inv by (simp add: buffers_ok_def add.commute)
    moreover have "a \<in> set (map BufArray (held @ PoolItems p)) \<longleftrightarrow> 0 < count (mset (map BufArray (held @ PoolItems p))) a"
      by (simp only: count_greater_zero_iff set_mset_mset)
    moreover have "k = (if 0 < k then 1 else 0)" if "k \<le> 1" for k :: nat using that by auto
    ultimately show "count (mset (map BufArray (held @ PoolItems p))) a =
        (if a \<in> set (map BufArray (held @ PoolItems p)) then 1 else 0)" by metis
  qed
  then show ?thesis using inv by (auto simp: buffers_ok_def full_buffer_def reverseProxyBufferSize_def)
qed

theorem held_buffers_disjoint_witness:
  "BufLen (fst (make_buffer reverseProxyBufferPool)) = 32768 \<and>
   distinct (map BufArray ([fst (make_buffer reverseProxyBufferPool)] @ []))"
proof -
  have "Buffer_Get None reverseProxyBufferPool = make_buffer reverseProxyBufferPool"
    by (simp add: Buffer_Get_def sync_Get_def reverseProxyBufferPool_def make_buffer_def)
  then have "buffer_run (reverseProxyBufferPool\<lparr>Allocated := 1\<rparr>, [] @ [fst (make_buffer reverseProxyBufferPool)])"
    by (intro buffer_run.get [OF buffer_run.start]) (simp add: make_buffer_def reverseProxyBufferPool_def)
  from held_buffers_disjoint [OF this] show ?thesis by (simp add: reverseProxyBufferPool_def)
qed

end
