(* ===== verification/SettingsJson.thy ===== *)
theory SettingsJson
  imports ConfigApi
begin

text \<open>
  What a settings document means, stated independently of the decoder: a relation between a JSON value and the Go
  value before and after it is decoded, by the tags of \<open>internal/config/model.go\<close> and the rules of
  \<open>encoding/json\<close>. The members with the name of a field are decoded into it one after the other, a
  member that matches no tag is an error, and \<open>null\<close> leaves a value as it is or makes a pointer nil.
\<close>

section \<open>Members\<close>

definition named :: "string \<Rightarrow> (string \<times> 'a) list \<Rightarrow> 'a list" where
  "named tag ms = map snd (filter (\<lambda>(k, v). equal_fold k tag) ms)"

definition known :: "string list \<Rightarrow> (string \<times> 'a) list \<Rightarrow> bool" where
  "known tags ms \<longleftrightarrow> list_all (\<lambda>(k, v). list_ex (equal_fold k) tags) ms"

fun replay :: "('j \<Rightarrow> 'a \<Rightarrow> 'a \<Rightarrow> bool) \<Rightarrow> 'j list \<Rightarrow> 'a \<Rightarrow> 'a \<Rightarrow> bool" where
  "replay R [] old new \<longleftrightarrow> new = old"
| "replay R (j # js) old new \<longleftrightarrow> (\<exists>mid. R j old mid \<and> replay R js mid new)"

lemma members_simps [simp]:
  "named tag [] = []" "named tag ((k, v) # ms) = (if equal_fold k tag then v # named tag ms else named tag ms)"
  "known tags []" "known tags ((k, v) # ms) \<longleftrightarrow> list_ex (equal_fold k) tags \<and> known tags ms"
  by (simp_all add: named_def known_def)

section \<open>The relations\<close>

definition string_json :: "json \<Rightarrow> string \<Rightarrow> string \<Rightarrow> bool" where
  "string_json j old new \<longleftrightarrow> (case j of JNull \<Rightarrow> new = old | JString s \<Rightarrow> new = s | _ \<Rightarrow> False)"

definition bool_json :: "json \<Rightarrow> bool \<Rightarrow> bool \<Rightarrow> bool" where
  "bool_json j old new \<longleftrightarrow> (case j of JNull \<Rightarrow> new = old | JBool b \<Rightarrow> new = b | _ \<Rightarrow> False)"

definition int_json :: "json \<Rightarrow> int \<Rightarrow> int \<Rightarrow> bool" where
  "int_json j old new \<longleftrightarrow> (case j of JNull \<Rightarrow> new = old | JNumber l \<Rightarrow> atoi l = Some new | _ \<Rightarrow> False)"

definition float_json :: "json \<Rightarrow> float64 \<Rightarrow> float64 \<Rightarrow> bool" where
  "float_json j old new \<longleftrightarrow> (case j of JNull \<Rightarrow> new = old | JNumber l \<Rightarrow> parse_float l = Some new | _ \<Rightarrow> False)"

definition pointer_json :: "('j \<Rightarrow> bool) \<Rightarrow> ('j \<Rightarrow> 'a \<Rightarrow> 'a \<Rightarrow> bool) \<Rightarrow> 'a \<Rightarrow> 'j \<Rightarrow> 'a option \<Rightarrow> 'a option \<Rightarrow> bool" where
  "pointer_json isnull R zero j old new \<longleftrightarrow>
     (if isnull j then new = None else (\<exists>x. new = Some x \<and> R j (case old of None \<Rightarrow> zero | Some x \<Rightarrow> x) x))"

definition slice_json :: "(json \<Rightarrow> 'a \<Rightarrow> 'a \<Rightarrow> bool) \<Rightarrow> 'a \<Rightarrow> json \<Rightarrow> 'a list \<Rightarrow> 'a list \<Rightarrow> bool" where
  "slice_json R zero j old new \<longleftrightarrow> (case j of
     JNull \<Rightarrow> new = []
   | JArray js \<Rightarrow> length new = length js \<and>
       (\<forall>i < length js. R (js ! i) (if i < length old then old ! i else zero) (new ! i))
   | _ \<Rightarrow> False)"

definition struct_json :: "string list \<Rightarrow> ((string \<times> json) list \<Rightarrow> 'a \<Rightarrow> 'a \<Rightarrow> bool) \<Rightarrow> json \<Rightarrow> 'a \<Rightarrow> 'a \<Rightarrow> bool" where
  "struct_json tags inner j old new \<longleftrightarrow> (case j of
     JNull \<Rightarrow> new = old | JObject ms \<Rightarrow> known tags ms \<and> inner ms old new | _ \<Rightarrow> False)"

definition point_json :: "json \<Rightarrow> threshold_point \<Rightarrow> threshold_point \<Rightarrow> bool" where
  "point_json = struct_json [''rps'', ''in-flight''] (\<lambda>ms old new.
     replay float_json (named ''rps'' ms) (RPS old) (RPS new) \<and>
     replay int_json (named ''in-flight'' ms) (InFlight old) (InFlight new))"

definition threshold_json :: "json \<Rightarrow> threshold_settings \<Rightarrow> threshold_settings \<Rightarrow> bool" where
  "threshold_json = struct_json [''normal'', ''hot'', ''super''] (\<lambda>ms old new.
     replay point_json (named ''normal'' ms) (Normal old) (Normal new) \<and>
     replay point_json (named ''hot'' ms) (Hot old) (Hot new) \<and>
     replay point_json (named ''super'' ms) (Super old) (Super new))"

definition health_json :: "json \<Rightarrow> health_settings \<Rightarrow> health_settings \<Rightarrow> bool" where
  "health_json = struct_json [''enabled'', ''path'', ''interval'', ''timeout'', ''jitter'', ''max-backoff'',
       ''failure-threshold'', ''success-threshold''] (\<lambda>ms old new.
     replay (pointer_json (\<lambda>j. j = JNull) bool_json False) (named ''enabled'' ms) (Enabled old) (Enabled new) \<and>
     replay string_json (named ''path'' ms) (HealthPath old) (HealthPath new) \<and>
     replay string_json (named ''interval'' ms) (Interval old) (Interval new) \<and>
     replay string_json (named ''timeout'' ms) (Timeout old) (Timeout new) \<and>
     replay string_json (named ''jitter'' ms) (Jitter old) (Jitter new) \<and>
     replay string_json (named ''max-backoff'' ms) (MaxBackoff old) (MaxBackoff new) \<and>
     replay int_json (named ''failure-threshold'' ms) (FailureThreshold old) (FailureThreshold new) \<and>
     replay int_json (named ''success-threshold'' ms) (SuccessThreshold old) (SuccessThreshold new))"

definition endpoint_json :: "json \<Rightarrow> endpoint_settings \<Rightarrow> endpoint_settings \<Rightarrow> bool" where
  "endpoint_json = struct_json [''path'', ''method'', ''roles''] (\<lambda>ms old new.
     replay string_json (named ''path'' ms) (EndpointPath old) (EndpointPath new) \<and>
     replay string_json (named ''method'' ms) (EndpointMethod old) (EndpointMethod new) \<and>
     replay (slice_json string_json []) (named ''roles'' ms) (EndpointRoles old) (EndpointRoles new))"

text \<open>
  The structs with a field that keeps the text of its value (\<open>jwks\<close>, or the instance, which decodes itself) are
  related to texts: \<open>object_texts text raws\<close> holds for the names and the texts of the members of an object.
\<close>

definition object_texts :: "string \<Rightarrow> (string \<times> string) list \<Rightarrow> bool" where
  "object_texts text raws \<longleftrightarrow> (\<exists>ms. json_parse text = Some (JObject ms) \<and> member_texts raws ms \<and>
     (ms = [] \<or> raw_object text = Some raws))"

definition value_of :: "(json \<Rightarrow> 'a \<Rightarrow> 'a \<Rightarrow> bool) \<Rightarrow> string \<Rightarrow> 'a \<Rightarrow> 'a \<Rightarrow> bool" where
  "value_of R raw old new \<longleftrightarrow> (\<exists>j. json_parse raw = Some j \<and> R j old new)"

definition struct_text ::
  "string list \<Rightarrow> ((string \<times> string) list \<Rightarrow> 'a \<Rightarrow> 'a \<Rightarrow> bool) \<Rightarrow> string \<Rightarrow> 'a \<Rightarrow> 'a \<Rightarrow> bool" where
  "struct_text tags inner raw old new \<longleftrightarrow> json_parse raw = Some JNull \<and> new = old \<or>
     (\<exists>raws. object_texts raw raws \<and> known tags raws \<and> inner raws old new)"

definition auth_text :: "string \<Rightarrow> auth_settings \<Rightarrow> auth_settings \<Rightarrow> bool" where
  "auth_text = struct_text [''jwt_algorithm'', ''jwt_audience'', ''jwt_clock_skew'', ''jwt_issuer'', ''jwt_secret'', ''jwks'']
     (\<lambda>raws old new.
     replay (value_of string_json) (named ''jwt_algorithm'' raws) (JWTAlgorithm old) (JWTAlgorithm new) \<and>
     replay (value_of string_json) (named ''jwt_audience'' raws) (JWTAudience old) (JWTAudience new) \<and>
     replay (value_of string_json) (named ''jwt_clock_skew'' raws) (JWTClockSkew old) (JWTClockSkew new) \<and>
     replay (value_of string_json) (named ''jwt_issuer'' raws) (JWTIssuer old) (JWTIssuer new) \<and>
     replay (value_of string_json) (named ''jwt_secret'' raws) (JWTSecret old) (JWTSecret new) \<and>
     JWKS new = last (JWKS old # named ''jwks'' raws))"

definition global_text :: "string \<Rightarrow> global_settings \<Rightarrow> global_settings \<Rightarrow> bool" where
  "global_text = struct_text [''auth''] (\<lambda>raws old new.
     replay (pointer_json (\<lambda>raw. json_parse raw = Some JNull) auth_text empty_auth) (named ''auth'' raws) (Auth old) (Auth new))"

text \<open>The decoder of an instance is its own: it knows no old values and ignores unknown members, and it needs a port.\<close>

definition port_json :: "json \<Rightarrow> string \<Rightarrow> bool" where
  "port_json j port \<longleftrightarrow> (case j of JNull \<Rightarrow> port = [] | JString s \<Rightarrow> port = s | JNumber l \<Rightarrow> map_option itoa (atoi l) = Some port
     | _ \<Rightarrow> False)"

definition instance_json :: "json \<Rightarrow> instance_settings \<Rightarrow> instance_settings \<Rightarrow> bool" where
  "instance_json j old new \<longleftrightarrow> (case j of
     JObject ms \<Rightarrow> replay string_json (named ''scheme'' ms) [] (Scheme new) \<and>
       replay string_json (named ''host'' ms) [] (Host new) \<and>
       named ''port'' ms \<noteq> [] \<and> port_json (last (named ''port'' ms)) (Port new) \<and> HealthKey new = HealthKey old
   | _ \<Rightarrow> False)"

definition settings_text :: "string \<Rightarrow> settings \<Rightarrow> settings \<Rightarrow> bool" where
  "settings_text = struct_text [''global'', ''health'', ''instance'', ''service-name'', ''threshold'', ''endpoints'']
     (\<lambda>raws old new.
     replay (pointer_json (\<lambda>raw. json_parse raw = Some JNull) global_text \<lparr>Auth = None\<rparr>) (named ''global'' raws)
       (Global old) (Global new) \<and>
     replay (value_of (pointer_json (\<lambda>j. j = JNull) health_json empty_health)) (named ''health'' raws) (Health old) (Health new) \<and>
     replay (value_of (pointer_json (\<lambda>j. j = JNull) instance_json empty_instance)) (named ''instance'' raws)
       (Instance old) (Instance new) \<and>
     replay (value_of string_json) (named ''service-name'' raws) (ServiceName old) (ServiceName new) \<and>
     replay (value_of (pointer_json (\<lambda>j. j = JNull) threshold_json empty_threshold)) (named ''threshold'' raws)
       (Threshold old) (Threshold new) \<and>
     replay (value_of (slice_json endpoint_json empty_endpoint)) (named ''endpoints'' raws) (Endpoints old) (Endpoints new))"

section \<open>The decoders\<close>

lemma equal_fold_lower: "to_lower tag = tag \<Longrightarrow> equal_fold k tag \<longleftrightarrow> to_lower (fold_runes k) = tag"
  by (simp add: equal_fold_def)

lemma lower_tags:
  "to_lower ''rps'' = ''rps''" "to_lower ''in-flight'' = ''in-flight''" "to_lower ''normal'' = ''normal''"
  "to_lower ''hot'' = ''hot''" "to_lower ''super'' = ''super''" "to_lower ''enabled'' = ''enabled''"
  "to_lower ''path'' = ''path''" "to_lower ''interval'' = ''interval''" "to_lower ''timeout'' = ''timeout''"
  "to_lower ''jitter'' = ''jitter''" "to_lower ''max-backoff'' = ''max-backoff''"
  "to_lower ''failure-threshold'' = ''failure-threshold''" "to_lower ''success-threshold'' = ''success-threshold''"
  "to_lower ''method'' = ''method''" "to_lower ''roles'' = ''roles''" "to_lower ''jwt_algorithm'' = ''jwt_algorithm''"
  "to_lower ''jwt_audience'' = ''jwt_audience''" "to_lower ''jwt_clock_skew'' = ''jwt_clock_skew''"
  "to_lower ''jwt_issuer'' = ''jwt_issuer''" "to_lower ''jwt_secret'' = ''jwt_secret''" "to_lower ''jwks'' = ''jwks''"
  "to_lower ''auth'' = ''auth''" "to_lower ''global'' = ''global''" "to_lower ''health'' = ''health''"
  "to_lower ''instance'' = ''instance''" "to_lower ''service-name'' = ''service-name''"
  "to_lower ''threshold'' = ''threshold''" "to_lower ''endpoints'' = ''endpoints''" "to_lower ''scheme'' = ''scheme''"
  "to_lower ''host'' = ''host''" "to_lower ''port'' = ''port''"
  by code_simp+

lemmas tag_simps = lower_tags [THEN equal_fold_lower]

lemma scalar_json:
  "decode_string old j = Some x \<longleftrightarrow> string_json j old x" "decode_bool b j = Some c \<longleftrightarrow> bool_json j b c"
  "decode_int m j = Some n \<longleftrightarrow> int_json j m n" "decode_float p j = Some q \<longleftrightarrow> float_json j p q"
  by (auto simp: decode_string_def decode_bool_def decode_int_def decode_float_def string_json_def bool_json_def int_json_def
      float_json_def split: json.split)

lemma pointer_json_iff:
  assumes "\<And>j old x. dec old j = Some x \<longleftrightarrow> R j old x"
  shows "decode_pointer dec zero old j = Some new \<longleftrightarrow> pointer_json (\<lambda>j. j = JNull) R zero j old new"
  by (auto simp: decode_pointer_def pointer_json_def assms)

lemma slice_json_iff:
  assumes "\<And>j old x. dec old j = Some x \<longleftrightarrow> R j old x"
  shows "decode_slice dec zero old j = Some new \<longleftrightarrow> slice_json R zero j old new"
proof -
  have "decode_elements dec zero olds js = Some xs \<longleftrightarrow> length xs = length js \<and>
      (\<forall>i < length js. R (js ! i) (if i < length olds then olds ! i else zero) (xs ! i))" for olds js xs
  proof (induction js arbitrary: olds xs)
    case (Cons j js)
    have first: "(case olds of [] \<Rightarrow> zero | old # _ \<Rightarrow> old) = (if 0 < length olds then olds ! 0 else zero)"
      by (cases olds) simp_all
    have rest: "(if i < length (drop 1 olds) then drop 1 olds ! i else zero) =
        (if Suc i < length olds then olds ! Suc i else zero)" for i by (cases olds) simp_all
    have "decode_elements dec zero olds (j # js) = Some xs \<longleftrightarrow> (\<exists>y ys. xs = y # ys \<and>
        R j (if 0 < length olds then olds ! 0 else zero) y \<and> decode_elements dec zero (drop 1 olds) js = Some ys)"
      by (auto simp: first assms [symmetric] split: option.split)
    then show ?case unfolding Cons.IH rest by (cases xs) (auto simp: All_less_Suc2)
  qed auto
  then show ?thesis by (auto simp: decode_slice_def slice_json_def split: json.split)
qed

lemma struct_json_iff:
  assumes "\<And>ms r r'. decode_members field ms r = Some r' \<longleftrightarrow> known tags ms \<and> inner ms r r'"
  shows "decode_struct field old j = Some new \<longleftrightarrow> struct_json tags inner j old new"
  by (auto simp: decode_struct_def struct_json_def assms split: json.split)

lemma decode_members_Cons:
  "decode_members field ((k, j) # ms) r = Some r' \<longleftrightarrow> (\<exists>r1. field k j r = Some r1 \<and> decode_members field ms r1 = Some r')"
  by (simp split: option.split)

lemma point_json_iff: "decode_struct point_field old j = Some new \<longleftrightarrow> point_json j old new"
  unfolding point_json_def
proof (rule struct_json_iff)
  show "decode_members point_field ms r = Some r' \<longleftrightarrow> known [''rps'', ''in-flight''] ms \<and>
      replay float_json (named ''rps'' ms) (RPS r) (RPS r') \<and> replay int_json (named ''in-flight'' ms) (InFlight r) (InFlight r')"
    for ms r r'
  proof (induction ms arbitrary: r)
    case Nil
    then show ?case by (auto intro: threshold_point.equality)
  next
    case (Cons m ms)
    obtain k j where m: "m = (k, j)" by (cases m)
    show ?case unfolding m decode_members_Cons by (auto simp: point_field_def tag_simps scalar_json Cons.IH)
  qed
qed

lemma threshold_json_iff: "decode_struct threshold_field old j = Some new \<longleftrightarrow> threshold_json j old new"
  unfolding threshold_json_def
proof (rule struct_json_iff)
  fix ms r r'
  show "decode_members threshold_field ms r = Some r' \<longleftrightarrow> known [''normal'', ''hot'', ''super''] ms \<and>
      replay point_json (named ''normal'' ms) (Normal r) (Normal r') \<and> replay point_json (named ''hot'' ms) (Hot r) (Hot r') \<and>
      replay point_json (named ''super'' ms) (Super r) (Super r')"
  proof (induction ms arbitrary: r)
    case Nil
    then show ?case by (auto intro: threshold_settings.equality)
  next
    case (Cons m ms)
    obtain k j where m: "m = (k, j)" by (cases m)
    show ?case unfolding m decode_members_Cons by (auto simp: threshold_field_def tag_simps point_json_iff Cons.IH)
  qed
qed

lemma endpoint_json_iff: "decode_struct endpoint_field old j = Some new \<longleftrightarrow> endpoint_json j old new"
  unfolding endpoint_json_def
proof (rule struct_json_iff)
  fix ms r r'
  show "decode_members endpoint_field ms r = Some r' \<longleftrightarrow> known [''path'', ''method'', ''roles''] ms \<and>
      replay string_json (named ''path'' ms) (EndpointPath r) (EndpointPath r') \<and>
      replay string_json (named ''method'' ms) (EndpointMethod r) (EndpointMethod r') \<and>
      replay (slice_json string_json []) (named ''roles'' ms) (EndpointRoles r) (EndpointRoles r')"
  proof (induction ms arbitrary: r)
    case Nil
    then show ?case by (auto intro: endpoint_settings.equality)
  next
    case (Cons m ms)
    obtain k j where m: "m = (k, j)" by (cases m)
    show ?case unfolding m decode_members_Cons
      by (auto simp: endpoint_field_def tag_simps scalar_json slice_json_iff [OF scalar_json(1)] Cons.IH)
  qed
qed

lemma health_json_iff: "decode_struct health_field old j = Some new \<longleftrightarrow> health_json j old new"
  unfolding health_json_def
proof (rule struct_json_iff)
  fix ms r r'
  show "decode_members health_field ms r = Some r' \<longleftrightarrow> known [''enabled'', ''path'', ''interval'', ''timeout'', ''jitter'',
       ''max-backoff'', ''failure-threshold'', ''success-threshold''] ms \<and>
     replay (pointer_json (\<lambda>j. j = JNull) bool_json False) (named ''enabled'' ms) (Enabled r) (Enabled r') \<and>
     replay string_json (named ''path'' ms) (HealthPath r) (HealthPath r') \<and>
     replay string_json (named ''interval'' ms) (Interval r) (Interval r') \<and>
     replay string_json (named ''timeout'' ms) (Timeout r) (Timeout r') \<and>
     replay string_json (named ''jitter'' ms) (Jitter r) (Jitter r') \<and>
     replay string_json (named ''max-backoff'' ms) (MaxBackoff r) (MaxBackoff r') \<and>
     replay int_json (named ''failure-threshold'' ms) (FailureThreshold r) (FailureThreshold r') \<and>
     replay int_json (named ''success-threshold'' ms) (SuccessThreshold r) (SuccessThreshold r')"
  proof (induction ms arbitrary: r)
    case Nil
    then show ?case by (auto intro: health_settings.equality)
  next
    case (Cons m ms)
    obtain k j where m: "m = (k, j)" by (cases m)
    show ?case unfolding m decode_members_Cons
      by (auto simp: health_field_def tag_simps scalar_json pointer_json_iff [OF scalar_json(2)] Cons.IH)
  qed
qed

text \<open>The structs that are decoded from texts.\<close>

lemma decode_raw_members_Cons:
  "decode_raw_members field ((k, raw) # raws) r = Some r' \<longleftrightarrow>
     (\<exists>r1. field k raw r = Some r1 \<and> decode_raw_members field raws r1 = Some r')"
  by (simp split: option.split)

lemma struct_text_iff:
  assumes "\<And>raws r r'. decode_raw_members field raws r = Some r' \<longleftrightarrow> known tags raws \<and> inner raws r r'"
  shows "decode_raw_struct field old raw = Some new \<longleftrightarrow> struct_text tags inner raw old new"
proof -
  have empty: "known tags [] \<and> inner [] r r' \<longleftrightarrow> r = r'" for r r' using assms [of "[]" r r'] by simp
  have none: "member_texts raws [] \<longleftrightarrow> raws = []" for raws by (cases raws) (simp_all add: member_texts_def)
  show ?thesis
  proof (cases "\<exists>ms. json_parse raw = Some (JObject ms)")
    case True
    then obtain ms where ms: "json_parse raw = Some (JObject ms)" by blast
    show ?thesis
    proof (cases "ms = []")
      case True
      then show ?thesis using ms empty by (auto simp: decode_raw_struct_def struct_text_def object_texts_def none)
    next
      case False
      obtain raws where "raw_object raw = Some raws" "member_texts raws ms" using raw_object_texts [OF ms False] by blast
      then show ?thesis using ms False assms by (auto simp: decode_raw_struct_def struct_text_def object_texts_def)
    qed
  next
    case False
    then show ?thesis by (auto simp: decode_raw_struct_def struct_text_def object_texts_def split: option.split json.split)
  qed
qed

lemma value_of_iff:
  assumes "\<And>j old x. dec old j = Some x \<longleftrightarrow> R j old x"
  shows "decode_raw_value dec old raw = Some new \<longleftrightarrow> value_of R raw old new"
  by (auto simp: decode_raw_value_def value_of_def bind_eq_Some_conv assms)

lemma pointer_text_iff:
  assumes "\<And>raw old x. dec old raw = Some x \<longleftrightarrow> R raw old x"
  shows "decode_raw_pointer dec zero old raw = Some new \<longleftrightarrow> pointer_json (\<lambda>raw. json_parse raw = Some JNull) R zero raw old new"
  by (auto simp: decode_raw_pointer_def pointer_json_def assms)

lemma auth_text_iff: "decode_raw_struct auth_field old raw = Some new \<longleftrightarrow> auth_text raw old new"
  unfolding auth_text_def
proof (rule struct_text_iff)
  fix ms r r'
  show "decode_raw_members auth_field ms r = Some r' \<longleftrightarrow>
     known [''jwt_algorithm'', ''jwt_audience'', ''jwt_clock_skew'', ''jwt_issuer'', ''jwt_secret'', ''jwks''] ms \<and>
     replay (value_of string_json) (named ''jwt_algorithm'' ms) (JWTAlgorithm r) (JWTAlgorithm r') \<and>
     replay (value_of string_json) (named ''jwt_audience'' ms) (JWTAudience r) (JWTAudience r') \<and>
     replay (value_of string_json) (named ''jwt_clock_skew'' ms) (JWTClockSkew r) (JWTClockSkew r') \<and>
     replay (value_of string_json) (named ''jwt_issuer'' ms) (JWTIssuer r) (JWTIssuer r') \<and>
     replay (value_of string_json) (named ''jwt_secret'' ms) (JWTSecret r) (JWTSecret r') \<and>
     JWKS r' = last (JWKS r # named ''jwks'' ms)"
  proof (induction ms arbitrary: r)
    case Nil
    then show ?case by (auto intro: auth_settings.equality)
  next
    case (Cons m ms)
    obtain k j where m: "m = (k, j)" by (cases m)
    show ?case unfolding m decode_raw_members_Cons
      by (auto simp: auth_field_def Let_def tag_simps value_of_iff [OF scalar_json(1)] Cons.IH)
  qed
qed

lemma global_text_iff: "decode_raw_struct global_field old raw = Some new \<longleftrightarrow> global_text raw old new"
  unfolding global_text_def
proof (rule struct_text_iff)
  fix ms r r'
  show "decode_raw_members global_field ms r = Some r' \<longleftrightarrow> known [''auth''] ms \<and>
     replay (pointer_json (\<lambda>raw. json_parse raw = Some JNull) auth_text empty_auth) (named ''auth'' ms) (Auth r) (Auth r')"
  proof (induction ms arbitrary: r)
    case Nil
    then show ?case by (auto intro: global_settings.equality)
  next
    case (Cons m ms)
    obtain k j where m: "m = (k, j)" by (cases m)
    show ?case unfolding m decode_raw_members_Cons
      by (auto simp: global_field_def tag_simps pointer_text_iff [OF auth_text_iff] Cons.IH)
  qed
qed

text \<open>Instances.\<close>

lemma instance_members:
  "decode_members instance_value_field ms v = Some w \<longleftrightarrow>
     replay string_json (named ''scheme'' ms) (IvScheme v) (IvScheme w) \<and>
     replay string_json (named ''host'' ms) (IvHost v) (IvHost w) \<and>
     IvPort w = last (IvPort v # map Some (named ''port'' ms))"
proof (induction ms arbitrary: v)
  case Nil
  then show ?case by (auto intro: instance_value.equality)
next
  case (Cons m ms)
  obtain k j where m: "m = (k, j)" by (cases m)
  show ?case unfolding m decode_members_Cons by (auto simp: instance_value_field_def tag_simps scalar_json Cons.IH)
qed

lemma port_json_iff: "port_of_json j = Some p \<longleftrightarrow> port_json j p"
  by (auto simp: port_of_json_def port_json_def split: json.split)

lemma instance_json_iff: "instance_of_json old j = Some new \<longleftrightarrow> j \<noteq> JNull \<and> instance_json j old new"
proof (cases j)
  case (JObject ms)
  have "instance_of_json old j = Some new \<longleftrightarrow> (\<exists>w port. decode_members instance_value_field ms
      \<lparr>IvScheme = [], IvHost = [], IvPort = None\<rparr> = Some w \<and> Option.bind (IvPort w) port_of_json = Some port \<and>
      new = old\<lparr>Scheme := IvScheme w, Host := IvHost w, Port := port\<rparr>)"
    by (auto simp: instance_of_json_def decode_struct_def JObject bind_eq_Some_conv)
  also have "\<dots> \<longleftrightarrow> instance_json j old new"
  proof -
    have last: "last (None # map Some ps) = (if ps = [] then None else Some (last ps))" for ps :: "json list"
      by (simp add: last_map)
    show ?thesis unfolding instance_members last
      by (cases new; cases old) (auto simp: instance_json_def JObject port_json_iff last_map split: if_splits
        intro!: exI [of _ "\<lparr>IvScheme = Scheme new, IvHost = Host new, IvPort = Some (last (named ''port'' ms))\<rparr>"])
  qed
  finally show ?thesis using JObject by simp
qed (simp_all add: instance_of_json_def instance_json_def decode_struct_def)

lemma instance_pointer_iff:
  "decode_raw_pointer UnmarshalJSON empty_instance old raw = Some new \<longleftrightarrow>
     value_of (pointer_json (\<lambda>j. j = JNull) instance_json empty_instance) raw old new"
proof (cases "json_parse raw")
  case None
  then show ?thesis by (auto simp: decode_raw_pointer_def value_of_def UnmarshalJSON_value)
next
  case (Some j)
  then show ?thesis
    by (cases "j = JNull") (auto simp: decode_raw_pointer_def value_of_def UnmarshalJSON_value pointer_json_def instance_json_iff)
qed

lemma settings_text_iff: "decode_raw_struct settings_field old raw = Some new \<longleftrightarrow> settings_text raw old new"
  unfolding settings_text_def
proof (rule struct_text_iff)
  note value_iffs = value_of_iff [OF scalar_json(1)] value_of_iff [OF pointer_json_iff [OF health_json_iff]]
    value_of_iff [OF pointer_json_iff [OF threshold_json_iff]] value_of_iff [OF slice_json_iff [OF endpoint_json_iff]]
    pointer_text_iff [OF global_text_iff] instance_pointer_iff
  fix ms r r'
  show "decode_raw_members settings_field ms r = Some r' \<longleftrightarrow>
     known [''global'', ''health'', ''instance'', ''service-name'', ''threshold'', ''endpoints''] ms \<and>
     replay (pointer_json (\<lambda>raw. json_parse raw = Some JNull) global_text \<lparr>Auth = None\<rparr>) (named ''global'' ms)
       (Global r) (Global r') \<and>
     replay (value_of (pointer_json (\<lambda>j. j = JNull) health_json empty_health)) (named ''health'' ms) (Health r) (Health r') \<and>
     replay (value_of (pointer_json (\<lambda>j. j = JNull) instance_json empty_instance)) (named ''instance'' ms)
       (Instance r) (Instance r') \<and>
     replay (value_of string_json) (named ''service-name'' ms) (ServiceName r) (ServiceName r') \<and>
     replay (value_of (pointer_json (\<lambda>j. j = JNull) threshold_json empty_threshold)) (named ''threshold'' ms)
       (Threshold r) (Threshold r') \<and>
     replay (value_of (slice_json endpoint_json empty_endpoint)) (named ''endpoints'' ms) (Endpoints r) (Endpoints r')"
  proof (induction ms arbitrary: r)
    case Nil
    then show ?case by (auto intro: settings.equality)
  next
    case (Cons m ms)
    obtain k j where m: "m = (k, j)" by (cases m)
    show ?case unfolding m decode_raw_members_Cons by (auto simp: settings_field_def tag_simps value_iffs Cons.IH)
  qed
qed

section \<open>The decoder of the API\<close>

text \<open>
  C22: The handler reads a settings document exactly as its tags say, for every body: it accepts the body if and only
  if it is one JSON value that stands in the relation \<open>settings_text\<close> to some settings, and then returns these. So each
  field comes from the members with its own tag, in any case, the last of several counting, and of the type of the field:
  limits and counts are 64-bit integer literals, rates numbers, durations strings, \<open>null\<close> is no value, and the key set is the
  text of its member; a member no tag is given for is refused, except inside the instance.
\<close>

theorem settings_read_by_tag:
  "decodeSettings body = Inr s \<longleftrightarrow> settings_text body empty_settings s"
  by (simp add: decodeSettings_def flip: settings_text_iff split: option.split)

end
