(* ===== verification/Spec2Isabelle.thy ===== *)
theory Spec2Isabelle
  imports ServerRun Buffers SettingsJson
begin

text \<open>
  A model of the Wintergate API gateway (the Go packages under \<open>src/internal\<close>, \<open>src/api\<close> and \<open>src/cmd\<close>).

  \<^bold>\<open>The program.\<close> Services register over HTTP with their settings: the address of an instance, its endpoints with
  the roles they ask for, token settings, health check settings and traffic thresholds. The configuration manager
  turns every registration into a candidate snapshot, asks three validators, publishes the candidate and tells
  the health manager, which starts and stops check loops. Every other request passes the tasks of the gateway:
  the router picks an endpoint of the active snapshot, the load balancer an instance that is not known to be
  unhealthy, a request id is fixed, the bearer token is decoded and its roles are compared, and the transfer
  task sends the request over an HTTP client that the pool coordinator leases, shared or dedicated to the service,
  as the pool policy decides from the traffic counters. Metrics are recorded on the way.

  \<^bold>\<open>Theories and sources.\<close> In the order of their imports:

    \<^item> \<open>GoPrelude\<close>, \<open>GoStrings\<close>, \<open>GoTime\<close>, \<open>GoPath\<close>, \<open>GoJson\<close>, \<open>JsonText\<close>: what the program uses of Go's standard
      library. Strings are byte strings, errors carry the sentinels they wrap, maps are association lists
      in iteration order (\<open>gomap\<close>), durations are 64-bit counts of nanoseconds, floating-point numbers are the rationals
      binary64 holds, JSON is parsed from text.
    \<^item> \<open>Utils\<close>: \<open>internal/utils\<close>, the normal forms of names, methods, paths, roles and addresses.
    \<^item> \<open>Config\<close>, \<open>Snapshot\<close>, \<open>Manager\<close>: \<open>internal/config\<close>. Settings and snapshots are records with the fields of the
      Go structs; \<open>snapshot_ok\<close> is the invariant of a snapshot (services normalised, the route index
      generated by their endpoints, no address twice); \<open>Register\<close> and \<open>DeregisterInstance\<close> return the error,
      the new manager and the calls of the listeners.
    \<^item> \<open>ConfigJson\<close>: the decoding of settings by the tags of the structs and \<open>InstanceSettings.UnmarshalJSON\<close>;
      \<open>SettingsJson\<close> states what a settings document means as a relation, and proves that the decoder computes it.
    \<^item> \<open>Route\<close>: \<open>internal/route/config\<close>, the router, its validator and the round-robin load balancer.
    \<^item> \<open>Health\<close>: \<open>internal/health\<close>, the status store, the reconciliation of targets and the check loops, and \<open>health_run\<close>,
      in which commits, notifications and checks of all loops interleave.
    \<^item> \<open>Traffic\<close>, \<open>PoolConfig\<close>, \<open>Policy\<close>, \<open>Coordinator\<close>: \<open>internal/pool\<close> without the forwarder. \<open>Coordinator\<close> cuts the
      operations at the lock and at the wait group, and \<open>pool_system\<close> interleaves them.
    \<^item> \<open>AuthStore\<close>, \<open>Decoder\<close>: \<open>internal/auth\<close>, key sets, token settings and the decoding of bearer tokens.
    \<^item> \<open>Metrics\<close>, \<open>Forward\<close>: \<open>internal/metric\<close> and \<open>transfer.go\<close>, \<open>proxy.go\<close> of \<open>internal/pool\<close>.
    \<^item> \<open>Gateway\<close>: \<open>internal/gateway\<close> and \<open>internal/trace\<close>, the tasks and the orchestrator.
    \<^item> \<open>GatewayApi\<close>, \<open>ConfigApi\<close>: \<open>api/gateway\<close>, \<open>api/response\<close> and \<open>api/config\<close>, the HTTP handlers.
    \<^item> \<open>Probe\<close>: \<open>healthURL\<close> of \<open>internal/health\<close>, the URL of a health check with the escaping of \<open>net/url\<close>, compared
      with the address the gateway forwards to.
    \<^item> \<open>Buffers\<close>: \<open>pool/buffer.go\<close>, the byte buffers of the reverse proxy, and who holds them.
    \<^item> \<open>Wiring\<close>: \<open>cmd/main.go\<close>, the manager and the tasks put together, with \<open>server_reachable\<close>, the states the
      configuration can be brought to by requests to the configuration API.
    \<^item> \<open>Server\<close>: a request from the first middleware (\<open>metric/observer.go\<close>, the recovery of panics) to the gateway, the
      configuration API or the metrics endpoint, on one record with the state of every component.
    \<^item> \<open>ServerRun\<close>: \<open>newRouter\<close> and \<open>run\<close> of \<open>cmd/main.go\<close>, and \<open>server_run\<close>, the states of the server between two requests.

  \<^bold>\<open>How components meet.\<close> A locale states what a component promises to another, and is interpreted on the model of
  the code in the theory of the provider:

    \<^item> \<open>snapshot_validator\<close> (\<open>Manager\<close>): a validator that accepts a candidate guarantees what its component needs
      at run time; the manager keeps that for every snapshot it publishes. Interpreted by the route validator, the
      authentication store and the policy store; \<open>Wiring\<close> combines the three.
    \<^item> \<open>health_status\<close> (\<open>Route\<close>): what the load balancer needs of a health provider; interpreted by the status store.
    \<^item> \<open>config_provider\<close> (\<open>Decoder\<close>): what the decoder needs of the token settings and keys it is given; interpreted by
      the authentication store.
    \<^item> \<open>gateway_routing\<close> (\<open>Gateway\<close>): what the route task needs of the router and the instance selector; interpreted
      by the router with the load balancer in \<open>Wiring\<close>.
    \<^item> \<open>client_provider\<close> (\<open>Coordinator\<close>): what the holder of a lease needs; interpreted by the coordinator.

  \<^bold>\<open>What the lemmas show.\<close> For the configuration: reachable managers are consistent; the exact conditions
  under which the server, its validators included, accepts a registration or a removal, in the terms of the
  request, and its exact effect; removal undoes registration; a lookup returns everything that was registered; the
  answers of the API for every request body; settings are read as their tags say, and reading an instance
  from raw texts agrees with reading it from the JSON value. For routing: the router refines the relation
  \<open>serves\<close> on registered endpoints, the load balancer is fair and refuses only what is unhealthy, also when
  checks, commits and late results interleave. For authentication: an accepted token is signed for the
  service by a configured key, its claims lie in the time window, and its payload is what was signed; a request
  without a token gets 401 (503 when its service has no instance to go to). For the pools: counters, windows and metrics are
  what the sequence of events says, the tier is the highest whose thresholds are reached, a lease matches its
  assignment and the transport of its client the settings of the tier, wait groups count leases, no client leaks, a dedicated tier
  is kept for 30 seconds. For the
  gateway as a whole: nothing is transferred that is not routed and authorised, health checks probe the address
  that is forwarded to, and buffers are never shared. For the server: every request is counted once, leaves no lease, no
  request in flight and no open gauge behind, also when a handler panics, so a server at rest has none.

  \<^bold>\<open>Bounds.\<close> Machine integers that may wrap are words or wrap explicitly: load balancer cursors and revisions are
  \<open>64 word\<close>, durations wrap at 64 bits, times saturate. Properties about cursors assume that fewer than
  \<open>2 ^ 64\<close> steps are taken from the current value; \<open>cursor_wrap_misses_instance\<close> shows what happens otherwise.
  The JSON reader takes fuel; \<open>2 * length s + 1\<close> is enough for a text \<open>s\<close>, since any larger fuel reads the same
  value (\<open>json_fuel\<close>). The loop that looks for the settings file ends because the parent directory gets shorter; all other loops run over lists.

  \<^bold>\<open>Arguments of the model.\<close> Code outside the repository is an argument of the definitions that use it: HMAC-SHA256
  and RSA verification, \<open>url.Parse\<close>, \<open>http.Client\<close> and \<open>httputil.ReverseProxy\<close>, the response writer, the web framework, random
  ids, the YAML reader and the file system, the clock. Prometheus is the log of the calls it gets. In \<open>Server\<close> these arguments
  are the fields of \<open>server_env\<close>, which may differ from one request to the next.

  \<^bold>\<open>Not modelled.\<close> Log lines; the registry (\<open>metric/registry.go\<close>) and the writing of the metrics, which only call Prometheus;
  the exit code of \<open>main\<close>; the test harness. The routing of the framework is an argument of \<open>Server\<close>, given the
  method and the path; \<open>RegisterRoutes\<close> is the table of the routes that handlers ask for. \<open>Server\<close> serves requests one
  at a time. Atomic operations of one variable are single steps; goroutines interleave between them where a property
  depends on it (\<open>Health\<close>, \<open>Coordinator\<close>, the buckets of \<open>Traffic\<close>). The nesting limit of Go's JSON decoder (10000) is not
  enforced. Panics of \<open>http.Client\<close> and of the response writer while a request is forwarded are left out, and so is one of
  \<open>ReverseProxy\<close> before either of its hooks ran, which the hypotheses \<open>reporting\<close> and \<open>proxy_reports\<close> exclude; panics
  of handlers are modelled. Letter case is that of ASCII.
\<close>

end
